(* ===== verification/Js_Prelude.thy ===== *)
theory Js_Prelude
  imports Main "HOL-Library.Sublist"
begin

text \<open>
  The part of the JavaScript language and of its standard library that the modelled sources use:
  primitive values with their truthiness and string conversion, strings with \<open>split\<close>, \<open>join\<close>,
  \<open>indexOf\<close> and single-character \<open>replace\<close>, ordinary objects used as dictionaries (with the
  enumeration order of \<open>Object.keys\<close>), and thrown errors as the left summand of a sum.

  Conventions of the whole development:
  \<^item> a JavaScript string is a \<^typ>\<open>string\<close>; one \<^typ>\<open>char\<close> stands for one UTF-16 code unit below 256;
  \<^item> numbers are integers of magnitude below \<open>10 ^ 21\<close> (the sources modelled only count and compare),
    so \<open>toString\<close> prints plain decimals;
  \<^item> an object is the list of its own enumerable properties in enumeration order; the property
    \<open>__proto__\<close>, whose assignment changes the prototype, is outside the model;
  \<^item> \<open>===\<close> on values is HOL equality (there is no \<open>NaN\<close> among the integers).
\<close>

named_theorems js_defs \<open>definitions a component proof unfolds\<close>
named_theorems js_intros \<open>preservation facts of the object operations\<close>

lemma find_Some_member: "find P xs = Some x \<Longrightarrow> x \<in> set xs \<and> P x"
  by (induction xs) (auto split: if_splits)

section \<open>Errors and values\<close>

datatype js_error = TypeError | RangeError | SyntaxError | Thrown string

type_synonym 'a js = "js_error + 'a"

datatype jsval = VUndef | VNull | VBool bool | VNum int | VStr string

fun truthy :: "jsval \<Rightarrow> bool" where
  "truthy VUndef = False"
| "truthy VNull = False"
| "truthy (VBool b) = b"
| "truthy (VNum n) = (n \<noteq> 0)"
| "truthy (VStr s) = (s \<noteq> [])"

definition js_or :: "jsval \<Rightarrow> jsval \<Rightarrow> jsval" where
  "js_or a b = (if truthy a then a else b)"

definition js_and :: "jsval \<Rightarrow> jsval \<Rightarrow> jsval" where
  "js_and a b = (if truthy a then b else a)"

lemma truthy_js_or [simp]: "truthy (js_or a b) = (truthy a \<or> truthy b)"
  by (simp add: js_or_def)

lemma truthy_js_and [simp]: "truthy (js_and a b) = (truthy a \<and> truthy b)"
  by (simp add: js_and_def)

section \<open>Decimal numerals\<close>

definition digit_char :: "nat \<Rightarrow> char" where
  "digit_char d = char_of (48 + d)"

definition digit_val :: "char \<Rightarrow> nat" where
  "digit_val c = of_char c - 48"

definition is_digit :: "char \<Rightarrow> bool" where
  "is_digit c \<longleftrightarrow> 48 \<le> (of_char c :: nat) \<and> (of_char c :: nat) \<le> 57"

fun nat_str :: "nat \<Rightarrow> string" where
  "nat_str n = (if n < 10 then [digit_char n] else nat_str (n div 10) @ [digit_char (n mod 10)])"

declare nat_str.simps [simp del]

definition str_nat :: "string \<Rightarrow> nat" where
  "str_nat s = foldl (\<lambda>n c. 10 * n + digit_val c) 0 s"

definition int_str :: "int \<Rightarrow> string" where
  "int_str n = (if n < 0 then ''-'' @ nat_str (nat (- n)) else nat_str (nat n))"

lemma digit_val_char [simp]: "d < 10 \<Longrightarrow> digit_val (digit_char d) = d"
  by (simp add: digit_val_def digit_char_def)

lemma is_digit_char [simp]: "d < 10 \<Longrightarrow> is_digit (digit_char d)"
  by (simp add: is_digit_def digit_char_def)

lemma nat_str_not_Nil [simp]: "nat_str n \<noteq> []"
  by (subst nat_str.simps) simp

lemma str_nat_snoc [simp]: "str_nat (s @ [c]) = 10 * str_nat s + digit_val c"
  by (simp add: str_nat_def)

lemma str_nat_nat_str [simp]: "str_nat (nat_str n) = n"
proof (induction n rule: nat_str.induct)
  case (1 n)
  show ?case
  proof (cases "n < 10")
    case True
    then show ?thesis by (subst nat_str.simps) (simp add: str_nat_def)
  next
    case False
    then have "str_nat (nat_str (n div 10)) = n div 10" using "1.IH" by simp
    with False show ?thesis by (subst nat_str.simps) simp
  qed
qed

lemma nat_str_inject [simp]: "nat_str m = nat_str n \<longleftrightarrow> m = n"
  by (metis str_nat_nat_str)

lemma nat_str_digits: "c \<in> set (nat_str n) \<Longrightarrow> is_digit c"
proof (induction n rule: nat_str.induct)
  case (1 n)
  show ?case
  proof (cases "n < 10")
    case True
    with "1.prems" show ?thesis by (subst (asm) nat_str.simps) simp
  next
    case False
    with "1.prems" have "c \<in> set (nat_str (n div 10)) \<or> c = digit_char (n mod 10)"
      by (subst (asm) nat_str.simps) auto
    with "1.IH" False show ?thesis by auto
  qed
qed

text \<open>\<open>ToString\<close> (template literals, \<open>join\<close>) and the method call \<open>v.toString()\<close>.\<close>

fun to_str :: "jsval \<Rightarrow> string" where
  "to_str VUndef = ''undefined''"
| "to_str VNull = ''null''"
| "to_str (VBool b) = (if b then ''true'' else ''false'')"
| "to_str (VNum n) = int_str n"
| "to_str (VStr s) = s"

fun to_string_method :: "jsval \<Rightarrow> string js" where
  "to_string_method VUndef = Inl TypeError"
| "to_string_method VNull = Inl TypeError"
| "to_string_method v = Inr (to_str v)"

section \<open>Strings\<close>

text \<open>\<open>s.split(sep)\<close> for a string separator: leftmost, non-overlapping.\<close>

function split_on :: "string \<Rightarrow> string \<Rightarrow> string \<Rightarrow> string list" where
  "split_on sep cur [] = [rev cur]"
| "split_on sep cur (c # s) =
     (if sep \<noteq> [] \<and> prefix sep (c # s)
      then rev cur # split_on sep [] (drop (length sep) (c # s))
      else split_on sep (c # cur) s)"
  by pat_completeness auto
termination
  by (relation "measure (\<lambda>(sep, cur, s). length s)") (auto simp: neq_Nil_conv)

definition js_split :: "string \<Rightarrow> string \<Rightarrow> string list" where
  "js_split sep s = (if sep = [] then map (\<lambda>c. [c]) s else split_on sep [] s)"

fun js_join :: "string \<Rightarrow> string list \<Rightarrow> string" where
  "js_join sep [] = []"
| "js_join sep [x] = x"
| "js_join sep (x # y # xs) = x @ sep @ js_join sep (y # xs)"

text \<open>\<open>s.replace(/c/g, r)\<close> for a regular expression that is one literal character.\<close>

definition replace_char :: "char \<Rightarrow> string \<Rightarrow> string \<Rightarrow> string" where
  "replace_char c r s = concat (map (\<lambda>x. if x = c then r else [x]) s)"

text \<open>
  \<open>s.indexOf(t) === 0\<close> is \<^term>\<open>prefix t s\<close> and \<open>s.indexOf(t) !== -1\<close> is \<^term>\<open>sublist t s\<close>.
\<close>

lemma js_join_Cons: "xs \<noteq> [] \<Longrightarrow> js_join sep (x # xs) = x @ sep @ js_join sep xs"
  by (cases xs) simp_all

lemma split_on_not_Nil [simp]: "split_on sep cur s \<noteq> []"
  by (induction sep cur s rule: split_on.induct) auto

lemma js_join_split_on: "js_join sep (split_on sep cur s) = rev cur @ s"
proof (induction sep cur s rule: split_on.induct)
  case (2 sep cur c s)
  then show ?case by (auto simp: js_join_Cons prefix_def)
qed simp

lemma js_join_split: "sep \<noteq> [] \<Longrightarrow> js_join sep (js_split sep s) = s"
  by (simp add: js_split_def js_join_split_on)

lemma sublist_drop_conv: "sublist t s \<longleftrightarrow> (\<exists>i\<le>length s. prefix t (drop i s))"
proof
  assume "sublist t s"
  then obtain us vs where "s = us @ t @ vs" by (auto simp: sublist_def)
  then show "\<exists>i\<le>length s. prefix t (drop i s)"
    by (intro exI [of _ "length us"]) auto
next
  assume "\<exists>i\<le>length s. prefix t (drop i s)"
  then obtain i vs where "drop i s = t @ vs" by (auto simp: prefix_def)
  then have "s = take i s @ t @ vs" by (metis append_take_drop_id)
  then show "sublist t s" by (metis sublist_appendI)
qed

lemma split_on_no_sep:
  assumes "sep \<noteq> []" and "\<forall>i<length cur. \<not> prefix sep (drop i (rev cur @ s))"
    and "f \<in> set (split_on sep cur s)"
  shows "\<not> sublist sep f"
  using assms
proof (induction sep cur s rule: split_on.induct)
  case (1 sep cur)
  then have "\<not> prefix sep (drop i (rev cur))" if "i \<le> length cur" for i
    using that by (cases "i = length cur") auto
  with 1 show ?case by (auto simp: sublist_drop_conv)
next
  case (2 sep cur c s)
  show ?case
  proof (cases "prefix sep (c # s)")
    case True
    have no: "\<not> sublist sep (rev cur)"
    proof
      assume "sublist sep (rev cur)"
      then obtain i where i: "i \<le> length cur" "prefix sep (drop i (rev cur))"
        by (auto simp: sublist_drop_conv)
      with "2.prems"(1) have "i < length cur" by (cases "i = length cur") auto
      moreover from i have "prefix sep (drop i (rev cur @ c # s))"
        by (simp add: prefix_prefix)
      ultimately show False using "2.prems"(2) by blast
    qed
    from True "2.prems" have "f = rev cur \<or> f \<in> set (split_on sep [] (drop (length sep) (c # s)))"
      by auto
    with no "2.IH"(1) True "2.prems"(1) show ?thesis by auto
  next
    case False
    have "\<forall>i<length (c # cur). \<not> prefix sep (drop i (rev (c # cur) @ s))"
    proof (intro allI impI)
      fix i assume "i < length (c # cur)"
      then consider "i < length cur" | "i = length cur" by fastforce
      then show "\<not> prefix sep (drop i (rev (c # cur) @ s))"
        using "2.prems"(2) False by cases auto
    qed
    with False "2.IH"(2) "2.prems" show ?thesis by auto
  qed
qed

lemma js_split_no_sep: "sep \<noteq> [] \<Longrightarrow> f \<in> set (js_split sep s) \<Longrightarrow> \<not> sublist sep f"
  using split_on_no_sep [of sep "[]" s f] by (simp add: js_split_def)

lemma split_on_absent:
  "\<not> sublist sep s \<Longrightarrow> split_on sep cur s = [rev cur @ s]"
proof (induction sep cur s rule: split_on.induct)
  case (2 sep cur c s)
  then have "\<not> prefix sep (c # s)" "\<not> sublist sep s"
    by (auto simp: sublist_Cons_right)
  with 2 show ?case by auto
qed simp

lemma js_split_absent: "sep \<noteq> [] \<Longrightarrow> \<not> sublist sep s \<Longrightarrow> js_split sep s = [s]"
  by (simp add: js_split_def split_on_absent)

lemma replace_char_Nil [simp]: "replace_char c r [] = []"
  by (simp add: replace_char_def)

lemma replace_char_Cons [simp]:
  "replace_char c r (x # s) = (if x = c then r else [x]) @ replace_char c r s"
  by (simp add: replace_char_def)

lemma replace_char_append [simp]:
  "replace_char c r (s @ t) = replace_char c r s @ replace_char c r t"
  by (simp add: replace_char_def)

lemma replace_char_absent: "c \<notin> set s \<Longrightarrow> replace_char c r s = s"
  by (induction s) auto

lemma set_replace_char:
  "set (replace_char c r s) = (set s - {c}) \<union> (if c \<in> set s then set r else {})"
  by (induction s) auto

text \<open>A character that is not in the separator is never part of a match: splitting goes around it.\<close>

lemma split_on_cur: "split_on sep cur s = (rev cur @ hd (split_on sep [] s)) # tl (split_on sep [] s)"
proof (induction s arbitrary: cur)
  case (Cons c s)
  show ?case
  proof (cases "sep \<noteq> [] \<and> prefix sep (c # s)")
    case False
    then have "split_on sep cur' (c # s) = split_on sep (c # cur') s" for cur' by auto
    then show ?thesis using Cons [of "c # cur"] Cons [of "[c]"] by simp
  qed simp
qed simp

lemma prefix_around: "d \<notin> set sep \<Longrightarrow> prefix sep (a @ d # b) \<longleftrightarrow> prefix sep a"
proof
  assume d: "d \<notin> set sep" and p: "prefix sep (a @ d # b)"
  then consider "prefix sep a" | ys where "sep = a @ ys" "prefix ys (d # b)" "ys \<noteq> []"
    by (metis append_Nil2 prefix_append prefix_order.refl)
  then show "prefix sep a"
  proof cases
    case 2
    then have "hd ys = d" by (cases ys) auto
    with 2 d show ?thesis by (metis Un_iff list.set_sel(1) set_append)
  qed
qed (simp add: prefix_prefix)

lemma split_on_around:
  assumes "d \<notin> set sep"
  shows "split_on sep cur (a @ d # b) =
     butlast (split_on sep cur a) @
     (last (split_on sep cur a) @ d # hd (split_on sep [] b)) # tl (split_on sep [] b)"
  using assms
proof (induction sep cur a rule: split_on.induct)
  case (1 sep cur)
  have "\<not> (sep \<noteq> [] \<and> prefix sep (d # b))"
    using 1 by (cases sep) auto
  then have "split_on sep cur (d # b) = split_on sep (d # cur) b" by auto
  then show ?case using split_on_cur [of sep "d # cur" b] by simp
next
  case (2 sep cur c a)
  have eq: "prefix sep ((c # a) @ d # b) \<longleftrightarrow> prefix sep (c # a)"
    using 2 by (intro prefix_around)
  show ?case
  proof (cases "sep \<noteq> [] \<and> prefix sep (c # a)")
    case True
    then have "length sep \<le> length (c # a)" by (auto dest: prefix_length_le)
    then have "drop (length sep) (c # a @ d # b) = drop (length sep) (c # a) @ d # b"
      by (metis append_Cons drop_append diff_is_0_eq drop0)
    with True eq "2.IH"(1) "2.prems" show ?thesis by simp
  next
    case False
    with eq "2.IH"(2) "2.prems" show ?thesis by auto
  qed
qed

lemma js_join_append:
  "xs \<noteq> [] \<Longrightarrow> ys \<noteq> [] \<Longrightarrow> js_join sep (xs @ ys) = js_join sep xs @ sep @ js_join sep ys"
proof (induction xs)
  case (Cons x xs)
  then show ?case by (cases xs) (simp_all add: js_join_Cons)
qed simp

lemma js_join_glue:
  assumes "xs \<noteq> []" and "ys \<noteq> []"
  shows "js_join sep (butlast xs @ (last xs @ g @ hd ys) # tl ys) = js_join sep xs @ g @ js_join sep ys"
proof -
  have left: "js_join sep (butlast xs @ z # zs) =
      (if butlast xs = [] then [] else js_join sep (butlast xs) @ sep) @ js_join sep (z # zs)" for z zs
    by (simp add: js_join_append)
  have right: "js_join sep ((u @ v) # zs) = u @ js_join sep (v # zs)" for u v zs
    by (cases zs) simp_all
  have "js_join sep xs = (if butlast xs = [] then [] else js_join sep (butlast xs) @ sep) @ last xs"
    using left [of "last xs" "[]"] assms(1) by simp
  then show ?thesis
    using left [of "last xs @ g @ hd ys" "tl ys"] right [of "last xs @ g" "hd ys" "tl ys"] assms(2)
    by simp
qed

lemma set_js_join: "set (js_join sep xs) \<subseteq> set sep \<union> \<Union> (set ` set xs)"
  by (induction sep xs rule: js_join.induct) auto

lemma js_split_single:
  assumes "d \<notin> set a" and "d \<notin> set b"
  shows "js_split [d] (a @ d # b) = [a, b]"
proof -
  have step: "d \<notin> set u \<Longrightarrow> split_on [d] cur (u @ v) = split_on [d] (rev u @ cur) v" for cur u v
    by (induction u arbitrary: cur) auto
  show ?thesis using assms step [of a "[]" "d # b"] step [of b "[]" "[]"]
    by (simp add: js_split_def)
qed

lemma js_split_join:
  assumes "\<forall>c \<in> set cs. d \<notin> set c" and "cs \<noteq> []"
  shows "js_split [d] (js_join [d] cs) = cs"
proof -
  have step: "d \<notin> set u \<Longrightarrow> split_on [d] cur (u @ v) = split_on [d] (rev u @ cur) v" for cur u v
    by (induction u arbitrary: cur) auto
  have "split_on [d] [] (js_join [d] cs) = cs"
    using assms
  proof (induction cs)
    case (Cons c cs)
    show ?case
    proof (cases "cs = []")
      case True
      with Cons.prems step [of c "[]" "[]"] show ?thesis by simp
    next
      case False
      with Cons step [of c "[]" "d # js_join [d] cs"] show ?thesis by (simp add: js_join_Cons)
    qed
  qed simp
  then show ?thesis by (simp add: js_split_def)
qed

end
