(* ===== verification/Js_Object.thy ===== *)
theory Js_Object
  imports Js_Prelude
begin

text \<open>
  Ordinary objects used as dictionaries. An object is the list of its own properties in the order in
  which \<open>Object.keys\<close> and \<open>for ... in\<close> enumerate them: the array-index keys first, ascending, then
  the other keys in the order of their creation. The locale \<open>js_dict\<close> is the contract the components
  use; \<open>jsobj\<close> interprets it on the list representation.
\<close>

type_synonym 'v jsobj = "(string \<times> 'v) list"

abbreviation js_keys :: "'v jsobj \<Rightarrow> string list" where
  "js_keys ob \<equiv> map fst ob"

definition is_array_index :: "string \<Rightarrow> bool" where
  "is_array_index k \<longleftrightarrow> k = nat_str (str_nat k) \<and> str_nat k < 4294967295"

definition key_before :: "string \<Rightarrow> string \<Rightarrow> bool" where
  "key_before k l \<longleftrightarrow>
     is_array_index k \<and> (is_array_index l \<longrightarrow> str_nat k < str_nat l)"

definition js_get :: "'v jsobj \<Rightarrow> string \<Rightarrow> 'v option" where
  "js_get ob k = map_of ob k"

definition js_has :: "'v jsobj \<Rightarrow> string \<Rightarrow> bool" where
  "js_has ob k \<longleftrightarrow> k \<in> set (js_keys ob)"

fun js_insert :: "string \<Rightarrow> 'v \<Rightarrow> 'v jsobj \<Rightarrow> 'v jsobj" where
  "js_insert k v [] = [(k, v)]"
| "js_insert k v ((l, w) # ob) =
     (if key_before k l then (k, v) # (l, w) # ob else (l, w) # js_insert k v ob)"

fun js_replace :: "string \<Rightarrow> 'v \<Rightarrow> 'v jsobj \<Rightarrow> 'v jsobj" where
  "js_replace k v [] = []"
| "js_replace k v ((l, w) # ob) = (if l = k then (k, v) # ob else (l, w) # js_replace k v ob)"

definition js_put :: "string \<Rightarrow> 'v \<Rightarrow> 'v jsobj \<Rightarrow> 'v jsobj" where
  "js_put k v ob =
     (if js_has ob k then js_replace k v ob else js_insert k v ob)"

definition js_del :: "string \<Rightarrow> 'v jsobj \<Rightarrow> 'v jsobj" where
  "js_del k ob = filter (\<lambda>(l, w). l \<noteq> k) ob"

definition js_wf :: "'v jsobj \<Rightarrow> bool" where
  "js_wf ob \<longleftrightarrow> distinct (js_keys ob) \<and> sorted_wrt (\<lambda>k l. \<not> key_before l k) (js_keys ob)"

section \<open>The contract\<close>

locale js_dict =
  fixes get :: "'o \<Rightarrow> string \<Rightarrow> 'v option"
    and put :: "string \<Rightarrow> 'v \<Rightarrow> 'o \<Rightarrow> 'o"
    and del :: "string \<Rightarrow> 'o \<Rightarrow> 'o"
    and keys :: "'o \<Rightarrow> string list"
    and wf :: "'o \<Rightarrow> bool"
  assumes get_put: "get (put k v ob) l = (if l = k then Some v else get ob l)"
    and get_del: "get (del k ob) l = (if l = k then None else get ob l)"
    and keys_get: "k \<in> set (keys ob) \<longleftrightarrow> get ob k \<noteq> None"
    and wf_distinct: "wf ob \<Longrightarrow> distinct (keys ob)"
    and wf_put: "wf ob \<Longrightarrow> wf (put k v ob)"
    and wf_del: "wf ob \<Longrightarrow> wf (del k ob)"
begin

lemma keys_put: "set (keys (put k v ob)) = insert k (set (keys ob))"
proof (rule set_eqI)
  fix l show "l \<in> set (keys (put k v ob)) \<longleftrightarrow> l \<in> insert k (set (keys ob))"
    by (simp add: keys_get get_put)
qed

lemma keys_del: "set (keys (del k ob)) = set (keys ob) - {k}"
proof (rule set_eqI)
  fix l show "l \<in> set (keys (del k ob)) \<longleftrightarrow> l \<in> set (keys ob) - {k}"
    by (simp add: keys_get get_del)
qed

lemma get_fold_put:
  "get (fold (\<lambda>k. put k (f k)) ks ob) l = (if l \<in> set ks then Some (f l) else get ob l)"
  by (induction ks arbitrary: ob) (auto simp: get_put)

lemma wf_fold_put: "wf ob \<Longrightarrow> wf (fold (\<lambda>k. put k (f k)) ks ob)"
  by (induction ks arbitrary: ob) (auto simp: wf_put)

lemma length_keys_put:
  "wf ob \<Longrightarrow> length (keys (put k v ob)) = (if get ob k = None then Suc (length (keys ob)) else length (keys ob))"
proof -
  assume wf: "wf ob"
  have "length (keys (put k v ob)) = card (insert k (set (keys ob)))"
    using wf_distinct [OF wf_put [OF wf]] by (metis distinct_card keys_put)
  also have "\<dots> = (if k \<in> set (keys ob) then length (keys ob) else Suc (length (keys ob)))"
    using wf_distinct [OF wf] by (simp add: card_insert_if distinct_card)
  finally show ?thesis by (simp add: keys_get)
qed

end

section \<open>The list representation satisfies it\<close>

lemma key_before_asym: "key_before k l \<Longrightarrow> \<not> key_before l k"
  by (auto simp: key_before_def)

lemma key_before_trans: "key_before k l \<Longrightarrow> key_before l m \<Longrightarrow> key_before k m"
  by (auto simp: key_before_def)

lemma js_has_get: "js_has ob k \<longleftrightarrow> js_get ob k \<noteq> None"
  by (auto simp: js_has_def js_get_def map_of_eq_None_iff)

lemma set_js_insert [simp]: "set (js_insert k v ob) = insert (k, v) (set ob)"
  by (induction k v ob rule: js_insert.induct) auto

lemma map_of_js_insert: "k \<notin> fst ` set ob \<Longrightarrow> map_of (js_insert k v ob) = (map_of ob)(k \<mapsto> v)"
  by (induction k v ob rule: js_insert.induct) (auto simp: fun_upd_twist)

lemma distinct_js_insert:
  "k \<notin> fst ` set ob \<Longrightarrow> distinct (js_keys ob) \<Longrightarrow> distinct (js_keys (js_insert k v ob))"
  by (induction k v ob rule: js_insert.induct) auto

lemma sorted_js_insert:
  "sorted_wrt (\<lambda>k l. \<not> key_before l k) (js_keys ob) \<Longrightarrow>
   sorted_wrt (\<lambda>k l. \<not> key_before l k) (js_keys (js_insert k v ob))"
proof (induction k v ob rule: js_insert.induct)
  case (2 k v l w ob)
  show ?case
  proof (cases "key_before k l")
    case True
    then have "\<not> key_before m k" if "m \<in> set (l # js_keys ob)" for m
      using that "2.prems" by (auto dest: key_before_asym key_before_trans)
    with True "2.prems" show ?thesis by simp
  next
    case False
    with 2 show ?thesis by simp
  qed
qed simp

lemma map_of_replace:
  "map_of (js_replace k v ob) l = (if l = k \<and> k \<in> fst ` set ob then Some v else map_of ob l)"
  by (induction k v ob rule: js_replace.induct) (auto simp: image_iff, force)

lemma keys_replace: "js_keys (js_replace k v ob) = js_keys ob"
  by (induction k v ob rule: js_replace.induct) auto

lemma map_of_filter_key: "map_of (filter (\<lambda>(l, w). l \<noteq> k) ob) l = (if l = k then None else map_of ob l)"
  by (induction ob) auto

lemma keys_filter_key: "js_keys (filter (\<lambda>(l, w). l \<noteq> k) ob) = filter (\<lambda>l. l \<noteq> k) (js_keys ob)"
  by (induction ob) auto

interpretation jsobj: js_dict js_get js_put js_del js_keys js_wf
proof
  fix k l :: string and v :: 'a and ob :: "'a jsobj"
  show "js_get (js_put k v ob) l = (if l = k then Some v else js_get ob l)"
    by (auto simp: js_get_def js_put_def js_has_def map_of_replace map_of_js_insert)
  show "js_get (js_del k ob) l = (if l = k then None else js_get ob l)"
    by (simp add: js_get_def js_del_def map_of_filter_key)
  show "k \<in> set (js_keys ob) \<longleftrightarrow> js_get ob k \<noteq> None"
    by (auto simp: js_get_def map_of_eq_None_iff)
  show "js_wf ob \<Longrightarrow> distinct (js_keys ob)"
    by (simp add: js_wf_def)
  show "js_wf ob \<Longrightarrow> js_wf (js_put k v ob)"
    by (auto simp: js_wf_def js_put_def js_has_def keys_replace distinct_js_insert sorted_js_insert)
  show "js_wf ob \<Longrightarrow> js_wf (js_del k ob)"
    by (auto simp: js_wf_def js_del_def keys_filter_key intro: sorted_wrt_filter)
qed

lemmas js_get_put [simp] = jsobj.get_put
  and js_get_del [simp] = jsobj.get_del
  and js_wf_put [simp, intro, js_intros] = jsobj.wf_put
  and js_wf_del [simp, intro, js_intros] = jsobj.wf_del

lemma js_wf_Nil [simp, intro]: "js_wf []"
  by (simp add: js_wf_def)

lemma js_get_Nil [simp]: "js_get [] k = None"
  by (simp add: js_get_def)

lemma js_get_Cons [simp]: "js_get ((k, v) # ob) l = (if l = k then Some v else js_get ob l)"
  by (simp add: js_get_def)

lemma fst_set_js_put [simp]: "fst ` set (js_put k v ob) = insert k (fst ` set ob)"
  using jsobj.keys_put [of k v ob] by simp

lemma fst_set_js_del [simp]: "fst ` set (js_del k ob) = fst ` set ob - {k}"
  using jsobj.keys_del [of k ob] by simp

lemma js_has_Nil [simp]: "\<not> js_has [] k"
  by (simp add: js_has_def)

lemma js_has_put [simp]: "js_has (js_put k v ob) l \<longleftrightarrow> l = k \<or> js_has ob l"
  by (auto simp: js_has_get)

lemma js_has_del [simp]: "js_has (js_del k ob) l \<longleftrightarrow> l \<noteq> k \<and> js_has ob l"
  by (auto simp: js_has_get)

lemma js_get_in: "js_wf ob \<Longrightarrow> (k, v) \<in> set ob \<longleftrightarrow> js_get ob k = Some v"
  by (simp add: js_wf_def js_get_def)

lemma js_keys_in: "k \<in> set (js_keys ob) \<longleftrightarrow> js_has ob k"
  by (simp add: js_has_def)

lemma js_keys_pair: "k \<in> set (js_keys ob) \<Longrightarrow> \<exists>v. (k, v) \<in> set ob"
  by auto

lemma js_empty_iff: "ob = [] \<longleftrightarrow> (\<forall>k. \<not> js_has ob k)"
  by (cases ob) (auto simp: js_has_def)

lemma array_index_digits: "is_array_index k \<Longrightarrow> c \<in> set k \<Longrightarrow> is_digit c"
  unfolding is_array_index_def using nat_str_digits by metis

lemma js_put_same: "js_get ob k = Some v \<Longrightarrow> js_put k v ob = ob"
proof -
  assume g: "js_get ob k = Some v"
  then have "js_replace k v ob = ob" by (induction k v ob rule: js_replace.induct) (auto split: if_splits)
  with g show ?thesis by (simp add: js_put_def js_has_get)
qed

lemma js_put_idem [simp]: "js_put k v (js_put k v ob) = js_put k v ob"
  by (rule js_put_same) simp

lemma js_put_single [simp]: "js_put k v [(k, w)] = [(k, v)]"
  by (simp add: js_put_def js_has_def)

lemma js_put_Nil [simp]: "js_put k v [] = [(k, v)]"
  by (simp add: js_put_def)

lemma list_all_js: "js_wf ob \<Longrightarrow> list_all (\<lambda>(k, v). P k v) ob \<longleftrightarrow> (\<forall>k v. js_get ob k = Some v \<longrightarrow> P k v)"
  by (auto simp: list_all_iff js_get_in [symmetric])

text \<open>A key that is not an array index is appended when new: creation order.\<close>

lemma js_insert_append: "\<not> is_array_index k \<Longrightarrow> js_insert k v ob = ob @ [(k, v)]"
  by (induction ob) (auto simp: key_before_def)

lemma js_put_new: "\<not> is_array_index k \<Longrightarrow> \<not> js_has ob k \<Longrightarrow> js_put k v ob = ob @ [(k, v)]"
  by (simp add: js_put_def js_insert_append)

lemma js_keys_put_old: "js_has ob k \<Longrightarrow> js_keys (js_put k v ob) = js_keys ob"
  by (simp add: js_put_def keys_replace)

lemma set_js_replace: "set (js_replace k v ob) \<subseteq> insert (k, v) (set ob)"
  by (induction k v ob rule: js_replace.induct) auto

lemma set_js_put: "set (js_put k v ob) \<subseteq> insert (k, v) (set ob)"
  using set_js_replace [of k v ob] by (auto simp: js_put_def)

lemma list_all_js_put: "list_all P ob \<Longrightarrow> P (k, v) \<Longrightarrow> list_all P (js_put k v ob)"
  using set_js_put [of k v ob] by (auto simp: list_all_iff)

text \<open>Copying an object property by property gives the object back.\<close>

lemma js_insert_last: "\<forall>l \<in> set (js_keys ob). \<not> key_before k l \<Longrightarrow> js_insert k v ob = ob @ [(k, v)]"
  by (induction ob) auto

lemma js_wf_snoc:
  "js_wf (ob @ [(k, v)]) \<longleftrightarrow> js_wf ob \<and> \<not> js_has ob k \<and> (\<forall>l \<in> set (js_keys ob). \<not> key_before k l)"
  by (auto simp: js_wf_def js_has_def sorted_wrt_append)

lemma fold_js_put_copy: "js_wf ob \<Longrightarrow> fold (\<lambda>(k, v). js_put k v) ob [] = ob"
proof (induction ob rule: rev_induct)
  case (snoc kv ob)
  obtain k v where kv: "kv = (k, v)" by (cases kv)
  with snoc.prems have "js_wf ob" "\<not> js_has ob k" "\<forall>l \<in> set (js_keys ob). \<not> key_before k l"
    by (simp_all add: js_wf_snoc)
  with snoc.IH kv show ?case by (simp add: js_put_def js_insert_last)
qed simp

lemma js_wf_filter: "js_wf ob \<Longrightarrow> js_wf (filter P ob)"
  by (auto simp: js_wf_def distinct_map_filter sorted_wrt_map intro: sorted_wrt_filter)

lemma js_get_filter: "js_wf ob \<Longrightarrow> js_get (filter (\<lambda>(k, v). P k) ob) k = (if P k then js_get ob k else None)"
  by (induction ob) (auto simp: js_wf_def)

end
