(* ===== verification/Drupal_Api.thy ===== *)
theory Drupal_Api
  imports Js_Object
begin

text \<open>
  The global \<open>Drupal\<close> object of \<open>core/misc/drupal.es6.js\<close>: behaviors (attach and detach with errors
  deferred to a timer), text sanitising (\<open>checkPlain\<close>, \<open>theme.placeholder\<close>), placeholder substitution
  (\<open>formatString\<close>, \<open>stringReplace\<close>), translation (\<open>t\<close>, \<open>formatPlural\<close>), theming and URLs.

  A behavior hook is a function on an abstract page \<open>'w\<close> that returns the page it leaves and the error
  it throws, if any: what it did before throwing stays done. The registry \<open>Drupal.behaviors\<close> is not
  changed by the hooks that run from it.
\<close>

section \<open>Behaviors\<close>

type_synonym 'w hook_result = "'w \<times> js_error option"

record ('c, 's, 'w) behavior =
  attach :: "('c \<Rightarrow> 's \<Rightarrow> 'w \<Rightarrow> 'w hook_result) option"
  detach :: "('c \<Rightarrow> 's \<Rightarrow> string \<Rightarrow> 'w \<Rightarrow> 'w hook_result) option"

record 'w page =
  world :: 'w
  timers :: "js_error list"

definition throwError :: "js_error \<Rightarrow> 'w page \<Rightarrow> 'w page" where
  "throwError e p = p\<lparr>timers := timers p @ [e]\<rparr>"

text \<open>One turn of the \<open>forEach\<close>: call the hook if there is one, and catch what it throws.\<close>

definition call_hook :: "('w \<Rightarrow> 'w hook_result) option \<Rightarrow> 'w page \<Rightarrow> 'w page" where
  "call_hook h p =
     (case h of
        None \<Rightarrow> p
      | Some f \<Rightarrow>
          (case f (world p) of
             (w, None) \<Rightarrow> p\<lparr>world := w\<rparr>
           | (w, Some e) \<Rightarrow> throwError e (p\<lparr>world := w\<rparr>)))"

definition attachBehaviors ::
    "'c \<Rightarrow> 's \<Rightarrow> ('c, 's, 'w) behavior jsobj \<Rightarrow> 'c option \<Rightarrow> 's option \<Rightarrow> 'w page \<Rightarrow> 'w page" where
  "attachBehaviors document drupalSettings behaviors context settings p =
     (let c = (case context of None \<Rightarrow> document | Some x \<Rightarrow> x);
          s = (case settings of None \<Rightarrow> drupalSettings | Some x \<Rightarrow> x)
      in fold (\<lambda>(i, b). call_hook (map_option (\<lambda>f. f c s) (attach b))) behaviors p)"

definition detachBehaviors ::
    "'c \<Rightarrow> 's \<Rightarrow> ('c, 's, 'w) behavior jsobj \<Rightarrow> 'c option \<Rightarrow> 's option \<Rightarrow> string option \<Rightarrow>
     'w page \<Rightarrow> 'w page" where
  "detachBehaviors document drupalSettings behaviors context settings trigger p =
     (let c = (case context of None \<Rightarrow> document | Some x \<Rightarrow> x);
          s = (case settings of None \<Rightarrow> drupalSettings | Some x \<Rightarrow> x);
          t = (case trigger of None \<Rightarrow> ''unload'' | Some x \<Rightarrow> if x = [] then ''unload'' else x)
      in fold (\<lambda>(i, b). call_hook (map_option (\<lambda>f. f c s t) (detach b))) behaviors p)"

section \<open>Sanitising\<close>

definition check_plain_str :: "string \<Rightarrow> string" where
  "check_plain_str str =
     replace_char (CHR 0x27) ''&#39;''
      (replace_char (CHR 0x22) ''&quot;''
       (replace_char (CHR ''>'') ''&gt;''
        (replace_char (CHR ''<'') ''&lt;''
         (replace_char (CHR ''&'') ''&amp;'' str))))"

definition checkPlain :: "jsval \<Rightarrow> string js" where
  "checkPlain v = (case to_string_method v of Inl e \<Rightarrow> Inl e | Inr s \<Rightarrow> Inr (check_plain_str s))"

text \<open>
  \<open>Drupal.theme\<close> is a function object whose properties are the theme functions. The registry gives,
  for every name for which \<open>name in Drupal.theme\<close> holds, whether that property can be called.
\<close>

datatype theme_entry = ThemeFun "jsval list \<Rightarrow> jsval js" | NotCallable

type_synonym themes = "string \<Rightarrow> theme_entry option"

definition theme_call :: "themes \<Rightarrow> string \<Rightarrow> jsval list \<Rightarrow> jsval js" where
  "theme_call T func args =
     (case T func of
        None \<Rightarrow> Inr VUndef
      | Some (ThemeFun f) \<Rightarrow> f args
      | Some NotCallable \<Rightarrow> Inl TypeError)"

definition theme_placeholder :: "jsval list \<Rightarrow> jsval js" where
  "theme_placeholder args =
     (case checkPlain (case args of [] \<Rightarrow> VUndef | str # _ \<Rightarrow> str) of
        Inl e \<Rightarrow> Inl e
      | Inr s \<Rightarrow> Inr (VStr (''<em class='' @ [CHR 0x22] @ ''placeholder'' @ [CHR 0x22] @ ''>'' @ s @ ''</em>'')))"

section \<open>Placeholder substitution\<close>

definition process_arg :: "themes \<Rightarrow> string \<Rightarrow> jsval \<Rightarrow> jsval js" where
  "process_arg T key v =
     (case key of
        [] \<Rightarrow> theme_call T ''placeholder'' [v]
      | c # _ \<Rightarrow>
          if c = CHR ''@'' then (case checkPlain v of Inl e \<Rightarrow> Inl e | Inr s \<Rightarrow> Inr (VStr s))
          else if c = CHR ''!'' then Inr v
          else theme_call T ''placeholder'' [v])"

fun process_args :: "themes \<Rightarrow> jsval jsobj \<Rightarrow> jsval jsobj \<Rightarrow> jsval jsobj js" where
  "process_args T [] processedArgs = Inr processedArgs"
| "process_args T ((key, v) # args) processedArgs =
     (case process_arg T key v of
        Inl e \<Rightarrow> Inl e
      | Inr w \<Rightarrow> process_args T args (js_put key w processedArgs))"

text \<open>\<open>fragments.join(v)\<close>: an undefined separator stands for a comma.\<close>

definition join_text :: "jsval \<Rightarrow> string" where
  "join_text v = (if v = VUndef then '','' else to_str v)"

definition arg_val :: "jsval jsobj \<Rightarrow> string \<Rightarrow> jsval" where
  "arg_val args key = (case js_get args key of None \<Rightarrow> VUndef | Some v \<Rightarrow> v)"

text \<open>The keys in the order in which \<open>keys.pop()\<close> takes them.\<close>

fun replace_keys :: "jsval jsobj \<Rightarrow> string list \<Rightarrow> string \<Rightarrow> string" where
  "replace_keys args [] str = str"
| "replace_keys args (key # keys) str =
     (if str = [] then str
      else
        (let fragments = js_split key str;
             fragments' = (if keys \<noteq> [] then map (replace_keys args keys) fragments else fragments)
         in js_join (join_text (arg_val args key)) fragments'))"

definition stringReplace :: "string \<Rightarrow> jsval jsobj \<Rightarrow> string list option \<Rightarrow> string" where
  "stringReplace str args keys =
     (case keys of
        None \<Rightarrow> replace_keys args (rev (sort_key length (js_keys args))) str
      | Some ks \<Rightarrow> replace_keys args (rev ks) str)"

definition formatString :: "themes \<Rightarrow> string \<Rightarrow> jsval jsobj option \<Rightarrow> string js" where
  "formatString T str args =
     (case process_args T (case args of None \<Rightarrow> [] | Some a \<Rightarrow> a) [] of
        Inl e \<Rightarrow> Inl e
      | Inr processedArgs \<Rightarrow> Inr (stringReplace str processedArgs None))"

section \<open>Translation\<close>

record translation_table =
  tr_strings :: "string jsobj jsobj option"
  tr_pluralFormula :: "int jsobj option"

definition t_lookup :: "translation_table option \<Rightarrow> string \<Rightarrow> string \<Rightarrow> string" where
  "t_lookup drupalTranslations context str =
     (case drupalTranslations of
        None \<Rightarrow> str
      | Some tr \<Rightarrow>
          (case tr_strings tr of
             None \<Rightarrow> str
           | Some strings \<Rightarrow>
               (case js_get strings context of
                  None \<Rightarrow> str
                | Some table \<Rightarrow>
                    (case js_get table str of
                       None \<Rightarrow> str
                     | Some s \<Rightarrow> if s = [] then str else s))))"

definition drupal_t :: "themes \<Rightarrow> translation_table option \<Rightarrow> string \<Rightarrow> jsval jsobj option \<Rightarrow> string option \<Rightarrow> string js" where
  "drupal_t T drupalTranslations str args context =
     (let str' = t_lookup drupalTranslations (case context of None \<Rightarrow> '''' | Some c \<Rightarrow> c) str
      in case args of None \<Rightarrow> Inr str' | Some a \<Rightarrow> formatString T str' (Some a))"

text \<open>\<open>translations[index]\<close>: an index that is out of range or undefined reads \<open>undefined\<close>.\<close>

definition array_at :: "string list \<Rightarrow> int option \<Rightarrow> jsval" where
  "array_at xs i =
     (case i of
        None \<Rightarrow> VUndef
      | Some j \<Rightarrow> if 0 \<le> j \<and> nat j < length xs then VStr (xs ! nat j) else VUndef)"

definition formatPlural ::
    "themes \<Rightarrow> translation_table option \<Rightarrow> string \<Rightarrow> int \<Rightarrow> string \<Rightarrow> string \<Rightarrow> jsval jsobj option \<Rightarrow>
     string option \<Rightarrow> jsval js" where
  "formatPlural T drupalTranslations pluralDelimiter count singular plural args context =
     (let args' = js_put ''@count'' (VNum count) (case args of None \<Rightarrow> [] | Some a \<Rightarrow> a)
      in case drupal_t T drupalTranslations (singular @ pluralDelimiter @ plural) (Some args') context of
           Inl e \<Rightarrow> Inl e
         | Inr str \<Rightarrow>
             (let translated = js_split pluralDelimiter str;
                  formula = (case drupalTranslations of None \<Rightarrow> None | Some tr \<Rightarrow> tr_pluralFormula tr);
                  index =
                    (case formula of
                       Some pf \<Rightarrow>
                         (if js_has pf (int_str count) then js_get pf (int_str count)
                          else js_get pf ''default'')
                     | None \<Rightarrow> if js_get args' ''@count'' \<noteq> Some (VNum 1) then Some 1 else Some 0)
              in Inr (array_at translated index)))"

section \<open>URLs\<close>

record path_settings =
  baseUrl :: string
  pathPrefix :: string

record location =
  loc_protocol :: string
  loc_host :: string

definition drupal_url :: "path_settings \<Rightarrow> string \<Rightarrow> string" where
  "drupal_url ps path = baseUrl ps @ pathPrefix ps @ path"

text \<open>
  \<open>decodeURIComponent\<close> (which throws on malformed input: \<^term>\<open>None\<close>) and the anchor element that
  resolves a reference against the page are the browser's: both are arguments. A failed decoding leaves
  the text as it was.
\<close>

definition try_decode :: "(string \<Rightarrow> string option) \<Rightarrow> string \<Rightarrow> string" where
  "try_decode decode u = (case decode u of None \<Rightarrow> u | Some v \<Rightarrow> v)"

definition url_toAbsolute :: "(string \<Rightarrow> string option) \<Rightarrow> (string \<Rightarrow> string) \<Rightarrow> string \<Rightarrow> string" where
  "url_toAbsolute decode anchor_href u = anchor_href (try_decode decode u)"

text \<open>\<open>s.slice(0, -1)\<close> is \<^const>\<open>butlast\<close>.\<close>

definition url_isLocal ::
    "(string \<Rightarrow> string option) \<Rightarrow> (string \<Rightarrow> string) \<Rightarrow> location \<Rightarrow> path_settings \<Rightarrow> string \<Rightarrow> bool" where
  "url_isLocal decode anchor_href loc ps u =
     (let absoluteUrl = url_toAbsolute decode anchor_href u;
          prot = (if loc_protocol loc = ''http:'' \<and> prefix ''https:'' absoluteUrl then ''https:'' else loc_protocol loc);
          base = prot @ ''//'' @ loc_host loc @ butlast (baseUrl ps);
          absoluteUrl' = try_decode decode absoluteUrl;
          base' = try_decode decode base
      in absoluteUrl' = base' \<or> prefix (base' @ ''/'') absoluteUrl')"

text \<open>
  \<open>encodeURIComponent\<close> of a string of code units below 256: unreserved characters stay, the others
  become the percent-encoded bytes of their UTF-8 form (one byte below 128, two above).
\<close>

definition hex_char :: "nat \<Rightarrow> char" where
  "hex_char n = char_of (if n < 10 then 48 + n else 55 + n)"

definition pct :: "nat \<Rightarrow> string" where
  "pct n = [CHR ''%'', hex_char (n div 16), hex_char (n mod 16)]"

definition unreserved :: "char \<Rightarrow> bool" where
  "unreserved c \<longleftrightarrow>
     (let n = of_char c :: nat in
      48 \<le> n \<and> n \<le> 57 \<or> 65 \<le> n \<and> n \<le> 90 \<or> 97 \<le> n \<and> n \<le> 122 \<or>
      c \<in> set (''-_.!~*()'' @ [CHR 0x27]))"

definition encode_char :: "char \<Rightarrow> string" where
  "encode_char c =
     (let n = of_char c :: nat in
      if unreserved c then [c]
      else if n < 128 then pct n
      else pct (192 + n div 64) @ pct (128 + n mod 64))"

definition encodeURIComponent :: "string \<Rightarrow> string" where
  "encodeURIComponent s = concat (map encode_char s)"

text \<open>\<open>.replace(/%2F/g, '/')\<close>: every leftmost occurrence of the three characters.\<close>

definition encodePath :: "string \<Rightarrow> string" where
  "encodePath item = js_join ''/'' (js_split ''%2F'' (encodeURIComponent item))"

section \<open>Deprecation notices\<close>

text \<open>\<open>warn\<close> is what \<open>console.warn\<close> has printed; \<open>has_console\<close> tells whether it exists.\<close>

definition deprecationError :: "bool option \<Rightarrow> bool \<Rightarrow> string \<Rightarrow> string list \<Rightarrow> string list" where
  "deprecationError suppress has_console message warn =
     (if suppress = Some False \<and> has_console then warn @ [''[Deprecation] '' @ message] else warn)"

definition deprecatedProperty_get ::
    "bool option \<Rightarrow> bool \<Rightarrow> bool \<Rightarrow> jsval jsobj \<Rightarrow> string \<Rightarrow> string \<Rightarrow> string \<Rightarrow> string list \<Rightarrow>
     jsval \<times> string list" where
  "deprecatedProperty_get suppress has_console has_proxy target deprecated message key warn =
     (arg_val target key,
      if has_proxy \<and> key = deprecated then deprecationError suppress has_console message warn else warn)"

section \<open>Correctness of the sanitiser\<close>

definition escape_char :: "char \<Rightarrow> string" where
  "escape_char c =
     (if c = CHR ''&'' then ''&amp;''
      else if c = CHR ''<'' then ''&lt;''
      else if c = CHR ''>'' then ''&gt;''
      else if c = CHR 0x22 then ''&quot;''
      else if c = CHR 0x27 then ''&#39;''
      else [c])"

text \<open>A reader of the five entities: what a browser shows for escaped text.\<close>

function html_unescape :: "string \<Rightarrow> string" where
  "html_unescape [] = []"
| "html_unescape (c # s) =
     (if prefix ''&amp;'' (c # s) then CHR ''&'' # html_unescape (drop 5 (c # s))
      else if prefix ''&lt;'' (c # s) then CHR ''<'' # html_unescape (drop 4 (c # s))
      else if prefix ''&gt;'' (c # s) then CHR ''>'' # html_unescape (drop 4 (c # s))
      else if prefix ''&quot;'' (c # s) then CHR 0x22 # html_unescape (drop 6 (c # s))
      else if prefix ''&#39;'' (c # s) then CHR 0x27 # html_unescape (drop 5 (c # s))
      else c # html_unescape s)"
  by pat_completeness auto
termination
  by (relation "measure length") auto

definition markup_chars :: "char set" where
  "markup_chars = {CHR ''<'', CHR ''>'', CHR 0x22, CHR 0x27}"

lemma check_plain_str_append [simp]:
  "check_plain_str (a @ b) = check_plain_str a @ check_plain_str b"
  by (simp add: check_plain_str_def)

lemma check_plain_str_eq: "check_plain_str s = concat (map escape_char s)"
proof (induction s)
  case (Cons c s)
  have "check_plain_str [c] = escape_char c"
    by (simp add: check_plain_str_def escape_char_def)
  with Cons show ?case
    using check_plain_str_append [of "[c]" s] by simp
qed (simp add: check_plain_str_def)

lemma escape_char_safe: "set (escape_char c) \<inter> markup_chars = {}"
  by (auto simp: escape_char_def markup_chars_def)

lemma check_plain_str_safe: "set (check_plain_str s) \<inter> markup_chars = {}"
  using escape_char_safe by (fastforce simp: check_plain_str_eq)

lemma html_unescape_escape_char: "html_unescape (escape_char c @ s) = c # html_unescape s"
  by (auto simp: escape_char_def)

lemma html_unescape_check_plain_str: "html_unescape (check_plain_str s) = s"
  by (induction s) (simp_all add: check_plain_str_eq html_unescape_escape_char)

lemma checkPlain_Inr: "checkPlain v = Inr s \<Longrightarrow> v \<noteq> VUndef \<and> v \<noteq> VNull \<and> s = check_plain_str (to_str v)"
  by (cases v) (auto simp: checkPlain_def)

lemma checkPlain_defined: "v \<noteq> VUndef \<Longrightarrow> v \<noteq> VNull \<Longrightarrow> checkPlain v = Inr (check_plain_str (to_str v))"
  by (cases v) (auto simp: checkPlain_def)

text \<open>Text without special characters is left alone.\<close>

lemma escape_char_plain: "c \<notin> set ''&<>'' \<Longrightarrow> c \<noteq> CHR 0x22 \<Longrightarrow> c \<noteq> CHR 0x27 \<Longrightarrow> escape_char c = [c]"
  by (simp add: escape_char_def)

lemma check_plain_plain:
  "\<forall>c \<in> set s. c \<notin> set ''&<>'' \<and> c \<noteq> CHR 0x22 \<and> c \<noteq> CHR 0x27 \<Longrightarrow> check_plain_str s = s"
  by (induction s) (simp_all add: check_plain_str_eq escape_char_plain)

lemma digit_plain: "is_digit c \<Longrightarrow> c \<notin> set ''&<>'' \<and> c \<noteq> CHR 0x22 \<and> c \<noteq> CHR 0x27 \<and> c \<noteq> CHR 0x03"
  by (auto simp: is_digit_def)

lemma int_str_digits: "0 \<le> n \<Longrightarrow> c \<in> set (int_str n) \<Longrightarrow> is_digit c"
  by (simp add: int_str_def nat_str_digits)

lemma check_plain_int: "0 \<le> n \<Longrightarrow> check_plain_str (int_str n) = int_str n"
  using digit_plain int_str_digits by (intro check_plain_plain) blast

section \<open>Correctness of the substitution\<close>

text \<open>
  What \<open>stringReplace\<close> promises: the template is cut into literal pieces and holes, the holes are
  filled, and what was filled in is not looked at again.
\<close>

datatype piece = Lit string | Hole string

fun piece_source :: "piece \<Rightarrow> string" where
  "piece_source (Lit s) = s"
| "piece_source (Hole k) = k"

fun piece_value :: "(string \<Rightarrow> string) \<Rightarrow> piece \<Rightarrow> string" where
  "piece_value val (Lit s) = s"
| "piece_value val (Hole k) = val k"

definition source_of :: "piece list \<Rightarrow> string" where
  "source_of ps = concat (map piece_source ps)"

definition render :: "(string \<Rightarrow> string) \<Rightarrow> piece list \<Rightarrow> string" where
  "render val ps = concat (map (piece_value val) ps)"

fun weave :: "'a \<Rightarrow> 'a list list \<Rightarrow> 'a list" where
  "weave h [] = []"
| "weave h [x] = x"
| "weave h (x # y # xs) = x @ h # weave h (y # xs)"

fun cut_pieces :: "string list \<Rightarrow> string \<Rightarrow> piece list" where
  "cut_pieces [] str = [Lit str]"
| "cut_pieces (key # keys) str =
     (if str = [] then [Lit str] else weave (Hole key) (map (cut_pieces keys) (js_split key str)))"

lemma set_weave: "set (weave h xs) \<subseteq> insert h (\<Union> (set ` set xs))"
  by (induction h xs rule: weave.induct) auto

lemma source_of_append [simp]: "source_of (a @ b) = source_of a @ source_of b"
  by (simp add: source_of_def)

lemma source_of_Cons [simp]: "source_of (x # b) = piece_source x @ source_of b"
  by (simp add: source_of_def)

lemma render_append [simp]: "render val (a @ b) = render val a @ render val b"
  by (simp add: render_def)

lemma render_Cons [simp]: "render val (x # b) = piece_value val x @ render val b"
  by (simp add: render_def)

lemma source_of_weave: "source_of (weave h xs) = js_join (piece_source h) (map source_of xs)"
  by (induction h xs rule: weave.induct) (simp_all add: source_of_def)

lemma render_weave: "render val (weave h xs) = js_join (piece_value val h) (map (render val) xs)"
  by (induction h xs rule: weave.induct) (simp_all add: render_def)

lemma render_cut:
  "render (\<lambda>k. join_text (arg_val args k)) (cut_pieces keys str) = replace_keys args keys str"
proof (induction keys arbitrary: str)
  case Nil
  show ?case by (simp add: render_def)
next
  case (Cons key keys)
  have "map (render (\<lambda>k. join_text (arg_val args k)) \<circ> cut_pieces keys) fs =
        (if keys \<noteq> [] then map (replace_keys args keys) fs else fs)" for fs
    using Cons by (cases keys) (auto intro: map_idI)
  then show ?case by (simp add: render_weave) (simp add: render_def)
qed

lemma source_cut: "[] \<notin> set keys \<Longrightarrow> source_of (cut_pieces keys str) = str"
proof (induction keys arbitrary: str)
  case Nil
  show ?case by (simp add: source_of_def)
next
  case (Cons key keys)
  then have "map (source_of \<circ> cut_pieces keys) fs = fs" for fs
    by (auto intro: map_idI)
  with Cons.prems show ?case
    by (auto simp: source_of_weave js_join_split) (simp add: source_of_def)
qed

lemma cut_holes: "Hole k \<in> set (cut_pieces keys str) \<Longrightarrow> k \<in> set keys"
  by (induction keys arbitrary: str) (auto dest!: subsetD [OF set_weave] split: if_splits, blast)

lemma cut_literal_sub: "[] \<notin> set keys \<Longrightarrow> Lit l \<in> set (cut_pieces keys str) \<Longrightarrow> sublist l str"
proof -
  assume "[] \<notin> set keys" and l: "Lit l \<in> set (cut_pieces keys str)"
  then obtain a b where "cut_pieces keys str = a @ Lit l # b"
    by (meson split_list)
  then have "source_of (cut_pieces keys str) = source_of a @ l @ source_of b" by simp
  with source_cut [OF \<open>[] \<notin> set keys\<close>] show ?thesis
    by (metis sublist_appendI)
qed

lemma cut_literal_free:
  "[] \<notin> set keys \<Longrightarrow> Lit l \<in> set (cut_pieces keys str) \<Longrightarrow> k \<in> set keys \<Longrightarrow> \<not> sublist k l"
proof (induction keys arbitrary: str)
  case (Cons key keys)
  show ?case
  proof (cases "str = []")
    case True
    with Cons.prems show ?thesis by auto
  next
    case False
    with Cons.prems obtain f where f: "f \<in> set (js_split key str)" "Lit l \<in> set (cut_pieces keys f)"
      by (auto dest!: subsetD [OF set_weave])
    with Cons.prems(1) have "sublist l f" "\<not> sublist key f"
      using js_split_no_sep [of key f str] by (auto intro: cut_literal_sub)
    then have "\<not> sublist key l" using sublist_order.order_trans by blast
    with Cons f show ?thesis by auto
  qed
qed simp

text \<open>What a processed argument puts in place of its key, with the default theme.\<close>

definition default_themes :: themes where
  "default_themes = (\<lambda>k. if k = ''placeholder'' then Some (ThemeFun theme_placeholder) else None)"

definition sanitized :: "string \<Rightarrow> jsval \<Rightarrow> string" where
  "sanitized key v =
     (if prefix ''@'' key then check_plain_str (to_str v)
      else if prefix ''!'' key then join_text v
      else ''<em class='' @ [CHR 0x22] @ ''placeholder'' @ [CHR 0x22] @ ''>'' @ check_plain_str (to_str v) @ ''</em>'')"

definition arg_ok :: "string \<times> jsval \<Rightarrow> bool" where
  "arg_ok a \<longleftrightarrow> fst a \<noteq> [] \<and> (prefix ''!'' (fst a) \<or> snd a \<noteq> VUndef \<and> snd a \<noteq> VNull)"

lemma process_arg_sanitized:
  assumes "arg_ok (key, v)"
  shows "\<exists>w. process_arg default_themes key v = Inr w \<and> join_text w = sanitized key v"
proof -
  obtain c ks where key: "key = c # ks" using assms by (cases key) (auto simp: arg_ok_def)
  show ?thesis
  proof (cases "c = CHR ''!''")
    case True
    then show ?thesis by (simp add: key process_arg_def sanitized_def)
  next
    case False
    with assms have "checkPlain v = Inr (check_plain_str (to_str v))"
      by (simp add: arg_ok_def key checkPlain_defined)
    with False show ?thesis
      by (auto simp: key process_arg_def sanitized_def theme_call_def default_themes_def
          theme_placeholder_def join_text_def)
  qed
qed

lemma process_args_sanitized:
  assumes "list_all arg_ok args" and "distinct (js_keys args)" and "js_wf acc"
  shows "\<exists>acc'. process_args default_themes args acc = Inr acc' \<and> js_wf acc' \<and>
           set (js_keys acc') = set (js_keys args) \<union> set (js_keys acc) \<and>
           (\<forall>k. join_text (arg_val acc' k) =
              (case js_get args k of Some v \<Rightarrow> sanitized k v | None \<Rightarrow> join_text (arg_val acc k)))"
  using assms
proof (induction args arbitrary: acc)
  case Nil
  then show ?case by simp
next
  case (Cons a args)
  obtain key v where a: "a = (key, v)" by (cases a)
  with Cons.prems obtain w where w: "process_arg default_themes key v = Inr w" "join_text w = sanitized key v"
    using process_arg_sanitized [of key v] by auto
  from Cons.IH [of "js_put key w acc"] Cons.prems obtain acc' where acc':
    "process_args default_themes args (js_put key w acc) = Inr acc'" "js_wf acc'"
    "set (js_keys acc') = set (js_keys args) \<union> set (js_keys (js_put key w acc))"
    "\<forall>k. join_text (arg_val acc' k) =
       (case js_get args k of Some v \<Rightarrow> sanitized k v | None \<Rightarrow> join_text (arg_val (js_put key w acc) k))"
    by auto
  moreover have "js_get args key = None"
    using Cons.prems(2) by (simp add: a js_get_def map_of_eq_None_iff)
  ultimately show ?case
    using w by (auto simp: a arg_val_def split: option.split)
qed

section \<open>Plural forms\<close>

lemma replace_keys_Nil [simp]: "replace_keys args keys [] = []"
  by (cases keys) auto

lemma replace_keys_Cons:
  "key \<noteq> [] \<Longrightarrow> replace_keys args (key # keys) str =
     js_join (join_text (arg_val args key)) (map (replace_keys args keys) (split_on key [] str))"
  by (cases keys; cases "str = []") (auto simp: js_split_def map_idI)

lemma replace_keys_around:
  assumes "[] \<notin> set keys" and "\<forall>k\<in>set keys. d \<notin> set k"
  shows "replace_keys args keys (a @ d # b) = replace_keys args keys a @ d # replace_keys args keys b"
  using assms
proof (induction keys arbitrary: a b)
  case (Cons key keys)
  let ?r = "replace_keys args keys" and ?s = "\<lambda>x. split_on key [] x"
  have key: "key \<noteq> []" "d \<notin> set key" using Cons.prems by auto
  have IH: "?r (x @ d # y) = ?r x @ d # ?r y" for x y using Cons by simp
  have "?s (a @ d # b) = butlast (?s a) @ (last (?s a) @ d # hd (?s b)) # tl (?s b)"
    by (rule split_on_around) (rule key)
  also have "map ?r \<dots> = butlast (map ?r (?s a)) @
      (last (map ?r (?s a)) @ [d] @ hd (map ?r (?s b))) # tl (map ?r (?s b))"
    by (simp add: IH map_butlast last_map hd_map map_tl)
  finally have split: "map ?r (?s (a @ d # b)) = \<dots>" .
  show ?case
    unfolding replace_keys_Cons [OF key(1)] split
    by (subst js_join_glue) simp_all
qed simp

lemma set_replace_keys:
  "[] \<notin> set keys \<Longrightarrow> set (replace_keys args keys str) \<subseteq>
     set str \<union> (\<Union>k\<in>set keys. set (join_text (arg_val args k)))"
proof -
  assume ne: "[] \<notin> set keys"
  have "set (render val ps) \<subseteq> set (source_of ps) \<union> (\<Union>k\<in>{k. Hole k \<in> set ps}. set (val k))" for val ps
  proof (induction ps)
    case (Cons p ps)
    then show ?case by (cases p) auto
  qed (simp add: render_def)
  from this [of "\<lambda>k. join_text (arg_val args k)" "cut_pieces keys str"] show ?thesis
    unfolding render_cut source_cut [OF ne] by (auto dest: cut_holes)
qed

section \<open>The two phases of a behavior\<close>

fun phase_errors :: "('b \<Rightarrow> ('w \<Rightarrow> 'w hook_result) option) \<Rightarrow> (string \<times> 'b) list \<Rightarrow> 'w \<Rightarrow> js_error list" where
  "phase_errors hook [] w = []"
| "phase_errors hook ((i, b) # bs) w =
     (case hook b of
        None \<Rightarrow> phase_errors hook bs w
      | Some f \<Rightarrow> (case snd (f w) of None \<Rightarrow> [] | Some e \<Rightarrow> [e]) @ phase_errors hook bs (fst (f w)))"

locale behavior_phase =
  fixes run :: "(string \<times> 'b) list \<Rightarrow> 'w page \<Rightarrow> 'w page"
    and hook :: "'b \<Rightarrow> ('w \<Rightarrow> 'w hook_result) option"
  assumes run_Nil: "run [] p = p"
    and run_Cons: "run ((i, b) # bs) p = run bs (call_hook (hook b) p)"
begin

lemma world_call_hook:
  "world (call_hook (hook b) p) = (case hook b of None \<Rightarrow> world p | Some f \<Rightarrow> fst (f (world p)))"
  by (auto simp: call_hook_def throwError_def split: option.split prod.split)

lemma run_append: "run (bs @ cs) p = run cs (run bs p)"
  by (induction bs arbitrary: p) (auto simp: run_Nil run_Cons)

lemma timers_run: "timers (run bs p) = timers p @ phase_errors hook bs (world p)"
proof (induction bs arbitrary: p)
  case (Cons ib bs)
  obtain i b where "ib = (i, b)" by (cases ib)
  with Cons show ?case
    by (auto simp: run_Cons call_hook_def throwError_def split: option.split prod.split)
qed (simp add: run_Nil)

lemma world_run_cong: "world p = world q \<Longrightarrow> world (run bs p) = world (run bs q)"
proof (induction bs arbitrary: p q)
  case (Cons ib bs)
  obtain i b where ib: "ib = (i, b)" by (cases ib)
  from Cons.prems have "world (call_hook (hook b) p) = world (call_hook (hook b) q)"
    by (simp add: world_call_hook split: option.split)
  from Cons.IH [OF this] show ?case by (simp add: ib run_Cons)
qed (simp add: run_Nil)

text \<open>A hook that throws neither stops the hooks after it nor changes the page they see.\<close>

lemma throwing_hook_isolated:
  assumes "hook b = Some f" and "f (world (run bs p)) = (w, Some e)"
  shows "world (run (bs @ (i, b) # cs) p) = world (run cs (p\<lparr>world := w\<rparr>))"
    and "timers (run (bs @ (i, b) # cs) p) =
      timers p @ phase_errors hook bs (world p) @ [e] @ phase_errors hook cs w"
proof -
  let ?q = "call_hook (hook b) (run bs p)"
  have q: "run (bs @ (i, b) # cs) p = run cs ?q"
    by (simp add: run_append run_Cons)
  have "world ?q = w" "timers ?q = timers (run bs p) @ [e]"
    using assms by (simp_all add: call_hook_def throwError_def)
  then show "world (run (bs @ (i, b) # cs) p) = world (run cs (p\<lparr>world := w\<rparr>))"
    and "timers (run (bs @ (i, b) # cs) p) =
      timers p @ phase_errors hook bs (world p) @ [e] @ phase_errors hook cs w"
    unfolding q by (auto intro: world_run_cong simp: timers_run)
qed

end

abbreviation given :: "'a \<Rightarrow> 'a option \<Rightarrow> 'a" where
  "given d x \<equiv> (case x of None \<Rightarrow> d | Some y \<Rightarrow> y)"

interpretation attach_phase: behavior_phase
  "\<lambda>bs. attachBehaviors doc ds bs c s"
  "\<lambda>b. map_option (\<lambda>f. f (given doc c) (given ds s)) (attach b)" for doc ds c s
  by unfold_locales (simp_all add: attachBehaviors_def Let_def)

interpretation detach_phase: behavior_phase
  "\<lambda>bs. detachBehaviors doc ds bs c s tr"
  "\<lambda>b. map_option (\<lambda>f. f (given doc c) (given ds s)
      (case tr of None \<Rightarrow> ''unload'' | Some x \<Rightarrow> if x = [] then ''unload'' else x)) (detach b)"
  for doc ds c s tr
  by unfold_locales (simp_all add: detachBehaviors_def Let_def)

section \<open>Percent encoding\<close>

definition path_char :: "char \<Rightarrow> string" where
  "path_char c = (if c = CHR ''/'' then ''/'' else encode_char c)"

lemma hex_code: "n < 16 \<Longrightarrow> (of_char (hex_char n) :: nat) = (if n < 10 then 48 + n else 55 + n)"
  by (simp add: hex_char_def take_bit_eq_mod)

lemma hex_char_not_pct: "n < 16 \<Longrightarrow> hex_char n \<noteq> CHR ''%''"
  using hex_code [of n] by (auto split: if_splits)

lemma hex_char_inject:
  assumes "m < 16" and "n < 16" and "hex_char m = hex_char n"
  shows "m = n"
proof -
  have "(if m < 10 then 48 + m else 55 + m) = (if n < 10 then 48 + n else 55 + n)"
    using hex_code [OF assms(1)] hex_code [OF assms(2)] assms(3) by simp
  with assms(1,2) show ?thesis by (simp split: if_splits)
qed

lemma split_on_plain: "c \<noteq> CHR ''%'' \<Longrightarrow> split_on ''%2F'' cur (c # s) = split_on ''%2F'' (c # cur) s"
  by simp

lemma split_on_pct:
  assumes "n < 256" and "n \<noteq> 47"
  shows "split_on ''%2F'' cur (pct n @ s) = split_on ''%2F'' (rev (pct n) @ cur) s"
proof -
  have d: "n div 16 < 16" using assms(1) by (simp add: less_mult_imp_div_less)
  have "n = 16 * (n div 16) + n mod 16" by simp
  then have "\<not> (n div 16 = 2 \<and> n mod 16 = 15)" using assms(2) by linarith
  moreover have "hex_char 2 = CHR ''2''" "hex_char 15 = CHR ''F''"
    by (simp_all add: hex_char_def char_of_eq_iff)
  ultimately have "\<not> (hex_char (n div 16) = CHR ''2'' \<and> hex_char (n mod 16) = CHR ''F'')"
    using hex_char_inject [OF d, of 2] hex_char_inject [of "n mod 16" 15] by auto
  moreover have "hex_char (n div 16) \<noteq> CHR ''%''" "hex_char (n mod 16) \<noteq> CHR ''%''"
    using d by (simp_all add: hex_char_not_pct)
  ultimately show ?thesis by (auto simp: pct_def)
qed

lemma split_on_encode_char:
  assumes "c \<noteq> CHR ''/''"
  shows "split_on ''%2F'' cur (encode_char c @ s) = split_on ''%2F'' (rev (encode_char c) @ cur) s"
proof -
  have n: "(of_char c :: nat) < 256" "(of_char c :: nat) \<noteq> 47"
    using assms of_char_eq_iff [of c "CHR ''/''"] by (auto simp del: of_char_eq_iff)
  consider "unreserved c" | "\<not> unreserved c" "(of_char c :: nat) < 128"
    | "\<not> unreserved c" "128 \<le> (of_char c :: nat)" by linarith
  then show ?thesis
  proof cases
    case 1
    then have "c \<noteq> CHR ''%''" by (auto simp: unreserved_def)
    with 1 show ?thesis by (simp add: encode_char_def Let_def)
  next
    case 2
    with n show ?thesis by (simp add: encode_char_def Let_def split_on_pct)
  next
    case 3
    have "192 + (of_char c :: nat) div 64 < 256" "128 + (of_char c :: nat) mod 64 < 256"
      using less_mult_imp_div_less [of "of_char c :: nat" 4 64] n(1) by simp_all
    with 3 show ?thesis by (simp add: encode_char_def Let_def split_on_pct)
  qed
qed

lemma encode_slash: "encode_char (CHR ''/'') = ''%2F''"
  by (simp add: encode_char_def unreserved_def pct_def hex_char_def char_of_eq_iff)

lemma encodePath_cur:
  "js_join ''/'' (split_on ''%2F'' cur (encodeURIComponent s)) = rev cur @ concat (map path_char s)"
proof (induction s arbitrary: cur)
  case (Cons c s)
  show ?case
  proof (cases "c = CHR ''/''")
    case True
    with Cons show ?thesis
      by (simp add: encodeURIComponent_def encode_slash path_char_def js_join_Cons)
  next
    case False
    then have "split_on ''%2F'' cur (encodeURIComponent (c # s)) =
        split_on ''%2F'' (rev (encode_char c) @ cur) (encodeURIComponent s)"
      by (simp add: encodeURIComponent_def split_on_encode_char)
    with Cons False show ?thesis by (simp add: path_char_def)
  qed
qed (simp add: encodeURIComponent_def)

section \<open>Properties\<close>

lemma formatString_replace_keys:
  assumes "js_wf args" and "list_all arg_ok args"
  obtains acc where "\<And>str. formatString default_themes str (Some args) =
      Inr (replace_keys acc (rev (sort_key length (js_keys acc))) str)"
    and "set (js_keys acc) = set (js_keys args)" and "[] \<notin> set (js_keys acc)"
    and "\<And>k v. js_get args k = Some v \<Longrightarrow> join_text (arg_val acc k) = sanitized k v"
proof -
  from assms obtain acc where acc: "process_args default_themes args [] = Inr acc"
    "set (js_keys acc) = set (js_keys args)"
    "\<forall>k. join_text (arg_val acc k) =
       (case js_get args k of Some v \<Rightarrow> sanitized k v | None \<Rightarrow> join_text (arg_val [] k))"
    using process_args_sanitized [of args "[]"] jsobj.wf_distinct [OF assms(1)] by auto
  moreover have "[] \<notin> set (js_keys args)"
    using assms(2) by (auto simp: list_all_iff arg_ok_def)
  ultimately show ?thesis
    using that [of acc] by (simp add: formatString_def stringReplace_def)
qed

text \<open>
  C32. \<open>Drupal.checkPlain\<close> is lossless and safe: the text it returns contains none of \<open><\<close>, \<open>>\<close> and the
  two quotes, and reading its entities back gives the string form of the argument. So two different
  texts never escape to the same markup, and the five replacements do not interfere with each other.
\<close>

theorem checkPlain_roundtrip:
  assumes "checkPlain v = Inr s"
  shows "html_unescape s = to_str v \<and> set s \<inter> markup_chars = {}"
  using checkPlain_Inr [OF assms] by (auto simp: html_unescape_check_plain_str check_plain_str_safe)

theorem checkPlain_roundtrip_witness:
  "html_unescape ''a&amp;b&lt;'' = to_str (VStr ''a&b<'') \<and> set ''a&amp;b&lt;'' \<inter> markup_chars = {}"
proof -
  have "checkPlain (VStr ''a&b<'') = Inr ''a&amp;b&lt;''"
    by (simp add: checkPlain_def check_plain_str_def)
  from checkPlain_roundtrip [OF this] show ?thesis by blast
qed

text \<open>
  C18. \<open>Drupal.formatString\<close> with the default placeholder theme: the template is the concatenation of
  literal pieces and of keys of the arguments, no literal piece still contains a key (every placeholder
  is substituted), and the result puts in place of each key its sanitised value (escaped for
  \<open>@\<close>, untouched for \<open>!\<close>, escaped and emphasised otherwise) without searching the inserted text again.
\<close>

theorem formatString_pieces:
  assumes "js_wf args" and "list_all arg_ok args"
  shows "\<exists>ps. source_of ps = str \<and>
      (\<forall>l. Lit l \<in> set ps \<longrightarrow> (\<forall>k. js_has args k \<longrightarrow> \<not> sublist k l)) \<and>
      (\<forall>k. Hole k \<in> set ps \<longrightarrow> js_has args k) \<and>
      formatString default_themes str (Some args) =
        Inr (render (\<lambda>k. sanitized k (arg_val args k)) ps)"
proof -
  obtain acc where acc: "\<And>str. formatString default_themes str (Some args) =
      Inr (replace_keys acc (rev (sort_key length (js_keys acc))) str)"
    "set (js_keys acc) = set (js_keys args)" "[] \<notin> set (js_keys acc)"
    "\<And>k v. js_get args k = Some v \<Longrightarrow> join_text (arg_val acc k) = sanitized k v"
    using formatString_replace_keys [OF assms] by blast
  let ?keys = "rev (sort_key length (js_keys acc))"
  let ?ps = "cut_pieces ?keys str"
  have keys: "[] \<notin> set ?keys" "k \<in> set ?keys \<longleftrightarrow> js_has args k" for k
    using acc(2,3) by (auto simp: js_has_def)
  have "piece_value (\<lambda>k. join_text (arg_val acc k)) p = piece_value (\<lambda>k. sanitized k (arg_val args k)) p"
    if "p \<in> set ?ps" for p
  proof (cases p)
    case (Hole k)
    with that have "js_has args k" using cut_holes keys(2) by blast
    then obtain v where "js_get args k = Some v" by (auto simp: js_has_get)
    with Hole show ?thesis by (simp add: acc(4)) (simp add: arg_val_def)
  qed simp
  then have "render (\<lambda>k. join_text (arg_val acc k)) ?ps = render (\<lambda>k. sanitized k (arg_val args k)) ?ps"
    unfolding render_def by (metis (no_types, lifting) map_cong)
  moreover have "source_of ?ps = str" using keys(1) by (rule source_cut)
  ultimately show ?thesis
    using cut_literal_free [OF keys(1)] cut_holes [of _ ?keys str] keys(2)
    by (intro exI [of _ ?ps]) (auto simp: acc(1) render_cut)
qed

theorem formatString_pieces_witness:
  "\<exists>ps. source_of ps = ''Hi @who'' \<and>
      (\<forall>l. Lit l \<in> set ps \<longrightarrow> (\<forall>k. js_has [(''@who'', VStr ''<b>'')] k \<longrightarrow> \<not> sublist k l)) \<and>
      (\<forall>k. Hole k \<in> set ps \<longrightarrow> js_has [(''@who'', VStr ''<b>'')] k) \<and>
      formatString default_themes ''Hi @who'' (Some [(''@who'', VStr ''<b>'')]) =
        Inr (render (\<lambda>k. sanitized k (arg_val [(''@who'', VStr ''<b>'')] k)) ps)"
  by (rule formatString_pieces) (simp_all add: js_wf_def arg_ok_def)

text \<open>
  C19. No injection through \<open>@\<close> arguments: whatever the argument values are, a character of the result
  that can open a tag or close an attribute was already in the template.
\<close>

theorem formatString_no_injection:
  assumes "js_wf args" and "list_all arg_ok args" and "list_all (\<lambda>(k, v). prefix ''@'' k) args"
  shows "\<exists>out. formatString default_themes str (Some args) = Inr out \<and> set out \<inter> markup_chars \<subseteq> set str"
proof -
  obtain acc where acc: "\<And>str. formatString default_themes str (Some args) =
      Inr (replace_keys acc (rev (sort_key length (js_keys acc))) str)"
    "set (js_keys acc) = set (js_keys args)" "[] \<notin> set (js_keys acc)"
    "\<And>k v. js_get args k = Some v \<Longrightarrow> join_text (arg_val acc k) = sanitized k v"
    using formatString_replace_keys [OF assms(1,2)] by blast
  have "set (join_text (arg_val acc k)) \<inter> markup_chars = {}" if "k \<in> set (js_keys acc)" for k
  proof -
    from that acc(2) obtain v where v: "(k, v) \<in> set args" by auto
    with assms(1,3) have "js_get args k = Some v" "prefix ''@'' k"
      by (auto simp: js_get_in list_all_iff)
    then show ?thesis by (simp add: acc(4) sanitized_def check_plain_str_safe)
  qed
  moreover have "set (replace_keys acc (rev (sort_key length (js_keys acc))) str) \<subseteq>
      set str \<union> (\<Union>k\<in>set (js_keys acc). set (join_text (arg_val acc k)))"
    using set_replace_keys [of "rev (sort_key length (js_keys acc))" acc str] acc(3) by simp
  ultimately have "x \<in> set str"
    if "x \<in> set (replace_keys acc (rev (sort_key length (js_keys acc))) str)" "x \<in> markup_chars" for x
    using that by blast
  then have "set (replace_keys acc (rev (sort_key length (js_keys acc))) str) \<inter> markup_chars \<subseteq> set str"
    by blast
  then show ?thesis by (simp add: acc(1))
qed

theorem formatString_no_injection_witness:
  "\<exists>out. formatString default_themes ''Hi @who'' (Some [(''@who'', VStr ''<b>'')]) = Inr out \<and>
     set out \<inter> markup_chars \<subseteq> set ''Hi @who''"
  by (rule formatString_no_injection) (simp_all add: js_wf_def arg_ok_def)

lemma formatPlural_split:
  assumes "js_wf args" and "list_all arg_ok args"
    and "\<forall>(k, v)\<in>set (js_put ''@count'' (VNum n) args). d \<notin> set k \<and> d \<notin> set (sanitized k v)"
    and "d \<notin> set singular" and "d \<notin> set plural"
  shows "formatPlural default_themes None [d] n singular plural (Some args) context =
    (case formatString default_themes (if n = 1 then singular else plural)
            (Some (js_put ''@count'' (VNum n) args)) of
       Inl e \<Rightarrow> Inl e | Inr s \<Rightarrow> Inr (VStr s))"
proof -
  let ?args = "js_put ''@count'' (VNum n) args"
  have ok: "js_wf ?args" "list_all arg_ok ?args"
    using assms(1,2) by (auto intro!: list_all_js_put simp: arg_ok_def)
  obtain acc where acc: "\<And>str. formatString default_themes str (Some ?args) =
      Inr (replace_keys acc (rev (sort_key length (js_keys acc))) str)"
    "set (js_keys acc) = set (js_keys ?args)" "[] \<notin> set (js_keys acc)"
    "\<And>k v. js_get ?args k = Some v \<Longrightarrow> join_text (arg_val acc k) = sanitized k v"
    using formatString_replace_keys [OF ok] by blast
  let ?keys = "rev (sort_key length (js_keys acc))"
  let ?r = "replace_keys acc ?keys"
  have "d \<notin> set k \<and> d \<notin> set (join_text (arg_val acc k))" if "k \<in> set (js_keys acc)" for k
  proof -
    from that have "k \<in> set (js_keys ?args)" unfolding acc(2) .
    then obtain v where v: "(k, v) \<in> set ?args" by (blast dest: js_keys_pair)
    then have "js_get ?args k = Some v" using ok(1) by (simp only: js_get_in)
    then have "join_text (arg_val acc k) = sanitized k v" by (rule acc(4))
    moreover have "d \<notin> set k \<and> d \<notin> set (sanitized k v)" using assms(3) v by blast
    ultimately show ?thesis by simp
  qed
  note dk = this
  have d: "\<forall>k\<in>set ?keys. d \<notin> set k" using dk by simp
  have free: "d \<notin> set (?r s)" if "d \<notin> set s" for s
    using set_replace_keys [of ?keys acc s] acc(3) dk that by auto
  have ne: "[] \<notin> set ?keys" using acc(3) by simp
  have "js_split [d] (?r (singular @ d # plural)) = [?r singular, ?r plural]"
    unfolding replace_keys_around [OF ne d] by (rule js_split_single) (rule free, rule assms)+
  then show ?thesis
    by (simp add: formatPlural_def drupal_t_def t_lookup_def acc(1) array_at_def Let_def)
qed

text \<open>
  \<open>Drupal.formatPlural\<close> without translations returns the formatted singular text for the count 1
  and the formatted plural text for every other count, with \<open>@count\<close> available to both, provided the
  one-character plural delimiter occurs in neither text, in no placeholder name and in no inserted value.
\<close>

theorem formatPlural_untranslated:
  assumes "js_wf args" and "list_all arg_ok args"
    and "\<forall>(k, v)\<in>set (js_put ''@count'' (VNum n) args). d \<notin> set k \<and> d \<notin> set (sanitized k v)"
    and "d \<notin> set singular" and "d \<notin> set plural"
  shows "formatPlural default_themes None [d] n singular plural (Some args) context =
    (case formatString default_themes (if n = 1 then singular else plural)
            (Some (js_put ''@count'' (VNum n) args)) of
       Inl e \<Rightarrow> Inl e | Inr s \<Rightarrow> Inr (VStr s))"
  using assms by (rule formatPlural_split)

theorem formatPlural_untranslated_witness:
  "formatPlural default_themes None [CHR 0x03] 5 ''1 item'' ''@count items'' (Some []) None =
    (case formatString default_themes (if (5 :: int) = 1 then ''1 item'' else ''@count items'')
            (Some (js_put ''@count'' (VNum 5) [])) of
       Inl e \<Rightarrow> Inl e | Inr s \<Rightarrow> Inr (VStr s))"
proof -
  have "int_str 5 = ''5''" by code_simp
  then show ?thesis
    by (intro formatPlural_untranslated)
       (simp_all add: js_put_def js_wf_def sanitized_def check_plain_str_def)
qed

text \<open>
  \<open>Drupal.encodePath\<close> encodes character by character and keeps exactly the slashes: the global
  replacement of the three characters \<open>%2F\<close> never touches the encoding of any other character, in
  particular not that of a literal percent sign followed by \<open>2F\<close>.
\<close>

theorem encodePath_per_char: "encodePath s = concat (map path_char s)"
  using encodePath_cur [of "[]" s] by (simp add: encodePath_def js_split_def)

text \<open>
  C38. \<open>Drupal.attachBehaviors\<close> isolates failures: when one behavior's \<open>attach\<close> throws, the behaviors
  after it still run, on the page exactly as the failing one left it, and every error thrown is queued
  once, in the order of the behaviors.
\<close>

theorem attachBehaviors_isolates_errors:
  assumes "attach b = Some f"
    and "f (given doc c) (given ds s) (world (attachBehaviors doc ds bs c s p)) = (w, Some e)"
  shows "world (attachBehaviors doc ds (bs @ (i, b) # bs') c s p) =
      world (attachBehaviors doc ds bs' c s (p\<lparr>world := w\<rparr>)) \<and>
    timers (attachBehaviors doc ds (bs @ (i, b) # bs') c s p) =
      timers p @ phase_errors (\<lambda>b. map_option (\<lambda>f. f (given doc c) (given ds s)) (attach b)) bs (world p)
        @ [e] @ phase_errors (\<lambda>b. map_option (\<lambda>f. f (given doc c) (given ds s)) (attach b)) bs' w"
  using assms attach_phase.throwing_hook_isolated [of doc c ds s b "f (given doc c) (given ds s)" bs p w e i bs']
  by auto

theorem attachBehaviors_isolates_errors_witness:
  "world (attachBehaviors () () ([] @ (''a'', \<lparr>attach = Some (\<lambda>_ _ w. (w + 1, Some TypeError)), detach = None\<rparr>) #
       [(''b'', \<lparr>attach = Some (\<lambda>_ _ w. (10 * w, None)), detach = None\<rparr>)]) None None
       \<lparr>world = 0 :: nat, timers = []\<rparr>) =
   world (attachBehaviors () () [(''b'', \<lparr>attach = Some (\<lambda>_ _ w. (10 * w, None)), detach = None\<rparr>)] None None
       \<lparr>world = 1, timers = []\<rparr>)"
proof -
  let ?b = "\<lparr>attach = Some (\<lambda>_ _ w. (w + 1, Some TypeError)), detach = None\<rparr> :: (unit, unit, nat) behavior"
  have "attach ?b = Some (\<lambda>_ _ w. (w + 1, Some TypeError))" by simp
  from attachBehaviors_isolates_errors [OF this, where doc = "()" and ds = "()" and c = None and s = None
      and bs = "[]" and p = "\<lparr>world = 0, timers = []\<rparr>" and w = 1 and e = TypeError and i = "''a''"
      and bs' = "[(''b'', \<lparr>attach = Some (\<lambda>_ _ w. (10 * w, None)), detach = None\<rparr>)]"]
  show ?thesis by (simp add: attachBehaviors_def)
qed

end
