(* ===== verification/States.thy ===== *)
theory States
  imports Js_Object
begin

text \<open>
  The form states library, \<open>core/misc/states.es6.js\<close>: state names with aliases and negation, the
  constraint language (objects are conjunctions, arrays are disjunctions or exclusive disjunctions),
  dependents that re-evaluate their constraints when a dependee changes, and the triggers that watch
  the dependees.

  A constraint comes from \<open>JSON.parse\<close> or from script, so a leaf is a scalar, a regular expression
  (given by its \<open>test\<close> function) or a comparison function. \<open>verifyConstraints\<close> calls \<open>this.compare\<close>,
  which \<open>getDependees\<close> replaces by a recorder; the model takes it as an argument that may change a
  state \<open>'s\<close>. Constraint objects have no own property \<open>constructor\<close>, and selectors are not names of
  members of \<open>Object.prototype\<close>.
\<close>

section \<open>Three-valued helpers\<close>

definition invert :: "jsval \<Rightarrow> bool \<Rightarrow> jsval" where
  "invert a invertState = (if invertState \<and> a \<noteq> VUndef then VBool (\<not> truthy a) else a)"

definition compare_values :: "jsval \<Rightarrow> jsval \<Rightarrow> jsval" where
  "compare_values a b =
     (if a = b then (if a = VUndef then a else VBool True)
      else VBool (a = VUndef \<or> b = VUndef))"

definition ternary :: "jsval \<Rightarrow> jsval \<Rightarrow> jsval" where
  "ternary a b = (if a = VUndef then b else if b = VUndef then a else js_and a b)"

section \<open>State names\<close>

record state =
  st_pristine :: string
  st_name :: string
  st_invert :: bool

definition State_aliases :: "string jsobj" where
  "State_aliases =
     [(''enabled'', ''!disabled''),
      (''invisible'', ''!visible''),
      (''invalid'', ''!valid''),
      (''untouched'', ''!touched''),
      (''optional'', ''!required''),
      (''filled'', ''!empty''),
      (''unchecked'', ''!checked''),
      (''irrelevant'', ''!relevant''),
      (''expanded'', ''!collapsed''),
      (''open'', ''!collapsed''),
      (''closed'', ''collapsed''),
      (''readwrite'', ''!readonly'')]"

text \<open>
  The names every object inherits: \<open>name in aliases\<close> holds for them too, and what is read there is not
  a string, so the next \<open>charAt\<close> throws.
\<close>

definition object_prototype_keys :: "string list" where
  "object_prototype_keys =
     [''constructor'', ''__defineGetter__'', ''__defineSetter__'', ''hasOwnProperty'',
      ''__lookupGetter__'', ''__lookupSetter__'', ''isPrototypeOf'', ''propertyIsEnumerable'',
      ''toString'', ''valueOf'', ''__proto__'', ''toLocaleString'']"

fun strip_bangs :: "string \<Rightarrow> bool \<Rightarrow> string \<times> bool" where
  "strip_bangs [] iv = ([], iv)"
| "strip_bangs (c # nm) iv = (if c = CHR ''!'' then strip_bangs nm (\<not> iv) else (c # nm, iv))"

lemma aliases_resolve_once:
  "js_get State_aliases nm = Some a \<Longrightarrow> js_get State_aliases (fst (strip_bangs a iv)) = None"
  by (auto simp: State_aliases_def split: if_splits)

lemma fst_strip_bangs: "fst (strip_bangs nm iv) = fst (strip_bangs nm iv')"
  by (induction nm arbitrary: iv iv') auto

text \<open>The \<open>do ... while\<close> of the constructor.\<close>

function normalize_name :: "string \<Rightarrow> bool \<Rightarrow> (string \<times> bool) js" where
  "normalize_name nm iv =
     (case strip_bangs nm iv of
        (nm', iv') \<Rightarrow>
          if nm' \<in> set object_prototype_keys then Inl TypeError
          else (case js_get State_aliases nm' of
                  None \<Rightarrow> Inr (nm', iv')
                | Some a \<Rightarrow> normalize_name a iv'))"
  by pat_completeness auto
termination
proof (relation "measure (\<lambda>(nm, iv). if js_get State_aliases (fst (strip_bangs nm iv)) = None then 0 else 1)",
    goal_cases)
  case (2 nm iv nm' iv' a)
  then have "fst (strip_bangs nm iv) = nm'" by (metis fst_conv)
  with 2 show ?case using aliases_resolve_once [of nm' a iv'] by simp
qed simp

declare normalize_name.simps [simp del]

definition State :: "string \<Rightarrow> state js" where
  "State s =
     (case normalize_name s False of
        Inl e \<Rightarrow> Inl e
      | Inr (nm, iv) \<Rightarrow> Inr \<lparr>st_pristine = s, st_name = nm, st_invert = iv\<rparr>)"

fun State_sanitize :: "state + string \<Rightarrow> state js" where
  "State_sanitize (Inl st) = Inr st"
| "State_sanitize (Inr s) = State s"

section \<open>Constraints\<close>

datatype constraint =
    CVal jsval
  | CRegExp "jsval \<Rightarrow> bool"
  | CFun "jsval \<Rightarrow> jsval"
  | CArr "constraint list"
  | CObj "(string \<times> constraint) list"

fun is_xor :: "constraint \<Rightarrow> bool" where
  "is_xor (CVal v) = (v = VStr ''xor'')"
| "is_xor _ = False"

text \<open>\<open>Dependent.comparisons\<close>, chosen by the constructor name of the reference value.\<close>

fun comparisons :: "constraint \<Rightarrow> jsval \<Rightarrow> jsval js" where
  "comparisons (CVal VUndef) v = Inl TypeError"
| "comparisons (CVal VNull) v = Inl TypeError"
| "comparisons (CVal (VNum n)) v =
     Inr (case v of VStr s \<Rightarrow> compare_values (VStr (int_str n)) v | _ \<Rightarrow> compare_values (VNum n) v)"
| "comparisons (CVal r) v = Inr (compare_values r v)"
| "comparisons (CRegExp p) v = Inr (VBool (p v))"
| "comparisons (CFun f) v = Inr (f v)"
| "comparisons (CArr _) v = Inr (VBool (v = VUndef))"
| "comparisons (CObj _) v = Inr (VBool (v = VUndef))"

type_synonym 's compare_fn = "constraint \<Rightarrow> string \<Rightarrow> state \<Rightarrow> 's \<Rightarrow> (jsval \<times> 's) js"

definition numeric_key :: "string \<Rightarrow> bool" where
  "numeric_key k \<longleftrightarrow> (case k of [] \<Rightarrow> False | c # _ \<Rightarrow> is_digit c)"

text \<open>
  The array index under which an element is checked is a number; \<open>checkConstraints\<close> only tells it from
  a string, so it is \<^term>\<open>None\<close> here.
\<close>

function (sequential)
  verifyConstraints :: "'s compare_fn \<Rightarrow> constraint \<Rightarrow> string option \<Rightarrow> 's \<Rightarrow> (jsval \<times> 's) js"
  and verify_array :: "'s compare_fn \<Rightarrow> bool \<Rightarrow> constraint list \<Rightarrow> string option \<Rightarrow> jsval \<Rightarrow> 's \<Rightarrow> (jsval \<times> 's) js"
  and verify_object :: "'s compare_fn \<Rightarrow> (string \<times> constraint) list \<Rightarrow> string option \<Rightarrow> jsval \<Rightarrow> 's \<Rightarrow> (jsval \<times> 's) js"
  and checkConstraints :: "'s compare_fn \<Rightarrow> constraint \<Rightarrow> string option \<Rightarrow> string option \<Rightarrow> 's \<Rightarrow> (jsval \<times> 's) js"
where
  "verifyConstraints cmp (CArr cs) selector s =
     verify_array cmp (\<not> list_ex is_xor cs) cs selector VUndef s"
| "verifyConstraints cmp (CObj kvs) selector s = verify_object cmp kvs selector VUndef s"
| "verifyConstraints cmp _ selector s = Inr (VUndef, s)"
| "verify_array cmp hasXor [] selector result s = Inr (result, s)"
| "verify_array cmp hasXor (c # cs) selector result s =
     (if is_xor c then verify_array cmp hasXor cs selector result s
      else
        (case checkConstraints cmp c selector None s of
           Inl e \<Rightarrow> Inl e
         | Inr (r, s') \<Rightarrow>
             if truthy r \<and> (hasXor \<or> truthy result) then Inr (VBool hasXor, s')
             else verify_array cmp hasXor cs selector (js_or result r) s'))"
| "verify_object cmp [] selector result s = Inr (result, s)"
| "verify_object cmp ((n, c) # kvs) selector result s =
     (case checkConstraints cmp c selector (Some n) s of
        Inl e \<Rightarrow> Inl e
      | Inr (r, s') \<Rightarrow>
          (let result' = ternary result r in
           if result' = VBool False then Inr (VBool False, s')
           else verify_object cmp kvs selector result' s'))"
| "checkConstraints cmp v selector state s =
     (case state of
        None \<Rightarrow> verifyConstraints cmp v selector s
      | Some k \<Rightarrow>
          if numeric_key k then verifyConstraints cmp v selector s
          else
            (case selector of
               None \<Rightarrow> verifyConstraints cmp v (Some k) s
             | Some sel \<Rightarrow>
                 (case State_sanitize (Inr k) of
                    Inl e \<Rightarrow> Inl e
                  | Inr st \<Rightarrow>
                      (case cmp v sel st s of
                         Inl e \<Rightarrow> Inl e
                       | Inr (r, s') \<Rightarrow> Inr (invert r (st_invert st), s')))))"
  by pat_completeness auto
termination
  by (relation "measure (\<lambda>x. case x of
        Inl (Inl (cmp, c, sel, s)) \<Rightarrow> 2 * size c
      | Inl (Inr (cmp, h, cs, sel, r, s)) \<Rightarrow> 2 * size_list size cs + 1
      | Inr (Inl (cmp, kvs, sel, r, s)) \<Rightarrow> 2 * size_list (size_prod (\<lambda>x. 0) size) kvs + 1
      | Inr (Inr (cmp, c, sel, st, s)) \<Rightarrow> 2 * size c + 1)") 
     (auto simp: size_list_conv_sum_list)

section \<open>Elements and triggers\<close>

text \<open>
  Elements are numbered. \<open>select\<close> is what jQuery finds for a selector (an argument of the operations);
  \<open>data\<close> is jQuery's per-element storage, read from the first element of a set and written to all.
\<close>

record input =
  in_val :: jsval
  in_checked :: bool
  in_open :: bool

record elements =
  inputs :: "nat \<Rightarrow> input"
  data :: "nat \<Rightarrow> string \<Rightarrow> jsval option"

definition data_get :: "elements \<Rightarrow> nat list \<Rightarrow> string \<Rightarrow> jsval" where
  "data_get w els key =
     (case els of [] \<Rightarrow> VUndef | i # _ \<Rightarrow> (case data w i key of None \<Rightarrow> VUndef | Some v \<Rightarrow> v))"

text \<open>\<open>.data(key, undefined)\<close> only reads.\<close>

definition data_set :: "nat list \<Rightarrow> string \<Rightarrow> jsval \<Rightarrow> elements \<Rightarrow> elements" where
  "data_set els key v w =
     (if v = VUndef then w
      else w\<lparr>data := (\<lambda>i. if i \<in> set els then (data w i)(key \<mapsto> v) else data w i)\<rparr>)"

definition jq_val :: "input list \<Rightarrow> jsval" where
  "jq_val ins = (case ins of [] \<Rightarrow> VUndef | i # _ \<Rightarrow> in_val i)"

definition Trigger_empty :: "input list \<Rightarrow> jsval" where
  "Trigger_empty ins = VBool (jq_val ins = VStr [])"

fun Trigger_checked_loop :: "input list \<Rightarrow> bool \<Rightarrow> bool" where
  "Trigger_checked_loop [] checked = checked"
| "Trigger_checked_loop (i # ins) checked =
     (if in_checked i then in_checked i else Trigger_checked_loop ins (in_checked i))"

definition Trigger_checked :: "input list \<Rightarrow> jsval" where
  "Trigger_checked ins = VBool (Trigger_checked_loop ins False)"

definition Trigger_value :: "input list \<Rightarrow> jsval" where
  "Trigger_value ins =
     (if 1 < length ins then js_or (jq_val (filter in_checked ins)) (VBool False) else jq_val ins)"

text \<open>The optional event value is \<open>e.value\<close> when the event carries one.\<close>

definition Trigger_collapsed :: "jsval option \<Rightarrow> input list \<Rightarrow> jsval" where
  "Trigger_collapsed e ins = (case e of Some v \<Rightarrow> v | None \<Rightarrow> VBool (\<not> list_ex in_open ins))"

definition Trigger_states :: "(string \<times> (string \<times> (jsval option \<Rightarrow> input list \<Rightarrow> jsval)) list) list" where
  "Trigger_states =
     [(''empty'', [(''keyup'', \<lambda>e. Trigger_empty)]),
      (''checked'', [(''change'', \<lambda>e. Trigger_checked)]),
      (''value'', [(''keyup'', \<lambda>e. Trigger_value), (''change'', \<lambda>e. Trigger_value)]),
      (''collapsed'', [(''collapsed'', Trigger_collapsed)])]"

text \<open>A listener installed by \<open>defaultTrigger\<close>; \<open>tl_old\<close> is the captured variable \<open>oldValue\<close>.\<close>

record trigger_listener =
  tl_event :: string
  tl_state :: string
  tl_els :: "nat list"
  tl_fn :: "jsval option \<Rightarrow> input list \<Rightarrow> jsval"
  tl_old :: jsval

definition defaultTrigger ::
    "string \<Rightarrow> nat list \<Rightarrow> string \<times> (jsval option \<Rightarrow> input list \<Rightarrow> jsval) \<Rightarrow>
     elements \<times> trigger_listener list \<Rightarrow> elements \<times> trigger_listener list" where
  "defaultTrigger st els ev wl =
     (let oldValue = snd ev None (map (inputs (fst wl)) els)
      in (data_set els (''trigger:'' @ st) oldValue (fst wl),
          snd wl @ [\<lparr>tl_event = fst ev, tl_state = st, tl_els = els, tl_fn = snd ev, tl_old = oldValue\<rparr>]))"

text \<open>The handler \<open>defaultTrigger\<close> attaches: the value of the state event it fires, if it fires one.\<close>

definition trigger_handler ::
    "trigger_listener \<Rightarrow> jsval option \<Rightarrow> elements \<Rightarrow> jsval option \<times> trigger_listener \<times> elements" where
  "trigger_handler trg e w =
     (let value = tl_fn trg e (map (inputs w) (tl_els trg))
      in if tl_old trg \<noteq> value
         then (Some value, trg\<lparr>tl_old := value\<rparr>, data_set (tl_els trg) (''trigger:'' @ tl_state trg) value w)
         else (None, trg, w))"

text \<open>\<open>new states.Trigger\<close> with \<open>initialize\<close>: nothing happens when the element already carries the data.\<close>

definition Trigger :: "nat list \<Rightarrow> string \<Rightarrow> elements \<times> trigger_listener list \<Rightarrow> elements \<times> trigger_listener list" where
  "Trigger els st wl =
     (case map_of Trigger_states st of
        None \<Rightarrow> wl
      | Some evs \<Rightarrow>
          if data_get (fst wl) els (''trigger:'' @ st) = VUndef
          then fold (defaultTrigger st els) evs wl
          else wl)"

section \<open>Dependents\<close>

record dependent =
  dep_constraints :: constraint
  dep_state :: state
  dep_values :: "jsval jsobj jsobj"
  dep_oldValue :: jsval
  dep_events :: "jsval list"
  dep_bound :: "(string \<times> string) list"

definition Dependent_compare :: "jsval jsobj jsobj \<Rightarrow> unit compare_fn" where
  "Dependent_compare values reference selector st u =
     (case js_get values selector of
        None \<Rightarrow> Inl TypeError
      | Some vs \<Rightarrow>
          (case comparisons reference (case js_get vs (st_name st) of None \<Rightarrow> VUndef | Some v \<Rightarrow> v) of
             Inl e \<Rightarrow> Inl e
           | Inr r \<Rightarrow> Inr (r, u)))"

definition reevaluate :: "dependent \<Rightarrow> dependent js" where
  "reevaluate d =
     (case verifyConstraints (Dependent_compare (dep_values d)) (dep_constraints d) None () of
        Inl e \<Rightarrow> Inl e
      | Inr (value, _) \<Rightarrow>
          if value \<noteq> dep_oldValue d
          then Inr (d\<lparr>dep_oldValue := value,
                      dep_events := dep_events d @ [invert value (st_invert (dep_state d))]\<rparr>)
          else Inr d)"

definition Dependent_update :: "string \<Rightarrow> string \<Rightarrow> jsval \<Rightarrow> dependent \<Rightarrow> dependent js" where
  "Dependent_update selector nm value d =
     (case js_get (dep_values d) selector of
        None \<Rightarrow> Inl TypeError
      | Some vs \<Rightarrow>
          if value \<noteq> (case js_get vs nm of None \<Rightarrow> VUndef | Some v \<Rightarrow> v)
          then reevaluate (d\<lparr>dep_values := js_put selector (js_put nm value vs) (dep_values d)\<rparr>)
          else Inr d)"

text \<open>\<open>getDependees\<close>: the compare function records the pair it is asked for and returns \<open>undefined\<close>.\<close>

definition record_compare :: "string list jsobj compare_fn" where
  "record_compare reference selector st cache =
     Inr (VUndef,
          js_put selector ((case js_get cache selector of None \<Rightarrow> [] | Some ns \<Rightarrow> ns) @ [st_name st]) cache)"

definition getDependees :: "constraint \<Rightarrow> string list jsobj js" where
  "getDependees constraints =
     (case verifyConstraints record_compare constraints None [] of
        Inl e \<Rightarrow> Inl e
      | Inr (_, cache) \<Rightarrow> Inr cache)"

record page_state =
  ps_elements :: elements
  ps_listeners :: "trigger_listener list"

text \<open>One turn of the loop of \<open>initializeDependee\<close>.\<close>

definition initialize_state ::
    "(string \<Rightarrow> nat list) \<Rightarrow> string \<Rightarrow> string list \<Rightarrow> string \<Rightarrow> dependent \<times> page_state \<Rightarrow> (dependent \<times> page_state) js" where
  "initialize_state select selector dependeeStates s dp =
     (if s \<notin> set dependeeStates then Inr dp
      else
        (case State_sanitize (Inr s) of
           Inl e \<Rightarrow> Inl e
         | Inr st \<Rightarrow>
             (let d = fst dp; p = snd dp;
                  vs = (case js_get (dep_values d) selector of None \<Rightarrow> [] | Some vs \<Rightarrow> vs);
                  vs1 = js_put (st_name st) VNull vs;
                  (w, ls) = Trigger (select selector) (st_name st) (ps_elements p, ps_listeners p);
                  dv = data_get w (select selector) (''trigger:'' @ st_name st);
                  vs2 = (if dv \<noteq> VUndef then js_put (st_name st) dv vs1 else vs1)
              in Inr (d\<lparr>dep_values := js_put selector vs2 (dep_values d),
                        dep_bound := dep_bound d @ [(selector, st_name st)]\<rparr>,
                      p\<lparr>ps_elements := w, ps_listeners := ls\<rparr>))))"

fun initialize_states ::
    "(string \<Rightarrow> nat list) \<Rightarrow> string \<Rightarrow> string list \<Rightarrow> string list \<Rightarrow> dependent \<times> page_state \<Rightarrow> (dependent \<times> page_state) js" where
  "initialize_states select selector all [] dp = Inr dp"
| "initialize_states select selector all (s # ss) dp =
     (case initialize_state select selector all s dp of
        Inl e \<Rightarrow> Inl e
      | Inr dp' \<Rightarrow> initialize_states select selector all ss dp')"

definition initializeDependee ::
    "(string \<Rightarrow> nat list) \<Rightarrow> string \<Rightarrow> string list \<Rightarrow> dependent \<times> page_state \<Rightarrow> (dependent \<times> page_state) js" where
  "initializeDependee select selector dependeeStates dp =
     initialize_states select selector dependeeStates dependeeStates
       ((fst dp)\<lparr>dep_values := js_put selector [] (dep_values (fst dp))\<rparr>, snd dp)"

fun initialize_dependees ::
    "(string \<Rightarrow> nat list) \<Rightarrow> (string \<times> string list) list \<Rightarrow> dependent \<times> page_state \<Rightarrow> (dependent \<times> page_state) js" where
  "initialize_dependees select [] dp = Inr dp"
| "initialize_dependees select ((selector, ss) # rest) dp =
     (case initializeDependee select selector ss dp of
        Inl e \<Rightarrow> Inl e
      | Inr dp' \<Rightarrow> initialize_dependees select rest dp')"

definition Dependent ::
    "(string \<Rightarrow> nat list) \<Rightarrow> state \<Rightarrow> constraint \<Rightarrow> page_state \<Rightarrow> (dependent \<times> page_state) js" where
  "Dependent select st constraints p =
     (case getDependees constraints of
        Inl e \<Rightarrow> Inl e
      | Inr dependees \<Rightarrow>
          (case initialize_dependees select dependees
                  (\<lparr>dep_constraints = constraints, dep_state = st, dep_values = [], dep_oldValue = VNull,
                    dep_events = [], dep_bound = []\<rparr>, p) of
             Inl e \<Rightarrow> Inl e
           | Inr (d, p') \<Rightarrow>
               (case reevaluate d of Inl e \<Rightarrow> Inl e | Inr d' \<Rightarrow> Inr (d', p'))))"

text \<open>The attach behavior: one dependent per state of the element's \<open>data-drupal-states\<close>.\<close>

fun states_attach ::
    "(string \<Rightarrow> nat list) \<Rightarrow> (string \<times> constraint) list \<Rightarrow> dependent list \<times> page_state \<Rightarrow> (dependent list \<times> page_state) js" where
  "states_attach select [] dsp = Inr dsp"
| "states_attach select ((state, constraints) # config) dsp =
     (case State_sanitize (Inr state) of
        Inl e \<Rightarrow> Inl e
      | Inr st \<Rightarrow>
          (case Dependent select st constraints (snd dsp) of
             Inl e \<Rightarrow> Inl e
           | Inr (d, p) \<Rightarrow> states_attach select config (fst dsp @ [d], p)))"

section \<open>Normal forms of state names\<close>

lemma strip_bangs_head: "fst (strip_bangs nm iv) = c # r \<Longrightarrow> c \<noteq> CHR ''!''"
  by (induction nm iv rule: strip_bangs.induct) (auto split: if_splits)

lemma strip_bangs_normal: "fst (strip_bangs nm iv) = nm' \<Longrightarrow> strip_bangs nm' jv = (nm', jv)"
  using strip_bangs_head [of nm iv] by (cases nm') auto

lemma normalize_bang: "normalize_name (CHR ''!'' # nm) iv = normalize_name nm (\<not> iv)"
  by (subst (1 2) normalize_name.simps) simp

lemma strip_bangs_flip:
  "strip_bangs nm (\<not> iv) = (fst (strip_bangs nm iv), \<not> snd (strip_bangs nm iv))"
  by (induction nm iv rule: strip_bangs.induct) auto

lemma normalize_flip:
  "normalize_name nm (\<not> iv) = map_sum id (\<lambda>(n, i). (n, \<not> i)) (normalize_name nm iv)"
proof (induction nm iv rule: normalize_name.induct)
  case (1 nm iv)
  obtain nm' iv' where st: "strip_bangs nm iv = (nm', iv')" by (cases "strip_bangs nm iv")
  then have "strip_bangs nm (\<not> iv) = (nm', \<not> iv')" by (simp add: strip_bangs_flip)
  with st 1 show ?case
    by (subst (1 2) normalize_name.simps) (simp add: id_def split: option.split)
qed

lemma normalize_normal:
  "normalize_name nm iv = Inr (n, i) \<Longrightarrow>
   n \<notin> set object_prototype_keys \<and> js_get State_aliases n = None \<and> strip_bangs n j = (n, j)"
proof (induction nm iv rule: normalize_name.induct)
  case (1 nm iv)
  obtain nm' iv' where st: "strip_bangs nm iv = (nm', iv')" by (cases "strip_bangs nm iv")
  show ?case
  proof (cases "js_get State_aliases nm'")
    case None
    with st 1 have "n = nm' \<and> n \<notin> set object_prototype_keys"
      by (subst (asm) normalize_name.simps) (simp split: if_splits)
    with None st strip_bangs_normal [of nm iv nm' j] show ?thesis by auto
  next
    case (Some a)
    with st "1.prems" have "nm' \<notin> set object_prototype_keys \<and> normalize_name a iv' = Inr (n, i)"
      by (subst (asm) normalize_name.simps) (simp split: if_splits)
    with Some st "1.IH" show ?thesis by auto
  qed
qed

lemma normalize_idem: "normalize_name nm iv = Inr (n, i) \<Longrightarrow> normalize_name n j = Inr (n, j)"
  using normalize_normal [of nm iv n i j] by (subst normalize_name.simps) auto

lemma State_name_normal:
  "State s = Inr st \<Longrightarrow> State (st_name st) = Inr \<lparr>st_pristine = st_name st, st_name = st_name st, st_invert = False\<rparr>"
  by (auto simp: State_def normalize_idem split: sum.splits)

lemma alias_targets_plain:
  "js_get State_aliases nm = Some a \<Longrightarrow> fst (strip_bangs a iv) \<notin> set object_prototype_keys"
  by (auto simp: State_aliases_def object_prototype_keys_def split: if_splits)

lemma normalize_total:
  "fst (strip_bangs nm iv) \<notin> set object_prototype_keys \<Longrightarrow> \<exists>n i. normalize_name nm iv = Inr (n, i)"
proof (induction nm iv rule: normalize_name.induct)
  case (1 nm iv)
  obtain nm' iv' where st: "strip_bangs nm iv = (nm', iv')" by (cases "strip_bangs nm iv")
  show ?case
  proof (cases "js_get State_aliases nm'")
    case None
    with st "1.prems" show ?thesis by (subst normalize_name.simps) simp
  next
    case (Some a)
    with st 1 have "\<exists>n i. normalize_name a iv' = Inr (n, i)" by (auto simp: alias_targets_plain)
    with Some st "1.prems" show ?thesis by (subst normalize_name.simps) simp
  qed
qed

section \<open>What the constraints mean\<close>

definition bool3 :: "jsval \<Rightarrow> bool" where
  "bool3 v = (case v of VUndef \<Rightarrow> True | VBool _ \<Rightarrow> True | _ \<Rightarrow> False)"

definition or_value :: "jsval list \<Rightarrow> jsval" where
  "or_value rs = (if list_ex truthy rs then VBool True else last (VUndef # rs))"

definition xor_value :: "jsval list \<Rightarrow> jsval" where
  "xor_value rs =
     (if length (filter truthy rs) = 0 then last (VUndef # rs)
      else VBool (length (filter truthy rs) = 1))"

definition and_value :: "jsval list \<Rightarrow> jsval" where
  "and_value rs =
     (if VBool False \<in> set rs then VBool False else if VBool True \<in> set rs then VBool True else VUndef)"

text \<open>
  The value of a constraint over the values of its leaves: no early exits, no order of evaluation. A
  leaf is a reference value under a selector and a state key.
\<close>

fun eval_constraint :: "(constraint \<Rightarrow> string \<Rightarrow> string \<Rightarrow> jsval) \<Rightarrow> constraint \<Rightarrow> string option \<Rightarrow> jsval" where
  "eval_constraint leaf (CArr cs) sel =
     (let rs = map (\<lambda>c. eval_constraint leaf c sel) (filter (\<lambda>c. \<not> is_xor c) cs)
      in if list_ex is_xor cs then xor_value rs else or_value rs)"
| "eval_constraint leaf (CObj kvs) sel =
     and_value (map (\<lambda>kc. if numeric_key (fst kc) then eval_constraint leaf (snd kc) sel
                          else case sel of None \<Rightarrow> eval_constraint leaf (snd kc) (Some (fst kc))
                                         | Some x \<Rightarrow> leaf (snd kc) x (fst kc)) kvs)"
| "eval_constraint leaf _ sel = VUndef"

fun leaves_ok :: "(constraint \<Rightarrow> string \<Rightarrow> string \<Rightarrow> bool) \<Rightarrow> constraint \<Rightarrow> string option \<Rightarrow> bool" where
  "leaves_ok P (CArr cs) sel = list_all (\<lambda>c. leaves_ok P c sel) cs"
| "leaves_ok P (CObj kvs) sel =
     list_all (\<lambda>kc. if numeric_key (fst kc) then leaves_ok P (snd kc) sel
                    else case sel of None \<Rightarrow> leaves_ok P (snd kc) (Some (fst kc))
                                   | Some x \<Rightarrow> P (snd kc) x (fst kc)) kvs"
| "leaves_ok P _ sel = True"

lemma leaves_ok_mono:
  "leaves_ok P c sel \<Longrightarrow> (\<And>v x k. P v x k \<Longrightarrow> Q v x k) \<Longrightarrow> leaves_ok Q c sel"
proof (induction P c sel rule: leaves_ok.induct)
  case (2 P kvs sel)
  then show ?case
    by (fastforce simp: list_all_iff split: option.splits if_splits)
qed (auto simp: list_all_iff)

lemma leaves_ok_conj:
  "leaves_ok P c sel \<Longrightarrow> leaves_ok Q c sel \<Longrightarrow> leaves_ok (\<lambda>v x k. P v x k \<and> Q v x k) c sel"
proof (induction P c sel rule: leaves_ok.induct)
  case (2 P kvs sel)
  then show ?case
    by (fastforce simp: list_all_iff split: option.splits if_splits)
qed (auto simp: list_all_iff)

lemma bool3_cases: "bool3 v \<longleftrightarrow> v = VUndef \<or> v = VBool True \<or> v = VBool False"
  by (auto simp: bool3_def split: jsval.splits)

lemma bool3_simps [simp]: "bool3 VUndef" "bool3 (VBool b)"
  by (simp_all add: bool3_def)

lemma bool3_truthy: "bool3 v \<Longrightarrow> truthy v \<longleftrightarrow> v = VBool True"
  by (auto simp: bool3_cases)

lemma bool3_invert [simp]: "bool3 v \<Longrightarrow> bool3 (invert v i)"
  by (simp add: invert_def)

lemma bool3_or_value: "list_all bool3 rs \<Longrightarrow> bool3 (or_value rs)"
  by (cases rs rule: rev_cases) (auto simp: or_value_def)

lemma bool3_xor_value: "list_all bool3 rs \<Longrightarrow> bool3 (xor_value rs)"
  by (cases rs rule: rev_cases) (auto simp: xor_value_def)

lemma bool3_and_value: "bool3 (and_value rs)"
  by (simp add: and_value_def)

text \<open>The two loops over already evaluated elements.\<close>

fun array_loop :: "bool \<Rightarrow> jsval list \<Rightarrow> jsval \<Rightarrow> jsval" where
  "array_loop hasXor [] result = result"
| "array_loop hasXor (r # rs) result =
     (if truthy r \<and> (hasXor \<or> truthy result) then VBool hasXor else array_loop hasXor rs (js_or result r))"

fun object_loop :: "jsval list \<Rightarrow> jsval \<Rightarrow> jsval" where
  "object_loop [] result = result"
| "object_loop (r # rs) result =
     (if ternary result r = VBool False then VBool False else object_loop rs (ternary result r))"

lemma array_loop_or:
  "\<not> truthy result \<Longrightarrow> array_loop True rs result = (if list_ex truthy rs then VBool True else last (result # rs))"
  by (induction rs arbitrary: result) (auto simp: js_or_def)

lemma array_loop_xor_one:
  "result = VBool True \<Longrightarrow> array_loop False rs result = VBool (\<not> list_ex truthy rs)"
  by (induction rs arbitrary: result) (auto simp: js_or_def)

lemma array_loop_xor:
  "\<not> truthy result \<Longrightarrow> list_all bool3 rs \<Longrightarrow>
   array_loop False rs result =
     (if length (filter truthy rs) = 0 then last (result # rs) else VBool (length (filter truthy rs) = 1))"
proof (induction rs arbitrary: result)
  case (Cons r rs)
  then show ?case
    by (cases "truthy r") (auto simp: js_or_def bool3_truthy array_loop_xor_one list_ex_iff filter_empty_conv)
qed simp

lemma object_loop_and:
  "bool3 result \<Longrightarrow> result \<noteq> VBool False \<Longrightarrow> list_all bool3 rs \<Longrightarrow>
   object_loop rs result = and_value (result # rs)"
proof (induction rs arbitrary: result)
  case Nil
  then show ?case by (auto simp: and_value_def bool3_cases)
next
  case (Cons r rs)
  then have r: "r = VUndef \<or> r = VBool True \<or> r = VBool False"
    and res: "result = VUndef \<or> result = VBool True"
    by (auto simp: bool3_cases)
  show ?case
  proof (cases "r = VBool False")
    case True
    with res show ?thesis by (auto simp: ternary_def js_and_def and_value_def)
  next
    case False
    with r res have tr: "bool3 (ternary result r)" "ternary result r \<noteq> VBool False"
      by (auto simp: ternary_def js_and_def)
    with Cons have "object_loop (r # rs) result = and_value (ternary result r # rs)" by simp
    also have "\<dots> = and_value (result # r # rs)"
      using r res False by (auto simp: ternary_def js_and_def and_value_def)
    finally show ?thesis .
  qed
qed

lemma array_loop_bool3:
  "list_all bool3 rs \<Longrightarrow> array_loop hasXor rs VUndef = (if hasXor then or_value rs else xor_value rs)"
  by (cases hasXor) (simp_all add: array_loop_or array_loop_xor or_value_def xor_value_def)

lemma object_loop_bool3: "list_all bool3 rs \<Longrightarrow> object_loop rs VUndef = and_value rs"
  by (simp add: object_loop_and) (simp add: and_value_def)

section \<open>The evaluator computes the meaning\<close>

locale leaf_semantics =
  fixes cmp :: "'s compare_fn"
    and leaf :: "constraint \<Rightarrow> string \<Rightarrow> string \<Rightarrow> jsval"
    and good :: "constraint \<Rightarrow> string \<Rightarrow> string \<Rightarrow> bool"
  assumes leaf_value: "good v x k \<Longrightarrow>
      \<exists>st r. State k = Inr st \<and> cmp v x st s = Inr (r, s) \<and> leaf v x k = invert r (st_invert st)"
    and leaf_bool3: "good v x k \<Longrightarrow> bool3 (leaf v x k)"
begin

lemma eval_bool3: "leaves_ok good c sel \<Longrightarrow> bool3 (eval_constraint leaf c sel)"
proof (induction c arbitrary: sel)
  case (CArr cs)
  then have "list_all bool3 (map (\<lambda>c. eval_constraint leaf c sel) (filter (\<lambda>c. \<not> is_xor c) cs))"
    by (auto simp: list_all_iff)
  then show ?case by (simp add: Let_def bool3_or_value bool3_xor_value)
qed (auto simp: bool3_and_value)

lemma check_leaf:
  "good v x k \<Longrightarrow> \<not> numeric_key k \<Longrightarrow> checkConstraints cmp v (Some x) (Some k) s = Inr (leaf v x k, s)"
  using leaf_value [of v x k s] by auto

lemma verify_array_loop:
  assumes "\<And>c s. c \<in> set cs \<Longrightarrow> verifyConstraints cmp c sel s = Inr (f c, s)"
  shows "verify_array cmp h cs sel result s =
      Inr (array_loop h (map f (filter (\<lambda>c. \<not> is_xor c) cs)) result, s)"
  using assms by (induction cs arbitrary: result) auto

lemma verify_object_loop:
  assumes "\<And>k c s. (k, c) \<in> set kvs \<Longrightarrow> checkConstraints cmp c sel (Some k) s = Inr (f (k, c), s)"
  shows "verify_object cmp kvs sel result s = Inr (object_loop (map f kvs) result, s)"
  using assms by (induction kvs arbitrary: result) (auto simp: Let_def simp del: checkConstraints.simps)

theorem verify_eval:
  "leaves_ok good c sel \<Longrightarrow> verifyConstraints cmp c sel s = Inr (eval_constraint leaf c sel, s)"
proof (induction c arbitrary: sel s)
  case (CArr cs)
  let ?f = "\<lambda>c. eval_constraint leaf c sel"
  have "verifyConstraints cmp c sel s = Inr (?f c, s)" if "c \<in> set cs" for c s
    using CArr that by (auto simp: list_all_iff)
  then have "verifyConstraints cmp (CArr cs) sel s =
      Inr (array_loop (\<not> list_ex is_xor cs) (map ?f (filter (\<lambda>c. \<not> is_xor c) cs)) VUndef, s)"
    by (simp add: verify_array_loop [where f = ?f])
  moreover have "list_all bool3 (map ?f (filter (\<lambda>c. \<not> is_xor c) cs))"
    using CArr.prems by (auto simp: list_all_iff eval_bool3)
  ultimately show ?case by (simp add: array_loop_bool3 Let_def)
next
  case (CObj kvs)
  let ?f = "\<lambda>kc. if numeric_key (fst kc) then eval_constraint leaf (snd kc) sel
                 else case sel of None \<Rightarrow> eval_constraint leaf (snd kc) (Some (fst kc))
                                | Some x \<Rightarrow> leaf (snd kc) x (fst kc)"
  have "checkConstraints cmp c sel (Some k) s = Inr (?f (k, c), s) \<and> bool3 (?f (k, c))"
    if kc: "(k, c) \<in> set kvs" for k c s
  proof (cases "numeric_key k \<or> sel = None")
    case True
    let ?sel = "if numeric_key k then sel else Some k"
    have "leaves_ok good c ?sel"
      using CObj.prems kc True by (fastforce simp: list_all_iff)
    moreover from this have "verifyConstraints cmp c ?sel s = Inr (eval_constraint leaf c ?sel, s)"
      using CObj.IH kc by fastforce
    ultimately show ?thesis using True eval_bool3 [of c ?sel] by auto
  next
    case False
    then obtain x where x: "sel = Some x" "\<not> numeric_key k" by auto
    with CObj.prems kc have "good c x k" by (fastforce simp: list_all_iff)
    with x show ?thesis using check_leaf [of c x k s] leaf_bool3 [of c x k] by simp
  qed
  note each = this
  have "verify_object cmp kvs sel VUndef s = Inr (object_loop (map ?f kvs) VUndef, s)"
    by (rule verify_object_loop) (use each in blast)
  moreover have "list_all bool3 (map ?f kvs)"
    using each by (simp only: list_all_iff set_map) fast
  ultimately show ?case by (simp add: object_loop_bool3)
qed simp_all

end

fun reference_ok :: "constraint \<Rightarrow> bool" where
  "reference_ok (CVal VUndef) = False"
| "reference_ok (CVal VNull) = False"
| "reference_ok (CFun f) = False"
| "reference_ok _ = True"

definition stored :: "jsval jsobj jsobj \<Rightarrow> string \<Rightarrow> string \<Rightarrow> jsval" where
  "stored values x nm =
     (case js_get values x of
        None \<Rightarrow> VUndef
      | Some vs \<Rightarrow> (case js_get vs nm of None \<Rightarrow> VUndef | Some v \<Rightarrow> v))"

text \<open>The value of one leaf: the stored value of the dependee compared with the reference.\<close>

definition leaf_of :: "jsval jsobj jsobj \<Rightarrow> constraint \<Rightarrow> string \<Rightarrow> string \<Rightarrow> jsval" where
  "leaf_of values v x k =
     (case State k of
        Inl e \<Rightarrow> VUndef
      | Inr st \<Rightarrow>
          invert (case comparisons v (stored values x (st_name st)) of Inl e \<Rightarrow> VUndef | Inr r \<Rightarrow> r)
            (st_invert st))"

definition good_leaf :: "jsval jsobj jsobj \<Rightarrow> constraint \<Rightarrow> string \<Rightarrow> string \<Rightarrow> bool" where
  "good_leaf values v x k \<longleftrightarrow> (\<exists>st. State k = Inr st) \<and> js_has values x \<and> reference_ok v"

lemma comparisons_ok: "reference_ok v \<Longrightarrow> \<exists>r. comparisons v a = Inr r \<and> bool3 r"
  by (cases "(v, a)" rule: comparisons.cases) (auto simp: compare_values_def split: jsval.split)

interpretation dep: leaf_semantics "Dependent_compare vals" "leaf_of vals" "good_leaf vals" for vals
proof
  fix v x k and s :: unit
  assume good: "good_leaf vals v x k"
  then obtain st vs r where "State k = Inr st" "js_get vals x = Some vs"
    "comparisons v (stored vals x (st_name st)) = Inr r" "bool3 r"
    using comparisons_ok [of v] by (fastforce simp: good_leaf_def js_has_get)
  then show "\<exists>st r. State k = Inr st \<and> Dependent_compare vals v x st s = Inr (r, s) \<and>
      leaf_of vals v x k = invert r (st_invert st)"
    and "bool3 (leaf_of vals v x k)"
    by (auto simp: Dependent_compare_def leaf_of_def stored_def)
qed

section \<open>The recording pass visits every leaf\<close>

definition normal_name :: "string \<Rightarrow> bool" where
  "normal_name n \<longleftrightarrow> State n = Inr \<lparr>st_pristine = n, st_name = n, st_invert = False\<rparr>"

definition cache_normal :: "string list jsobj \<Rightarrow> bool" where
  "cache_normal cache \<longleftrightarrow> (\<forall>x ns. js_get cache x = Some ns \<longrightarrow> list_all normal_name ns)"

definition cache_le :: "string list jsobj \<Rightarrow> string list jsobj \<Rightarrow> bool" where
  "cache_le a b \<longleftrightarrow>
     (\<forall>x. js_has a x \<longrightarrow> js_has b x) \<and> (cache_normal a \<longrightarrow> cache_normal b) \<and> (js_wf a \<longrightarrow> js_wf b)"

definition recorded :: "string list jsobj \<Rightarrow> constraint \<Rightarrow> string \<Rightarrow> string \<Rightarrow> bool" where
  "recorded cache v x k \<longleftrightarrow> js_has cache x \<and> (\<exists>st. State k = Inr st)"

lemma cache_le_refl [simp]: "cache_le a a"
  by (simp add: cache_le_def)

lemma cache_le_trans [trans]: "cache_le a b \<Longrightarrow> cache_le b c \<Longrightarrow> cache_le a c"
  by (auto simp: cache_le_def)

lemma recorded_mono: "leaves_ok (recorded a) c sel \<Longrightarrow> cache_le a b \<Longrightarrow> leaves_ok (recorded b) c sel"
  by (erule leaves_ok_mono) (auto simp: recorded_def cache_le_def)

lemma record_compare_le:
  assumes "record_compare v x st s = Inr (r, s')" and "State k = Inr st"
  shows "r = VUndef \<and> cache_le s s' \<and> recorded s' v x k"
proof -
  have "normal_name (st_name st)" using State_name_normal [OF assms(2)] by (simp add: normal_name_def)
  with assms show ?thesis
    by (auto simp: record_compare_def cache_le_def recorded_def cache_normal_def split: option.splits if_splits)
qed

text \<open>What one verified part of a constraint promises about the cache before and after.\<close>

definition records :: "constraint \<Rightarrow> string option \<Rightarrow> bool" where
  "records c sel \<longleftrightarrow>
     (\<forall>s v s'. verifyConstraints record_compare c sel s = Inr (v, s') \<longrightarrow>
        v = VUndef \<and> cache_le s s' \<and> leaves_ok (recorded s') c sel)"

lemma verify_array_records:
  assumes "\<And>c. c \<in> set cs \<Longrightarrow> records c sel"
    and "verify_array record_compare h cs sel VUndef s = Inr (v, s')"
  shows "v = VUndef \<and> cache_le s s' \<and> list_all (\<lambda>c. leaves_ok (recorded s') c sel) cs"
  using assms
proof (induction cs arbitrary: s)
  case (Cons c cs)
  show ?case
  proof (cases "is_xor c")
    case True
    then have "leaves_ok P c sel" for P by (cases c) auto
    with True Cons show ?thesis by simp
  next
    case False
    with Cons.prems(2) obtain r s1 where s1: "verifyConstraints record_compare c sel s = Inr (r, s1)"
      by (auto split: sum.splits)
    with Cons.prems(1) [of c] have r: "r = VUndef" "cache_le s s1" "leaves_ok (recorded s1) c sel"
      by (auto simp: records_def)
    with False s1 Cons.prems(2) have "verify_array record_compare h cs sel VUndef s1 = Inr (v, s')"
      by (simp add: js_or_def)
    with Cons.IH Cons.prems(1)
    have "v = VUndef \<and> cache_le s1 s' \<and> list_all (\<lambda>c. leaves_ok (recorded s') c sel) cs" by auto
    with r show ?thesis by (auto intro: cache_le_trans recorded_mono)
  qed
qed simp

abbreviation child_ok :: "(constraint \<Rightarrow> string \<Rightarrow> string \<Rightarrow> bool) \<Rightarrow> string option \<Rightarrow> string \<times> constraint \<Rightarrow> bool" where
  "child_ok P sel kc \<equiv>
     (if numeric_key (fst kc) then leaves_ok P (snd kc) sel
      else case sel of None \<Rightarrow> leaves_ok P (snd kc) (Some (fst kc)) | Some x \<Rightarrow> P (snd kc) x (fst kc))"

lemma check_records:
  assumes "\<And>sel. records c sel" and "checkConstraints record_compare c sel (Some k) s = Inr (v, s')"
  shows "v = VUndef \<and> cache_le s s' \<and> child_ok (recorded s') sel (k, c)"
proof (cases "numeric_key k \<or> sel = None")
  case True
  with assms show ?thesis by (auto simp: records_def split: if_splits)
next
  case False
  then obtain x where x: "sel = Some x" "\<not> numeric_key k" by auto
  with assms(2) obtain st r where st: "State k = Inr st" "record_compare c x st s = Inr (r, s')"
    "v = invert r (st_invert st)"
    by (auto split: sum.splits)
  with record_compare_le [OF st(2,1)] x show ?thesis by (simp add: invert_def)
qed

lemma verify_object_records:
  assumes "\<And>k c sel. (k, c) \<in> set kvs \<Longrightarrow> records c sel"
    and "verify_object record_compare kvs sel VUndef s = Inr (v, s')"
  shows "v = VUndef \<and> cache_le s s' \<and> list_all (child_ok (recorded s') sel) kvs"
  using assms
proof (induction kvs arbitrary: s)
  case (Cons kc kvs)
  obtain k c where kc: "kc = (k, c)" by (cases kc)
  with Cons.prems(2) obtain r s1 where s1: "checkConstraints record_compare c sel (Some k) s = Inr (r, s1)"
    by (auto split: sum.splits simp del: checkConstraints.simps)
  have r: "r = VUndef \<and> cache_le s s1 \<and> child_ok (recorded s1) sel (k, c)"
    by (rule check_records [OF _ s1]) (use Cons.prems(1) kc in auto)
  with s1 kc Cons.prems(2) have "verify_object record_compare kvs sel VUndef s1 = Inr (v, s')"
    by (simp add: ternary_def del: checkConstraints.simps)
  from Cons.IH [OF _ this] Cons.prems(1)
  have "v = VUndef \<and> cache_le s1 s' \<and> list_all (child_ok (recorded s') sel) kvs"
    by (meson list.set_intros(2))
  moreover from this r have "child_ok (recorded s') sel (k, c)"
    by (auto intro: recorded_mono simp: recorded_def cache_le_def split: option.splits if_splits)
  ultimately show ?case using r kc cache_le_trans [of s s1 s'] by simp
qed simp

lemma records_all: "records c sel"
proof (induction c arbitrary: sel)
  case (CArr cs)
  show ?case
    unfolding records_def
  proof (intro allI impI)
    fix s v s' assume "verifyConstraints record_compare (CArr cs) sel s = Inr (v, s')"
    then have "verify_array record_compare (\<not> list_ex is_xor cs) cs sel VUndef s = Inr (v, s')" by simp
    from verify_array_records [OF CArr this]
    show "v = VUndef \<and> cache_le s s' \<and> leaves_ok (recorded s') (CArr cs) sel" by simp
  qed
next
  case (CObj kvs)
  have part: "records c sel'" if "(k, c) \<in> set kvs" for k c sel'
    using CObj [of "(k, c)" c sel'] that by simp
  show ?case
    unfolding records_def
  proof (intro allI impI)
    fix s v s' assume "verifyConstraints record_compare (CObj kvs) sel s = Inr (v, s')"
    then have "verify_object record_compare kvs sel VUndef s = Inr (v, s')" by simp
    from verify_object_records [OF part this]
    show "v = VUndef \<and> cache_le s s' \<and> leaves_ok (recorded s') (CObj kvs) sel" by simp
  qed
qed (auto simp: records_def)

lemma getDependees_records:
  assumes "getDependees c = Inr deps"
  shows "cache_normal deps" and "leaves_ok (recorded deps) c None" and "js_wf deps"
proof -
  from assms obtain v where "verifyConstraints record_compare c None [] = Inr (v, deps)"
    by (auto simp: getDependees_def split: sum.splits)
  with records_all [of c None] have "cache_le [] deps" "leaves_ok (recorded deps) c None"
    by (auto simp: records_def)
  then show "cache_normal deps" "leaves_ok (recorded deps) c None" "js_wf deps"
    by (simp_all add: cache_le_def cache_normal_def)
qed

section \<open>The life of a dependent\<close>

definition covered :: "dependent \<Rightarrow> bool" where
  "covered d \<longleftrightarrow> leaves_ok (good_leaf (dep_values d)) (dep_constraints d) None"

definition meaning :: "dependent \<Rightarrow> jsval" where
  "meaning d = eval_constraint (leaf_of (dep_values d)) (dep_constraints d) None"

definition last_event :: "dependent \<Rightarrow> jsval" where
  "last_event d = invert (meaning d) (st_invert (dep_state d))"

lemma meaning_bool3: "covered d \<Longrightarrow> bool3 (meaning d)"
  unfolding covered_def meaning_def by (rule dep.eval_bool3)

lemma invert_inject: "bool3 a \<Longrightarrow> bool3 b \<Longrightarrow> invert a i = invert b i \<longleftrightarrow> a = b"
  by (auto simp: bool3_cases invert_def)

lemma reevaluate_eq:
  assumes "covered d"
  shows "reevaluate d =
    (if meaning d \<noteq> dep_oldValue d
     then Inr (d\<lparr>dep_oldValue := meaning d, dep_events := dep_events d @ [last_event d]\<rparr>) else Inr d)"
  using dep.verify_eval [of "dep_values d" "dep_constraints d" None "()"] assms
  by (simp add: reevaluate_def covered_def meaning_def last_event_def)

lemma covered_mono:
  assumes "covered d" and "\<And>x. js_has (dep_values d) x \<Longrightarrow> js_has (dep_values d') x"
    and "dep_constraints d' = dep_constraints d"
  shows "covered d'"
  using assms unfolding covered_def by (auto elim!: leaves_ok_mono simp: good_leaf_def)

definition same_core :: "dependent \<Rightarrow> dependent \<Rightarrow> bool" where
  "same_core d d' \<longleftrightarrow>
     dep_constraints d' = dep_constraints d \<and> dep_state d' = dep_state d \<and>
     dep_oldValue d' = dep_oldValue d \<and> dep_events d' = dep_events d"

lemma same_core_trans: "same_core a b \<Longrightarrow> same_core b c \<Longrightarrow> same_core a c"
  by (simp add: same_core_def)

lemma initialize_state_ok:
  assumes "normal_name s" and "s \<in> set all"
  shows "\<exists>d' p'. initialize_state select x all s (d, p) = Inr (d', p') \<and> same_core d d' \<and>
      (\<forall>y. js_has (dep_values d') y \<longleftrightarrow> y = x \<or> js_has (dep_values d) y) \<and>
      dep_bound d' = dep_bound d @ [(x, s)]"
  using assms
  by (simp add: initialize_state_def normal_name_def same_core_def Let_def split: prod.split)

lemma initialize_states_ok:
  assumes "list_all normal_name ss" and "set ss \<subseteq> set all" and "js_has (dep_values d) x"
  shows "\<exists>d' p'. initialize_states select x all ss (d, p) = Inr (d', p') \<and> same_core d d' \<and>
      (\<forall>y. js_has (dep_values d') y \<longleftrightarrow> js_has (dep_values d) y) \<and>
      dep_bound d' = dep_bound d @ map (Pair x) ss"
  using assms
proof (induction ss arbitrary: d p)
  case (Cons s ss)
  then obtain d1 p1 where d1: "initialize_state select x all s (d, p) = Inr (d1, p1)" "same_core d d1"
    "\<forall>y. js_has (dep_values d1) y \<longleftrightarrow> y = x \<or> js_has (dep_values d) y" "dep_bound d1 = dep_bound d @ [(x, s)]"
    using initialize_state_ok [of s all select x d p] by auto
  with Cons.prems(3) have "\<forall>y. js_has (dep_values d1) y \<longleftrightarrow> js_has (dep_values d) y" by auto
  with d1 Cons.IH [of d1 p1] Cons.prems obtain d' p' where
    "initialize_states select x all ss (d1, p1) = Inr (d', p')" "same_core d1 d'"
    "\<forall>y. js_has (dep_values d') y \<longleftrightarrow> js_has (dep_values d1) y"
    "dep_bound d' = dep_bound d1 @ map (Pair x) ss"
    by auto
  with d1 Cons.prems(3) show ?case by (auto intro: same_core_trans)
qed (simp add: same_core_def)

lemma initializeDependee_ok:
  assumes "list_all normal_name ss"
  shows "\<exists>d' p'. initializeDependee select x ss (d, p) = Inr (d', p') \<and> same_core d d' \<and>
      (\<forall>y. js_has (dep_values d') y \<longleftrightarrow> y = x \<or> js_has (dep_values d) y) \<and>
      dep_bound d' = dep_bound d @ map (Pair x) ss"
  using initialize_states_ok [of ss ss "d\<lparr>dep_values := js_put x [] (dep_values d)\<rparr>" x select p] assms
  by (auto simp: initializeDependee_def same_core_def)

lemma initialize_dependees_ok:
  assumes "\<forall>(x, ss)\<in>set deps. list_all normal_name ss"
  shows "\<exists>d' p'. initialize_dependees select deps (d, p) = Inr (d', p') \<and> same_core d d' \<and>
      (\<forall>y. js_has (dep_values d') y \<longleftrightarrow> js_has deps y \<or> js_has (dep_values d) y) \<and>
      dep_bound d' = dep_bound d @ concat (map (\<lambda>(x, ss). map (Pair x) ss) deps)"
  using assms
proof (induction deps arbitrary: d p)
  case Nil
  then show ?case by (simp add: same_core_def)
next
  case (Cons xs deps)
  obtain x ss where xs: "xs = (x, ss)" by (cases xs)
  with Cons.prems obtain d1 p1 where d1: "initializeDependee select x ss (d, p) = Inr (d1, p1)" "same_core d d1"
    "\<forall>y. js_has (dep_values d1) y \<longleftrightarrow> y = x \<or> js_has (dep_values d) y"
    "dep_bound d1 = dep_bound d @ map (Pair x) ss"
    using initializeDependee_ok [of ss select x d p] by auto
  with Cons.IH [of d1 p1] Cons.prems obtain d' p' where
    "initialize_dependees select deps (d1, p1) = Inr (d', p')" "same_core d1 d'"
    "\<forall>y. js_has (dep_values d') y \<longleftrightarrow> js_has deps y \<or> js_has (dep_values d1) y"
    "dep_bound d' = dep_bound d1 @ concat (map (\<lambda>(x, ss). map (Pair x) ss) deps)"
    by auto
  with d1 xs show ?case by (auto intro: same_core_trans simp: js_has_def)
qed

lemma Dependent_ok:
  assumes "getDependees c = Inr deps" and "leaves_ok (\<lambda>v x k. reference_ok v) c None"
  shows "\<exists>d p'. Dependent select st c p = Inr (d, p') \<and> covered d \<and>
      dep_oldValue d = meaning d \<and> dep_events d = [last_event d] \<and> dep_constraints d = c \<and>
      dep_bound d = concat (map (\<lambda>(x, ss). map (Pair x) ss) deps) \<and>
      (\<forall>x. js_has deps x \<longrightarrow> js_has (dep_values d) x)"
proof -
  note deps = getDependees_records [OF assms(1)]
  have "\<forall>(x, ss)\<in>set deps. list_all normal_name ss"
    using deps(1,3) by (auto simp: cache_normal_def js_get_in)
  then obtain d p' where d: "initialize_dependees select deps
      (\<lparr>dep_constraints = c, dep_state = st, dep_values = [], dep_oldValue = VNull,
        dep_events = [], dep_bound = []\<rparr>, p) = Inr (d, p')"
    "dep_constraints d = c" "dep_state d = st" "dep_oldValue d = VNull" "dep_events d = []"
    "\<forall>y. js_has (dep_values d) y \<longleftrightarrow> js_has deps y"
    "dep_bound d = concat (map (\<lambda>(x, ss). map (Pair x) ss) deps)"
    using initialize_dependees_ok [of deps select "\<lparr>dep_constraints = c, dep_state = st, dep_values = [],
        dep_oldValue = VNull, dep_events = [], dep_bound = []\<rparr>" p]
    by (auto simp: same_core_def)
  have cov: "covered d"
    unfolding covered_def d(2)
    by (rule leaves_ok_mono [OF leaves_ok_conj [OF deps(2) assms(2)]])
       (auto simp: recorded_def good_leaf_def d(6))
  then have "meaning d \<noteq> dep_oldValue d" using meaning_bool3 [OF cov] d(4) by (auto simp: bool3_cases)
  then have "reevaluate d = Inr (d\<lparr>dep_oldValue := meaning d, dep_events := [last_event d]\<rparr>)"
    using reevaluate_eq [OF cov] d(5) by simp
  with d assms(1) cov show ?thesis
    by (auto simp: Dependent_def covered_def meaning_def last_event_def)
qed

text \<open>The states a dependent goes through: its construction, then \<open>state:\<close> events of its dependees.\<close>

inductive dep_reach :: "dependent \<Rightarrow> bool" where
  created: "Dependent select st c p = Inr (d, p') \<Longrightarrow> leaves_ok (\<lambda>v x k. reference_ok v) c None \<Longrightarrow> dep_reach d"
| updated: "dep_reach d \<Longrightarrow> Dependent_update x nm v d = Inr d' \<Longrightarrow> dep_reach d'"

definition dep_inv :: "dependent \<Rightarrow> bool" where
  "dep_inv d \<longleftrightarrow> covered d \<and> dep_oldValue d = meaning d \<and>
     dep_events d \<noteq> [] \<and> last (dep_events d) = last_event d \<and> distinct_adj (dep_events d)"

lemma Dependent_update_inv:
  assumes "dep_inv d" and "js_has (dep_values d) x"
  shows "\<exists>d'. Dependent_update x nm v d = Inr d' \<and> dep_inv d' \<and> stored (dep_values d') x nm = v"
proof -
  from assms(2) obtain vs where vs: "js_get (dep_values d) x = Some vs" by (auto simp: js_has_get)
  let ?d = "d\<lparr>dep_values := js_put x (js_put nm v vs) (dep_values d)\<rparr>"
  have cov: "covered ?d" by (rule covered_mono [of d]) (use assms in \<open>auto simp: dep_inv_def\<close>)
  show ?thesis
  proof (cases "v = stored (dep_values d) x nm")
    case True
    with vs assms show ?thesis by (simp add: Dependent_update_def stored_def)
  next
    case False
    with vs have upd: "Dependent_update x nm v d = reevaluate ?d"
      by (simp add: Dependent_update_def stored_def)
    have "last_event ?d \<noteq> last (dep_events d)" if "meaning ?d \<noteq> dep_oldValue d"
      using that assms(1) cov by (auto simp: dep_inv_def last_event_def invert_inject meaning_bool3)
    with assms(1) cov show ?thesis
      unfolding upd reevaluate_eq [OF cov]
      by (auto simp: dep_inv_def covered_def meaning_def last_event_def stored_def distinct_adj_append_iff)
  qed
qed

lemma Dependent_update_has: "Dependent_update x nm v d = Inr d' \<Longrightarrow> js_has (dep_values d) x"
  by (auto simp: Dependent_update_def js_has_get split: option.splits)

lemma dep_reach_inv: "dep_reach d \<Longrightarrow> dep_inv d"
proof (induction rule: dep_reach.induct)
  case (created select st c p d p')
  then obtain deps where "getDependees c = Inr deps"
    by (auto simp: Dependent_def split: sum.splits)
  from Dependent_ok [OF this created(2), of select st p] created(1) show ?case
    by (auto simp: dep_inv_def)
next
  case (updated d x nm v d')
  then show ?case using Dependent_update_inv [of d x nm v] Dependent_update_has [of x nm v d d'] by auto
qed

section \<open>Properties\<close>

definition example_constraint :: constraint where
  "example_constraint =
     CArr [CObj [(''#a'', CObj [(''checked'', CVal (VBool True))])], CVal (VStr ''xor''),
           CObj [(''#b'', CObj [(''!empty'', CVal (VBool True))])]]"

text \<open>
  C1. \<open>verifyConstraints\<close> computes the meaning of a constraint and does not throw, for a constraint none
  of whose reference values is null, undefined or a function (\<open>reference_ok\<close>; \<open>compare\<close> reads
  \<open>reference.constructor\<close>, which throws on null and undefined): once the dependees
  found by \<open>getDependees\<close> have an entry in \<open>values\<close>, evaluation returns exactly the value of the
  short-circuit-free semantics, in which an object is the conjunction of its defined members, an array the
  disjunction of its elements and an array containing \<open>'xor'\<close> is true when exactly one element is.
\<close>

theorem verifyConstraints_meaning:
  assumes "getDependees c = Inr deps" and "\<forall>x. js_has deps x \<longrightarrow> js_has vals x"
    and "leaves_ok (\<lambda>v x k. reference_ok v) c None"
  shows "verifyConstraints (Dependent_compare vals) c None () = Inr (eval_constraint (leaf_of vals) c None, ())"
proof (rule dep.verify_eval)
  show "leaves_ok (good_leaf vals) c None"
    by (rule leaves_ok_mono [OF leaves_ok_conj [OF getDependees_records(2) [OF assms(1)] assms(3)]])
       (use assms(2) in \<open>auto simp: recorded_def good_leaf_def\<close>)
qed

lemma example_dependees: "getDependees example_constraint = Inr [(''#a'', [''checked'']), (''#b'', [''empty''])]"
  by code_simp

lemma example_references: "leaves_ok (\<lambda>v x k. reference_ok v) example_constraint None"
  by code_simp

theorem verifyConstraints_meaning_witness:
  "verifyConstraints (Dependent_compare [(''#a'', [(''checked'', VBool True)]), (''#b'', [(''empty'', VBool True)])])
     example_constraint None () =
   Inr (eval_constraint (leaf_of [(''#a'', [(''checked'', VBool True)]), (''#b'', [(''empty'', VBool True)])])
     example_constraint None, ())"
  by (rule verifyConstraints_meaning [OF example_dependees _ example_references]) (simp add: js_has_def)


text \<open>
  Construction succeeds and announces the initial state once: when the dependees can be computed and no
  reference value is null, \<open>new states.Dependent\<close> throws nothing, fires exactly one state event, and
  holds an entry for every dependee.
\<close>

theorem Dependent_constructs:
  assumes "getDependees c = Inr deps" and "leaves_ok (\<lambda>v x k. reference_ok v) c None"
  shows "\<exists>d p'. Dependent select st c p = Inr (d, p') \<and> length (dep_events d) = 1 \<and> dep_reach d \<and>
    (\<forall>x. js_has deps x \<longrightarrow> js_has (dep_values d) x)"
  using Dependent_ok [OF assms, of select st p] dep_reach.created [OF _ assms(2)] by fastforce

definition no_page :: page_state where
  "no_page = \<lparr>ps_elements = \<lparr>inputs = (\<lambda>_. \<lparr>in_val = VUndef, in_checked = False, in_open = False\<rparr>), data = (\<lambda>_ _. None)\<rparr>,
     ps_listeners = []\<rparr>"

definition visible_state :: state where
  "visible_state = \<lparr>st_pristine = ''visible'', st_name = ''visible'', st_invert = False\<rparr>"

theorem Dependent_constructs_witness:
  "\<exists>d p'. Dependent (\<lambda>_. [0]) visible_state example_constraint no_page = Inr (d, p') \<and>
    length (dep_events d) = 1 \<and> dep_reach d \<and>
    (\<forall>x. js_has [(''#a'', [''checked'']), (''#b'', [''empty''])] x \<longrightarrow> js_has (dep_values d) x)"
  by (rule Dependent_constructs [OF example_dependees example_references])


text \<open>
  Updates never fail: for a reachable dependent and a selector it watches, \<open>update\<close> stores the new value
  of the dependee's state and leaves a reachable dependent, so no dependee event can make it throw.
\<close>

theorem Dependent_update_succeeds:
  assumes "dep_reach d" and "js_has (dep_values d) x"
  shows "\<exists>d'. Dependent_update x nm v d = Inr d' \<and> dep_reach d' \<and> stored (dep_values d') x nm = v"
  using Dependent_update_inv [OF dep_reach_inv [OF assms(1)] assms(2), of nm v] dep_reach.updated [OF assms(1)]
  by blast

theorem Dependent_update_succeeds_witness:
  "\<exists>d d'. Dependent_update ''#a'' ''checked'' (VBool True) d = Inr d' \<and> dep_reach d' \<and>
     stored (dep_values d') ''#a'' ''checked'' = VBool True"
proof -
  obtain d p' where d: "Dependent (\<lambda>_. [0]) visible_state example_constraint no_page = Inr (d, p')"
    "\<forall>x. js_has [(''#a'', [''checked'']), (''#b'', [''empty''])] x \<longrightarrow> js_has (dep_values d) x"
    using Dependent_ok [OF example_dependees example_references] by blast
  have "dep_reach d" by (rule dep_reach.created [OF d(1) example_references])
  moreover have "js_has (dep_values d) ''#a''" using d(2) by (simp add: js_has_def)
  ultimately show ?thesis using Dependent_update_succeeds [of d "''#a''" "''checked''" "VBool True"] by blast
qed

text \<open>
  State names have a normal form: sanitising terminates with an error only for names that every object
  inherits; otherwise the resulting name is a fixed point of sanitising (no leading exclamation mark, no
  alias), and one more exclamation mark in front flips the inversion and nothing else.
\<close>

theorem State_normal_form:
  assumes "fst (strip_bangs s False) \<notin> set object_prototype_keys"
  shows "\<exists>st. State s = Inr st \<and>
     State (st_name st) = Inr \<lparr>st_pristine = st_name st, st_name = st_name st, st_invert = False\<rparr> \<and>
     State (CHR ''!'' # s) =
       Inr \<lparr>st_pristine = CHR ''!'' # s, st_name = st_name st, st_invert = (\<not> st_invert st)\<rparr>"
proof -
  obtain n i where ni: "normalize_name s False = Inr (n, i)"
    using normalize_total [OF assms] by blast
  then have st: "State s = Inr \<lparr>st_pristine = s, st_name = n, st_invert = i\<rparr>" by (simp add: State_def)
  have "normalize_name (CHR ''!'' # s) False = Inr (n, \<not> i)"
    using normalize_bang [of s False] normalize_flip [of s False] ni by simp
  then have "State (CHR ''!'' # s) = Inr \<lparr>st_pristine = CHR ''!'' # s, st_name = n, st_invert = (\<not> i)\<rparr>"
    by (simp add: State_def)
  with st State_name_normal [OF st] show ?thesis by simp
qed

theorem State_normal_form_witness:
  "\<exists>st. State ''invisible'' = Inr st \<and>
     State (st_name st) = Inr \<lparr>st_pristine = st_name st, st_name = st_name st, st_invert = False\<rparr> \<and>
     State (CHR ''!'' # ''invisible'') =
       Inr \<lparr>st_pristine = CHR ''!'' # ''invisible'', st_name = st_name st, st_invert = (\<not> st_invert st)\<rparr>"
  by (rule State_normal_form) (simp add: object_prototype_keys_def)

text \<open>
  \<open>initializeDependee\<close> binds one listener per occurrence of a state: its guard against initialising a
  selector and state twice never applies, since it looks the state up in the very list it iterates over. A
  state listed twice gets two listeners.
\<close>

theorem initializeDependee_binds_each_occurrence:
  assumes "list_all normal_name ss"
  shows "\<exists>d' p'. initializeDependee select x ss (d, p) = Inr (d', p') \<and>
    dep_bound d' = dep_bound d @ map (Pair x) ss"
  using initializeDependee_ok [OF assms, of select x d p] by blast

theorem initializeDependee_binds_each_occurrence_witness:
  "\<exists>d' p'. initializeDependee (\<lambda>_. [0]) ''#a'' [''value'', ''value'']
      (\<lparr>dep_constraints = CArr [], dep_state = visible_state, dep_values = [], dep_oldValue = VNull,
        dep_events = [], dep_bound = []\<rparr>, no_page) = Inr (d', p') \<and>
    dep_bound d' = [(''#a'', ''value''), (''#a'', ''value'')]"
proof -
  have "list_all normal_name [''value'', ''value'']" by code_simp
  from initializeDependee_binds_each_occurrence [OF this, where x = "''#a''" and select = "\<lambda>_. [0]"
      and d = "\<lparr>dep_constraints = CArr [], dep_state = visible_state, dep_values = [], dep_oldValue = VNull,
        dep_events = [], dep_bound = []\<rparr>" and p = no_page]
  show ?thesis by simp
qed

end
