(* ===== verification/Editor_Features.thy ===== *)
theory Editor_Features
  imports Js_Object
begin

text \<open>
  The text editor configuration API, \<open>core/modules/editor/js/editor.admin.es6.js\<close>: editor features with
  the HTML they require, text filters with the HTML they allow or forbid, and the decision whether the
  active filters allow a feature (\<open>featureIsAllowedByFilters\<close> and its local functions).

  The universe of a feature is an object from tag names to objects from keys (\<open>tag\<close>,
  \<open>touchedByAllowedPropertyRule\<close> and \<open>property:value\<close>) to booleans; the local functions mutate it and are
  modelled by state passing. An array used as a property key or in a template string is its elements joined
  by commas, as \<open>Array.prototype.toString\<close> gives. Property values contain no regular expression
  metacharacters but the wildcard star.
\<close>

section \<open>Rules, features and filters\<close>

record props =
  attributes :: "string list"
  styles :: "string list"
  classes :: "string list"

record tag_props = props +
  tags :: "string list"

record feature_rule =
  required :: tag_props
  allowed :: tag_props

record feature =
  f_name :: string
  f_rules :: "feature_rule list"

record restricted_tags =
  rt_tags :: "string list"
  rt_allowed :: props
  rt_forbidden :: props

record filter_rule =
  fr_tags :: "string list"
  fr_allow :: "bool option"
  fr_restrictedTags :: restricted_tags

record filter_status =
  fs_name :: string
  fs_active :: bool
  fs_rules :: "filter_rule list"

definition no_props :: props where
  "no_props = \<lparr>attributes = [], styles = [], classes = []\<rparr>"

definition no_tag_props :: tag_props where
  "no_tag_props = \<lparr>attributes = [], styles = [], classes = [], tags = []\<rparr>"

definition EditorFeatureHTMLRule :: feature_rule where
  "EditorFeatureHTMLRule = \<lparr>required = no_tag_props, allowed = no_tag_props\<rparr>"

definition EditorFeature :: "string \<Rightarrow> feature" where
  "EditorFeature nm = \<lparr>f_name = nm, f_rules = []\<rparr>"

definition EditorFeature_addHTMLRule :: "feature_rule \<Rightarrow> feature \<Rightarrow> feature" where
  "EditorFeature_addHTMLRule r f = f\<lparr>f_rules := f_rules f @ [r]\<rparr>"

definition FilterStatus :: "string \<Rightarrow> filter_status" where
  "FilterStatus nm = \<lparr>fs_name = nm, fs_active = False, fs_rules = []\<rparr>"

definition FilterStatus_addHTMLRule :: "filter_rule \<Rightarrow> filter_status \<Rightarrow> filter_status" where
  "FilterStatus_addHTMLRule r fs = fs\<lparr>fs_rules := fs_rules fs @ [r]\<rparr>"

definition FilterHTMLRule :: filter_rule where
  "FilterHTMLRule =
     \<lparr>fr_tags = [], fr_allow = None,
      fr_restrictedTags = \<lparr>rt_tags = [], rt_allowed = no_props, rt_forbidden = no_props\<rparr>\<rparr>"

text \<open>\<open>clone\<close> starts from a new rule and copies every list.\<close>

definition FilterHTMLRule_clone :: "filter_rule \<Rightarrow> filter_rule" where
  "FilterHTMLRule_clone r =
     FilterHTMLRule
       \<lparr>fr_tags := fr_tags r,
        fr_allow := fr_allow r,
        fr_restrictedTags :=
          \<lparr>rt_tags = rt_tags (fr_restrictedTags r),
           rt_allowed =
             \<lparr>attributes = attributes (rt_allowed (fr_restrictedTags r)),
              styles = styles (rt_allowed (fr_restrictedTags r)),
              classes = classes (rt_allowed (fr_restrictedTags r))\<rparr>,
           rt_forbidden =
             \<lparr>attributes = attributes (rt_forbidden (fr_restrictedTags r)),
              styles = styles (rt_forbidden (fr_restrictedTags r)),
              classes = classes (rt_forbidden (fr_restrictedTags r))\<rparr>\<rparr>\<rparr>"

section \<open>The universe of a feature\<close>

type_synonym entry = "bool jsobj"
type_synonym universe = "entry jsobj"

definition property_names :: "string list" where
  "property_names = [''attributes'', ''styles'', ''classes'']"

definition prop_values :: "('a props_scheme) \<Rightarrow> string \<Rightarrow> string list" where
  "prop_values s p =
     (if p = ''attributes'' then attributes s else if p = ''styles'' then styles s else classes s)"

definition emptyProperties :: "('a props_scheme) \<Rightarrow> bool" where
  "emptyProperties s \<longleftrightarrow> attributes s = [] \<and> classes s = [] \<and> styles s = []"

definition prop_key :: "string \<Rightarrow> string \<Rightarrow> string" where
  "prop_key property value = property @ '':'' @ value"

definition new_entry :: entry where
  "new_entry = js_put ''touchedByAllowedPropertyRule'' False (js_put ''tag'' False [])"

text \<open>One pass of the loop over \<open>pv\<close> per element, always writing the same key.\<close>

fun require_values :: "string \<Rightarrow> string \<Rightarrow> string list \<Rightarrow> universe \<Rightarrow> universe js" where
  "require_values tag key [] u = Inr u"
| "require_values tag key (_ # pvs) u =
     (case js_get u tag of
        None \<Rightarrow> Inl TypeError
      | Some e \<Rightarrow> require_values tag key pvs (js_put tag (js_put key False e) u))"

fun require_properties :: "tag_props \<Rightarrow> string list \<Rightarrow> universe \<Rightarrow> universe js" where
  "require_properties req [] u = Inr u"
| "require_properties req (p # ps) u =
     (case require_values (js_join '','' (tags req)) (prop_key p (js_join '','' (prop_values req p)))
             (prop_values req p) u of
        Inl e \<Rightarrow> Inl e
      | Inr u' \<Rightarrow> require_properties req ps u')"

fun generate_rules :: "feature_rule list \<Rightarrow> universe \<Rightarrow> universe js" where
  "generate_rules [] u = Inr u"
| "generate_rules (r # rs) u =
     (let u' = fold (\<lambda>t. js_put t new_entry) (tags (required r)) u in
      if emptyProperties (required r) then generate_rules rs u'
      else
        (case require_properties (required r) property_names u' of
           Inl e \<Rightarrow> Inl e
         | Inr u'' \<Rightarrow> generate_rules rs u''))"

definition generateUniverseFromFeatureRequirements :: "feature \<Rightarrow> universe js" where
  "generateUniverseFromFeatureRequirements f = generate_rules (f_rules f) []"

section \<open>Searching and marking\<close>

text \<open>
  The regular expression made from a key by replacing each star by \<open>[^ ]*\<close>, matched anywhere.
\<close>

fun match_at :: "string \<Rightarrow> string \<Rightarrow> bool" where
  "match_at [] s = True"
| "match_at (p # ps) [] = (p = CHR ''*'' \<and> match_at ps [])"
| "match_at (p # ps) (c # s) =
     (if p = CHR ''*'' then match_at ps (c # s) \<or> (c \<noteq> CHR '' '' \<and> match_at (p # ps) s)
      else c = p \<and> match_at ps s)"

definition key_match :: "string \<Rightarrow> string \<Rightarrow> bool" where
  "key_match pat s = list_ex (match_at pat) (suffixes s)"

text \<open>What happens to \<open>universe[tag]\<close> for one property value, and whether it was found.\<close>

definition find_on_entry :: "string \<Rightarrow> bool \<Rightarrow> string \<Rightarrow> entry \<Rightarrow> entry \<times> bool" where
  "find_on_entry property allowing value e =
     (let key = prop_key property value;
          e1 = (if allowing then js_put ''touchedByAllowedPropertyRule'' True e else e)
      in if CHR ''*'' \<notin> set value
         then (if js_has e1 key then (if allowing then js_put key True e1 else e1, True) else (e1, False))
         else
           (let hits = filter (key_match key) (js_keys e1)
            in (if allowing then fold (\<lambda>k. js_put k True) hits e1 else e1, hits \<noteq> [])))"

definition findPropertyValueOnTag :: "string \<Rightarrow> string \<Rightarrow> string \<Rightarrow> bool \<Rightarrow> universe \<Rightarrow> universe \<times> bool" where
  "findPropertyValueOnTag tag property value allowing u =
     (case js_get u tag of
        None \<Rightarrow> (u, False)
      | Some e \<Rightarrow> (case find_on_entry property allowing value e of (e', found) \<Rightarrow> (js_put tag e' u, found)))"

fun find_values :: "string \<Rightarrow> string \<Rightarrow> bool \<Rightarrow> string list \<Rightarrow> universe \<times> bool \<Rightarrow> universe \<times> bool" where
  "find_values tag property allowing [] ub = ub"
| "find_values tag property allowing (v # vs) ub =
     (case findPropertyValueOnTag tag property v allowing (fst ub) of
        (u', found) \<Rightarrow> find_values tag property allowing vs (u', snd ub \<or> found))"

fun find_all_tags :: "string list \<Rightarrow> string \<Rightarrow> bool \<Rightarrow> string list \<Rightarrow> universe \<times> bool \<Rightarrow> universe \<times> bool" where
  "find_all_tags [] property allowing vs ub = ub"
| "find_all_tags (tag # ts) property allowing vs ub =
     (case find_values tag property allowing vs (fst ub, False) of
        (u', found) \<Rightarrow> find_all_tags ts property allowing vs (u', snd ub \<or> found))"

text \<open>
  A universe that has the tag \<open>*\<close> itself makes the two functions call each other for ever: the engine
  throws a RangeError when the stack is full.
\<close>

definition findPropertyValuesOnAllTags :: "string \<Rightarrow> string list \<Rightarrow> bool \<Rightarrow> universe \<Rightarrow> (universe \<times> bool) js" where
  "findPropertyValuesOnAllTags property vs allowing u =
     (if js_has u ''*'' then Inl RangeError
      else Inr (find_all_tags (js_keys u) property allowing vs (u, False)))"

definition findPropertyValuesOnTag ::
    "string \<Rightarrow> string \<Rightarrow> string list \<Rightarrow> bool \<Rightarrow> universe \<Rightarrow> (universe \<times> bool) js" where
  "findPropertyValuesOnTag tag property vs allowing u =
     (if tag = ''*'' then findPropertyValuesOnAllTags property vs allowing u
      else Inr (find_values tag property allowing vs (u, False)))"

definition entry_allowed :: "entry \<Rightarrow> bool" where
  "entry_allowed e \<longleftrightarrow> list_all (\<lambda>(k, b). k \<noteq> ''touchedByAllowedPropertyRule'' \<longrightarrow> b) e"

definition delete_if_allowed :: "string \<Rightarrow> universe \<times> bool \<Rightarrow> universe \<times> bool" where
  "delete_if_allowed tag ub =
     (case js_get (fst ub) tag of
        Some e \<Rightarrow> if entry_allowed e then (js_del tag (fst ub), True) else ub
      | None \<Rightarrow> ub)"

definition deleteAllTagsFromUniverseIfAllowed :: "universe \<Rightarrow> (universe \<times> bool) js" where
  "deleteAllTagsFromUniverseIfAllowed u =
     (if js_has u ''*'' then Inl RangeError else Inr (fold delete_if_allowed (js_keys u) (u, False)))"

definition deleteFromUniverseIfAllowed :: "string \<Rightarrow> universe \<Rightarrow> (universe \<times> bool) js" where
  "deleteFromUniverseIfAllowed tag u =
     (if tag = ''*'' then deleteAllTagsFromUniverseIfAllowed u
      else Inr (delete_if_allowed tag (u, False)))"

section \<open>Forbidding and allowing rules\<close>

definition forbidden_tag_rule :: "universe \<Rightarrow> filter_rule \<Rightarrow> bool" where
  "forbidden_tag_rule u r \<longleftrightarrow> fr_allow r = Some False \<and> filter (\<lambda>t. t \<in> set (js_keys u)) (fr_tags r) \<noteq> []"

fun forbidden_props :: "universe \<Rightarrow> props \<Rightarrow> string \<Rightarrow> string list \<Rightarrow> bool js" where
  "forbidden_props u fb tag [] = Inr False"
| "forbidden_props u fb tag (p # ps) =
     (case findPropertyValuesOnTag tag p (prop_values fb p) False u of
        Inl e \<Rightarrow> Inl e
      | Inr (_, found) \<Rightarrow> if found then Inr True else forbidden_props u fb tag ps)"

fun forbidden_tags :: "universe \<Rightarrow> props \<Rightarrow> string list \<Rightarrow> bool js" where
  "forbidden_tags u fb [] = Inr False"
| "forbidden_tags u fb (tag # ts) =
     (case forbidden_props u fb tag property_names of
        Inl e \<Rightarrow> Inl e
      | Inr b \<Rightarrow> if b then Inr True else forbidden_tags u fb ts)"

fun forbidden_rules :: "universe \<Rightarrow> filter_rule list \<Rightarrow> bool js" where
  "forbidden_rules u [] = Inr False"
| "forbidden_rules u (r # rs) =
     (if rt_tags (fr_restrictedTags r) \<noteq> [] \<and> \<not> emptyProperties (rt_forbidden (fr_restrictedTags r))
      then
        (case forbidden_tags u (rt_forbidden (fr_restrictedTags r)) (rt_tags (fr_restrictedTags r)) of
           Inl e \<Rightarrow> Inl e
         | Inr b \<Rightarrow> if b then Inr True else forbidden_rules u rs)
      else forbidden_rules u rs)"

definition anyForbiddenFilterRuleMatches :: "universe \<Rightarrow> filter_status \<Rightarrow> bool js" where
  "anyForbiddenFilterRuleMatches u fs =
     (if list_ex (forbidden_tag_rule u) (fs_rules fs) then Inr True else forbidden_rules u (fs_rules fs))"

fun mark_tags :: "string list \<Rightarrow> universe \<Rightarrow> universe js" where
  "mark_tags [] u = Inr u"
| "mark_tags (tag # ts) u =
     (if u = [] then Inr u
      else
        (case js_get u tag of
           None \<Rightarrow> mark_tags ts u
         | Some e \<Rightarrow>
             (case deleteFromUniverseIfAllowed tag (js_put tag (js_put ''tag'' True e) u) of
                Inl er \<Rightarrow> Inl er
              | Inr (u', _) \<Rightarrow> mark_tags ts u')))"

fun mark_tag_rules :: "filter_rule list \<Rightarrow> universe \<Rightarrow> universe js" where
  "mark_tag_rules [] u = Inr u"
| "mark_tag_rules (r # rs) u =
     (if u = [] then Inr u
      else if fr_allow r = Some True
      then (case mark_tags (fr_tags r) u of Inl e \<Rightarrow> Inl e | Inr u' \<Rightarrow> mark_tag_rules rs u')
      else mark_tag_rules rs u)"

fun mark_props :: "props \<Rightarrow> string \<Rightarrow> string list \<Rightarrow> universe \<Rightarrow> universe js" where
  "mark_props al tag [] u = Inr u"
| "mark_props al tag (p # ps) u =
     (case findPropertyValuesOnTag tag p (prop_values al p) True u of
        Inl e \<Rightarrow> Inl e
      | Inr (u', found) \<Rightarrow>
          if found
          then (case deleteFromUniverseIfAllowed tag u' of
                  Inl e \<Rightarrow> Inl e
                | Inr (u'', _) \<Rightarrow> mark_props al tag ps u'')
          else mark_props al tag ps u')"

fun mark_restricted_tags :: "props \<Rightarrow> string list \<Rightarrow> universe \<Rightarrow> universe js" where
  "mark_restricted_tags al [] u = Inr u"
| "mark_restricted_tags al (tag # ts) u =
     (if u = [] then Inr u
      else (case mark_props al tag property_names u of
              Inl e \<Rightarrow> Inl e
            | Inr u' \<Rightarrow> mark_restricted_tags al ts u'))"

fun mark_prop_rules :: "filter_rule list \<Rightarrow> universe \<Rightarrow> universe js" where
  "mark_prop_rules [] u = Inr u"
| "mark_prop_rules (r # rs) u =
     (if u = [] then Inr u
      else if rt_tags (fr_restrictedTags r) \<noteq> [] \<and> \<not> emptyProperties (rt_allowed (fr_restrictedTags r))
      then (case mark_restricted_tags (rt_allowed (fr_restrictedTags r)) (rt_tags (fr_restrictedTags r)) u of
              Inl e \<Rightarrow> Inl e
            | Inr u' \<Rightarrow> mark_prop_rules rs u')
      else mark_prop_rules rs u)"

definition markAllowedTagsAndPropertyValues :: "filter_status \<Rightarrow> universe \<Rightarrow> universe js" where
  "markAllowedTagsAndPropertyValues fs u =
     (case mark_tag_rules (fs_rules fs) u of
        Inl e \<Rightarrow> Inl e
      | Inr u' \<Rightarrow> mark_prop_rules (fs_rules fs) u')"

definition flag :: "entry \<Rightarrow> string \<Rightarrow> bool" where
  "flag e k = (js_get e k = Some True)"

definition filterStatusAllowsFeature :: "filter_status \<Rightarrow> feature \<Rightarrow> bool js" where
  "filterStatusAllowsFeature fs f =
     (if \<not> fs_active fs then Inr True
      else if f_rules f = [] then Inr True
      else if fs_rules fs = [] then Inr True
      else
        (case generateUniverseFromFeatureRequirements f of
           Inl e \<Rightarrow> Inl e
         | Inr u \<Rightarrow>
             (case anyForbiddenFilterRuleMatches u fs of
                Inl e \<Rightarrow> Inl e
              | Inr True \<Rightarrow> Inr False
              | Inr False \<Rightarrow>
                  (case markAllowedTagsAndPropertyValues fs u of
                     Inl e \<Rightarrow> Inl e
                   | Inr u' \<Rightarrow>
                       if list_ex (\<lambda>r. fr_allow r = Some True) (fs_rules fs)
                       then
                         (if u' = [] then Inr True
                          else if \<not> list_all (\<lambda>(t, e). flag e ''tag'') u' then Inr False
                          else Inr (filter (\<lambda>(t, e). js_get e ''touchedByAllowedPropertyRule'' \<noteq> Some False) u' = []))
                       else Inr True))))"

section \<open>The filter configuration\<close>

text \<open>
  \<open>checked\<close> is the state of the filters' checkboxes on the form and \<open>parsers\<close> the live setting parsers;
  \<open>statuses\<close> is an object keyed by filter ID.
\<close>

fun filterConfiguration_update ::
    "(string \<Rightarrow> bool) \<Rightarrow> (string \<Rightarrow> (filter_rule list js) option) \<Rightarrow> filter_status jsobj \<Rightarrow> filter_status jsobj js" where
  "filterConfiguration_update checked parsers [] = Inr []"
| "filterConfiguration_update checked parsers ((i, fs) # statuses) =
     (let fs1 = fs\<lparr>fs_active := checked i\<rparr> in
      case parsers i of
        None \<Rightarrow>
          (case filterConfiguration_update checked parsers statuses of
             Inl e \<Rightarrow> Inl e | Inr rest \<Rightarrow> Inr ((i, fs1) # rest))
      | Some (Inl e) \<Rightarrow> Inl e
      | Some (Inr rules) \<Rightarrow>
          (case filterConfiguration_update checked parsers statuses of
             Inl e \<Rightarrow> Inl e | Inr rest \<Rightarrow> Inr ((i, fs1\<lparr>fs_rules := rules\<rparr>) # rest)))"

fun every_status_allows :: "filter_status jsobj \<Rightarrow> feature \<Rightarrow> bool js" where
  "every_status_allows [] f = Inr True"
| "every_status_allows ((i, fs) # statuses) f =
     (case filterStatusAllowsFeature fs f of
        Inl e \<Rightarrow> Inl e
      | Inr b \<Rightarrow> if b then every_status_allows statuses f else Inr False)"

definition featureIsAllowedByFilters ::
    "(string \<Rightarrow> bool) \<Rightarrow> (string \<Rightarrow> (filter_rule list js) option) \<Rightarrow> filter_status jsobj \<Rightarrow> feature \<Rightarrow>
     (bool \<times> filter_status jsobj) js" where
  "featureIsAllowedByFilters checked parsers statuses f =
     (case filterConfiguration_update checked parsers statuses of
        Inl e \<Rightarrow> Inl e
      | Inr statuses' \<Rightarrow>
          (case every_status_allows statuses' f of Inl e \<Rightarrow> Inl e | Inr b \<Rightarrow> Inr (b, statuses')))"

text \<open>
  Initialisation: the filter ID is what \<open>substring(8, indexOf(']'))\<close> gives for the checkbox name; with a
  start after the end, \<open>substring\<close> swaps its arguments, and it reads a negative index as 0.
\<close>

definition js_indexOf :: "char \<Rightarrow> string \<Rightarrow> int" where
  "js_indexOf c s = (if c \<in> set s then int (length (takeWhile (\<lambda>d. d \<noteq> c) s)) else -1)"

definition js_substring :: "int \<Rightarrow> int \<Rightarrow> string \<Rightarrow> string" where
  "js_substring i j s =
     (let a = min (nat i) (length s); b = min (nat j) (length s)
      in take (max a b - min a b) (drop (min a b) s))"

definition filter_id_of_name :: "string \<Rightarrow> string" where
  "filter_id_of_name nm = js_substring 8 (js_indexOf CHR '']'' nm) nm"

definition initializeFilterConfiguration :: "string list \<Rightarrow> filter_status jsobj \<Rightarrow> filter_status jsobj" where
  "initializeFilterConfiguration names statuses =
     fold (\<lambda>nm. js_put (filter_id_of_name nm) (FilterStatus (filter_id_of_name nm))) names statuses"

section \<open>What the marking computes\<close>

text \<open>
  The specification: \<open>hit p v k\<close> says that the value \<open>v\<close> of a filter rule covers the key \<open>k\<close> of a universe
  entry, \<open>reaches ts t\<close> that a list of restricted tags applies to \<open>t\<close>. The three predicates below say when a
  filter allows a tag, restricts the properties of a tag, and allows a property of a tag.
\<close>

definition hit :: "string \<Rightarrow> string \<Rightarrow> string \<Rightarrow> bool" where
  "hit p v k \<longleftrightarrow> (if CHR ''*'' \<in> set v then key_match (prop_key p v) k else k = prop_key p v)"

definition hits :: "props \<Rightarrow> string \<Rightarrow> bool" where
  "hits s k \<longleftrightarrow> list_ex (\<lambda>p. list_ex (\<lambda>v. hit p v k) (prop_values s p)) property_names"

definition reaches :: "string list \<Rightarrow> string \<Rightarrow> bool" where
  "reaches ts t \<longleftrightarrow> t \<in> set ts \<or> ''*'' \<in> set ts"

definition rule_forbids :: "string \<Rightarrow> entry \<Rightarrow> filter_rule \<Rightarrow> bool" where
  "rule_forbids t e r \<longleftrightarrow>
     fr_allow r = Some False \<and> t \<in> set (fr_tags r) \<or>
     reaches (rt_tags (fr_restrictedTags r)) t \<and> list_ex (hits (rt_forbidden (fr_restrictedTags r))) (js_keys e)"

definition allows_tag :: "filter_status \<Rightarrow> string \<Rightarrow> bool" where
  "allows_tag fs t \<longleftrightarrow> list_ex (\<lambda>r. fr_allow r = Some True \<and> t \<in> set (fr_tags r)) (fs_rules fs)"

definition restricts_tag :: "filter_status \<Rightarrow> string \<Rightarrow> bool" where
  "restricts_tag fs t \<longleftrightarrow>
     list_ex (\<lambda>r. \<not> emptyProperties (rt_allowed (fr_restrictedTags r)) \<and>
       reaches (rt_tags (fr_restrictedTags r)) t) (fs_rules fs)"

definition allows_key :: "filter_status \<Rightarrow> string \<Rightarrow> string \<Rightarrow> bool" where
  "allows_key fs t k \<longleftrightarrow>
     list_ex (\<lambda>r. reaches (rt_tags (fr_restrictedTags r)) t \<and> hits (rt_allowed (fr_restrictedTags r)) k) (fs_rules fs)"

definition entry_conforms :: "filter_status \<Rightarrow> string \<Rightarrow> entry \<Rightarrow> bool" where
  "entry_conforms fs t e \<longleftrightarrow>
     allows_tag fs t \<and>
     (restricts_tag fs t \<longrightarrow>
      list_all (\<lambda>k. k \<in> {''tag'', ''touchedByAllowedPropertyRule''} \<or> allows_key fs t k) (js_keys e))"

section \<open>The invariant of the marking\<close>

abbreviation touched :: string where
  "touched \<equiv> ''touchedByAllowedPropertyRule''"

text \<open>An entry with a set of marks; what is still in the universe once the tags \<open>D\<close> are deleted.\<close>

definition marked :: "(string \<times> string) set \<Rightarrow> string \<Rightarrow> entry \<Rightarrow> entry" where
  "marked M t e = map (\<lambda>(k, b). (k, b \<or> (t, k) \<in> M)) e"

definition universe_ok :: "universe \<Rightarrow> bool" where
  "universe_ok u \<longleftrightarrow>
     js_wf u \<and> (\<forall>t e. js_get u t = Some e \<longrightarrow>
       distinct (js_keys e) \<and> {''tag'', touched} \<subseteq> set (js_keys e) \<and> (\<forall>(k, b) \<in> set e. \<not> b))"

definition marking :: "universe \<Rightarrow> string set \<Rightarrow> (string \<times> string) set \<Rightarrow> universe \<Rightarrow> bool" where
  "marking u0 D M u \<longleftrightarrow>
     js_wf u \<and>
     (\<forall>t. js_get u t = (if t \<in> D then None else map_option (marked M t) (js_get u0 t))) \<and>
     (\<forall>t e. t \<in> D \<longrightarrow> js_get u0 t = Some e \<longrightarrow> entry_allowed (marked M t e))"

definition swept :: "universe \<Rightarrow> string set \<Rightarrow> (string \<times> string) set \<Rightarrow> bool" where
  "swept u0 D M \<longleftrightarrow> (\<forall>t e. js_get u0 t = Some e \<longrightarrow> entry_allowed (marked M t e) \<longrightarrow> t \<in> D)"

lemma keys_marked [simp]: "js_keys (marked M t e) = js_keys e"
  by (induction e) (auto simp: marked_def)

lemma fst_marked [simp]: "fst ` set (marked M t e) = fst ` set e"
  using keys_marked [of M t e] by (metis list.set_map)

lemma marked_cong:
  "(\<And>k. k \<in> set (js_keys e) \<Longrightarrow> (t, k) \<in> M \<longleftrightarrow> (t, k) \<in> M') \<Longrightarrow> marked M t e = marked M' t e"
  by (force simp: marked_def)

lemma js_replace_True:
  "distinct (js_keys e) \<Longrightarrow> k \<in> set (js_keys e) \<Longrightarrow>
   js_replace k True e = map (\<lambda>(l, b). (l, b \<or> l = k)) e"
proof (induction k True e rule: js_replace.induct)
  case (2 k l w ob)
  have same: "map (\<lambda>(l, b). (l, b \<or> l = k)) ob = ob" if "k \<notin> fst ` set ob"
    using that by (intro map_idI) force
  show ?case using 2 same by auto
qed simp

lemma js_put_marked:
  assumes "distinct (js_keys e)" and "k \<in> set (js_keys e)"
  shows "js_put k True (marked M t e) = marked (insert (t, k) M) t e"
proof -
  have "js_put k True (marked M t e) = map (\<lambda>(l, b). (l, b \<or> l = k)) (marked M t e)"
    using js_replace_True [of "marked M t e" k] assms by (simp add: js_put_def js_has_def)
  then show ?thesis by (auto simp: marked_def)
qed

lemma fold_put_marked:
  assumes "distinct (js_keys e)" and "set ks \<subseteq> set (js_keys e)"
  shows "fold (\<lambda>k. js_put k True) ks (marked M t e) = marked (M \<union> {t} \<times> set ks) t e"
  using assms(2)
proof (induction ks arbitrary: M)
  case (Cons k ks)
  have "insert (t, k) M \<union> {t} \<times> set ks = M \<union> {t} \<times> set (k # ks)" by auto
  with Cons assms(1) show ?case by (simp add: js_put_marked)
qed simp

lemma find_on_entry_marked:
  assumes "distinct (js_keys e)" and "touched \<in> set (js_keys e)"
  shows "find_on_entry p True v (marked M t e) =
     (marked (M \<union> {t} \<times> ({touched} \<union> {k. hit p v k})) t e, \<exists>k \<in> set (js_keys e). hit p v k)"
proof -
  let ?M1 = "insert (t, touched) M"
  have e1: "js_put touched True (marked M t e) = marked ?M1 t e"
    using js_put_marked [OF assms] .
  have star: "fold (\<lambda>k. js_put k True) (filter q (js_keys e)) (marked ?M1 t e) =
      marked (?M1 \<union> {t} \<times> {k. q k}) t e" for q
  proof -
    have "fold (\<lambda>k. js_put k True) (filter q (js_keys e)) (marked ?M1 t e) =
        marked (?M1 \<union> {t} \<times> set (filter q (js_keys e))) t e"
      using assms by (intro fold_put_marked) auto
    also have "\<dots> = marked (?M1 \<union> {t} \<times> {k. q k}) t e"
      by (rule marked_cong) auto
    finally show ?thesis .
  qed
  have set1: "M \<union> {t} \<times> ({touched} \<union> X) = ?M1 \<union> {t} \<times> X" for X by auto
  show ?thesis
  proof (cases "CHR ''*'' \<in> set v")
    case True
    then have "hit p v = key_match (prop_key p v)" by (simp add: hit_def fun_eq_iff)
    then show ?thesis
      unfolding set1 using True e1 star [of "key_match (prop_key p v)"]
      by (auto simp: find_on_entry_def Let_def filter_empty_conv simp del: fst_marked set_map)
  next
    case False
    then have h: "hit p v = (\<lambda>k. k = prop_key p v)" by (simp add: hit_def fun_eq_iff)
    have "marked (?M1 \<union> {t} \<times> {k. hit p v k}) t e =
        (if prop_key p v \<in> set (js_keys e) then js_put (prop_key p v) True (marked ?M1 t e) else marked ?M1 t e)"
      using assms(1) unfolding h by (auto simp: js_put_marked intro!: marked_cong)
    then show ?thesis
      unfolding set1 using False e1 by (auto simp: find_on_entry_def Let_def h js_has_def)
  qed
qed

text \<open>
  Marks on tags that are deleted, or that the universe never had, do not matter: a pass over the remaining
  tags can be described as a pass over all tags.
\<close>

lemma entry_allowed_mono: "M \<subseteq> M' \<Longrightarrow> entry_allowed (marked M t e) \<Longrightarrow> entry_allowed (marked M' t e)"
  by (fastforce simp: entry_allowed_def marked_def list_all_iff)

lemma marking_weaken:
  assumes "marking u0 D M u" and "M \<subseteq> M'"
    and "\<And>t k. t \<notin> D \<Longrightarrow> js_has u0 t \<Longrightarrow> (t, k) \<in> M' \<Longrightarrow> (t, k) \<in> M"
  shows "marking u0 D M' u"
proof -
  have "marked M t e = marked M' t e" if "t \<notin> D" "js_get u0 t = Some e" for t e
    using assms(2,3) that by (intro marked_cong) (auto simp: js_has_get)
  then have "map_option (marked M t) (js_get u0 t) = map_option (marked M' t) (js_get u0 t)" if "t \<notin> D" for t
    using that by (cases "js_get u0 t") auto
  with assms(1) show ?thesis
    unfolding marking_def using entry_allowed_mono [OF assms(2)] by auto
qed

lemma marking_update:
  assumes "marking u0 D M u" and "js_get u0 t = Some e" and "t \<notin> D" and "M \<subseteq> M'"
    and "\<And>s k. s \<noteq> t \<Longrightarrow> (s, k) \<in> M' \<Longrightarrow> (s, k) \<in> M"
  shows "marking u0 D M' (js_put t (marked M' t e) u)"
proof -
  have same: "marked M s e' = marked M' s e'" if "s \<noteq> t" for s e'
    using assms(4,5) that by (intro marked_cong) auto
  have "js_get (js_put t (marked M' t e) u) s = (if s \<in> D then None else map_option (marked M' s) (js_get u0 s))" for s
    using assms(1,2,3) same [of s] unfolding marking_def by (cases "js_get u0 s") auto
  with assms(1) show ?thesis
    unfolding marking_def using entry_allowed_mono [OF assms(4)] by auto
qed

lemma marking_get:
  assumes "marking u0 D M u"
  shows "js_get u t = (if t \<in> D then None else map_option (marked M t) (js_get u0 t))"
  using assms by (simp add: marking_def)

definition value_marks :: "string \<Rightarrow> string list \<Rightarrow> string set" where
  "value_marks p vs = (if vs = [] then {} else {touched} \<union> {k. list_ex (\<lambda>v. hit p v k) vs})"

definition found_on :: "universe \<Rightarrow> string set \<Rightarrow> string \<Rightarrow> string \<Rightarrow> string list \<Rightarrow> bool" where
  "found_on u0 D t p vs \<longleftrightarrow>
     t \<notin> D \<and> (\<exists>e k. js_get u0 t = Some e \<and> k \<in> set (js_keys e) \<and> list_ex (\<lambda>v. hit p v k) vs)"

lemma universe_okD:
  assumes "universe_ok u0" and "js_get u0 t = Some e"
  shows "distinct (js_keys e)" and "touched \<in> set (js_keys e)" and "''tag'' \<in> set (js_keys e)"
    and "(k, b) \<in> set e \<Longrightarrow> \<not> b"
  using assms unfolding universe_ok_def by blast+

lemma findPropertyValueOnTag_marks:
  assumes "universe_ok u0" and "marking u0 D M u"
  shows "\<exists>u'. findPropertyValueOnTag t p v True u = (u', found_on u0 D t p [v]) \<and>
     marking u0 D (M \<union> {t} \<times> value_marks p [v]) u'"
proof (cases "t \<notin> D \<and> js_has u0 t")
  case True
  then obtain e where e: "js_get u0 t = Some e" by (auto simp: js_has_get)
  let ?M = "M \<union> {t} \<times> value_marks p [v]"
  have "{t} \<times> ({touched} \<union> {k. hit p v k}) = {t} \<times> value_marks p [v]" by (simp add: value_marks_def)
  then have "find_on_entry p True v (marked M t e) = (marked ?M t e, \<exists>k \<in> set (js_keys e). hit p v k)"
    using find_on_entry_marked [OF universe_okD(1,2) [OF assms(1) e], of p v M t] by simp
  then have "findPropertyValueOnTag t p v True u = (js_put t (marked ?M t e) u, \<exists>k \<in> set (js_keys e). hit p v k)"
    using marking_get [OF assms(2), of t] True e by (simp add: findPropertyValueOnTag_def)
  moreover have "marking u0 D ?M (js_put t (marked ?M t e) u)"
    using True by (intro marking_update [OF assms(2) e]) auto
  moreover have "(\<exists>k \<in> set (js_keys e). hit p v k) = found_on u0 D t p [v]"
    using True e by (auto simp: found_on_def)
  ultimately show ?thesis by (intro exI conjI) simp_all
next
  case False
  then have "js_get u t = None"
    using marking_get [OF assms(2), of t] by (auto simp: js_has_get)
  moreover have "\<not> found_on u0 D t p [v]" using False by (auto simp: found_on_def js_has_get)
  moreover have "marking u0 D (M \<union> {t} \<times> value_marks p [v]) u"
    using False by (intro marking_weaken [OF assms(2)]) auto
  ultimately show ?thesis by (simp add: findPropertyValueOnTag_def)
qed

lemma found_on_Nil [simp]: "\<not> found_on u0 D t p []"
  by (simp add: found_on_def)

lemma found_on_Cons: "found_on u0 D t p (v # vs) \<longleftrightarrow> found_on u0 D t p [v] \<or> found_on u0 D t p vs"
  by (auto simp: found_on_def)

lemma value_marks_Cons: "value_marks p (v # vs) = value_marks p [v] \<union> value_marks p vs"
  by (auto simp: value_marks_def)

lemma find_values_marks:
  assumes "universe_ok u0" and "marking u0 D M u"
  shows "\<exists>u'. find_values t p True vs (u, b) = (u', b \<or> found_on u0 D t p vs) \<and>
     marking u0 D (M \<union> {t} \<times> value_marks p vs) u'"
  using assms(2)
proof (induction vs arbitrary: M u b)
  case (Cons v vs)
  from findPropertyValueOnTag_marks [OF assms(1) Cons.prems] obtain u1 where
    u1: "findPropertyValueOnTag t p v True u = (u1, found_on u0 D t p [v])"
    and m1: "marking u0 D (M \<union> {t} \<times> value_marks p [v]) u1" by blast
  from Cons.IH [OF m1, of "b \<or> found_on u0 D t p [v]"] obtain u2 where
    u2: "find_values t p True vs (u1, b \<or> found_on u0 D t p [v]) = (u2, (b \<or> found_on u0 D t p [v]) \<or> found_on u0 D t p vs)"
    and m2: "marking u0 D (M \<union> {t} \<times> value_marks p [v] \<union> {t} \<times> value_marks p vs) u2" by blast
  have "M \<union> {t} \<times> value_marks p [v] \<union> {t} \<times> value_marks p vs = M \<union> {t} \<times> value_marks p (v # vs)"
    by (subst value_marks_Cons) auto
  with u1 u2 m2 show ?case by (simp add: found_on_Cons [of u0 D t p v vs])
qed (simp add: value_marks_def)

lemma find_all_tags_marks:
  assumes "universe_ok u0" and "marking u0 D M u"
  shows "\<exists>u'. find_all_tags ts p True vs (u, b) = (u', b \<or> (\<exists>t \<in> set ts. found_on u0 D t p vs)) \<and>
     marking u0 D (M \<union> set ts \<times> value_marks p vs) u'"
  using assms(2)
proof (induction ts arbitrary: M u b)
  case (Cons t ts)
  from find_values_marks [OF assms(1) Cons.prems, of t p vs False] obtain u1 where
    u1: "find_values t p True vs (u, False) = (u1, found_on u0 D t p vs)"
    and m1: "marking u0 D (M \<union> {t} \<times> value_marks p vs) u1" by auto
  from Cons.IH [OF m1, of "b \<or> found_on u0 D t p vs"] obtain u2 where
    u2: "find_all_tags ts p True vs (u1, b \<or> found_on u0 D t p vs) =
       (u2, (b \<or> found_on u0 D t p vs) \<or> (\<exists>t \<in> set ts. found_on u0 D t p vs))"
    and m2: "marking u0 D (M \<union> {t} \<times> value_marks p vs \<union> set ts \<times> value_marks p vs) u2" by blast
  have "M \<union> {t} \<times> value_marks p vs \<union> set ts \<times> value_marks p vs = M \<union> set (t # ts) \<times> value_marks p vs"
    by auto
  with u1 u2 m2 show ?case by (simp add: disj_assoc)
qed simp

lemma delete_if_allowed_marking:
  assumes "marking u0 D M u"
  shows "\<exists>u' b' D'. delete_if_allowed t (u, b) = (u', b') \<and> marking u0 D' M u' \<and> D \<subseteq> D' \<and>
     (\<forall>e. js_get u0 t = Some e \<longrightarrow> entry_allowed (marked M t e) \<longrightarrow> t \<in> D')"
proof (cases "t \<notin> D \<and> (\<exists>e. js_get u0 t = Some e \<and> entry_allowed (marked M t e))")
  case True
  then obtain e where e: "js_get u0 t = Some e" "entry_allowed (marked M t e)" by blast
  then have "delete_if_allowed t (u, b) = (js_del t u, True)"
    using marking_get [OF assms, of t] True by (simp add: delete_if_allowed_def)
  moreover have "marking u0 (insert t D) M (js_del t u)"
    using assms e unfolding marking_def by auto
  ultimately show ?thesis by blast
next
  case False
  then have "delete_if_allowed t (u, b) = (u, b)"
    using marking_get [OF assms, of t]
    by (auto simp: delete_if_allowed_def split: option.splits if_splits)
  with assms False show ?thesis by blast
qed

lemma delete_fold_marking:
  assumes "marking u0 D M u"
  shows "\<exists>u' b' D'. fold delete_if_allowed ts (u, b) = (u', b') \<and> marking u0 D' M u' \<and> D \<subseteq> D' \<and>
     (\<forall>t e. t \<in> set ts \<longrightarrow> js_get u0 t = Some e \<longrightarrow> entry_allowed (marked M t e) \<longrightarrow> t \<in> D')"
  using assms
proof (induction ts arbitrary: D u b)
  case (Cons t ts)
  from delete_if_allowed_marking [OF Cons.prems, of t b] obtain u1 b1 D1 where
    1: "delete_if_allowed t (u, b) = (u1, b1)" "D \<subseteq> D1"
       "\<forall>e. js_get u0 t = Some e \<longrightarrow> entry_allowed (marked M t e) \<longrightarrow> t \<in> D1"
    and m1: "marking u0 D1 M u1" by blast
  from Cons.IH [OF m1, of b1] obtain u2 b2 D2 where
    "fold delete_if_allowed ts (u1, b1) = (u2, b2)" "marking u0 D2 M u2" "D1 \<subseteq> D2"
    "\<forall>t e. t \<in> set ts \<longrightarrow> js_get u0 t = Some e \<longrightarrow> entry_allowed (marked M t e) \<longrightarrow> t \<in> D2" by blast
  with 1 have "fold delete_if_allowed (t # ts) (u, b) = (u2, b2)" "marking u0 D2 M u2" "D \<subseteq> D2"
    "\<forall>t' e. t' \<in> set (t # ts) \<longrightarrow> js_get u0 t' = Some e \<longrightarrow> entry_allowed (marked M t' e) \<longrightarrow> t' \<in> D2"
    by auto
  then show ?case by blast
qed auto

lemma marking_has: "marking u0 D M u \<Longrightarrow> js_has u t \<longleftrightarrow> t \<notin> D \<and> js_has u0 t"
  using marking_get [of u0 D M u t] by (auto simp: js_has_get)

lemma deleteFromUniverseIfAllowed_marking:
  assumes "marking u0 D M u" and "\<not> js_has u0 ''*''"
  shows "\<exists>u' b' D'. deleteFromUniverseIfAllowed tag u = Inr (u', b') \<and> marking u0 D' M u' \<and> D \<subseteq> D' \<and>
     (\<forall>t e. reaches [tag] t \<longrightarrow> js_get u0 t = Some e \<longrightarrow> entry_allowed (marked M t e) \<longrightarrow> t \<in> D')"
proof (cases "tag = ''*''")
  case False
  with delete_if_allowed_marking [OF assms(1), of tag False] show ?thesis
    by (auto simp: deleteFromUniverseIfAllowed_def reaches_def)
next
  case True
  from delete_fold_marking [OF assms(1), of "js_keys u" False] obtain u' b' D' where
    f: "fold delete_if_allowed (js_keys u) (u, False) = (u', b')" "marking u0 D' M u'" "D \<subseteq> D'"
    and d: "\<And>t e. js_has u t \<Longrightarrow> js_get u0 t = Some e \<Longrightarrow> entry_allowed (marked M t e) \<Longrightarrow> t \<in> D'"
    unfolding js_keys_in by blast
  have "t \<in> D'" if "js_get u0 t = Some e" "entry_allowed (marked M t e)" for t e
    using that d [of t e] marking_has [OF assms(1), of t] f(3) by (auto simp: js_has_get)
  with True f assms(2) marking_has [OF assms(1), of "''*''"] show ?thesis
    by (auto simp: deleteFromUniverseIfAllowed_def deleteAllTagsFromUniverseIfAllowed_def)
qed

lemma findPropertyValuesOnTag_marks:
  assumes "universe_ok u0" and "marking u0 D M u" and "\<not> js_has u0 ''*''"
  shows "\<exists>u'. findPropertyValuesOnTag tag p vs True u = Inr (u', \<exists>t. reaches [tag] t \<and> found_on u0 D t p vs) \<and>
     marking u0 D (M \<union> {t. reaches [tag] t} \<times> value_marks p vs) u'"
proof (cases "tag = ''*''")
  case False
  then have "{t. reaches [tag] t} = {tag}" by (auto simp: reaches_def)
  with False find_values_marks [OF assms(1,2), of tag p vs False] show ?thesis
    by (auto simp: findPropertyValuesOnTag_def reaches_def)
next
  case True
  from find_all_tags_marks [OF assms(1,2), of "js_keys u" p vs False] obtain u' where
    u': "find_all_tags (js_keys u) p True vs (u, False) = (u', \<exists>t \<in> set (js_keys u). found_on u0 D t p vs)"
    and m: "marking u0 D (M \<union> set (js_keys u) \<times> value_marks p vs) u'" by auto
  have "(\<exists>t \<in> set (js_keys u). found_on u0 D t p vs) = (\<exists>t. found_on u0 D t p vs)"
    using marking_has [OF assms(2)] unfolding Bex_def js_keys_in by (auto simp: found_on_def js_has_get)
  moreover have "marking u0 D (M \<union> UNIV \<times> value_marks p vs) u'"
    by (rule marking_weaken [OF m]) (use marking_has [OF assms(2)] in \<open>auto simp: js_has_def\<close>)
  ultimately show ?thesis
    using True u' assms(3) marking_has [OF assms(2), of "''*''"]
    by (auto simp: findPropertyValuesOnTag_def findPropertyValuesOnAllTags_def reaches_def)
qed

text \<open>
  A property pass keeps the universe swept: an entry that becomes complete was hit, so the pass found
  something and deletes what is complete.
\<close>

lemma new_marks_found:
  assumes "\<not> entry_allowed (marked M t e)" and "js_get u0 t = Some e" and "t \<notin> D"
    and "entry_allowed (marked (M \<union> T \<times> value_marks p vs) t e)"
  shows "t \<in> T \<and> found_on u0 D t p vs"
proof -
  from assms(1) obtain k b where "(k, b) \<in> set e" "k \<noteq> touched" "\<not> (b \<or> (t, k) \<in> M)"
    unfolding entry_allowed_def marked_def list_all_iff by fastforce
  then have kb: "(k, False) \<in> set e" "k \<noteq> touched" "(t, k) \<notin> M" by auto
  with assms(4) have "(t, k) \<in> T \<times> value_marks p vs"
    by (fastforce simp: entry_allowed_def marked_def list_all_iff)
  with kb assms(2,3) show ?thesis
    by (force simp: value_marks_def found_on_def split: if_splits)
qed

lemma mark_props_marking:
  assumes "universe_ok u0" and "marking u0 D M u" and "swept u0 D M" and "\<not> js_has u0 ''*''"
  shows "\<exists>u' D'. mark_props al tag ps u = Inr u' \<and>
     marking u0 D' (M \<union> {t. reaches [tag] t} \<times> (\<Union>p \<in> set ps. value_marks p (prop_values al p))) u' \<and>
     swept u0 D' (M \<union> {t. reaches [tag] t} \<times> (\<Union>p \<in> set ps. value_marks p (prop_values al p)))"
  using assms(2,3)
proof (induction ps arbitrary: D M u)
  case (Cons p ps)
  let ?T = "{t. reaches [tag] t}" and ?vs = "prop_values al p"
  let ?M = "M \<union> ?T \<times> value_marks p ?vs"
  from findPropertyValuesOnTag_marks [OF assms(1) Cons.prems(1) assms(4), of tag p ?vs] obtain u1 where
    u1: "findPropertyValuesOnTag tag p ?vs True u = Inr (u1, \<exists>t. reaches [tag] t \<and> found_on u0 D t p ?vs)"
    and m1: "marking u0 D ?M u1" by blast
  have sw: "reaches [tag] t \<and> found_on u0 D t p ?vs \<or> t \<in> D"
    if "js_get u0 t = Some e" "entry_allowed (marked ?M t e)" for t e
    using that Cons.prems(2) new_marks_found [of M t e u0 D ?T p ?vs] unfolding swept_def by blast
  have "\<exists>u2 D2. mark_props al tag (p # ps) u = mark_props al tag ps u2 \<and> marking u0 D2 ?M u2 \<and> swept u0 D2 ?M"
  proof (cases "\<exists>t. reaches [tag] t \<and> found_on u0 D t p ?vs")
    case True
    from deleteFromUniverseIfAllowed_marking [OF m1 assms(4), of tag] obtain u2 b2 D2 where
      "deleteFromUniverseIfAllowed tag u1 = Inr (u2, b2)" "marking u0 D2 ?M u2" "D \<subseteq> D2"
      "\<forall>t e. reaches [tag] t \<longrightarrow> js_get u0 t = Some e \<longrightarrow> entry_allowed (marked ?M t e) \<longrightarrow> t \<in> D2" by blast
    moreover from this sw have "swept u0 D2 ?M" unfolding swept_def by blast
    ultimately show ?thesis using u1 True by auto
  next
    case False
    with sw have "swept u0 D ?M" unfolding swept_def by blast
    with u1 False m1 show ?thesis by auto
  qed
  then obtain u2 D2 where 2: "mark_props al tag (p # ps) u = mark_props al tag ps u2"
    "marking u0 D2 ?M u2" "swept u0 D2 ?M" by blast
  have "?M \<union> ?T \<times> (\<Union>p \<in> set ps. value_marks p (prop_values al p)) =
      M \<union> ?T \<times> (\<Union>p \<in> set (p # ps). value_marks p (prop_values al p))" by auto
  with Cons.IH [OF 2(2,3)] 2(1) show ?case by simp
qed auto

section \<open>The marks of a whole filter\<close>

definition section_marks :: "props \<Rightarrow> string set" where
  "section_marks al = (\<Union>p \<in> set property_names. value_marks p (prop_values al p))"

definition tag_rule_marks :: "filter_rule list \<Rightarrow> (string \<times> string) set" where
  "tag_rule_marks rs = {(t, k). k = ''tag'' \<and> (\<exists>r \<in> set rs. fr_allow r = Some True \<and> t \<in> set (fr_tags r))}"

definition prop_rule_marks :: "filter_rule list \<Rightarrow> (string \<times> string) set" where
  "prop_rule_marks rs =
     {(t, k). \<exists>r \<in> set rs. reaches (rt_tags (fr_restrictedTags r)) t \<and> k \<in> section_marks (rt_allowed (fr_restrictedTags r))}"

lemma reaches_Nil [simp]: "reaches [] = (\<lambda>_. False)"
  by (simp add: reaches_def fun_eq_iff)

lemma marking_done:
  assumes "marking u0 D M []" and "M \<subseteq> M'"
  shows "marking u0 D M' [] \<and> swept u0 D M'"
proof -
  have all: "t \<in> D" if "js_get u0 t = Some e" for t e
    using that marking_get [OF assms(1), of t] by (auto split: if_splits)
  then have "swept u0 D M'" by (auto simp: swept_def)
  moreover have "marking u0 D M' []"
    using all by (intro marking_weaken [OF assms]) (auto simp: js_has_get)
  ultimately show ?thesis by simp
qed

lemma emptyProperties_marks: "emptyProperties al \<Longrightarrow> section_marks al = {}"
  by (auto simp: emptyProperties_def section_marks_def property_names_def prop_values_def value_marks_def)

lemma touched_in_marks: "touched \<in> section_marks al \<longleftrightarrow> \<not> emptyProperties al"
  by (auto simp: emptyProperties_def section_marks_def property_names_def prop_values_def value_marks_def)

lemma hits_in_marks: "k \<noteq> touched \<Longrightarrow> k \<in> section_marks al \<longleftrightarrow> hits al k"
  by (auto simp: section_marks_def value_marks_def hits_def list_ex_iff split: if_splits)

lemma mark_tags_marking:
  assumes "universe_ok u0" and "\<not> js_has u0 ''*''" and "marking u0 D M u" and "swept u0 D M"
  shows "\<exists>u' D'. mark_tags ts u = Inr u' \<and> marking u0 D' (M \<union> set ts \<times> {''tag''}) u' \<and>
     swept u0 D' (M \<union> set ts \<times> {''tag''})"
  using assms(3,4)
proof (induction ts arbitrary: D M u)
  case (Cons t ts)
  let ?M = "insert (t, ''tag'') M"
  have M: "M \<union> set (t # ts) \<times> {''tag''} = ?M \<union> set ts \<times> {''tag''}" by auto
  show ?case
  proof (cases "u = []")
    case True
    with Cons.prems have "marking u0 D M []" by simp
    then have "marking u0 D (?M \<union> set ts \<times> {''tag''}) [] \<and> swept u0 D (?M \<union> set ts \<times> {''tag''})"
      by (rule marking_done) auto
    with True show ?thesis unfolding M by auto
  next
    case ne: False
    have "\<exists>u2 D2. mark_tags (t # ts) u = mark_tags ts u2 \<and> marking u0 D2 ?M u2 \<and> swept u0 D2 ?M"
    proof (cases "js_has u t")
      case True
      then obtain e where e: "t \<notin> D" "js_get u0 t = Some e" "js_get u t = Some (marked M t e)"
        using marking_get [OF Cons.prems(1), of t] marking_has [OF Cons.prems(1), of t] by (auto simp: js_has_get)
      then have put: "js_put ''tag'' True (marked M t e) = marked ?M t e"
        using universe_okD(1,3) [OF assms(1) e(2)] by (intro js_put_marked)
      have m1: "marking u0 D ?M (js_put t (marked ?M t e) u)"
        using e by (intro marking_update [OF Cons.prems(1)]) auto
      from deleteFromUniverseIfAllowed_marking [OF m1 assms(2), of t] obtain u2 b2 D2 where
        2: "deleteFromUniverseIfAllowed t (js_put t (marked ?M t e) u) = Inr (u2, b2)" "marking u0 D2 ?M u2" "D \<subseteq> D2"
        "\<forall>s e. reaches [t] s \<longrightarrow> js_get u0 s = Some e \<longrightarrow> entry_allowed (marked ?M s e) \<longrightarrow> s \<in> D2" by blast
      have "marked ?M s e' = marked M s e'" if "s \<noteq> t" for s e'
        using that by (intro marked_cong) auto
      with 2(3,4) Cons.prems(2) have "swept u0 D2 ?M" unfolding swept_def reaches_def
        by (metis list.set_intros(1) subsetD)
      with 2 put e ne show ?thesis by auto
    next
      case False
      then have gone: "t \<in> D \<or> \<not> js_has u0 t" using marking_has [OF Cons.prems(1), of t] by blast
      have "marking u0 D ?M u"
        using gone by (intro marking_weaken [OF Cons.prems(1)]) auto
      moreover have "marked ?M s e = marked M s e" if "s \<noteq> t" for s e
        using that by (intro marked_cong) auto
      with Cons.prems(2) gone have "swept u0 D ?M" unfolding swept_def js_has_get by (metis option.distinct(1))
      ultimately show ?thesis using False ne by (auto simp: js_has_get)
    qed
    with Cons.IH show ?thesis unfolding M by metis
  qed
qed auto

lemma mark_tag_rules_marking:
  assumes "universe_ok u0" and "\<not> js_has u0 ''*''" and "marking u0 D M u" and "swept u0 D M"
  shows "\<exists>u' D'. mark_tag_rules rs u = Inr u' \<and> marking u0 D' (M \<union> tag_rule_marks rs) u' \<and>
     swept u0 D' (M \<union> tag_rule_marks rs)"
  using assms(3,4)
proof (induction rs arbitrary: D M u)
  case (Cons r rs)
  let ?R = "if fr_allow r = Some True then set (fr_tags r) \<times> {''tag''} else {}"
  have M: "M \<union> tag_rule_marks (r # rs) = (M \<union> ?R) \<union> tag_rule_marks rs"
    by (auto simp: tag_rule_marks_def)
  show ?case
  proof (cases "u = []")
    case True
    with Cons.prems have "marking u0 D M []" by simp
    then have "marking u0 D (M \<union> ?R \<union> tag_rule_marks rs) [] \<and> swept u0 D (M \<union> ?R \<union> tag_rule_marks rs)"
      by (rule marking_done) auto
    with True show ?thesis unfolding M by auto
  next
    case False
    have "\<exists>u2 D2. mark_tag_rules (r # rs) u = mark_tag_rules rs u2 \<and> marking u0 D2 (M \<union> ?R) u2 \<and> swept u0 D2 (M \<union> ?R)"
      using mark_tags_marking [OF assms(1,2) Cons.prems, of "fr_tags r"] False Cons.prems by auto
    with Cons.IH show ?thesis unfolding M by metis
  qed
qed (auto simp: tag_rule_marks_def)

lemma mark_restricted_tags_marking:
  assumes "universe_ok u0" and "\<not> js_has u0 ''*''" and "marking u0 D M u" and "swept u0 D M"
  shows "\<exists>u' D'. mark_restricted_tags al ts u = Inr u' \<and>
     marking u0 D' (M \<union> {t. reaches ts t} \<times> section_marks al) u' \<and>
     swept u0 D' (M \<union> {t. reaches ts t} \<times> section_marks al)"
  using assms(3,4)
proof (induction ts arbitrary: D M u)
  case (Cons tag ts)
  let ?R = "{t. reaches [tag] t} \<times> section_marks al"
  have M: "M \<union> {t. reaches (tag # ts) t} \<times> section_marks al = (M \<union> ?R) \<union> {t. reaches ts t} \<times> section_marks al"
    by (auto simp: reaches_def)
  show ?case
  proof (cases "u = []")
    case True
    with Cons.prems have "marking u0 D M []" by simp
    then have "marking u0 D (M \<union> ?R \<union> {t. reaches ts t} \<times> section_marks al) [] \<and>
        swept u0 D (M \<union> ?R \<union> {t. reaches ts t} \<times> section_marks al)"
      by (rule marking_done) auto
    with True show ?thesis unfolding M by auto
  next
    case False
    have "\<exists>u2 D2. mark_restricted_tags al (tag # ts) u = mark_restricted_tags al ts u2 \<and>
        marking u0 D2 (M \<union> ?R) u2 \<and> swept u0 D2 (M \<union> ?R)"
      using mark_props_marking [OF assms(1) Cons.prems assms(2), of al tag property_names] False
      unfolding section_marks_def by auto
    with Cons.IH show ?thesis unfolding M by metis
  qed
qed (auto simp: reaches_def)

lemma mark_prop_rules_marking:
  assumes "universe_ok u0" and "\<not> js_has u0 ''*''" and "marking u0 D M u" and "swept u0 D M"
  shows "\<exists>u' D'. mark_prop_rules rs u = Inr u' \<and> marking u0 D' (M \<union> prop_rule_marks rs) u' \<and>
     swept u0 D' (M \<union> prop_rule_marks rs)"
  using assms(3,4)
proof (induction rs arbitrary: D M u)
  case (Cons r rs)
  let ?ts = "rt_tags (fr_restrictedTags r)" and ?al = "rt_allowed (fr_restrictedTags r)"
  let ?R = "{t. reaches ?ts t} \<times> section_marks ?al"
  have M: "M \<union> prop_rule_marks (r # rs) = (M \<union> ?R) \<union> prop_rule_marks rs"
    by (auto simp: prop_rule_marks_def)
  show ?case
  proof (cases "u = []")
    case True
    with Cons.prems have "marking u0 D M []" by simp
    then have "marking u0 D (M \<union> ?R \<union> prop_rule_marks rs) [] \<and> swept u0 D (M \<union> ?R \<union> prop_rule_marks rs)"
      by (rule marking_done) auto
    with True show ?thesis unfolding M by auto
  next
    case False
    have "\<exists>u2 D2. mark_prop_rules (r # rs) u = mark_prop_rules rs u2 \<and> marking u0 D2 (M \<union> ?R) u2 \<and> swept u0 D2 (M \<union> ?R)"
    proof (cases "?ts \<noteq> [] \<and> \<not> emptyProperties ?al")
      case True
      with mark_restricted_tags_marking [OF assms(1,2) Cons.prems, of ?al ?ts] False show ?thesis by auto
    next
      case skip: False
      then have "?R = {}" by (auto simp: emptyProperties_marks)
      then have "M \<union> ?R = M" by blast
      moreover have "mark_prop_rules (r # rs) u = mark_prop_rules rs u" using skip False by auto
      ultimately show ?thesis using Cons.prems by metis
    qed
    with Cons.IH show ?thesis unfolding M by metis
  qed
qed (auto simp: prop_rule_marks_def)

section \<open>The search for forbidden values\<close>

lemma find_on_entry_search: "find_on_entry p False v e = (e, \<exists>k \<in> set (js_keys e). hit p v k)"
  by (force simp: find_on_entry_def Let_def hit_def js_has_def filter_empty_conv)

lemma findPropertyValueOnTag_search: "findPropertyValueOnTag t p v False u = (u, found_on u {} t p [v])"
  by (auto simp: findPropertyValueOnTag_def find_on_entry_search found_on_def js_put_same split: option.splits)

lemma find_values_search: "find_values t p False vs (u, b) = (u, b \<or> found_on u {} t p vs)"
  by (induction vs arbitrary: b) (auto simp: findPropertyValueOnTag_search found_on_def)

lemma find_all_tags_search:
  "find_all_tags ts p False vs (u, b) = (u, b \<or> (\<exists>t \<in> set ts. found_on u {} t p vs))"
  by (induction ts arbitrary: b) (auto simp: find_values_search)

lemma findPropertyValuesOnTag_search:
  assumes "\<not> js_has u ''*''"
  shows "findPropertyValuesOnTag tag p vs False u = Inr (u, \<exists>t. reaches [tag] t \<and> found_on u {} t p vs)"
proof -
  have "(\<exists>t \<in> set (js_keys u). found_on u {} t p vs) = (\<exists>t. found_on u {} t p vs)"
    unfolding Bex_def js_keys_in by (auto simp: found_on_def js_has_get)
  with assms show ?thesis
    by (auto simp: findPropertyValuesOnTag_def findPropertyValuesOnAllTags_def reaches_def
        find_values_search find_all_tags_search)
qed

lemma forbidden_props_search:
  assumes "\<not> js_has u ''*''"
  shows "forbidden_props u fb tag ps =
     Inr (\<exists>t p. p \<in> set ps \<and> reaches [tag] t \<and> found_on u {} t p (prop_values fb p))"
  by (induction ps) (auto simp: findPropertyValuesOnTag_search [OF assms])

lemma forbidden_tags_search:
  assumes "\<not> js_has u ''*''"
  shows "forbidden_tags u fb ts =
     Inr (\<exists>t e. reaches ts t \<and> js_get u t = Some e \<and> list_ex (hits fb) (js_keys e))"
proof (induction ts)
  case (Cons tag ts)
  have "(\<exists>p. p \<in> set property_names \<and> found_on u {} t p (prop_values fb p)) \<longleftrightarrow>
      (\<exists>e. js_get u t = Some e \<and> list_ex (hits fb) (js_keys e))" for t
    by (auto simp: found_on_def hits_def list_ex_iff)
  then have "forbidden_props u fb tag property_names =
      Inr (\<exists>t e. reaches [tag] t \<and> js_get u t = Some e \<and> list_ex (hits fb) (js_keys e))"
    unfolding forbidden_props_search [OF assms] by blast
  moreover have "reaches (tag # ts) t \<longleftrightarrow> reaches [tag] t \<or> reaches ts t" for t
    by (auto simp: reaches_def)
  ultimately show ?case using Cons by auto
qed simp

lemma hits_nonempty: "hits s k \<Longrightarrow> \<not> emptyProperties s"
  by (auto simp: hits_def property_names_def prop_values_def emptyProperties_def)

lemma forbidden_rules_search:
  assumes "\<not> js_has u ''*''"
  shows "forbidden_rules u rs =
     Inr (\<exists>r t e. r \<in> set rs \<and> js_get u t = Some e \<and> reaches (rt_tags (fr_restrictedTags r)) t \<and>
       list_ex (hits (rt_forbidden (fr_restrictedTags r))) (js_keys e))"
proof (induction rs)
  case (Cons r rs)
  have "\<not> list_ex (hits fb) ks" if "emptyProperties fb" for fb ks
    using that by (auto simp: list_ex_iff dest: hits_nonempty)
  with Cons show ?case
    by (auto simp: forbidden_tags_search [OF assms])
qed simp

lemma anyForbiddenFilterRuleMatches_search:
  assumes "\<not> js_has u ''*''"
  shows "anyForbiddenFilterRuleMatches u fs =
     Inr (\<exists>t e. js_get u t = Some e \<and> list_ex (rule_forbids t e) (fs_rules fs))"
proof -
  have "list_ex (forbidden_tag_rule u) (fs_rules fs) \<longleftrightarrow>
      (\<exists>t e r. js_get u t = Some e \<and> r \<in> set (fs_rules fs) \<and> fr_allow r = Some False \<and> t \<in> set (fr_tags r))"
    unfolding list_ex_iff forbidden_tag_rule_def filter_empty_conv js_keys_in js_has_get by auto
  then have "list_ex (forbidden_tag_rule u) (fs_rules fs) \<or>
      (\<exists>r t e. r \<in> set (fs_rules fs) \<and> js_get u t = Some e \<and> reaches (rt_tags (fr_restrictedTags r)) t \<and>
        list_ex (hits (rt_forbidden (fr_restrictedTags r))) (js_keys e)) \<longleftrightarrow>
      (\<exists>t e. js_get u t = Some e \<and> list_ex (rule_forbids t e) (fs_rules fs))"
    unfolding list_ex_iff [of "rule_forbids _ _"] rule_forbids_def by blast
  then show ?thesis
    unfolding anyForbiddenFilterRuleMatches_def forbidden_rules_search [OF assms] by auto
qed

section \<open>Generated universes\<close>

lemma distinct_js_put: "distinct (js_keys e) \<Longrightarrow> distinct (js_keys (js_put k v e))"
  by (auto simp: js_put_def js_has_def keys_replace distinct_js_insert)

lemma universe_ok_put:
  assumes "universe_ok u" and "distinct (js_keys e)" and "{''tag'', touched} \<subseteq> set (js_keys e)"
    and "\<forall>(k, b) \<in> set e. \<not> b"
  shows "universe_ok (js_put t e u)"
  using assms unfolding universe_ok_def by auto

lemma universe_ok_new: "universe_ok u \<Longrightarrow> universe_ok (js_put t new_entry u)"
  by (rule universe_ok_put) (auto simp: new_entry_def js_put_def js_has_def key_before_def is_array_index_def)

lemma universe_ok_fold_new: "universe_ok u \<Longrightarrow> universe_ok (fold (\<lambda>t. js_put t new_entry) ts u)"
  by (induction ts arbitrary: u) (auto simp: universe_ok_new)

lemma require_values_ok: "universe_ok u \<Longrightarrow> require_values tag key vs u = Inr u' \<Longrightarrow> universe_ok u'"
proof (induction tag key vs u rule: require_values.induct)
  case (2 tag key v pvs u)
  then obtain e where e: "js_get u tag = Some e" by (auto split: option.splits)
  have "universe_ok (js_put tag (js_put key False e) u)"
  proof (rule universe_ok_put)
    show "distinct (js_keys (js_put key False e))"
      using universe_okD(1) [OF "2.prems"(1) e] by (rule distinct_js_put)
    show "{''tag'', touched} \<subseteq> set (js_keys (js_put key False e))"
      using universe_okD(2,3) [OF "2.prems"(1) e] by auto
    show "\<forall>(k, b) \<in> set (js_put key False e). \<not> b"
      using universe_okD(4) [OF "2.prems"(1) e] set_js_put [of key False e] by blast
  qed (rule "2.prems")
  with 2 e show ?case by simp
qed simp

lemma require_properties_ok: "universe_ok u \<Longrightarrow> require_properties req ps u = Inr u' \<Longrightarrow> universe_ok u'"
  by (induction req ps u rule: require_properties.induct) (auto split: sum.splits dest: require_values_ok)

lemma generate_rules_ok: "universe_ok u \<Longrightarrow> generate_rules rs u = Inr u' \<Longrightarrow> universe_ok u'"
proof (induction rs arbitrary: u)
  case (Cons r rs)
  let ?u = "fold (\<lambda>t. js_put t new_entry) (tags (required r)) u"
  have ok: "universe_ok ?u" using Cons.prems(1) by (rule universe_ok_fold_new)
  with Cons show ?case
    by (auto simp: Let_def split: sum.splits if_splits dest: require_properties_ok)
qed simp

lemma generateUniverse_ok: "generateUniverseFromFeatureRequirements f = Inr u \<Longrightarrow> universe_ok u"
  unfolding generateUniverseFromFeatureRequirements_def
  by (rule generate_rules_ok [rotated]) (auto simp: universe_ok_def)

section \<open>The decision\<close>

lemma match_at_chars: "match_at ps s \<Longrightarrow> c \<in> set ps \<Longrightarrow> c \<noteq> CHR ''*'' \<Longrightarrow> c \<in> set s"
  by (induction ps s rule: match_at.induct) (auto split: if_splits)

lemma hit_colon: "hit p v k \<Longrightarrow> CHR '':'' \<in> set k"
proof -
  assume h: "hit p v k"
  show ?thesis
  proof (cases "CHR ''*'' \<in> set v")
    case True
    with h obtain s where s: "suffix s k" "match_at (prop_key p v) s"
      by (auto simp: hit_def key_match_def list_ex_iff)
    then have "CHR '':'' \<in> set s" by (auto intro: match_at_chars simp: prop_key_def)
    with s(1) show ?thesis by (auto simp: suffix_def)
  next
    case False
    with h show ?thesis by (simp add: hit_def prop_key_def)
  qed
qed

lemma tag_not_hit: "\<not> hits al ''tag''"
  by (auto simp: hits_def list_ex_iff dest: hit_colon)

lemma all_marks:
  fixes fs :: filter_status
  defines "M \<equiv> tag_rule_marks (fs_rules fs) \<union> prop_rule_marks (fs_rules fs)"
  shows "(t, ''tag'') \<in> M \<longleftrightarrow> allows_tag fs t"
    and "(t, touched) \<in> M \<longleftrightarrow> restricts_tag fs t"
    and "k \<noteq> ''tag'' \<Longrightarrow> k \<noteq> touched \<Longrightarrow> (t, k) \<in> M \<longleftrightarrow> allows_key fs t k"
  unfolding M_def tag_rule_marks_def prop_rule_marks_def allows_tag_def restricts_tag_def allows_key_def list_ex_iff
  by (auto simp: touched_in_marks hits_in_marks tag_not_hit)

lemma get_marked: "js_get (marked M t e) k = map_option (\<lambda>b. b \<or> (t, k) \<in> M) (js_get e k)"
  by (induction e) (auto simp: marked_def)

lemma get_marked_ok:
  assumes "universe_ok u0" and "js_get u0 t = Some e" and "k \<in> set (js_keys e)"
  shows "js_get (marked M t e) k = Some ((t, k) \<in> M)"
proof -
  from assms(3) obtain b where b: "js_get e k = Some b"
    unfolding js_keys_in js_has_get by blast
  then have "(k, b) \<in> set e" by (simp add: js_get_def map_of_SomeD)
  with universe_okD(4) [OF assms(1,2)] have "\<not> b" by blast
  with b show ?thesis by (simp add: get_marked)
qed

lemma entry_allowed_marked:
  assumes "universe_ok u0" and "js_get u0 t = Some e"
  shows "entry_allowed (marked M t e) \<longleftrightarrow> (\<forall>k \<in> set (js_keys e). k \<noteq> touched \<longrightarrow> (t, k) \<in> M)"
  using universe_okD(4) [OF assms] by (fastforce simp: entry_allowed_def marked_def list_all_iff)

lemma touched_not_tag: "''tag'' \<noteq> touched"
  by simp

lemma marking_start:
  assumes "universe_ok u0"
  shows "marking u0 {} {} u0" and "swept u0 {} {}"
proof -
  have "marked {} t e = e" for t e by (auto simp: marked_def intro: map_idI)
  then have "map_option (marked {} t) x = x" for t x by (cases x) auto
  with assms show "marking u0 {} {} u0" by (auto simp: marking_def universe_ok_def)
  show "swept u0 {} {}"
    unfolding swept_def using universe_okD(3) [OF assms] entry_allowed_marked [OF assms]
    by (metis empty_iff touched_not_tag)
qed

lemma remaining_decision:
  assumes "universe_ok u0" and "marking u0 D M u" and "swept u0 D M"
  shows "list_all (\<lambda>(t, e). flag e ''tag'' \<and> js_get e touched = Some False) u \<longleftrightarrow>
     (\<forall>t e. js_get u0 t = Some e \<longrightarrow>
       (t, ''tag'') \<in> M \<and> ((t, touched) \<in> M \<longrightarrow> (\<forall>k \<in> set (js_keys e). k \<noteq> touched \<longrightarrow> (t, k) \<in> M)))"
    (is "?L \<longleftrightarrow> (\<forall>t e. _ \<longrightarrow> ?P t e)")
proof -
  have wf: "js_wf u" using assms(2) by (simp add: marking_def)
  have "?L \<longleftrightarrow> (\<forall>t e. js_get u t = Some e \<longrightarrow> flag e ''tag'' \<and> js_get e touched = Some False)"
    using wf by (rule list_all_js)
  also have "\<dots> \<longleftrightarrow> (\<forall>t e. js_get u0 t = Some e \<longrightarrow> t \<notin> D \<longrightarrow>
      flag (marked M t e) ''tag'' \<and> js_get (marked M t e) touched = Some False)"
    unfolding marking_get [OF assms(2)] by auto
  also have "\<dots> \<longleftrightarrow> (\<forall>t e. js_get u0 t = Some e \<longrightarrow> ?P t e)"
  proof (intro all_cong1 imp_cong refl)
    fix t e assume e: "js_get u0 t = Some e"
    note k = universe_okD(2,3) [OF assms(1) e]
    have D: "t \<in> D \<longleftrightarrow> (\<forall>k \<in> set (js_keys e). k \<noteq> touched \<longrightarrow> (t, k) \<in> M)"
      using e assms(2,3) unfolding entry_allowed_marked [OF assms(1) e, symmetric] marking_def swept_def by blast
    then have "t \<in> D \<Longrightarrow> (t, ''tag'') \<in> M" using k(2) touched_not_tag by metis
    moreover have "flag (marked M t e) ''tag'' \<longleftrightarrow> (t, ''tag'') \<in> M"
      and "js_get (marked M t e) touched = Some False \<longleftrightarrow> (t, touched) \<notin> M"
      using get_marked_ok [OF assms(1) e] k by (simp_all add: flag_def)
    ultimately show "(t \<notin> D \<longrightarrow> flag (marked M t e) ''tag'' \<and> js_get (marked M t e) touched = Some False) \<longleftrightarrow> ?P t e"
      using D by blast
  qed
  finally show ?thesis .
qed

lemma markAllowed_decision:
  assumes "universe_ok u" and "\<not> js_has u ''*''"
  shows "\<exists>u'. markAllowedTagsAndPropertyValues fs u = Inr u' \<and>
     (list_all (\<lambda>(t, e). flag e ''tag'' \<and> js_get e touched = Some False) u' \<longleftrightarrow>
      list_all (\<lambda>(t, e). entry_conforms fs t e) u)"
proof -
  let ?M1 = "tag_rule_marks (fs_rules fs)" and ?M = "tag_rule_marks (fs_rules fs) \<union> prop_rule_marks (fs_rules fs)"
  from mark_tag_rules_marking [OF assms marking_start [OF assms(1)], of "fs_rules fs"] obtain u1 D1 where
    1: "mark_tag_rules (fs_rules fs) u = Inr u1" "marking u D1 ?M1 u1" "swept u D1 ?M1" by auto
  from mark_prop_rules_marking [OF assms 1(2,3), of "fs_rules fs"] obtain u2 D2 where
    2: "mark_prop_rules (fs_rules fs) u1 = Inr u2" "marking u D2 ?M u2" "swept u D2 ?M" by auto
  have conf: "((t, ''tag'') \<in> ?M \<and> ((t, touched) \<in> ?M \<longrightarrow> (\<forall>k \<in> set (js_keys e). k \<noteq> touched \<longrightarrow> (t, k) \<in> ?M))) \<longleftrightarrow>
      entry_conforms fs t e" for t e
  proof -
    have "(k = touched \<or> (t, k) \<in> ?M) \<longleftrightarrow> k \<in> {''tag'', touched} \<or> allows_key fs t k"
      if "allows_tag fs t" for k
      using that all_marks(1) [of t fs] all_marks(3) [of k t fs] by (cases "k = ''tag''") auto
    then show ?thesis
      unfolding entry_conforms_def list_all_iff all_marks(1,2) by blast
  qed
  moreover have "js_wf u" using assms(1) by (simp add: universe_ok_def)
  ultimately have "list_all (\<lambda>(t, e). flag e ''tag'' \<and> js_get e touched = Some False) u2 \<longleftrightarrow>
      list_all (\<lambda>(t, e). entry_conforms fs t e) u"
    unfolding remaining_decision [OF assms(1) 2(2,3)] conf by (simp only: list_all_js)
  with 1 2 show ?thesis by (auto simp: markAllowedTagsAndPropertyValues_def)
qed

lemma final_test:
  "(if u = [] then Inr True
    else if \<not> list_all (\<lambda>(t, e). flag e ''tag'') u then Inr False
    else Inr (filter (\<lambda>(t, e). js_get e touched \<noteq> Some False) u = [])) =
   Inr (list_all (\<lambda>(t, e). flag e ''tag'' \<and> js_get e touched = Some False) u)"
  by (auto simp: list_all_iff filter_empty_conv)

lemma filterStatus_decision:
  assumes "fs_active fs" and "f_rules f \<noteq> []" and "fs_rules fs \<noteq> []"
    and "generateUniverseFromFeatureRequirements f = Inr u" and "\<not> js_has u ''*''"
  shows "filterStatusAllowsFeature fs f =
     Inr (list_all (\<lambda>(t, e). \<not> list_ex (rule_forbids t e) (fs_rules fs) \<and>
       (list_ex (\<lambda>r. fr_allow r = Some True) (fs_rules fs) \<longrightarrow> entry_conforms fs t e)) u)"
proof -
  have ok: "universe_ok u" using assms(4) by (rule generateUniverse_ok)
  then have wf: "js_wf u" by (simp add: universe_ok_def)
  have fb: "anyForbiddenFilterRuleMatches u fs = Inr (list_ex (\<lambda>(t, e). list_ex (rule_forbids t e) (fs_rules fs)) u)"
    unfolding anyForbiddenFilterRuleMatches_search [OF assms(5)] js_get_in [OF wf, symmetric] by (auto simp: list_ex_iff)
  from markAllowed_decision [OF ok assms(5), of fs] obtain u' where
    u': "markAllowedTagsAndPropertyValues fs u = Inr u'"
    "list_all (\<lambda>(t, e). flag e ''tag'' \<and> js_get e touched = Some False) u' \<longleftrightarrow>
      list_all (\<lambda>(t, e). entry_conforms fs t e) u" by blast
  show ?thesis
    unfolding filterStatusAllowsFeature_def final_test
    using assms(1-4) fb u' by (auto simp: list_all_iff list_ex_iff split: bool.splits)
qed

text \<open>
  C2. An active filter with rules allows a feature exactly when no rule forbids a required tag or a required
  property key of it and, if some rule allows tags, every required tag is allowed by such a rule and, when some
  rule restricts the properties of that tag, each required property key is covered by an allowed value. The
  marking with deletions, in any order of the rules, computes this.
\<close>

theorem filterStatusAllowsFeature_meaning:
  assumes "fs_active fs" and "f_rules f \<noteq> []" and "fs_rules fs \<noteq> []"
    and "generateUniverseFromFeatureRequirements f = Inr u" and "\<not> js_has u ''*''"
  shows "filterStatusAllowsFeature fs f =
     Inr (list_all (\<lambda>(t, e). \<not> list_ex (rule_forbids t e) (fs_rules fs) \<and>
       (list_ex (\<lambda>r. fr_allow r = Some True) (fs_rules fs) \<longrightarrow> entry_conforms fs t e)) u)"
  using assms by (rule filterStatus_decision)

section \<open>Rules that occur in practice\<close>

definition tags_rule :: "string list \<Rightarrow> bool \<Rightarrow> filter_rule" where
  "tags_rule ts al = FilterHTMLRule\<lparr>fr_tags := ts, fr_allow := Some al\<rparr>"

definition attributes_rule :: "string list \<Rightarrow> string list \<Rightarrow> filter_rule" where
  "attributes_rule ts as =
     FilterHTMLRule\<lparr>fr_restrictedTags :=
       \<lparr>rt_tags = ts, rt_allowed = no_props\<lparr>attributes := as\<rparr>, rt_forbidden = no_props\<rparr>\<rparr>"

definition requires_rule :: "string list \<Rightarrow> string list \<Rightarrow> feature_rule" where
  "requires_rule ts as = EditorFeatureHTMLRule\<lparr>required := no_tag_props\<lparr>tags := ts, attributes := as\<rparr>\<rparr>"

lemmas rule_makers = tags_rule_def attributes_rule_def requires_rule_def FilterHTMLRule_def
  EditorFeatureHTMLRule_def no_props_def no_tag_props_def

lemma require_values_repeat:
  "js_get u tag = Some e \<Longrightarrow> require_values tag key vs u = Inr (if vs = [] then u else js_put tag (js_put key False e) u)"
proof (induction vs arbitrary: u e)
  case (Cons v vs)
  have "js_get (js_put tag (js_put key False e) u) tag = Some (js_put key False e)" by simp
  from Cons.IH [OF this] Cons.prems show ?case by simp
qed simp

lemma one_tag_universe:
  assumes "as \<noteq> []"
  shows "generateUniverseFromFeatureRequirements \<lparr>f_name = nm, f_rules = [requires_rule [t] as]\<rparr> =
     Inr [(t, js_put (prop_key ''attributes'' (js_join '','' as)) False new_entry)]"
  using assms
  by (simp add: generateUniverseFromFeatureRequirements_def rule_makers emptyProperties_def property_names_def
      prop_values_def require_values_repeat)

lemma keys_new_entry: "set (js_keys new_entry) = {''tag'', touched}"
  by (auto simp: new_entry_def)

lemma hits_attributes: "hits (no_props\<lparr>attributes := as\<rparr>) k \<longleftrightarrow> list_ex (\<lambda>a. hit ''attributes'' a k) as"
  by (simp add: hits_def no_props_def property_names_def prop_values_def)

lemma hits_none: "\<not> hits no_props k"
  by (simp add: hits_def no_props_def property_names_def prop_values_def)

lemma one_tag_decision:
  assumes "as \<noteq> []" and "t \<noteq> ''*''"
  shows "filterStatusAllowsFeature \<lparr>fs_name = fn, fs_active = True, fs_rules = [tags_rule [t] True, attributes_rule [t] bs]\<rparr>
       \<lparr>f_name = nm, f_rules = [requires_rule [t] as]\<rparr> =
     Inr (bs = [] \<or> list_ex (\<lambda>b. hit ''attributes'' b (prop_key ''attributes'' (js_join '','' as))) bs)"
proof -
  let ?key = "prop_key ''attributes'' (js_join '','' as)"
  let ?fs = "\<lparr>fs_name = fn, fs_active = True, fs_rules = [tags_rule [t] True, attributes_rule [t] bs]\<rparr>"
  have key: "?key \<noteq> ''tag''" "?key \<noteq> touched" by (simp_all add: prop_key_def)
  have keys: "set (js_keys (js_put ?key False new_entry)) = {''tag'', touched, ?key}"
    using keys_new_entry by auto
  have nf: "\<not> list_ex (hits no_props) ks" for ks
    by (auto simp: list_ex_iff hits_none)
  have "\<not> list_ex (rule_forbids t (js_put ?key False new_entry)) (fs_rules ?fs)"
    using nf by (simp add: rule_forbids_def tags_rule_def attributes_rule_def FilterHTMLRule_def)
  moreover have "allows_tag ?fs t" by (simp add: allows_tag_def rule_makers)
  moreover have "restricts_tag ?fs t \<longleftrightarrow> bs \<noteq> []"
    by (simp add: restricts_tag_def rule_makers emptyProperties_def reaches_def)
  moreover have "allows_key ?fs t ?key \<longleftrightarrow> list_ex (\<lambda>b. hit ''attributes'' b ?key) bs"
    using hits_attributes [of bs ?key]
    by (simp add: allows_key_def tags_rule_def attributes_rule_def FilterHTMLRule_def reaches_def)
  ultimately show ?thesis
    using filterStatus_decision [OF _ _ _ one_tag_universe [OF assms(1), of nm t], of ?fs] assms(2) key
    by (simp add: js_has_def entry_conforms_def list_all_iff keys tags_rule_def del: set_map) blast
qed

text \<open>The filter and the features of the examples: links with a target attribute.\<close>

definition link_filter :: filter_status where
  "link_filter = \<lparr>fs_name = ''filter_html'', fs_active = True,
     fs_rules = [tags_rule [''a''] True, attributes_rule [''a''] [''href'']]\<rparr>"

definition link_feature :: feature where
  "link_feature = EditorFeature_addHTMLRule (requires_rule [''a''] [''href'']) (EditorFeature ''drupallink'')"

theorem filterStatusAllowsFeature_meaning_witness:
  "filterStatusAllowsFeature link_filter link_feature = Inr True \<and>
   (\<exists>u. generateUniverseFromFeatureRequirements link_feature = Inr u \<and> \<not> js_has u ''*'' \<and>
     list_all (\<lambda>(t, e). \<not> list_ex (rule_forbids t e) (fs_rules link_filter) \<and>
       (list_ex (\<lambda>r. fr_allow r = Some True) (fs_rules link_filter) \<longrightarrow> entry_conforms link_filter t e)) u)"
proof -
  let ?u = "[(''a'', js_put (prop_key ''attributes'' ''href'') False new_entry)]"
  have f: "link_feature = \<lparr>f_name = ''drupallink'', f_rules = [requires_rule [''a''] [''href'']]\<rparr>"
    by (simp add: link_feature_def EditorFeature_addHTMLRule_def EditorFeature_def)
  have u: "generateUniverseFromFeatureRequirements link_feature = Inr ?u"
    using one_tag_universe [of "[''href'']" "''drupallink''" "''a''"] unfolding f by simp
  have "fs_active link_filter" "f_rules link_feature \<noteq> []" "fs_rules link_filter \<noteq> []"
    unfolding f by (simp_all add: link_filter_def)
  note meaning = filterStatusAllowsFeature_meaning [OF this u]
  have "filterStatusAllowsFeature link_filter link_feature = Inr True"
    unfolding f link_filter_def by (simp add: one_tag_decision hit_def)
  with meaning u show ?thesis by (simp add: js_has_def)
qed

lemma tags_universe:
  "\<forall>r \<in> set rs. emptyProperties (required r) \<Longrightarrow>
   generate_rules rs u = Inr (fold (\<lambda>t. js_put t new_entry) (concat (map (\<lambda>r. tags (required r)) rs)) u)"
  by (induction rs arbitrary: u) (simp_all add: Let_def)

lemma new_entry_quiet:
  "list_ex (rule_forbids t new_entry) rs = list_ex (\<lambda>r. fr_allow r = Some False \<and> t \<in> set (fr_tags r)) rs"
  "entry_conforms fs t new_entry = allows_tag fs t"
proof -
  have "\<not> hits fb touched" for fb
    by (auto simp: hits_def list_ex_iff dest: hit_colon)
  then have "\<not> list_ex (hits fb) (js_keys new_entry)" for fb
    using tag_not_hit keys_new_entry unfolding list_ex_iff by auto
  then have "rule_forbids t new_entry r \<longleftrightarrow> fr_allow r = Some False \<and> t \<in> set (fr_tags r)" for r
    by (simp add: rule_forbids_def)
  then show "list_ex (rule_forbids t new_entry) rs = list_ex (\<lambda>r. fr_allow r = Some False \<and> t \<in> set (fr_tags r)) rs"
    by (simp add: list_ex_iff)
  show "entry_conforms fs t new_entry = allows_tag fs t"
    unfolding entry_conforms_def list_all_iff keys_new_entry by simp
qed

text \<open>
  A feature that requires tags only is allowed by an active filter exactly when no required tag is in a
  forbidding rule and, if the filter has an allowing rule, each required tag is in one: restrictions on
  attributes, styles and classes play no role.
\<close>

theorem tag_only_feature_allowed:
  assumes "fs_active fs" and "f_rules f \<noteq> []" and "fs_rules fs \<noteq> []"
    and "list_all (\<lambda>r. emptyProperties (required r)) (f_rules f)"
    and "''*'' \<notin> set (concat (map (\<lambda>r. tags (required r)) (f_rules f)))"
  shows "filterStatusAllowsFeature fs f =
     Inr (list_all (\<lambda>t. \<not> list_ex (\<lambda>r. fr_allow r = Some False \<and> t \<in> set (fr_tags r)) (fs_rules fs) \<and>
       (list_ex (\<lambda>r. fr_allow r = Some True) (fs_rules fs) \<longrightarrow> allows_tag fs t))
       (concat (map (\<lambda>r. tags (required r)) (f_rules f))))"
proof -
  let ?ts = "concat (map (\<lambda>r. tags (required r)) (f_rules f))"
  let ?u = "fold (\<lambda>t. js_put t new_entry) ?ts []"
  have u: "generateUniverseFromFeatureRequirements f = Inr ?u"
    using assms(4) tags_universe by (simp add: generateUniverseFromFeatureRequirements_def list_all_iff)
  have get: "js_get ?u t = (if t \<in> set ?ts then Some new_entry else None)" for t
    using jsobj.get_fold_put [of "\<lambda>_. new_entry" ?ts "[]" t] by simp
  have wf: "js_wf ?u" using jsobj.wf_fold_put [of "[]" "\<lambda>_. new_entry" ?ts] by simp
  have "\<not> js_has ?u ''*''" using assms(5) get by (simp add: js_has_get)
  from filterStatus_decision [OF assms(1-3) u this] show ?thesis
    unfolding list_all_js [OF wf] get
    by (auto simp: new_entry_quiet list_all_iff [of _ ?ts] split: if_splits)
qed

theorem tag_only_feature_allowed_witness:
  "filterStatusAllowsFeature link_filter
     (EditorFeature_addHTMLRule (requires_rule [''a'', ''b''] []) (EditorFeature ''bold'')) = Inr False \<and>
   filterStatusAllowsFeature link_filter
     (EditorFeature_addHTMLRule (requires_rule [''a''] []) (EditorFeature ''anchor'')) = Inr True"
proof -
  let ?f = "EditorFeature_addHTMLRule (requires_rule [''a'', ''b''] []) (EditorFeature ''bold'')"
  let ?g = "EditorFeature_addHTMLRule (requires_rule [''a''] []) (EditorFeature ''anchor'')"
  have "fs_active link_filter" "f_rules ?f \<noteq> []" "f_rules ?g \<noteq> []" "fs_rules link_filter \<noteq> []"
    "list_all (\<lambda>r. emptyProperties (required r)) (f_rules ?f)"
    "list_all (\<lambda>r. emptyProperties (required r)) (f_rules ?g)"
    "''*'' \<notin> set (concat (map (\<lambda>r. tags (required r)) (f_rules ?f)))"
    "''*'' \<notin> set (concat (map (\<lambda>r. tags (required r)) (f_rules ?g)))" by code_simp+
  then show ?thesis
    by (simp add: tag_only_feature_allowed)
      (simp add: link_filter_def EditorFeature_addHTMLRule_def EditorFeature_def rule_makers allows_tag_def)
qed

text \<open>
  The universe has one key for all required values of a property, their comma-separated list: a feature that
  requires two attributes of a tag is rejected by a filter that allows the tag with exactly these two attributes,
  while each attribute alone is accepted.
\<close>

theorem two_required_attributes_rejected:
  assumes "t \<noteq> ''*''" and "CHR ''*'' \<notin> set a" and "CHR ''*'' \<notin> set b"
    and "fs = \<lparr>fs_name = fn, fs_active = True, fs_rules = [tags_rule [t] True, attributes_rule [t] [a, b]]\<rparr>"
  shows "filterStatusAllowsFeature fs \<lparr>f_name = nm, f_rules = [requires_rule [t] [a, b]]\<rparr> = Inr False \<and>
     filterStatusAllowsFeature fs \<lparr>f_name = nm, f_rules = [requires_rule [t] [a]]\<rparr> = Inr True \<and>
     filterStatusAllowsFeature fs \<lparr>f_name = nm, f_rules = [requires_rule [t] [b]]\<rparr> = Inr True"
proof -
  have "a @ '','' @ b \<noteq> a" "a @ '','' @ b \<noteq> b" by simp_all
  with assms show ?thesis by (simp add: one_tag_decision hit_def prop_key_def)
qed

theorem two_required_attributes_rejected_witness:
  "filterStatusAllowsFeature
     \<lparr>fs_name = ''filter_html'', fs_active = True, fs_rules = [tags_rule [''img''] True, attributes_rule [''img''] [''src'', ''alt'']]\<rparr>
     \<lparr>f_name = ''image'', f_rules = [requires_rule [''img''] [''src'', ''alt'']]\<rparr> = Inr False"
  using two_required_attributes_rejected
    [of "''img''" "''src''" "''alt''"
      "\<lparr>fs_name = ''filter_html'', fs_active = True, fs_rules = [tags_rule [''img''] True, attributes_rule [''img''] [''src'', ''alt'']]\<rparr>"
      "''filter_html''" "''image''"] by simp

text \<open>
  A feature rule with several required tags and a required attribute throws: the universe is indexed with the
  list of the tags.
\<close>

theorem two_required_tags_throw:
  "generateUniverseFromFeatureRequirements \<lparr>f_name = nm, f_rules = requires_rule [s, t] (a # as) # rs\<rparr> = Inl TypeError"
proof -
  have "s @ '','' @ t \<noteq> s" "s @ '','' @ t \<noteq> t" by simp_all
  then show ?thesis
    by (simp add: generateUniverseFromFeatureRequirements_def rule_makers emptyProperties_def property_names_def
        prop_values_def)
qed

section \<open>All filters\<close>

definition refreshed :: "(string \<Rightarrow> bool) \<Rightarrow> (string \<Rightarrow> (filter_rule list js) option) \<Rightarrow> string \<Rightarrow> filter_status \<Rightarrow> filter_status" where
  "refreshed checked parsers i fs =
     (case parsers i of
        Some (Inr rules) \<Rightarrow> fs\<lparr>fs_active := checked i, fs_rules := rules\<rparr>
      | _ \<Rightarrow> fs\<lparr>fs_active := checked i\<rparr>)"

lemma filterConfiguration_update_Inr:
  "filterConfiguration_update checked parsers ss = Inr ss' \<longleftrightarrow>
   list_all (\<lambda>(i, fs). case parsers i of Some (Inl e) \<Rightarrow> False | _ \<Rightarrow> True) ss \<and>
   ss' = map (\<lambda>(i, fs). (i, refreshed checked parsers i fs)) ss"
proof (induction ss arbitrary: ss')
  case (Cons s ss)
  obtain i fs where s: "s = (i, fs)" by (cases s)
  show ?case
  proof (cases "filterConfiguration_update checked parsers ss")
    case (Inl e)
    then show ?thesis using Cons.IH s
      by (auto simp: Let_def split: option.splits sum.splits)
  next
    case (Inr ss1)
    then show ?thesis using Cons.IH [of ss1] s
      by (auto simp: refreshed_def Let_def split: option.splits sum.splits)
  qed
qed auto

lemma every_status_allows_True:
  "every_status_allows ss f = Inr True \<longleftrightarrow> list_all (\<lambda>(i, fs). filterStatusAllowsFeature fs f = Inr True) ss"
  by (induction ss f rule: every_status_allows.induct) (auto split: sum.splits)

text \<open>
  A feature is reported as allowed exactly when no live setting parser throws and every filter, refreshed from
  its checkbox and its parser, allows it; the statuses that remain are the refreshed ones. Unchecked filters and
  features without rules never stand in the way.
\<close>

theorem featureIsAllowedByFilters_iff:
  "featureIsAllowedByFilters checked parsers ss f = Inr (True, ss') \<longleftrightarrow>
   list_all (\<lambda>(i, fs). case parsers i of Some (Inl e) \<Rightarrow> False | _ \<Rightarrow> True) ss \<and>
   ss' = map (\<lambda>(i, fs). (i, refreshed checked parsers i fs)) ss \<and>
   list_all (\<lambda>(i, fs). checked i \<and> f_rules f \<noteq> [] \<longrightarrow>
     filterStatusAllowsFeature (refreshed checked parsers i fs) f = Inr True) ss"
proof -
  have act: "fs_active (refreshed checked parsers i fs) = checked i" for i fs
    by (simp add: refreshed_def split: option.splits sum.splits)
  have "filterStatusAllowsFeature (refreshed checked parsers i fs) f = Inr True \<longleftrightarrow>
      (checked i \<and> f_rules f \<noteq> [] \<longrightarrow> filterStatusAllowsFeature (refreshed checked parsers i fs) f = Inr True)" for i fs
    using act [of i fs] by (auto simp: filterStatusAllowsFeature_def)
  then have "every_status_allows (map (\<lambda>(i, fs). (i, refreshed checked parsers i fs)) ss) f = Inr True \<longleftrightarrow>
      list_all (\<lambda>(i, fs). checked i \<and> f_rules f \<noteq> [] \<longrightarrow>
        filterStatusAllowsFeature (refreshed checked parsers i fs) f = Inr True) ss"
    unfolding every_status_allows_True by (fastforce simp: list_all_iff)
  moreover have "featureIsAllowedByFilters checked parsers ss f = Inr (True, ss') \<longleftrightarrow>
      filterConfiguration_update checked parsers ss = Inr ss' \<and> every_status_allows ss' f = Inr True"
    by (auto simp: featureIsAllowedByFilters_def split: sum.splits)
  ultimately show ?thesis unfolding filterConfiguration_update_Inr by blast
qed

theorem featureIsAllowedByFilters_iff_witness:
  "featureIsAllowedByFilters (\<lambda>i. i = ''filter_html'') (\<lambda>i. None)
     [(''filter_html'', link_filter), (''filter_url'', FilterStatus ''filter_url'')] link_feature =
   Inr (True, [(''filter_html'', link_filter), (''filter_url'', FilterStatus ''filter_url'')])"
proof -
  have "filterStatusAllowsFeature link_filter link_feature = Inr True"
    by (simp add: one_tag_decision hit_def link_filter_def link_feature_def EditorFeature_addHTMLRule_def EditorFeature_def)
  moreover have "link_filter\<lparr>fs_active := True\<rparr> = link_filter" by (simp add: link_filter_def)
  ultimately show ?thesis
    by (simp add: featureIsAllowedByFilters_iff refreshed_def FilterStatus_def)
qed

lemma filter_id_of_checkbox:
  assumes "CHR '']'' \<notin> set i"
  shows "filter_id_of_name (''filters['' @ i @ ''][status]'') = i"
proof -
  have "takeWhile (\<lambda>d. d \<noteq> CHR '']'') (''filters['' @ i @ ''][status]'') = ''filters['' @ i"
    using assms by (auto simp: takeWhile_append2 takeWhile_append)
  then have "js_indexOf CHR '']'' (''filters['' @ i @ ''][status]'') = int (length i) + 8"
    by (simp add: js_indexOf_def)
  then show ?thesis by (simp add: filter_id_of_name_def js_substring_def nat_add_distrib)
qed

text \<open>
  The filter ID is recovered from the name of its checkbox, so that after initialisation there is one inactive
  status without rules for each filter on the form, and the statuses that existed before are kept.
\<close>

theorem initializeFilterConfiguration_statuses:
  assumes "\<forall>i \<in> set ids. CHR '']'' \<notin> set i"
  shows "js_get (initializeFilterConfiguration (map (\<lambda>i. ''filters['' @ i @ ''][status]'') ids) ss) j =
     (if j \<in> set ids then Some \<lparr>fs_name = j, fs_active = False, fs_rules = []\<rparr> else js_get ss j)"
proof -
  have "initializeFilterConfiguration (map (\<lambda>i. ''filters['' @ i @ ''][status]'') ids) ss =
      fold (\<lambda>i. js_put i (FilterStatus i)) ids ss"
    using assms
  proof (induction ids arbitrary: ss)
    case (Cons i ids)
    then show ?case
      using filter_id_of_checkbox [of i] by (simp add: initializeFilterConfiguration_def)
  qed (simp add: initializeFilterConfiguration_def)
  then show ?thesis using jsobj.get_fold_put [of FilterStatus ids ss j] by (simp add: FilterStatus_def)
qed

theorem initializeFilterConfiguration_statuses_witness:
  "js_get (initializeFilterConfiguration [''filters[filter_html][status]''] []) ''filter_html'' =
   Some \<lparr>fs_name = ''filter_html'', fs_active = False, fs_rules = []\<rparr>"
  using initializeFilterConfiguration_statuses [of "[''filter_html'']" "[]" "''filter_html''"] by simp

end
