(* ===== verification/Filter_Html.thy ===== *)
theory Filter_Html
  imports Editor_Features Drupal_Api
begin

text \<open>
  The "Limit allowed HTML tags" filter on the text format form,
  \<open>core/modules/filter/filter.filter_html.admin.es6.js\<close>: the setting is parsed to one filter rule per tag and
  printed back, and the tags that the features of the text editor need are added to it.

  The browser's HTML parser behind \<open>$(...)\<close> is an argument of the definitions: it gives the \<open>tagName\<close> of the
  element made from a start tag and its attributes (node name and text content) in order, or \<open>None\<close> when the
  text is not parsed to an element, so that \<open>prop('tagName')\<close> is undefined. A tag table is an object keyed by tag
  name; the array that the handler of manual changes makes is such an object with the keys 0, 1, and so on.
\<close>

section \<open>Parsing and printing the setting\<close>

type_synonym tag_table = "filter_rule jsobj"
type_synonym html_parser = "string \<Rightarrow> (string \<times> (string \<times> string) list) option"

text \<open>\<open>setting.match(/(<[^>]+>)/g)\<close>, with the empty list for \<open>null\<close>.\<close>

function match_tags :: "string \<Rightarrow> string list" where
  "match_tags [] = []"
| "match_tags (c # s) =
     (if c = CHR ''<'' \<and> takeWhile (\<lambda>d. d \<noteq> CHR ''>'') s \<noteq> [] \<and> CHR ''>'' \<in> set s
      then (c # takeWhile (\<lambda>d. d \<noteq> CHR ''>'') s @ ''>'') # match_tags (drop (Suc (length (takeWhile (\<lambda>d. d \<noteq> CHR ''>'') s))) s)
      else match_tags s)"
  by pat_completeness auto
termination
  by (relation "measure length") auto

definition lower_char :: "char \<Rightarrow> char" where
  "lower_char c = (if 65 \<le> (of_char c :: nat) \<and> (of_char c :: nat) \<le> 90 then char_of ((of_char c :: nat) + 32) else c)"

definition toLowerCase :: "string \<Rightarrow> string" where
  "toLowerCase s = map lower_char s"

definition set_allowed :: "(props \<Rightarrow> props) \<Rightarrow> filter_rule \<Rightarrow> filter_rule" where
  "set_allowed g r =
     r\<lparr>fr_restrictedTags := (fr_restrictedTags r)\<lparr>rt_allowed := g (rt_allowed (fr_restrictedTags r))\<rparr>\<rparr>"

abbreviation allowed_attributes :: "filter_rule \<Rightarrow> string list" where
  "allowed_attributes r \<equiv> attributes (rt_allowed (fr_restrictedTags r))"

abbreviation allowed_classes :: "filter_rule \<Rightarrow> string list" where
  "allowed_classes r \<equiv> classes (rt_allowed (fr_restrictedTags r))"

definition rule_for_tag :: "string \<Rightarrow> filter_rule" where
  "rule_for_tag tag =
     FilterHTMLRule\<lparr>fr_restrictedTags := (fr_restrictedTags FilterHTMLRule)\<lparr>rt_tags := [tag]\<rparr>\<rparr>"

definition add_attribute :: "string \<times> string \<Rightarrow> filter_rule \<Rightarrow> filter_rule" where
  "add_attribute attribute r =
     (if fst attribute = ''class'' then set_allowed (classes_update (\<lambda>_. js_split '' '' (snd attribute))) r
      else set_allowed (attributes_update (\<lambda>as. as @ [fst attribute])) r)"

fun parse_tags :: "html_parser \<Rightarrow> string list \<Rightarrow> tag_table \<Rightarrow> tag_table js" where
  "parse_tags html [] rules = Inr rules"
| "parse_tags html (a # as) rules =
     (case html a of
        None \<Rightarrow> Inl TypeError
      | Some (tagName, atts) \<Rightarrow>
          parse_tags html as
            (js_put (toLowerCase tagName) (fold add_attribute atts (rule_for_tag (toLowerCase tagName))) rules))"

definition parseSetting :: "html_parser \<Rightarrow> string \<Rightarrow> tag_table js" where
  "parseSetting html setting =
     (if match_tags setting = [] then Inl TypeError else parse_tags html (match_tags setting) [])"

definition print_tag :: "string \<Rightarrow> filter_rule \<Rightarrow> string" where
  "print_tag tag rule =
     ''<'' @ tag
     @ (if allowed_attributes rule \<noteq> [] then '' '' @ js_join '' '' (allowed_attributes rule) else '''')
     @ (if allowed_classes rule = [''''] then '' class''
        else if allowed_classes rule \<noteq> [] then '' class='' @ [CHR 0x22] @ js_join '' '' (allowed_classes rule) @ [CHR 0x22]
        else '''')
     @ ''>''"

definition generateSetting :: "tag_table \<Rightarrow> string" where
  "generateSetting tbl =
     foldl (\<lambda>setting (tag, rule). setting @ (if setting \<noteq> [] then '' '' else '''') @ print_tag tag rule) [] tbl"

section \<open>The tags that the editor needs\<close>

text \<open>
  \<open>mainData.filter((data) => !otherData.includes(data))\<close>; the first argument is \<open>===\<close> on the elements.
\<close>

definition difference :: "('a \<Rightarrow> 'a \<Rightarrow> bool) \<Rightarrow> 'a list \<Rightarrow> 'a list \<Rightarrow> 'a list" where
  "difference same mainData otherData = filter (\<lambda>data. \<not> list_ex (same data) otherData) mainData"

definition restricts_classes :: "tag_table \<Rightarrow> string \<Rightarrow> bool" where
  "restricts_classes userAllowedTags tag =
     (case js_get userAllowedTags tag of
        None \<Rightarrow> False
      | Some r \<Rightarrow> (case allowed_classes r of [] \<Rightarrow> True | c # _ \<Rightarrow> c \<noteq> ''''))"

definition require_tag :: "tag_table \<Rightarrow> feature_rule \<Rightarrow> string \<Rightarrow> tag_table \<Rightarrow> tag_table" where
  "require_tag userAllowedTags featureRule tag tbl =
     (case js_get tbl tag of
        None \<Rightarrow>
          (let r1 = set_allowed (attributes_update (\<lambda>_. attributes (required featureRule))) (rule_for_tag tag)
           in js_put tag
                (if restricts_classes userAllowedTags tag
                 then set_allowed (classes_update (\<lambda>_. classes (required featureRule))) r1 else r1) tbl)
      | Some r \<Rightarrow>
          (let r1 = set_allowed (attributes_update (\<lambda>as. as @ attributes (required featureRule))) r
           in js_put tag
                (if restricts_classes userAllowedTags tag
                 then set_allowed (classes_update (\<lambda>cs. cs @ classes (required featureRule))) r1 else r1) tbl))"

definition require_feature_rule :: "tag_table \<Rightarrow> feature_rule \<Rightarrow> tag_table \<Rightarrow> tag_table" where
  "require_feature_rule userAllowedTags featureRule tbl =
     fold (require_tag userAllowedTags featureRule) (tags (required featureRule)) tbl"

definition editorRequiredTags :: "tag_table \<Rightarrow> feature_rule list jsobj \<Rightarrow> tag_table" where
  "editorRequiredTags userAllowedTags newFeatures =
     fold (\<lambda>(featureName, rs). fold (require_feature_rule userAllowedTags) rs) newFeatures []"

definition auto_tag :: "tag_table \<Rightarrow> string \<Rightarrow> filter_rule \<Rightarrow> tag_table \<Rightarrow> tag_table" where
  "auto_tag userAllowedTags tag req autoAllowedTags =
     (case js_get userAllowedTags tag of
        None \<Rightarrow> js_put tag req autoAllowedTags
      | Some user \<Rightarrow>
          (let needsAttributes = allowed_attributes req \<noteq> [] \<and>
                 difference (=) (allowed_attributes req) (allowed_attributes user) \<noteq> [];
               needsClasses = allowed_classes req \<noteq> [] \<and>
                 difference (=) (allowed_classes req) (allowed_classes user) \<noteq> [];
               r0 = FilterHTMLRule_clone user;
               r1 = (if needsAttributes
                     then set_allowed (attributes_update (\<lambda>_. allowed_attributes user @ allowed_attributes req)) r0
                     else r0);
               r2 = (if needsClasses
                     then set_allowed (classes_update (\<lambda>_. allowed_classes user @ allowed_classes req)) r1
                     else r1)
           in if needsAttributes \<or> needsClasses then js_put tag r2 autoAllowedTags else autoAllowedTags))"

definition calculateAutoAllowedTags :: "tag_table \<Rightarrow> feature_rule list jsobj \<Rightarrow> tag_table" where
  "calculateAutoAllowedTags userAllowedTags newFeatures =
     fold (\<lambda>(tag, req). auto_tag userAllowedTags tag req) (editorRequiredTags userAllowedTags newFeatures) []"

section \<open>The behavior and its event handlers\<close>

record filter_html_state =
  userTags :: tag_table
  autoTags :: "tag_table option"
  newFeatures :: "feature_rule list jsobj"
  formItem :: string
  messages :: "string list"

definition filterFilterHTMLUpdateMessage :: "themes \<Rightarrow> translation_table option \<Rightarrow> tag_table \<Rightarrow> string js" where
  "filterFilterHTMLUpdateMessage T tr tbl =
     (case drupal_t T tr
        ''Based on the text editor configuration, these tags have automatically been added: <strong>@tag-list</strong>.''
        (Some [(''@tag-list'', VStr (generateSetting tbl))]) None of
        Inl e \<Rightarrow> Inl e
      | Inr s \<Rightarrow> Inr (''<p class='' @ [CHR 0x22] @ ''editor-update-message'' @ [CHR 0x22] @ ''>'' @ s @ ''</p>''))"

definition withoutOverrides :: "tag_table \<Rightarrow> tag_table \<Rightarrow> tag_table" where
  "withoutOverrides user auto =
     fold (\<lambda>(tag, r). js_put tag r) (filter (\<lambda>(tag, r). \<not> js_has auto tag) user) []"

definition updateAllowedTags :: "themes \<Rightarrow> translation_table option \<Rightarrow> filter_html_state \<Rightarrow> filter_html_state js" where
  "updateAllowedTags T tr st =
     (let auto = calculateAutoAllowedTags (userTags st) (newFeatures st);
          st1 = st\<lparr>autoTags := Some auto, messages := []\<rparr>
      in if auto \<noteq> []
         then
           (case filterFilterHTMLUpdateMessage T tr auto of
              Inl e \<Rightarrow> Inl e
            | Inr msg \<Rightarrow>
                Inr (st1\<lparr>messages := [msg],
                  formItem := generateSetting (withoutOverrides (userTags st) auto) @ '' '' @ generateSetting auto\<rparr>))
         else Inr (st1\<lparr>formItem := generateSetting (userTags st)\<rparr>))"

text \<open>\<open>attach\<close> on the form item with the given value, before any feature is added.\<close>

definition filter_html_attach :: "html_parser \<Rightarrow> string \<Rightarrow> filter_html_state js" where
  "filter_html_attach html v =
     (case parseSetting html v of
        Inl e \<Rightarrow> Inl e
      | Inr tbl \<Rightarrow> Inr \<lparr>userTags = tbl, autoTags = None, newFeatures = [], formItem = v, messages = []\<rparr>)"

definition on_featureAdded :: "themes \<Rightarrow> translation_table option \<Rightarrow> feature \<Rightarrow> filter_html_state \<Rightarrow> filter_html_state js" where
  "on_featureAdded T tr f st =
     updateAllowedTags T tr (st\<lparr>newFeatures := js_put (f_name f) (f_rules f) (newFeatures st)\<rparr>)"

definition on_featureModified :: "themes \<Rightarrow> translation_table option \<Rightarrow> feature \<Rightarrow> filter_html_state \<Rightarrow> filter_html_state js" where
  "on_featureModified T tr f st =
     (if js_has (newFeatures st) (f_name f)
      then updateAllowedTags T tr (st\<lparr>newFeatures := js_put (f_name f) (f_rules f) (newFeatures st)\<rparr>)
      else Inr st)"

definition on_featureRemoved :: "themes \<Rightarrow> translation_table option \<Rightarrow> feature \<Rightarrow> filter_html_state \<Rightarrow> filter_html_state js" where
  "on_featureRemoved T tr f st =
     (if js_has (newFeatures st) (f_name f)
      then updateAllowedTags T tr (st\<lparr>newFeatures := js_del (f_name f) (newFeatures st)\<rparr>)
      else Inr st)"

text \<open>
  The user edits the field: rule objects that were just parsed are not identical to any other object, so
  \<open>includes\<close> is false for all of them. The result is an array.
\<close>

definition array_object :: "'a list \<Rightarrow> 'a jsobj" where
  "array_object xs = map (\<lambda>i. (nat_str i, xs ! i)) [0..<length xs]"

definition on_change :: "html_parser \<Rightarrow> string \<Rightarrow> filter_html_state \<Rightarrow> filter_html_state js" where
  "on_change html v st =
     (case parseSetting html v of
        Inl e \<Rightarrow> Inl e
      | Inr tbl \<Rightarrow>
          (case autoTags st of
             None \<Rightarrow> Inl TypeError
           | Some auto \<Rightarrow>
               Inr (st\<lparr>formItem := v,
                 userTags := array_object (difference (\<lambda>_ _. False) (map snd tbl) (map snd auto))\<rparr>)))"

text \<open>
  The live setting parser: \<open>rules\<close> is an object without a method \<open>push\<close> (a rule stored under that name is
  not a function either), so the call throws.
\<close>

definition getRules :: "html_parser \<Rightarrow> string \<Rightarrow> filter_rule list js" where
  "getRules html currentValue =
     (case parseSetting html currentValue of
        Inl e \<Rightarrow> Inl e
      | Inr rules \<Rightarrow> Inl TypeError)"

section \<open>The setting is read back as it was printed\<close>

lemma match_tags_tag:
  assumes "b \<noteq> []" and "CHR ''>'' \<notin> set b"
  shows "match_tags (CHR ''<'' # b @ CHR ''>'' # s) = (CHR ''<'' # b @ ''>'') # match_tags s"
proof -
  have "takeWhile (\<lambda>d. d \<noteq> CHR ''>'') (b @ CHR ''>'' # s) = b"
    using assms(2) by (subst takeWhile_append2) auto
  with assms(1) show ?thesis by simp
qed

lemma match_tags_space: "match_tags (CHR '' '' # s) = match_tags s"
  by simp

declare match_tags.simps(2) [simp del]

text \<open>A tag whose printed form is one start tag, and whose rule is the one the parser builds.\<close>

definition tag_ok :: "string \<Rightarrow> filter_rule \<Rightarrow> bool" where
  "tag_ok t r \<longleftrightarrow>
     t \<noteq> [] \<and> CHR ''>'' \<notin> set (t @ concat (allowed_attributes r) @ concat (allowed_classes r)) \<and>
     ''class'' \<notin> set (allowed_attributes r) \<and> CHR '' '' \<notin> set (concat (allowed_classes r)) \<and>
     r = set_allowed (\<lambda>p. p\<lparr>attributes := allowed_attributes r, classes := allowed_classes r\<rparr>) (rule_for_tag t)"

text \<open>
  What the HTML parser gives for a printed tag: the tag name up to case, the attributes in order with the
  first of equal names only, and the class attribute with its text.
\<close>

definition first_of_each :: "string list \<Rightarrow> string list" where
  "first_of_each xs = rev (remdups (rev xs))"

definition html_reads :: "html_parser \<Rightarrow> string \<Rightarrow> filter_rule \<Rightarrow> bool" where
  "html_reads html t r \<longleftrightarrow>
     (case html (print_tag t r) of
        None \<Rightarrow> False
      | Some (N, atts) \<Rightarrow>
          toLowerCase N = t \<and>
          atts = map (\<lambda>a. (a, '''')) (first_of_each (allowed_attributes r)) @
            (if allowed_classes r = [] then [] else [(''class'', js_join '' '' (allowed_classes r))]))"

definition single_attributes :: "filter_rule \<Rightarrow> filter_rule" where
  "single_attributes r = set_allowed (attributes_update first_of_each) r"

lemma print_tag_shape:
  assumes "tag_ok t r"
  obtains b where "print_tag t r = CHR ''<'' # b @ ''>''" and "b \<noteq> []" and "CHR ''>'' \<notin> set b"
proof -
  let ?b = "t @ (if allowed_attributes r \<noteq> [] then '' '' @ js_join '' '' (allowed_attributes r) else '''')
     @ (if allowed_classes r = [''''] then '' class''
        else if allowed_classes r \<noteq> [] then '' class='' @ [CHR 0x22] @ js_join '' '' (allowed_classes r) @ [CHR 0x22]
        else '''')"
  have "CHR ''>'' \<notin> set (js_join '' '' (allowed_attributes r))" "CHR ''>'' \<notin> set (js_join '' '' (allowed_classes r))"
    using assms set_js_join [of "'' ''" "allowed_attributes r"] set_js_join [of "'' ''" "allowed_classes r"]
    by (auto simp: tag_ok_def)
  with assms have "CHR ''>'' \<notin> set ?b" "?b \<noteq> []" by (auto simp: tag_ok_def)
  moreover have "print_tag t r = CHR ''<'' # ?b @ ''>''" by (simp add: print_tag_def)
  ultimately show thesis using that by blast
qed

lemma match_print_tag: "tag_ok t r \<Longrightarrow> match_tags (print_tag t r @ s) = print_tag t r # match_tags s"
  by (rule print_tag_shape) (auto simp: match_tags_tag)

lemma print_tag_not_Nil [simp]: "print_tag t r \<noteq> []"
  by (simp add: print_tag_def)

lemma generateSetting_join: "generateSetting tbl = js_join '' '' (map (\<lambda>(t, r). print_tag t r) tbl)"
proof (induction tbl rule: rev_induct)
  case (snoc x tbl)
  obtain t r where x: "x = (t, r)" by (cases x)
  show ?case
  proof (cases "tbl = []")
    case False
    have "js_join '' '' (map (\<lambda>(t, r). print_tag t r) tbl) \<noteq> []" using False
      by (cases tbl rule: list.exhaust) (auto simp: js_join_Cons split: prod.splits elim: js_join.elims)
    then have "generateSetting (tbl @ [x]) = generateSetting tbl @ '' '' @ print_tag t r"
      using snoc x by (simp add: generateSetting_def)
    with False snoc x show ?thesis by (simp add: js_join_append)
  qed (simp add: generateSetting_def x)
qed (simp add: generateSetting_def)

lemma match_generated:
  assumes "list_all (\<lambda>(t, r). tag_ok t r) tbl"
  shows "match_tags (generateSetting tbl @ s) = map (\<lambda>(t, r). print_tag t r) tbl @ match_tags s"
  unfolding generateSetting_join using assms
proof (induction tbl)
  case (Cons x tbl)
  obtain t r where x: "x = (t, r)" by (cases x)
  show ?case
  proof (cases "tbl = []")
    case True
    with Cons.prems x show ?thesis by (simp add: match_print_tag)
  next
    case False
    then have "js_join '' '' (map (\<lambda>(t, r). print_tag t r) (x # tbl)) @ s =
        print_tag t r @ CHR '' '' # js_join '' '' (map (\<lambda>(t, r). print_tag t r) tbl) @ s"
      using x by (simp add: js_join_Cons)
    with Cons x show ?thesis by (simp add: match_print_tag match_tags_space)
  qed
qed simp

lemma first_of_each_distinct: "distinct xs \<Longrightarrow> first_of_each xs = xs"
  by (simp add: first_of_each_def distinct_remdups_id)

lemma set_first_of_each [simp]: "set (first_of_each xs) = set xs"
  by (simp add: first_of_each_def)

lemma add_plain_attributes:
  "''class'' \<notin> set as \<Longrightarrow>
   fold add_attribute (map (\<lambda>a. (a, '''')) as) r = set_allowed (attributes_update (\<lambda>bs. bs @ as)) r"
  by (induction as arbitrary: r) (auto simp: add_attribute_def set_allowed_def)

lemma parse_printed_rule:
  assumes "tag_ok t r" and "html_reads html t r"
  shows "\<exists>N atts. html (print_tag t r) = Some (N, atts) \<and> toLowerCase N = t \<and>
     fold add_attribute atts (rule_for_tag t) = single_attributes r"
proof -
  from assms(2) obtain N where N: "toLowerCase N = t"
    "html (print_tag t r) = Some (N, map (\<lambda>a. (a, '''')) (first_of_each (allowed_attributes r)) @
       (if allowed_classes r = [] then [] else [(''class'', js_join '' '' (allowed_classes r))]))"
    by (auto simp: html_reads_def split: option.splits prod.splits)
  have cls: "js_split '' '' (js_join '' '' (allowed_classes r)) = allowed_classes r" if "allowed_classes r \<noteq> []"
    using assms(1) that by (intro js_split_join) (auto simp: tag_ok_def)
  let ?as = "first_of_each (allowed_attributes r)"
  have "fold add_attribute (map (\<lambda>a. (a, '''')) ?as @
       (if allowed_classes r = [] then [] else [(''class'', js_join '' '' (allowed_classes r))])) (rule_for_tag t) =
      set_allowed (\<lambda>p. p\<lparr>attributes := ?as, classes := allowed_classes r\<rparr>) (rule_for_tag t)"
    using assms(1) cls
    by (simp add: tag_ok_def add_plain_attributes add_attribute_def set_allowed_def rule_for_tag_def FilterHTMLRule_def no_props_def)
  also have "\<dots> = single_attributes r"
  proof -
    have r: "r = set_allowed (\<lambda>p. p\<lparr>attributes := allowed_attributes r, classes := allowed_classes r\<rparr>) (rule_for_tag t)"
      using assms(1) by (simp add: tag_ok_def)
    show ?thesis
      unfolding single_attributes_def by (subst (3) r) (simp add: set_allowed_def)
  qed
  finally show ?thesis using N by blast
qed

lemma parse_printed:
  assumes "list_all (\<lambda>(t, r). tag_ok t r \<and> html_reads html t r) tbl"
  shows "parse_tags html (map (\<lambda>(t, r). print_tag t r) tbl) rules =
     Inr (fold (\<lambda>(t, r). js_put t (single_attributes r)) tbl rules)"
  using assms
proof (induction tbl arbitrary: rules)
  case (Cons x tbl)
  obtain t r where x: "x = (t, r)" by (cases x)
  with Cons.prems parse_printed_rule [of t r html] Cons.IH show ?case by auto
qed simp

lemma parse_generated:
  assumes "list_all (\<lambda>(t, r). tag_ok t r \<and> html_reads html t r) (tbl1 @ tbl2)" and "tbl1 @ tbl2 \<noteq> []"
  shows "parseSetting html (generateSetting tbl1 @ '' '' @ generateSetting tbl2) =
     Inr (fold (\<lambda>(t, r). js_put t (single_attributes r)) (tbl1 @ tbl2) [])"
proof -
  have ok: "list_all (\<lambda>(t, r). tag_ok t r) tbl1" "list_all (\<lambda>(t, r). tag_ok t r) tbl2"
    using assms(1) by (auto simp: list_all_iff)
  have "match_tags (generateSetting tbl1 @ '' '' @ generateSetting tbl2) = map (\<lambda>(t, r). print_tag t r) (tbl1 @ tbl2)"
    using match_generated [OF ok(1), of "'' '' @ generateSetting tbl2"] match_generated [OF ok(2), of "[]"]
    by (simp add: match_tags_space)
  with assms(2) parse_printed [OF assms(1), of "[]"] show ?thesis by (simp add: parseSetting_def)
qed

lemma single_attributes_distinct: "distinct (allowed_attributes r) \<Longrightarrow> single_attributes r = r"
  by (simp add: single_attributes_def set_allowed_def first_of_each_distinct)

lemma fold_single:
  assumes "\<forall>(t, r) \<in> set tbl. distinct (allowed_attributes r)"
  shows "fold (\<lambda>(t, r). js_put t (single_attributes r)) tbl rules = fold (\<lambda>(t, r). js_put t r) tbl rules"
  using assms by (induction tbl arbitrary: rules) (auto simp: single_attributes_distinct)

lemma parse_generate:
  assumes "js_wf tbl" and "tbl \<noteq> []"
    and "list_all (\<lambda>(t, r). tag_ok t r \<and> html_reads html t r \<and> distinct (allowed_attributes r)) tbl"
  shows "parseSetting html (generateSetting tbl) = Inr tbl"
proof -
  have ok: "list_all (\<lambda>(t, r). tag_ok t r) tbl" and rd: "list_all (\<lambda>(t, r). tag_ok t r \<and> html_reads html t r) tbl"
    and di: "\<forall>(t, r) \<in> set tbl. distinct (allowed_attributes r)"
    using assms(3) by (auto simp: list_all_iff)
  have "match_tags (generateSetting tbl) = map (\<lambda>(t, r). print_tag t r) tbl"
    using match_generated [OF ok, of "[]"] by simp
  then have "parseSetting html (generateSetting tbl) = Inr (fold (\<lambda>(t, r). js_put t r) tbl [])"
    using assms(2) parse_printed [OF rd, of "[]"] fold_single [OF di, of "[]"] by (simp add: parseSetting_def)
  with fold_js_put_copy [OF assms(1)] show ?thesis by simp
qed

text \<open>
  C26. Printing a non-empty table of allowed tags and parsing the text again gives the same table, with the same
  order of the tags, provided the rules have the form the parser builds and attribute names occur once; the
  empty text throws.
\<close>

theorem parse_generate_roundtrip:
  assumes "js_wf tbl" and "tbl \<noteq> []"
    and "list_all (\<lambda>(t, r). tag_ok t r \<and> html_reads html t r \<and> distinct (allowed_attributes r)) tbl"
  shows "parseSetting html (generateSetting tbl) = Inr tbl \<and> parseSetting html (generateSetting []) = Inl TypeError"
  using parse_generate [OF assms] by (simp add: parseSetting_def generateSetting_def)

definition sample_tags :: tag_table where
  "sample_tags =
     [(''a'', set_allowed (attributes_update (\<lambda>_. [''href'', ''hreflang''])) (rule_for_tag ''a'')),
      (''p'', set_allowed (classes_update (\<lambda>_. [''callout''])) (rule_for_tag ''p''))]"

definition sample_html :: html_parser where
  "sample_html s =
     (if s = ''<a href hreflang>'' then Some (''A'', [(''href'', ''''), (''hreflang'', '''')])
      else if s = ''<p class='' @ [CHR 0x22] @ ''callout'' @ [CHR 0x22] @ ''>'' then Some (''P'', [(''class'', ''callout'')])
      else None)"

lemma sample_tags_wf: "js_wf sample_tags"
proof -
  have "\<not> is_array_index ''p''" using array_index_digits [of "''p''" "CHR ''p''"] by (auto simp: is_digit_def)
  then show ?thesis by (simp add: sample_tags_def js_wf_def key_before_def)
qed

lemma sample_tags_ok:
  "list_all (\<lambda>(t, r). tag_ok t r \<and> html_reads sample_html t r \<and> distinct (allowed_attributes r)) sample_tags"
proof -
  have "toLowerCase ''A'' = ''a''" "toLowerCase ''P'' = ''p''" by code_simp+
  then show ?thesis
    by (simp add: sample_tags_def tag_ok_def html_reads_def sample_html_def print_tag_def set_allowed_def
        rule_for_tag_def FilterHTMLRule_def no_props_def first_of_each_def)
qed

theorem parse_generate_roundtrip_witness:
  "parseSetting sample_html (generateSetting sample_tags) = Inr sample_tags \<and> sample_tags \<noteq> []"
  using parse_generate_roundtrip [OF sample_tags_wf _ sample_tags_ok] by (simp add: sample_tags_def)

section \<open>What the editor requires is allowed\<close>

text \<open>The required tags, one pair for each time that the loops of \<open>_calculateAutoAllowedTags\<close> reach a tag.\<close>

definition occurrences :: "feature_rule list jsobj \<Rightarrow> (string \<times> feature_rule) list" where
  "occurrences fs = concat (map (\<lambda>(n, rs). concat (map (\<lambda>r. map (\<lambda>t. (t, r)) (tags (required r))) rs)) fs)"

definition rules_of :: "string \<Rightarrow> (string \<times> feature_rule) list \<Rightarrow> feature_rule list" where
  "rules_of t os = map snd (filter (\<lambda>(s, r). s = t) os)"

definition needed_rule :: "tag_table \<Rightarrow> string \<Rightarrow> feature_rule list \<Rightarrow> filter_rule" where
  "needed_rule user t rs =
     set_allowed (\<lambda>p. p\<lparr>attributes := concat (map (\<lambda>r. attributes (required r)) rs),
       classes := (if restricts_classes user t then concat (map (\<lambda>r. classes (required r)) rs) else [])\<rparr>)
       (rule_for_tag t)"

lemma editorRequiredTags_occurrences:
  "editorRequiredTags user fs = fold (\<lambda>(t, r). require_tag user r t) (occurrences fs) []"
proof -
  have tags: "fold (require_tag user r) ts tbl = fold (\<lambda>(t, r). require_tag user r t) (map (\<lambda>t. (t, r)) ts) tbl" for r ts tbl
    by (induction ts arbitrary: tbl) auto
  have rules: "fold (require_feature_rule user) rs tbl =
      fold (\<lambda>(t, r). require_tag user r t) (concat (map (\<lambda>r. map (\<lambda>t. (t, r)) (tags (required r))) rs)) tbl" for rs tbl
    by (induction rs arbitrary: tbl) (auto simp: require_feature_rule_def tags)
  have "fold (\<lambda>(n, rs). fold (require_feature_rule user) rs) fs tbl = fold (\<lambda>(t, r). require_tag user r t) (occurrences fs) tbl" for tbl
    by (induction fs arbitrary: tbl) (auto simp: occurrences_def rules)
  then show ?thesis by (simp add: editorRequiredTags_def)
qed

lemma rules_of_snoc: "rules_of t (os @ [(s, r)]) = rules_of t os @ (if s = t then [r] else [])"
  by (simp add: rules_of_def)

lemma required_rule:
  "js_get (fold (\<lambda>(t, r). require_tag user r t) os []) t =
   (if rules_of t os = [] then None else Some (needed_rule user t (rules_of t os)))"
proof (induction os rule: rev_induct)
  case (snoc x os)
  obtain s r where x: "x = (s, r)" by (cases x)
  show ?case
  proof (cases "s = t")
    case True
    with snoc x show ?thesis
      by (auto simp: rules_of_snoc require_tag_def needed_rule_def Let_def set_allowed_def rule_for_tag_def
          FilterHTMLRule_def no_props_def split: option.splits if_splits)
  next
    case False
    then have "js_get (require_tag user r s tbl) t = js_get tbl t" for tbl
      by (auto simp: require_tag_def Let_def split: option.splits)
    with snoc x False show ?thesis by (simp add: rules_of_snoc)
  qed
qed (simp add: rules_of_def)

lemma required_wf: "js_wf (fold (\<lambda>(t, r). require_tag user r t) os [])"
  by (rule fold_invariant [where Q = "\<lambda>_. True"])
    (auto simp: require_tag_def Let_def split: option.splits)

lemma editorRequiredTags_get:
  "js_get (editorRequiredTags user fs) t =
   (if rules_of t (occurrences fs) = [] then None else Some (needed_rule user t (rules_of t (occurrences fs))))"
  by (simp add: editorRequiredTags_occurrences required_rule)

lemma auto_tag_other: "s \<noteq> t \<Longrightarrow> js_get (auto_tag user s req tbl) t = js_get tbl t"
  by (auto simp: auto_tag_def Let_def split: option.splits)

lemma auto_tag_same: "js_get tbl t = None \<Longrightarrow> js_get (auto_tag user t req tbl) t = js_get (auto_tag user t req []) t"
  by (auto simp: auto_tag_def Let_def split: option.splits)

lemma auto_fold:
  assumes "js_wf E"
  shows "js_get (fold (\<lambda>(tag, req). auto_tag user tag req) E []) t =
     (case js_get E t of None \<Rightarrow> None | Some req \<Rightarrow> js_get (auto_tag user t req []) t)"
  using assms
proof (induction E rule: rev_induct)
  case (snoc x E)
  obtain s r where x: "x = (s, r)" by (cases x)
  with snoc.prems have E: "js_wf E" "\<not> js_has E s" by (simp_all add: js_wf_snoc)
  have get: "js_get (E @ [(s, r)]) t = (if s = t then Some r else js_get E t)"
    using E(2) by (auto simp: js_get_def js_has_get map_add_def split: option.splits)
  show ?case
  proof (cases "s = t")
    case True
    with E snoc.IH have "js_get (fold (\<lambda>(tag, req). auto_tag user tag req) E []) t = None"
      by (simp add: js_has_get)
    from auto_tag_same [OF this] x True get show ?thesis by simp
  next
    case False
    with snoc.IH [OF E(1)] x get show ?thesis by (simp add: auto_tag_other)
  qed
qed simp

lemma calculateAutoAllowedTags_get:
  "js_get (calculateAutoAllowedTags user fs) t =
   (if rules_of t (occurrences fs) = [] then None
    else js_get (auto_tag user t (needed_rule user t (rules_of t (occurrences fs))) []) t)"
proof -
  have "js_wf (editorRequiredTags user fs)"
    unfolding editorRequiredTags_occurrences by (rule required_wf)
  from auto_fold [OF this, of user t] show ?thesis
    by (simp add: calculateAutoAllowedTags_def editorRequiredTags_get)
qed

lemma calculateAutoAllowedTags_wf: "js_wf (calculateAutoAllowedTags user fs)"
  unfolding calculateAutoAllowedTags_def
  by (rule fold_invariant [where Q = "\<lambda>_. True"]) (auto simp: auto_tag_def Let_def split: option.splits)

definition effective :: "tag_table \<Rightarrow> tag_table \<Rightarrow> string \<Rightarrow> filter_rule option" where
  "effective user auto t = (case js_get auto t of Some r \<Rightarrow> Some r | None \<Rightarrow> js_get user t)"

definition required_in :: "feature_rule list jsobj \<Rightarrow> string \<Rightarrow> feature_rule \<Rightarrow> bool" where
  "required_in fs t fr \<longleftrightarrow> (\<exists>(n, rs) \<in> set fs. fr \<in> set rs \<and> t \<in> set (tags (required fr)))"

lemma rules_of_required: "fr \<in> set (rules_of t (occurrences fs)) \<longleftrightarrow> required_in fs t fr"
  by (force simp: rules_of_def occurrences_def required_in_def)

lemma difference_empty: "difference (=) xs ys = [] \<longleftrightarrow> set xs \<subseteq> set ys"
  by (auto simp: difference_def filter_empty_conv list_ex_iff)

lemma clone_eq: "FilterHTMLRule_clone r = r"
  by (simp add: FilterHTMLRule_clone_def FilterHTMLRule_def)

lemma needed_rule_attributes:
  "set (allowed_attributes (needed_rule user t rs)) = (\<Union>r \<in> set rs. set (attributes (required r)))"
  by (auto simp: needed_rule_def set_allowed_def)

lemma needed_rule_classes:
  "set (allowed_classes (needed_rule user t rs)) =
   (if restricts_classes user t then (\<Union>r \<in> set rs. set (classes (required r))) else {})"
  by (auto simp: needed_rule_def set_allowed_def)

lemma set_allowed_sel [simp]:
  "rt_allowed (fr_restrictedTags (set_allowed g r)) = g (rt_allowed (fr_restrictedTags r))"
  by (simp add: set_allowed_def)

text \<open>The rule in force for a required tag: what the user allowed together with what is required.\<close>

lemma effective_user_tag:
  assumes "js_get user t = Some u" and "req = needed_rule user t (rules_of t (occurrences fs))"
    and "rules_of t (occurrences fs) \<noteq> []"
  shows "\<exists>r. effective user (calculateAutoAllowedTags user fs) t = Some r \<and>
     set (allowed_attributes r) = set (allowed_attributes u) \<union> set (allowed_attributes req) \<and>
     set (allowed_classes r) = set (allowed_classes u) \<union> set (allowed_classes req)"
  using assms
  by (auto simp: effective_def calculateAutoAllowedTags_get auto_tag_def Let_def clone_eq difference_empty)

lemma effective_new_tag:
  assumes "js_get user t = None" and "rules_of t (occurrences fs) \<noteq> []"
  shows "effective user (calculateAutoAllowedTags user fs) t = Some (needed_rule user t (rules_of t (occurrences fs)))"
  using assms by (simp add: effective_def calculateAutoAllowedTags_get auto_tag_def)

lemma auto_covers:
  assumes "required_in fs t fr"
  shows "\<exists>r. effective user (calculateAutoAllowedTags user fs) t = Some r \<and>
     set (attributes (required fr)) \<subseteq> set (allowed_attributes r) \<and>
     (restricts_classes user t \<longrightarrow> set (classes (required fr)) \<subseteq> set (allowed_classes r))"
proof -
  let ?rs = "rules_of t (occurrences fs)"
  have fr: "fr \<in> set ?rs" using assms by (simp add: rules_of_required)
  then have ne: "?rs \<noteq> []" by auto
  have "set (attributes (required fr)) \<subseteq> set (allowed_attributes (needed_rule user t ?rs))"
    "restricts_classes user t \<longrightarrow> set (classes (required fr)) \<subseteq> set (allowed_classes (needed_rule user t ?rs))"
    using fr unfolding needed_rule_attributes needed_rule_classes by auto
  then show ?thesis
    using effective_user_tag [OF _ refl ne, of user] effective_new_tag [OF _ ne, of user]
    by (cases "js_get user t") fastforce+
qed

text \<open>
  C5. For every tag that a tracked feature requires, the tags of the user overridden by the automatic ones allow
  the tag with all its required attributes, and with its required classes where the user restricts the classes
  of that tag.
\<close>

theorem auto_tags_cover_required:
  assumes "required_in fs t fr"
  shows "\<exists>r. effective user (calculateAutoAllowedTags user fs) t = Some r \<and>
     set (attributes (required fr)) \<subseteq> set (allowed_attributes r) \<and>
     (restricts_classes user t \<longrightarrow> set (classes (required fr)) \<subseteq> set (allowed_classes r))"
  using assms by (rule auto_covers)

theorem auto_tags_cover_required_witness:
  "\<exists>r. effective sample_tags (calculateAutoAllowedTags sample_tags [(''link'', [requires_rule [''a''] [''target'']])]) ''a'' = Some r \<and>
     ''target'' \<in> set (allowed_attributes r)"
proof -
  have "required_in [(''link'', [requires_rule [''a''] [''target'']])] ''a'' (requires_rule [''a''] [''target''])"
    by (simp add: required_in_def requires_rule_def)
  from auto_tags_cover_required [OF this, of sample_tags] show ?thesis by (auto simp: requires_rule_def)
qed

text \<open>
  The automatic tags only extend: a tag the user allows stays allowed with at least its attributes and
  classes, and no tag, attribute or class is added that neither the user nor a tracked feature names.
\<close>

theorem auto_tags_only_extend:
  "(case js_get user t of
      None \<Rightarrow> (\<nexists>fr. required_in fs t fr) \<longrightarrow> effective user (calculateAutoAllowedTags user fs) t = None
    | Some u \<Rightarrow>
        (\<exists>r. effective user (calculateAutoAllowedTags user fs) t = Some r \<and>
          set (allowed_attributes u) \<subseteq> set (allowed_attributes r) \<and> set (allowed_classes u) \<subseteq> set (allowed_classes r) \<and>
          (\<forall>a \<in> set (allowed_attributes r). a \<in> set (allowed_attributes u) \<or> (\<exists>fr. required_in fs t fr \<and> a \<in> set (attributes (required fr)))) \<and>
          (\<forall>c \<in> set (allowed_classes r). c \<in> set (allowed_classes u) \<or> (\<exists>fr. required_in fs t fr \<and> c \<in> set (classes (required fr))))))"
proof (cases "js_get user t")
  case None
  have "rules_of t (occurrences fs) = []" if "\<nexists>fr. required_in fs t fr"
    using that rules_of_required [of _ t fs] by (metis list.set_intros(1) neq_Nil_conv)
  with None show ?thesis by (auto simp: effective_def calculateAutoAllowedTags_get)
next
  case (Some u)
  let ?rs = "rules_of t (occurrences fs)"
  show ?thesis
  proof (cases "?rs = []")
    case True
    with Some show ?thesis by (simp add: effective_def calculateAutoAllowedTags_get)
  next
    case False
    from effective_user_tag [OF Some refl False] Some show ?thesis
      unfolding needed_rule_attributes needed_rule_classes by (auto simp: rules_of_required split: if_splits)
  qed
qed

theorem auto_tags_only_extend_witness:
  "effective sample_tags (calculateAutoAllowedTags sample_tags []) ''em'' = None \<and>
   (\<exists>r. effective sample_tags (calculateAutoAllowedTags sample_tags []) ''a'' = Some r \<and> ''href'' \<in> set (allowed_attributes r))"
proof
  have "\<nexists>fr. required_in [] ''em'' fr" by (simp add: required_in_def)
  moreover have "js_get sample_tags ''em'' = None" by (simp add: sample_tags_def)
  ultimately show "effective sample_tags (calculateAutoAllowedTags sample_tags []) ''em'' = None"
    using auto_tags_only_extend [where user = sample_tags and t = "''em''" and fs = "[]"] by simp
  have "js_get sample_tags ''a'' = Some (set_allowed (attributes_update (\<lambda>_. [''href'', ''hreflang''])) (rule_for_tag ''a''))"
    by (simp add: sample_tags_def)
  then show "\<exists>r. effective sample_tags (calculateAutoAllowedTags sample_tags []) ''a'' = Some r \<and> ''href'' \<in> set (allowed_attributes r)"
    using auto_tags_only_extend [where user = sample_tags and t = "''a''" and fs = "[]"] by auto
qed

text \<open>
  The required classes of a tag that the user does not list are dropped: the automatic rule of such a tag has
  the required attributes and no class at all.
\<close>

theorem new_tag_drops_classes:
  assumes "js_get user t = None" and "required_in fs t fr"
  shows "\<exists>r. js_get (calculateAutoAllowedTags user fs) t = Some r \<and> allowed_classes r = []"
proof -
  have ne: "rules_of t (occurrences fs) \<noteq> []" using assms(2) rules_of_required [of fr t fs] by auto
  have "\<not> restricts_classes user t" using assms(1) by (simp add: restricts_classes_def)
  with ne assms(1) show ?thesis
    by (simp add: calculateAutoAllowedTags_get auto_tag_def needed_rule_def)
qed

theorem new_tag_drops_classes_witness:
  "\<exists>r. js_get (calculateAutoAllowedTags [] [(''callout'', [EditorFeatureHTMLRule\<lparr>required := no_tag_props\<lparr>tags := [''p''], classes := [''callout'']\<rparr>\<rparr>])]) ''p'' = Some r \<and>
     allowed_classes r = []"
  by (rule new_tag_drops_classes
      [where fr = "EditorFeatureHTMLRule\<lparr>required := no_tag_props\<lparr>tags := [''p''], classes := [''callout'']\<rparr>\<rparr>"])
    (simp_all add: required_in_def)

section \<open>The setting after an update\<close>

lemma update_message_total: "\<exists>msg. filterFilterHTMLUpdateMessage T tr tbl = Inr msg"
  by (simp add: filterFilterHTMLUpdateMessage_def drupal_t_def formatString_def process_arg_def checkPlain_def Let_def)

lemma withoutOverrides_filter: "js_wf user \<Longrightarrow> withoutOverrides user auto = filter (\<lambda>(tag, r). \<not> js_has auto tag) user"
  unfolding withoutOverrides_def by (intro fold_js_put_copy js_wf_filter)

lemma get_fold_put_pairs:
  "distinct (js_keys ob) \<Longrightarrow>
   js_get (fold (\<lambda>(k, v). js_put k (g v)) ob base) t = (case js_get ob t of Some v \<Rightarrow> Some (g v) | None \<Rightarrow> js_get base t)"
proof (induction ob arbitrary: base)
  case (Cons x ob)
  obtain k v where x: "x = (k, v)" by (cases x)
  have "js_get ob k = None" using Cons.prems x by (simp add: js_get_def map_of_eq_None_iff)
  with Cons x show ?case by (auto split: option.splits)
qed simp

lemma merged_table:
  assumes "js_wf user"
  shows "distinct (js_keys (withoutOverrides user (calculateAutoAllowedTags user fs) @ calculateAutoAllowedTags user fs))"
    and "js_get (withoutOverrides user (calculateAutoAllowedTags user fs) @ calculateAutoAllowedTags user fs) t =
      effective user (calculateAutoAllowedTags user fs) t"
proof -
  let ?auto = "calculateAutoAllowedTags user fs"
  have wf: "js_wf ?auto" by (rule calculateAutoAllowedTags_wf)
  have w: "js_wf (withoutOverrides user ?auto)"
    unfolding withoutOverrides_filter [OF assms] using assms by (rule js_wf_filter)
  show "distinct (js_keys (withoutOverrides user ?auto @ ?auto))"
    using w wf unfolding withoutOverrides_filter [OF assms] by (force simp: js_wf_def js_has_def)
  have "js_get (withoutOverrides user ?auto) t = (if \<not> js_has ?auto t then js_get user t else None)"
    unfolding withoutOverrides_filter [OF assms] using js_get_filter [OF assms, of "\<lambda>t. \<not> js_has ?auto t" t] .
  then show "js_get (withoutOverrides user ?auto @ ?auto) t = effective user ?auto t"
    by (auto simp: effective_def js_has_get js_get_def map_add_def split: option.splits if_splits)
qed

lemma parse_updated_setting:
  assumes "js_wf user" and "auto = calculateAutoAllowedTags user fs"
    and "list_all (\<lambda>(t, r). tag_ok t r \<and> html_reads html t r) (withoutOverrides user auto @ auto)"
    and "withoutOverrides user auto @ auto \<noteq> []"
  shows "parseSetting html (if auto \<noteq> [] then generateSetting (withoutOverrides user auto) @ '' '' @ generateSetting auto
       else generateSetting user) =
     Inr (fold (\<lambda>(t, r). js_put t (single_attributes r)) (withoutOverrides user auto @ auto) [])"
proof (cases "auto = []")
  case False
  with parse_generated [OF assms(3,4)] show ?thesis by simp
next
  case True
  have "filter (\<lambda>(tag, r). True) user = user" by (rule filter_True) auto
  then have w: "withoutOverrides user auto = user"
    using True assms(1) by (simp add: withoutOverrides_filter)
  have ok: "list_all (\<lambda>(t, r). tag_ok t r) user" and rd: "list_all (\<lambda>(t, r). tag_ok t r \<and> html_reads html t r) user"
    using assms(3) w by (auto simp: list_all_iff)
  have "match_tags (generateSetting user) = map (\<lambda>(t, r). print_tag t r) user"
    using match_generated [OF ok, of "[]"] by simp
  with True w assms(4) parse_printed [OF rd, of "[]"] show ?thesis by (simp add: parseSetting_def)
qed

lemma updateAllowedTags_total:
  fixes st :: filter_html_state
  defines "auto \<equiv> calculateAutoAllowedTags (userTags st) (newFeatures st)"
  shows "\<exists>st'. updateAllowedTags T tr st = Inr st' \<and>
     formItem st' = (if auto \<noteq> [] then generateSetting (withoutOverrides (userTags st) auto) @ '' '' @ generateSetting auto
       else generateSetting (userTags st))"
proof -
  obtain msg where "filterFilterHTMLUpdateMessage T tr auto = Inr msg" using update_message_total by blast
  then show ?thesis
    unfolding auto_def by (cases "auto = []") (simp_all add: updateAllowedTags_def Let_def auto_def)
qed

text \<open>
  Updating the field never throws, and the text it leaves in the field, read again as the server reads it,
  allows each tag that a tracked feature requires with its required attributes.
\<close>

theorem updated_setting_covers_required:
  assumes "js_wf (userTags st)" and "auto = calculateAutoAllowedTags (userTags st) (newFeatures st)"
    and "list_all (\<lambda>(t, r). tag_ok t r \<and> html_reads html t r) (withoutOverrides (userTags st) auto @ auto)"
    and "required_in (newFeatures st) t fr"
  shows "\<exists>st' tbl r. updateAllowedTags T tr st = Inr st' \<and> parseSetting html (formItem st') = Inr tbl \<and>
     js_get tbl t = Some r \<and> set (attributes (required fr)) \<subseteq> set (allowed_attributes r)"
proof -
  let ?all = "withoutOverrides (userTags st) auto @ auto"
  let ?tbl = "fold (\<lambda>(t, r). js_put t (single_attributes r)) ?all []"
  from updateAllowedTags_total [of T tr st] obtain st' where st': "updateAllowedTags T tr st = Inr st'"
    "formItem st' = (if auto \<noteq> [] then generateSetting (withoutOverrides (userTags st) auto) @ '' '' @ generateSetting auto
       else generateSetting (userTags st))"
    unfolding assms(2) by blast
  from auto_covers [OF assms(4), of "userTags st"] obtain r where
    r: "effective (userTags st) auto t = Some r" "set (attributes (required fr)) \<subseteq> set (allowed_attributes r)"
    unfolding assms(2) by blast
  have get: "js_get ?all t = Some r" and d: "distinct (js_keys ?all)"
    using merged_table [OF assms(1)] r(1) unfolding assms(2) by simp_all
  have "js_get ?tbl t = Some (single_attributes r)"
    using get_fold_put_pairs [OF d, of single_attributes "[]" t] get by simp
  moreover have "?all \<noteq> []" using get by auto
  with parse_updated_setting [OF assms(1,2,3)] st'(2) have "parseSetting html (formItem st') = Inr ?tbl" by simp
  moreover have "set (attributes (required fr)) \<subseteq> set (allowed_attributes (single_attributes r))"
    using r(2) by (simp add: single_attributes_def)
  ultimately show ?thesis using st'(1) by blast
qed

definition sample_state :: filter_html_state where
  "sample_state =
     \<lparr>userTags = [(''a'', set_allowed (attributes_update (\<lambda>_. [''href''])) (rule_for_tag ''a''))], autoTags = None,
      newFeatures = [(''link'', [requires_rule [''a''] [''target'']])], formItem = '''', messages = []\<rparr>"

theorem updated_setting_covers_required_witness:
  "\<exists>st' tbl r. updateAllowedTags (\<lambda>_. None) None sample_state = Inr st' \<and>
     parseSetting (\<lambda>s. if s = ''<a href target>'' then Some (''A'', [(''href'', ''''), (''target'', '''')]) else None) (formItem st') = Inr tbl \<and>
     js_get tbl ''a'' = Some r \<and> {''target''} \<subseteq> set (allowed_attributes r)"
proof -
  let ?html = "\<lambda>s. if s = ''<a href target>'' then Some (''A'', [(''href'', ''''), (''target'', '''')]) else None"
  let ?auto = "calculateAutoAllowedTags (userTags sample_state) (newFeatures sample_state)"
  have A: "toLowerCase ''A'' = ''a''" by code_simp
  have auto: "?auto = [(''a'', set_allowed (attributes_update (\<lambda>_. [''href'', ''target''])) (rule_for_tag ''a''))]"
    by (simp add: sample_state_def calculateAutoAllowedTags_def editorRequiredTags_def require_feature_rule_def require_tag_def
        auto_tag_def rule_makers rule_for_tag_def set_allowed_def difference_def restricts_classes_def Let_def
        FilterHTMLRule_clone_def)
  have wf: "js_wf (userTags sample_state)" by (simp add: sample_state_def js_wf_def)
  have "list_all (\<lambda>(t, r). tag_ok t r \<and> html_reads ?html t r) (withoutOverrides (userTags sample_state) ?auto @ ?auto)"
    unfolding withoutOverrides_filter [OF wf] auto
    by (simp add: sample_state_def js_has_def tag_ok_def html_reads_def print_tag_def set_allowed_def
        rule_for_tag_def FilterHTMLRule_def no_props_def first_of_each_def A)
  moreover have "required_in (newFeatures sample_state) ''a'' (requires_rule [''a''] [''target''])"
    by (simp add: required_in_def sample_state_def requires_rule_def)
  ultimately show ?thesis
    using updated_setting_covers_required [OF wf refl, of ?html "''a''" "requires_rule [''a''] [''target'']" "\<lambda>_. None" None]
    by (simp add: requires_rule_def)
qed

lemma js_del_insert: "\<not> js_has ob k \<Longrightarrow> js_del k (js_insert k v ob) = ob"
proof (induction k v ob rule: js_insert.induct)
  case (2 k v l w ob)
  then have "l \<noteq> k" "\<not> js_has ob k" by (auto simp: js_has_def)
  moreover from this(2) have "js_del k ob = ob" by (force simp: js_del_def js_has_def filter_id_conv)
  ultimately show ?case using 2 by (auto simp: js_del_def)
qed (simp add: js_del_def)

lemma updateAllowedTags_keeps:
  "updateAllowedTags T tr st = Inr st' \<Longrightarrow> userTags st' = userTags st \<and> newFeatures st' = newFeatures st"
  by (auto simp: updateAllowedTags_def Let_def split: sum.splits if_splits)

text \<open>
  Adding a feature that is not tracked and removing it again leaves the user's tags and the tracked features
  as they were; when no other feature was tracked, the field shows exactly the user's tags and no message.
\<close>

theorem add_remove_feature_restores:
  assumes "\<not> js_has (newFeatures st) (f_name f)"
  shows "\<exists>st1 st2. on_featureAdded T tr f st = Inr st1 \<and> on_featureRemoved T tr f st1 = Inr st2 \<and>
     userTags st2 = userTags st \<and> newFeatures st2 = newFeatures st \<and>
     (newFeatures st = [] \<longrightarrow> formItem st2 = generateSetting (userTags st) \<and> messages st2 = [])"
proof -
  let ?st = "st\<lparr>newFeatures := js_put (f_name f) (f_rules f) (newFeatures st)\<rparr>"
  from updateAllowedTags_total [of T tr ?st] obtain st1 where st1: "updateAllowedTags T tr ?st = Inr st1" by blast
  then have keep: "userTags st1 = userTags st" "newFeatures st1 = js_put (f_name f) (f_rules f) (newFeatures st)"
    using updateAllowedTags_keeps by fastforce+
  have del: "js_del (f_name f) (newFeatures st1) = newFeatures st"
    using assms keep(2) by (simp add: js_put_def js_del_insert)
  let ?st1 = "st1\<lparr>newFeatures := newFeatures st\<rparr>"
  from updateAllowedTags_total [of T tr ?st1] obtain st2 where st2: "updateAllowedTags T tr ?st1 = Inr st2" by blast
  then have "userTags st2 = userTags st" "newFeatures st2 = newFeatures st"
    using updateAllowedTags_keeps keep(1) by fastforce+
  moreover have "formItem st2 = generateSetting (userTags st) \<and> messages st2 = []" if "newFeatures st = []"
    using st2 that keep(1)
    by (auto simp: updateAllowedTags_def calculateAutoAllowedTags_def editorRequiredTags_def Let_def)
  moreover have "js_has (newFeatures st1) (f_name f)" using keep(2) by simp
  ultimately show ?thesis
    using st1 st2 del by (auto simp: on_featureAdded_def on_featureRemoved_def)
qed

theorem add_remove_feature_restores_witness:
  "\<exists>st1 st2. on_featureAdded (\<lambda>_. None) None link_feature (sample_state\<lparr>newFeatures := []\<rparr>) = Inr st1 \<and>
     on_featureRemoved (\<lambda>_. None) None link_feature st1 = Inr st2 \<and> formItem st2 = ''<a href>''"
proof -
  have "generateSetting (userTags (sample_state\<lparr>newFeatures := []\<rparr>)) = ''<a href>''"
    by (simp add: sample_state_def generateSetting_def print_tag_def rule_for_tag_def FilterHTMLRule_def no_props_def)
  moreover have "\<not> js_has (newFeatures (sample_state\<lparr>newFeatures := []\<rparr>)) (f_name link_feature)" by simp
  ultimately show ?thesis
    using add_remove_feature_restores [of "sample_state\<lparr>newFeatures := []\<rparr>" link_feature "\<lambda>_. None" None] by fastforce
qed

text \<open>
  A manual change of the field replaces the user's tags by an array: the tags are lost and the keys are the
  indices, so the setting printed next starts with the tag \<open><0\<close>. Before any feature was added, the handler throws.
\<close>

theorem manual_change_loses_tags:
  assumes "parseSetting html v = Inr tbl"
  shows "case autoTags st of
       None \<Rightarrow> on_change html v st = Inl TypeError
     | Some auto \<Rightarrow>
         (\<exists>st'. on_change html v st = Inr st' \<and> js_keys (userTags st') = map nat_str [0..<length tbl] \<and>
           (tbl \<noteq> [] \<longrightarrow> prefix ''<0'' (generateSetting (userTags st'))))"
proof (cases "autoTags st")
  case None
  with assms show ?thesis by (simp add: on_change_def)
next
  case (Some auto)
  have d: "difference (\<lambda>_ _. False) xs ys = xs" for xs :: "filter_rule list" and ys
    by (simp add: difference_def list_ex_iff)
  let ?u = "array_object (map snd tbl)"
  have keys: "js_keys ?u = map nat_str [0..<length tbl]" by (simp add: array_object_def)
  have "prefix ''<0'' (generateSetting ?u)" if "tbl \<noteq> []"
  proof -
    have "?u \<noteq> []" "fst (hd ?u) = nat_str 0"
      using that by (simp_all add: array_object_def hd_map)
    then obtain r u where u: "?u = (nat_str 0, r) # u" by (cases ?u) auto
    have "prefix (print_tag (nat_str 0) r) (generateSetting ?u)"
      unfolding generateSetting_join u by (cases u) simp_all
    moreover have "nat_str 0 = ''0''" by code_simp
    then have "prefix ''<0'' (print_tag (nat_str 0) r)" by (simp add: print_tag_def)
    ultimately show ?thesis by (rule prefix_order.trans [rotated])
  qed
  with Some assms keys show ?thesis by (simp add: on_change_def d)
qed

theorem manual_change_loses_tags_witness:
  "\<exists>st'. on_change sample_html (generateSetting sample_tags) (sample_state\<lparr>autoTags := Some []\<rparr>) = Inr st' \<and>
     js_keys (userTags st') = [''0'', ''1'']"
proof -
  have "parseSetting sample_html (generateSetting sample_tags) = Inr sample_tags"
    using parse_generate [OF sample_tags_wf _ sample_tags_ok] by (simp add: sample_tags_def)
  from manual_change_loses_tags [OF this, of "sample_state\<lparr>autoTags := Some []\<rparr>"] obtain st' where
    "on_change sample_html (generateSetting sample_tags) (sample_state\<lparr>autoTags := Some []\<rparr>) = Inr st'"
    "js_keys (userTags st') = map nat_str [0..<length sample_tags]" by auto
  moreover have "map nat_str [0..<length sample_tags] = [''0'', ''1'']" by code_simp
  ultimately show ?thesis by simp
qed

lemma getRules_throws: "getRules html v = Inl TypeError"
proof -
  have "parse_tags html as tbl = Inl e \<Longrightarrow> e = TypeError" for as tbl e
    by (induction as arbitrary: tbl) (auto split: option.splits)
  then show ?thesis by (auto simp: getRules_def parseSetting_def split: sum.splits if_splits)
qed

end
