(* ===== verification/Quickedit_Model.thy ===== *)
theory Quickedit_Model
  imports Js_Object
begin

text \<open>
  In-place editing, the static part of \<open>core/modules/quickedit/js/models\<close>: the sequences of entity and field
  states, which state changes an entity accepts (\<open>EntityModel\<close>), and field identifiers (\<open>FieldModel\<close>).
  States are strings, as in the source; a name that is not in the sequence is an invalid state.
\<close>

section \<open>State sequences\<close>

definition index_of :: "string list \<Rightarrow> string \<Rightarrow> int" where
  "index_of xs x = (if x \<in> set xs then int (length (takeWhile (\<lambda>y. y \<noteq> x) xs)) else -1)"

definition followsStateSequence :: "string list \<Rightarrow> string \<Rightarrow> string \<Rightarrow> bool" where
  "followsStateSequence states from to \<longleftrightarrow> index_of states from < index_of states to"

definition entity_states :: "string list" where
  "entity_states =
     [''closed'', ''launching'', ''opening'', ''opened'', ''committing'', ''deactivating'', ''closing'']"

definition field_states :: "string list" where
  "field_states =
     [''inactive'', ''candidate'', ''highlighted'', ''activating'', ''active'', ''changed'', ''saving'', ''saved'',
      ''invalid'']"

definition activeFieldStates :: "string list" where
  "activeFieldStates = [''activating'', ''active'']"

definition singleFieldStates :: "string list" where
  "singleFieldStates = [''highlighted'', ''activating'', ''active'']"

definition changedFieldStates :: "string list" where
  "changedFieldStates = [''changed'', ''saving'', ''saved'', ''invalid'']"

definition readyFieldStates :: "string list" where
  "readyFieldStates = [''candidate'', ''highlighted'']"

section \<open>Options of a state change\<close>

text \<open>
  The options object of \<open>set\<close>. \<open>op_validate\<close> is the option \<open>validate\<close> that makes Backbone call the validate
  method: \<open>BaseModel.set\<close> sets it in calls with a key, and not in calls with an object of attributes.
\<close>

record options =
  op_reason :: "string option"
  op_confirming :: bool
  op_confirmed :: bool
  op_saved :: bool
  op_accept :: "string list option"
  op_validate :: bool

definition no_options :: options where
  "no_options = \<lparr>op_reason = None, op_confirming = False, op_confirmed = False, op_saved = False, op_accept = None,
     op_validate = False\<rparr>"

definition BaseModel_set_key :: "options \<Rightarrow> options" where
  "BaseModel_set_key opts = opts\<lparr>op_validate := True\<rparr>"

definition BaseModel_set_object :: "options \<Rightarrow> options" where
  "BaseModel_set_object opts = opts"

section \<open>Entities\<close>

text \<open>
  \<open>en_fieldsInTempStore\<close> is \<open>None\<close> while the attribute still refers to the array of the defaults, which all
  entity models share, and \<open>Some xs\<close> for an array of its own.
\<close>

record entity =
  en_state :: string
  en_isActive :: bool
  en_inTempStore :: bool
  en_isDirty :: bool
  en_isCommitting :: bool
  en_fieldsInTempStore :: "string list option"
  en_reload :: bool

definition new_entity :: entity where
  "new_entity = \<lparr>en_state = ''closed'', en_isActive = False, en_inTempStore = False, en_isDirty = False,
     en_isCommitting = False, en_fieldsInTempStore = None, en_reload = False\<rparr>"

definition acceptStateChange :: "string \<Rightarrow> string \<Rightarrow> options \<Rightarrow> bool" where
  "acceptStateChange from to context =
     (if followsStateSequence entity_states from to then True
      else if from = ''closing'' \<and> to = ''closed'' then True
      else if from = ''committing'' \<and> to = ''opened'' \<and>
        (op_reason context = Some ''invalid'' \<or> op_reason context = Some ''networkerror'') then True
      else if from = ''deactivating'' \<and> to = ''opened'' \<and> op_confirming context then True
      else if from = ''opened'' \<and> to = ''deactivating'' \<and> op_confirmed context then True
      else False)"

definition fieldsHaveAcceptableStates :: "string list \<Rightarrow> string list \<Rightarrow> bool" where
  "fieldsHaveAcceptableStates fieldStates accepted \<longleftrightarrow>
     (if accepted \<noteq> [] then filter (\<lambda>s. s \<notin> set accepted) fieldStates = [] else True)"

text \<open>
  \<open>validate\<close> gets the current attributes overridden by the new ones: the next state and the next value of
  \<open>isCommitting\<close>. It returns a message, or nothing when the change is valid.
\<close>

definition EntityModel_validate :: "entity \<Rightarrow> string list \<Rightarrow> string \<Rightarrow> bool \<Rightarrow> options \<Rightarrow> string option" where
  "EntityModel_validate en fieldStates nextState nextIsCommitting opts =
     (let accepted = (case op_accept opts of None \<Rightarrow> [] | Some xs \<Rightarrow> xs) in
      if en_state en \<noteq> nextState \<and> index_of entity_states nextState = -1
      then Some ([CHR 0x22] @ nextState @ [CHR 0x22] @ '' is an invalid state'')
      else if en_state en \<noteq> nextState \<and> \<not> acceptStateChange (en_state en) nextState opts
      then Some ''state change not accepted''
      else if en_state en \<noteq> nextState \<and> \<not> fieldsHaveAcceptableStates fieldStates accepted
      then Some ''state change not accepted because fields are not in acceptable state''
      else if \<not> en_isCommitting en \<and> nextIsCommitting
      then (if \<not> fieldsHaveAcceptableStates fieldStates accepted
            then Some ''isCommitting change not accepted because fields are not in acceptable state'' else None)
      else if en_isCommitting en \<and> nextIsCommitting
      then Some ''isCommitting is a mutex, hence only changes are allowed''
      else None)"

section \<open>Field identifiers\<close>

text \<open>A field ID is \<open><entity type>/<id>/<field name>/<language>/<view mode>\<close>.\<close>

definition getEntityID :: "string \<Rightarrow> string" where
  "getEntityID fieldID = js_join ''/'' (take 2 (js_split ''/'' fieldID))"

definition getViewMode :: "string \<Rightarrow> string" where
  "getViewMode fieldID = last (js_split ''/'' fieldID)"

definition logicalFieldID :: "string \<Rightarrow> string" where
  "logicalFieldID fieldID = js_join ''/'' (take 4 (js_split ''/'' fieldID))"

text \<open>The fields on the page are given by their IDs; the current field is the one at the index.\<close>

definition findOtherViewModes :: "string list \<Rightarrow> nat \<Rightarrow> string list" where
  "findOtherViewModes ids i =
     map (\<lambda>j. getViewMode (ids ! j))
       (filter (\<lambda>j. logicalFieldID (ids ! j) = logicalFieldID (ids ! i) \<and> j \<noteq> i \<and> ids ! j \<noteq> ids ! i) [0..<length ids])"

section \<open>Well-formed field identifiers\<close>

definition five_parts :: "string \<Rightarrow> bool" where
  "five_parts fieldID \<longleftrightarrow> length (js_split ''/'' fieldID) = 5"

lemma list_of_five: "length xs = 5 \<Longrightarrow> \<exists>a b c d e. xs = [a, b, c, d, e]"
  by (auto simp: numeral_eq_Suc length_Suc_conv)

lemma fieldID_decompose:
  assumes "five_parts fieldID"
  shows "fieldID = logicalFieldID fieldID @ ''/'' @ getViewMode fieldID"
proof -
  from assms obtain a b c d e where s: "js_split ''/'' fieldID = [a, b, c, d, e]"
    using list_of_five [of "js_split ''/'' fieldID"] unfolding five_parts_def by blast
  have "logicalFieldID fieldID @ ''/'' @ getViewMode fieldID = js_join ''/'' [a, b, c, d, e]"
    by (simp add: logicalFieldID_def getViewMode_def s)
  with js_join_split [of "''/''" fieldID] s show ?thesis by simp
qed

text \<open>
  The parts of a field ID are read back from it: the entity ID, the logical field ID and the view mode of an ID
  composed of five parts without a slash are those parts.
\<close>

theorem fieldID_parts:
  assumes "\<forall>p \<in> {entityType, entityId, field, language, viewMode}. CHR ''/'' \<notin> set p"
  shows "let fieldID = js_join ''/'' [entityType, entityId, field, language, viewMode] in
     getEntityID fieldID = entityType @ ''/'' @ entityId \<and> getViewMode fieldID = viewMode \<and>
     logicalFieldID fieldID = entityType @ ''/'' @ entityId @ ''/'' @ field @ ''/'' @ language"
proof -
  have "js_split ''/'' (js_join ''/'' [entityType, entityId, field, language, viewMode]) = [entityType, entityId, field, language, viewMode]"
    using assms by (intro js_split_join) auto
  then show ?thesis by (simp add: Let_def getEntityID_def getViewMode_def logicalFieldID_def)
qed

theorem fieldID_parts_witness:
  "getEntityID ''node/1/title/en/full'' = ''node/1'' \<and> getViewMode ''node/1/title/en/full'' = ''full''"
  using fieldID_parts [of "''node''" "''1''" "''title''" "''en''" "''full''"] by (simp add: Let_def)

text \<open>
  The other view modes in which a field is shown are those of fields with the same logical ID, and never the view
  mode of the field itself, however often it is on the page.
\<close>

theorem other_view_modes:
  assumes "\<forall>fieldID \<in> set ids. five_parts fieldID" and "i < length ids"
  shows "set (findOtherViewModes ids i) =
     getViewMode ` set (filter (\<lambda>fieldID. logicalFieldID fieldID = logicalFieldID (ids ! i) \<and>
        getViewMode fieldID \<noteq> getViewMode (ids ! i)) ids)"
proof -
  have d: "ids ! j = ids ! i \<longleftrightarrow> getViewMode (ids ! j) = getViewMode (ids ! i)"
    if "j < length ids" "logicalFieldID (ids ! j) = logicalFieldID (ids ! i)" for j
    using fieldID_decompose [of "ids ! j"] fieldID_decompose [of "ids ! i"] assms that by (metis nth_mem)
  have "set (findOtherViewModes ids i) = (\<lambda>j. getViewMode (ids ! j)) `
      {j. j < length ids \<and> logicalFieldID (ids ! j) = logicalFieldID (ids ! i) \<and> getViewMode (ids ! j) \<noteq> getViewMode (ids ! i)}"
    unfolding findOtherViewModes_def using d by auto
  then show ?thesis by (force simp: in_set_conv_nth)
qed

theorem other_view_modes_witness:
  "set (findOtherViewModes [''node/1/title/en/full'', ''node/1/title/en/teaser'', ''node/1/title/en/full''] 0) = {''teaser''}"
proof -
  let ?ids = "[''node/1/title/en/full'', ''node/1/title/en/teaser'', ''node/1/title/en/full'']"
  have "\<forall>fieldID \<in> set ?ids. five_parts fieldID" by code_simp
  moreover have "0 < length ?ids" by simp
  moreover have "map logicalFieldID ?ids = replicate 3 ''node/1/title/en''" "map getViewMode ?ids = [''full'', ''teaser'', ''full'']"
    by code_simp+
  ultimately show ?thesis using other_view_modes [of ?ids 0] by (auto simp: numeral_eq_Suc)
qed

end
