(* ===== verification/Quickedit_App.thy ===== *)
theory Quickedit_App
  imports Quickedit_Model
begin

text \<open>
  In-place editing, the dynamic part: \<open>EntityModel\<close>, \<open>FieldModel\<close> and the application view
  (\<open>core/modules/quickedit/js/models\<close> and \<open>views/AppView.es6.js\<close>) that changes states in reaction to each other.

  Entities and fields are numbered. Backbone's \<open>set\<close> is the third-party part the sources rely on: it validates
  the changed attributes merged with the current ones when the option \<open>validate\<close> is set, stores them, and calls
  the listeners of \<open>change:state\<close> at once when the state differs: the model's own listener, then those of the
  collections in the order in which the model was added to them. Deferred functions wait in a queue. Requests to
  save an entity and the discard dialog are in the state until the server or the user answers. Editor views, which
  show the states and start saving a field, act as the environment that changes field states.
\<close>

section \<open>The application\<close>

record field =
  fd_fieldID :: string
  fd_entity :: nat
  fd_state :: string
  fd_previous :: string
  fd_inTempStore :: bool

datatype deferred =
    SetEntityState nat string options
  | ConfirmDeactivation nat

record app =
  ap_entities :: "entity list"
  ap_fields :: "field list"
  ap_defaultFields :: "string list"
  ap_highlighted :: "nat option"
  ap_active :: "nat option"
  ap_modal :: "nat option"
  ap_reload :: bool
  ap_deferred :: "deferred list"
  ap_saving :: "nat list"
  ap_reverted :: "nat list"
  ap_editors :: "nat list"
  ap_networkErrors :: "nat list"
  ap_pageReloads :: nat

definition update_entity :: "nat \<Rightarrow> (entity \<Rightarrow> entity) \<Rightarrow> app \<Rightarrow> app" where
  "update_entity e g a = a\<lparr>ap_entities := (ap_entities a)[e := g (ap_entities a ! e)]\<rparr>"

definition update_field :: "nat \<Rightarrow> (field \<Rightarrow> field) \<Rightarrow> app \<Rightarrow> app" where
  "update_field i g a = a\<lparr>ap_fields := (ap_fields a)[i := g (ap_fields a ! i)]\<rparr>"

definition defer_call :: "deferred \<Rightarrow> app \<Rightarrow> app" where
  "defer_call d a = a\<lparr>ap_deferred := ap_deferred a @ [d]\<rparr>"

definition fields_of :: "nat \<Rightarrow> app \<Rightarrow> nat list" where
  "fields_of e a = filter (\<lambda>i. fd_entity (ap_fields a ! i) = e) [0..<length (ap_fields a)]"

definition field_state :: "app \<Rightarrow> nat \<Rightarrow> string" where
  "field_state a i = fd_state (ap_fields a ! i)"

definition states_of :: "nat \<Rightarrow> app \<Rightarrow> string list" where
  "states_of e a = map (field_state a) (fields_of e a)"

definition temp_fields :: "nat \<Rightarrow> app \<Rightarrow> string list" where
  "temp_fields e a = (case en_fieldsInTempStore (ap_entities a ! e) of None \<Rightarrow> ap_defaultFields a | Some xs \<Rightarrow> xs)"

text \<open>\<open>entityModel.set(attribute, value)\<close> for an attribute other than the state, validated.\<close>

definition attribute_accepted :: "nat \<Rightarrow> app \<Rightarrow> bool" where
  "attribute_accepted e a \<longleftrightarrow>
     EntityModel_validate (ap_entities a ! e) (states_of e a) (en_state (ap_entities a ! e))
       (en_isCommitting (ap_entities a ! e)) (BaseModel_set_key no_options) = None"

definition set_attribute :: "nat \<Rightarrow> (entity \<Rightarrow> entity) \<Rightarrow> app \<Rightarrow> app" where
  "set_attribute e g a = (if attribute_accepted e a then update_entity e g a else a)"

section \<open>Reactions to a field state\<close>

text \<open>\<open>push\<close> changes the array that the attribute refers to, be it shared or not, before \<open>set\<close> is called.\<close>

definition push_temp_field :: "nat \<Rightarrow> string \<Rightarrow> app \<Rightarrow> app" where
  "push_temp_field e fieldID a =
     (case en_fieldsInTempStore (ap_entities a ! e) of
        None \<Rightarrow> a\<lparr>ap_defaultFields := ap_defaultFields a @ [fieldID]\<rparr>
      | Some xs \<Rightarrow> update_entity e (\<lambda>en. en\<lparr>en_fieldsInTempStore := Some (xs @ [fieldID])\<rparr>) a)"

definition uniq :: "string list \<Rightarrow> string list" where
  "uniq xs = rev (remdups (rev xs))"

definition updateInTempStoreAttributes :: "nat \<Rightarrow> nat \<Rightarrow> app \<Rightarrow> app" where
  "updateInTempStoreAttributes e i a =
     (let current = field_state a i;
          previous = fd_previous (ap_fields a ! i);
          fieldID = fd_fieldID (ap_fields a ! i)
      in if current = ''saved''
         then
           (let a1 = set_attribute e (\<lambda>en. en\<lparr>en_inTempStore := True\<rparr>) a;
                a2 = update_field i (\<lambda>f. f\<lparr>fd_inTempStore := True\<rparr>) a1;
                a3 = push_temp_field e fieldID a2
            in set_attribute e (\<lambda>en. en\<lparr>en_fieldsInTempStore := Some (uniq (temp_fields e a3))\<rparr>) a3)
         else if current = ''candidate'' \<and> previous = ''inactive''
         then update_field i (\<lambda>f. f\<lparr>fd_inTempStore := (fieldID \<in> set (temp_fields e a))\<rparr>) a
         else a)"

definition ready_options :: options where
  "ready_options = no_options\<lparr>op_accept := Some readyFieldStates\<rparr>"

text \<open>\<open>entityModel.set('isCommitting', true, options)\<close> and, when it is accepted, the request.\<close>

definition try_commit :: "nat \<Rightarrow> app \<Rightarrow> app" where
  "try_commit e a =
     (if EntityModel_validate (ap_entities a ! e) (states_of e a) (en_state (ap_entities a ! e)) True
           (BaseModel_set_key ready_options) = None
      then (update_entity e (\<lambda>en. en\<lparr>en_isCommitting := True\<rparr>) a)\<lparr>ap_saving := ap_saving a @ [e]\<rparr>
      else a)"

definition fieldStateChange :: "nat \<Rightarrow> nat \<Rightarrow> string \<Rightarrow> app \<Rightarrow> app" where
  "fieldStateChange e i fieldState a =
     (let st = en_state (ap_entities a ! e) in
      if st = ''opening'' then defer_call (SetEntityState e ''opened'' ready_options) a
      else if st = ''opened''
      then (if fieldState = ''changed'' then set_attribute e (\<lambda>en. en\<lparr>en_isDirty := True\<rparr>) a
            else updateInTempStoreAttributes e i a)
      else if st = ''committing''
      then try_commit e
             (if fieldState = ''invalid''
              then defer_call (SetEntityState e ''opened'' (no_options\<lparr>op_reason := Some ''invalid''\<rparr>)) a
              else updateInTempStoreAttributes e i a)
      else if st = ''deactivating'' then defer_call (SetEntityState e ''closing'' ready_options) a
      else if st = ''closing''
      then defer_call (SetEntityState e ''closed'' (no_options\<lparr>op_accept := Some [''inactive'']\<rparr>)) a
      else a)"

definition editorStateChange :: "nat \<Rightarrow> string \<Rightarrow> app \<Rightarrow> app" where
  "editorStateChange i to a =
     (let from = fd_previous (ap_fields a ! i);
          a1 = (if to \<in> set singleFieldStates \<and> ap_highlighted a \<noteq> Some i then a\<lparr>ap_highlighted := Some i\<rparr>
                else if ap_highlighted a = Some i \<and> to = ''candidate'' then a\<lparr>ap_highlighted := None\<rparr>
                else a)
      in if to \<in> set activeFieldStates \<and> ap_active a1 \<noteq> Some i then a1\<lparr>ap_active := Some i\<rparr>
         else if ap_active a1 = Some i \<and> to = ''candidate''
         then a1\<lparr>ap_reverted := (if from = ''changed'' \<or> from = ''invalid'' then ap_reverted a1 @ [i] else ap_reverted a1),
                 ap_active := None\<rparr>
         else a1)"

text \<open>The listeners of \<open>change:state\<close> of a field: its entity, then the application view.\<close>

definition field_event :: "nat \<Rightarrow> string \<Rightarrow> app \<Rightarrow> app" where
  "field_event i st a = editorStateChange i st (fieldStateChange (fd_entity (ap_fields a ! i)) i st a)"

section \<open>Changing the state of a field\<close>

text \<open>The changes against the sequence that are allowed.\<close>

definition exceptional_change :: "string \<Rightarrow> string \<Rightarrow> bool" where
  "exceptional_change from to \<longleftrightarrow>
     from \<in> set activeFieldStates \<and> to = ''candidate'' \<or>
     (from = ''changed'' \<or> from = ''invalid'') \<and> to = ''candidate'' \<or>
     from = ''highlighted'' \<and> to = ''candidate'' \<or>
     from = ''saved'' \<and> to = ''candidate'' \<or>
     from = ''invalid'' \<and> to = ''saving'' \<or>
     from = ''invalid'' \<and> to = ''activating''"

text \<open>
  \<open>acceptEditorStateChange\<close> may itself change the state of the active field, but only when the new state is an
  active one, and then to a state that is not: the two functions terminate.
\<close>

function
  set_field_state :: "nat \<Rightarrow> string \<Rightarrow> options \<Rightarrow> app \<Rightarrow> app"
  and acceptEditorStateChange :: "string \<Rightarrow> string \<Rightarrow> options \<Rightarrow> nat \<Rightarrow> app \<Rightarrow> app \<times> bool"
where
  "set_field_state i st opts a =
     (let from = field_state a i in
      if from = st then update_field i (\<lambda>f. f\<lparr>fd_previous := st\<rparr>) a
      else if index_of field_states st = -1 then a
      else
        (case acceptEditorStateChange from st opts i a of
           (a1, accept) \<Rightarrow>
             if accept then field_event i st (update_field i (\<lambda>f. f\<lparr>fd_state := st, fd_previous := from\<rparr>) a1)
             else a1))"
| "acceptEditorStateChange from to context i a =
     (if op_reason context = Some ''stop'' \<or> op_reason context = Some ''rerender'' then (a, True)
      else if \<not> followsStateSequence field_states from to \<and> \<not> exceptional_change from to then (a, False)
      else if (from \<in> set readyFieldStates \<or> from = ''invalid'') \<and> to \<in> set activeFieldStates
      then
        (case ap_active a of
           None \<Rightarrow> (a, True)
         | Some j \<Rightarrow>
             if j = i then (a, True)
             else
               (let a1 = (if field_state a j \<in> set activeFieldStates then set_field_state j ''candidate'' no_options a
                          else if field_state a j = ''changed'' \<or> field_state a j = ''invalid''
                          then set_field_state j ''saving'' no_options a
                          else a)
                in if from = ''invalid'' then (a1\<lparr>ap_active := Some i\<rparr>, False) else (a1, True)))
      else if from \<in> set activeFieldStates \<and> to = ''candidate'' then (a, op_reason context \<noteq> Some ''mouseleave'')
      else if (from = ''changed'' \<or> from = ''invalid'') \<and> to = ''candidate''
      then (a, op_reason context \<noteq> Some ''mouseleave'')
      else (a, True))"
  by pat_completeness auto
termination
  by (relation "measure (\<lambda>x. case x of
        Inl (i, st, opts, a) \<Rightarrow> (if st \<in> set activeFieldStates then 3 else 1)
      | Inr (from, to, c, i, a) \<Rightarrow> (if to \<in> set activeFieldStates then 2 else 0))")
    (auto simp: activeFieldStates_def)

declare set_field_state.simps [simp del] acceptEditorStateChange.simps [simp del]

definition set_field_states :: "nat list \<Rightarrow> string \<Rightarrow> options \<Rightarrow> app \<Rightarrow> app" where
  "set_field_states is st opts a = fold (\<lambda>i. set_field_state i st opts) is a"

section \<open>Changing the state of an entity\<close>

text \<open>
  A state change of an entity can cause others at once: deactivation goes back to \<open>opened\<close> to ask the user, and
  opening an entity deactivates the other active ones. The first argument bounds the depth of these nested calls;
  \<open>None\<close> means that the bound is reached.
\<close>

definition is_changed_field :: "string \<Rightarrow> bool" where
  "is_changed_field s \<longleftrightarrow> s = ''changed'' \<or> s = ''invalid''"

definition unsaved_changes :: "nat \<Rightarrow> app \<Rightarrow> bool" where
  "unsaved_changes e a \<longleftrightarrow> filter is_changed_field (states_of e a) \<noteq> [] \<or> temp_fields e a \<noteq> []"

text \<open>All fields go to \<open>candidate\<close>; for those that are ready, the change event is only triggered.\<close>

definition candidate_or_event :: "options \<Rightarrow> nat \<Rightarrow> app \<Rightarrow> app" where
  "candidate_or_event opts i a =
     (if field_state a i \<in> set readyFieldStates then field_event i (field_state a i) a
      else set_field_state i ''candidate'' opts a)"

definition deactivate_fields :: "nat \<Rightarrow> options \<Rightarrow> app \<Rightarrow> app" where
  "deactivate_fields e opts a =
     (let invalidFields = filter (\<lambda>s. s = ''invalid'') (states_of e a);
          a1 = set_attribute e (\<lambda>en. en\<lparr>en_reload := (temp_fields e a \<noteq> [] \<or> invalidFields \<noteq> [])\<rparr>) a
      in fold (candidate_or_event opts) (fields_of e a1) a1)"

definition commit_fields :: "nat \<Rightarrow> app \<Rightarrow> app" where
  "commit_fields e a =
     (let a1 = set_field_states (filter (\<lambda>i. field_state a i = ''active'') (fields_of e a)) ''candidate'' no_options a
      in set_field_states (filter (\<lambda>i. field_state a1 i \<in> set changedFieldStates) (fields_of e a1)) ''saving'' no_options a1)"

text \<open>\<open>fieldModel.set({inTempStore: false, state: 'inactive'}, options)\<close> with the reason \<open>stop\<close>.\<close>

definition close_field :: "options \<Rightarrow> nat \<Rightarrow> app \<Rightarrow> app" where
  "close_field opts i a =
     (let a1 = update_field i (\<lambda>f. f\<lparr>fd_inTempStore := False\<rparr>) a
      in set_field_state i ''inactive'' (opts\<lparr>op_reason := Some ''stop''\<rparr>) a1)"

definition close_fields :: "nat \<Rightarrow> options \<Rightarrow> app \<Rightarrow> app" where
  "close_fields e opts a = fold (close_field opts) (fields_of e a) a"

definition appStateChange :: "nat \<Rightarrow> string \<Rightarrow> app \<Rightarrow> app" where
  "appStateChange e st a =
     (if st = ''launching''
      then defer_call (SetEntityState e ''opening'' no_options)
             (a\<lparr>ap_reload := False, ap_editors := ap_editors a @ fields_of e a\<rparr>)
      else if st = ''closed''
      then
        (let a1 = a\<lparr>ap_editors := filter (\<lambda>i. i \<notin> set (fields_of e a)) (ap_editors a)\<rparr>
         in if ap_reload a1 then a1\<lparr>ap_reload := False, ap_pageReloads := Suc (ap_pageReloads a1)\<rparr> else a1)
      else a)"

definition state_accepted :: "nat \<Rightarrow> string \<Rightarrow> options \<Rightarrow> app \<Rightarrow> bool" where
  "state_accepted e st opts a \<longleftrightarrow>
     \<not> op_validate opts \<or>
     EntityModel_validate (ap_entities a ! e) (states_of e a) st (en_isCommitting (ap_entities a ! e)) opts = None"

function
  set_entity_state :: "nat \<Rightarrow> nat \<Rightarrow> string \<Rightarrow> options \<Rightarrow> app \<Rightarrow> app option"
  and stateChange :: "nat \<Rightarrow> nat \<Rightarrow> string \<Rightarrow> options \<Rightarrow> app \<Rightarrow> app option"
  and enforceSingleActiveEntity :: "nat \<Rightarrow> nat list \<Rightarrow> app \<Rightarrow> app option"
where
  "set_entity_state n e st opts a =
     (if \<not> state_accepted e st opts a then Some a
      else if en_state (ap_entities a ! e) = st then Some a
      else
        (case n of
           0 \<Rightarrow> None
         | Suc m \<Rightarrow>
             (case stateChange m e st opts (update_entity e (\<lambda>en. en\<lparr>en_state := st\<rparr>) a) of
                None \<Rightarrow> None
              | Some a1 \<Rightarrow> Some (appStateChange e st a1))))"
| "stateChange n e to opts a =
     (if to = ''closed''
      then Some (update_entity e (\<lambda>en. en\<lparr>en_isActive := False, en_inTempStore := False, en_isDirty := False\<rparr>) a)
      else if to = ''opening'' then Some (set_field_states (fields_of e a) ''candidate'' opts a)
      else if to = ''opened''
      then
        (if attribute_accepted e a \<and> \<not> en_isActive (ap_entities a ! e)
         then
           (let a1 = update_entity e (\<lambda>en. en\<lparr>en_isActive := True\<rparr>) a
            in enforceSingleActiveEntity n
                 (filter (\<lambda>x. en_isActive (ap_entities a1 ! x) \<and> x \<noteq> e) [0..<length (ap_entities a1)]) a1)
         else Some a)
      else if to = ''committing'' then Some (commit_fields e a)
      else if to = ''deactivating''
      then
        (if unsaved_changes e a \<and> \<not> op_saved opts \<and> \<not> op_confirmed opts
         then
           (case set_entity_state n e ''opened'' (BaseModel_set_key (no_options\<lparr>op_confirming := True\<rparr>)) a of
              None \<Rightarrow> None
            | Some a1 \<Rightarrow> Some (defer_call (ConfirmDeactivation e) a1))
         else Some (deactivate_fields e opts a))
      else if to = ''closing'' then Some (close_fields e opts a)
      else Some a)"
| "enforceSingleActiveEntity n xs a =
     (case xs of
        [] \<Rightarrow> Some a
      | x # xs' \<Rightarrow>
          (case set_entity_state n x ''deactivating'' (BaseModel_set_key no_options) a of
             None \<Rightarrow> None
           | Some a1 \<Rightarrow> enforceSingleActiveEntity n xs' a1))"
  by pat_completeness auto
termination
  by (relation "measures [\<lambda>x. case x of
        Inl (n, e, st, opts, a) \<Rightarrow> 2 * n
      | Inr (Inl (n, e, to, opts, a)) \<Rightarrow> 2 * n + 1
      | Inr (Inr (n, xs, a)) \<Rightarrow> 2 * n + 1,
      \<lambda>x. case x of
        Inl (n, e, st, opts, a) \<Rightarrow> 0
      | Inr (Inl (n, e, to, opts, a)) \<Rightarrow> Suc (length (ap_entities a))
      | Inr (Inr (n, xs, a)) \<Rightarrow> length xs]")
    (auto simp: update_entity_def less_Suc_eq_le intro: order_trans [OF length_filter_le])

declare set_entity_state.simps [simp del] stateChange.simps [simp del] enforceSingleActiveEntity.simps [simp del]

text \<open>The cases of \<open>stateChange\<close>, one for each state.\<close>

lemma stateChange_cases:
  "stateChange n e ''closed'' opts a =
     Some (update_entity e (\<lambda>en. en\<lparr>en_isActive := False, en_inTempStore := False, en_isDirty := False\<rparr>) a)"
  "stateChange n e ''launching'' opts a = Some a"
  "stateChange n e ''opening'' opts a = Some (set_field_states (fields_of e a) ''candidate'' opts a)"
  "stateChange n e ''committing'' opts a = Some (commit_fields e a)"
  "stateChange n e ''closing'' opts a = Some (close_fields e opts a)"
  by (subst stateChange.simps, simp)+

lemma stateChange_opened:
  "stateChange n e ''opened'' opts a =
     (if attribute_accepted e a \<and> \<not> en_isActive (ap_entities a ! e)
      then
        (let a1 = update_entity e (\<lambda>en. en\<lparr>en_isActive := True\<rparr>) a
         in enforceSingleActiveEntity n
              (filter (\<lambda>x. en_isActive (ap_entities a1 ! x) \<and> x \<noteq> e) [0..<length (ap_entities a1)]) a1)
      else Some a)"
  by (subst stateChange.simps) simp

lemma stateChange_deactivating:
  "stateChange n e ''deactivating'' opts a =
     (if unsaved_changes e a \<and> \<not> op_saved opts \<and> \<not> op_confirmed opts
      then
        (case set_entity_state n e ''opened'' (BaseModel_set_key (no_options\<lparr>op_confirming := True\<rparr>)) a of
           None \<Rightarrow> None
         | Some a1 \<Rightarrow> Some (defer_call (ConfirmDeactivation e) a1))
      else Some (deactivate_fields e opts a))"
  by (subst stateChange.simps) simp

lemma stateChange_other:
  "to \<notin> set entity_states \<Longrightarrow> stateChange n e to opts a = Some a"
  by (subst stateChange.simps) (simp add: entity_states_def)

lemma entity_state_cases:
  "to \<notin> set entity_states \<or> to = ''closed'' \<or> to = ''launching'' \<or> to = ''opening'' \<or> to = ''opened'' \<or>
   to = ''committing'' \<or> to = ''deactivating'' \<or> to = ''closing''"
  by (auto simp: entity_states_def)

section \<open>Requests, dialogs and the queue\<close>

text \<open>\<open>entityModel.set('state', st, options)\<close> from outside; depth four is enough.\<close>

definition change_state :: "nat \<Rightarrow> string \<Rightarrow> options \<Rightarrow> app \<Rightarrow> app option" where
  "change_state e st opts a = set_entity_state 4 e st (BaseModel_set_key opts) a"

text \<open>
  The server has saved the entity: the command \<open>quickeditEntitySaved\<close> with the success callback of
  \<open>fieldStateChange\<close>, which sets two attributes at once and without validation.
\<close>

definition clear_field :: "nat \<Rightarrow> app \<Rightarrow> app" where
  "clear_field i a = update_field i (\<lambda>f. f\<lparr>fd_inTempStore := False, fd_previous := fd_state f\<rparr>) a"

definition clear_temp_store :: "nat \<Rightarrow> app \<Rightarrow> app" where
  "clear_temp_store e a =
     set_attribute e (\<lambda>en. en\<lparr>en_fieldsInTempStore := Some []\<rparr>)
       (set_attribute e (\<lambda>en. en\<lparr>en_inTempStore := False\<rparr>) (fold clear_field (fields_of e a) a))"

definition save_success :: "nat \<Rightarrow> app \<Rightarrow> app option" where
  "save_success e a =
     (let a1 = clear_temp_store e a;
          a2 = (update_entity e (\<lambda>en. en\<lparr>en_isCommitting := False\<rparr>) a1)\<lparr>ap_saving := remove1 e (ap_saving a1)\<rparr>
      in set_entity_state 4 e ''deactivating'' (BaseModel_set_object (no_options\<lparr>op_saved := True\<rparr>)) a2)"

definition save_error :: "nat \<Rightarrow> app \<Rightarrow> app option" where
  "save_error e a =
     (let a1 = (update_entity e (\<lambda>en. en\<lparr>en_isCommitting := False\<rparr>) a)\<lparr>ap_saving := remove1 e (ap_saving a)\<rparr>
      in case change_state e ''opened'' (no_options\<lparr>op_reason := Some ''networkerror''\<rparr>) a1 of
           None \<Rightarrow> None
         | Some a2 \<Rightarrow> Some (a2\<lparr>ap_networkErrors := ap_networkErrors a2 @ [e]\<rparr>))"

definition confirmEntityDeactivation :: "nat \<Rightarrow> app \<Rightarrow> app" where
  "confirmEntityDeactivation e a = (if ap_modal a = None then a\<lparr>ap_modal := Some e\<rparr> else a)"

definition closeDiscardDialog :: "bool \<Rightarrow> nat \<Rightarrow> app \<Rightarrow> app option" where
  "closeDiscardDialog save e a =
     (let a1 = a\<lparr>ap_modal := None\<rparr> in
      if save then change_state e ''committing'' (no_options\<lparr>op_confirmed := True\<rparr>) a1
      else
        (case change_state e ''deactivating'' (no_options\<lparr>op_confirmed := True\<rparr>) a1 of
           None \<Rightarrow> None
         | Some a2 \<Rightarrow>
             if en_reload (ap_entities a2 ! e)
             then Some (set_attribute e (\<lambda>en. en\<lparr>en_reload := False\<rparr>) (a2\<lparr>ap_reload := True\<rparr>))
             else Some a2))"

fun run_deferred :: "app \<Rightarrow> app option" where
  "run_deferred a =
     (case ap_deferred a of
        [] \<Rightarrow> Some a
      | SetEntityState e st opts # ds \<Rightarrow> change_state e st opts (a\<lparr>ap_deferred := ds\<rparr>)
      | ConfirmDeactivation e # ds \<Rightarrow> Some (confirmEntityDeactivation e (a\<lparr>ap_deferred := ds\<rparr>)))"

section \<open>What field changes leave alone\<close>

text \<open>
  Reactions to field states change neither the state of an entity nor whether it is active, and no field changes
  its entity.
\<close>

definition skeleton :: "app \<Rightarrow> (string \<times> bool) list \<times> nat list \<times> nat option" where
  "skeleton a =
     (map (\<lambda>en. (en_state en, en_isActive en)) (ap_entities a), map fd_entity (ap_fields a), ap_modal a)"

lemma map_update_same: "i < length xs \<Longrightarrow> f (g (xs ! i)) = f (xs ! i) \<Longrightarrow> map f (xs[i := g (xs ! i)]) = map f xs"
  by (simp add: map_update list_update_same_conv)

lemma map_update_keeps: "(\<And>x. f (g x) = f x) \<Longrightarrow> map f (xs[i := g (xs ! i)]) = map f xs"
  by (cases "i < length xs") (simp_all add: map_update_same list_update_beyond)

lemma skeleton_update_entity:
  "(\<And>en. en_state (g en) = en_state en) \<Longrightarrow> (\<And>en. en_isActive (g en) = en_isActive en) \<Longrightarrow>
   skeleton (update_entity e g a) = skeleton a"
  by (simp add: skeleton_def update_entity_def map_update_keeps)

lemma skeleton_update_field:
  "(\<And>f. fd_entity (g f) = fd_entity f) \<Longrightarrow> skeleton (update_field i g a) = skeleton a"
  by (simp add: skeleton_def update_field_def map_update_keeps)

lemma skeleton_defer [simp]: "skeleton (defer_call d a) = skeleton a"
  by (simp add: skeleton_def defer_call_def)

lemma skeleton_set_attribute:
  "(\<And>en. en_state (g en) = en_state en) \<Longrightarrow> (\<And>en. en_isActive (g en) = en_isActive en) \<Longrightarrow>
   skeleton (set_attribute e g a) = skeleton a"
  by (simp add: set_attribute_def skeleton_update_entity)

lemma skeleton_push [simp]: "skeleton (push_temp_field e x a) = skeleton a"
  by (auto simp: push_temp_field_def skeleton_update_entity split: option.splits) (simp add: skeleton_def)

lemma skeleton_updateInTempStore [simp]: "skeleton (updateInTempStoreAttributes e i a) = skeleton a"
  by (simp add: updateInTempStoreAttributes_def Let_def skeleton_set_attribute skeleton_update_field)

lemma skeleton_try_commit [simp]: "skeleton (try_commit e a) = skeleton a"
proof -
  have "skeleton (b\<lparr>ap_saving := xs\<rparr>) = skeleton b" for b xs by (simp add: skeleton_def)
  then show ?thesis by (simp add: try_commit_def skeleton_update_entity)
qed

lemma skeleton_fieldStateChange [simp]: "skeleton (fieldStateChange e i st a) = skeleton a"
  by (simp add: fieldStateChange_def Let_def skeleton_set_attribute)

lemma skeleton_editorStateChange [simp]: "skeleton (editorStateChange i st a) = skeleton a"
  by (simp add: editorStateChange_def Let_def skeleton_def)

lemma skeleton_field_event [simp]: "skeleton (field_event i st a) = skeleton a"
  by (simp add: field_event_def)

lemma skeleton_field:
  "skeleton (set_field_state i st opts a) = skeleton a"
  "skeleton (fst (acceptEditorStateChange from to opts i a)) = skeleton a"
proof (induction i st opts a and "from" to opts i a rule: set_field_state_acceptEditorStateChange.induct)
  case (1 i st opts a)
  then show ?case
    by (subst set_field_state.simps)
      (auto simp: Let_def skeleton_update_field split: prod.splits)
next
  case (2 "from" to opts i a)
  have act: "skeleton (b\<lparr>ap_active := x\<rparr>) = skeleton b" for b x by (simp add: skeleton_def)
  from 2 show ?case
    by (subst acceptEditorStateChange.simps) (auto simp: Let_def act split: option.splits)
qed

lemma skeleton_fold: "(\<And>i b. skeleton (g i b) = skeleton b) \<Longrightarrow> skeleton (fold g is a) = skeleton a"
  by (induction "is" arbitrary: a) simp_all

lemma skeleton_set_field_states [simp]: "skeleton (set_field_states is st opts a) = skeleton a"
  by (simp add: set_field_states_def skeleton_fold skeleton_field)

lemma skeleton_commit_fields [simp]: "skeleton (commit_fields e a) = skeleton a"
  by (simp add: commit_fields_def Let_def)

lemma skeleton_deactivate_fields [simp]: "skeleton (deactivate_fields e opts a) = skeleton a"
proof -
  have "skeleton (candidate_or_event opts i b) = skeleton b" for i b
    by (simp add: candidate_or_event_def skeleton_field)
  then show ?thesis by (simp add: deactivate_fields_def Let_def skeleton_fold skeleton_set_attribute)
qed

lemma skeleton_close_fields [simp]: "skeleton (close_fields e opts a) = skeleton a"
proof -
  have "skeleton (close_field opts i b) = skeleton b" for i b
    by (simp add: close_field_def Let_def skeleton_field skeleton_update_field)
  then show ?thesis by (simp add: close_fields_def skeleton_fold)
qed

text \<open>What the skeleton determines.\<close>

definition actives :: "app \<Rightarrow> bool list" where
  "actives a = map en_isActive (ap_entities a)"

lemma skeleton_actives: "skeleton a = skeleton b \<Longrightarrow> actives a = actives b"
proof -
  have "actives c = map snd (fst (skeleton c))" for c by (simp add: actives_def skeleton_def comp_def)
  then show "skeleton a = skeleton b \<Longrightarrow> ?thesis" by simp
qed

lemma actives_appStateChange [simp]: "actives (appStateChange e st a) = actives a"
  by (simp add: appStateChange_def actives_def defer_call_def Let_def)

lemma actives_update_state [simp]: "actives (update_entity e (\<lambda>en. en\<lparr>en_state := st\<rparr>) a) = actives a"
  by (simp add: actives_def update_entity_def map_update_keeps)

lemma isActive_nth: "e < length (actives a) \<Longrightarrow> en_isActive (ap_entities a ! e) = actives a ! e"
  by (simp add: actives_def)

section \<open>Nested state changes end\<close>

lemma state_neq [simp]:
  "''opened'' \<noteq> ''closed''" "''opened'' \<noteq> ''opening''" "''deactivating'' \<noteq> ''opened''"
  by simp_all

lemma set_opened_active:
  assumes "e < length (actives a)" and "actives a ! e"
  shows "\<exists>a'. set_entity_state (Suc n) e ''opened'' opts a = Some a' \<and> actives a' = actives a"
proof -
  let ?a = "update_entity e (\<lambda>en. en\<lparr>en_state := ''opened''\<rparr>) a"
  have "en_isActive (ap_entities ?a ! e)"
    using assms isActive_nth [of e ?a] by simp
  then have "stateChange n e ''opened'' opts ?a = Some ?a"
    by (subst stateChange.simps) simp
  then show ?thesis by (subst set_entity_state.simps) simp
qed

lemma set_deactivating_active:
  assumes "e < length (actives a)" and "actives a ! e"
  shows "\<exists>a'. set_entity_state (Suc (Suc n)) e ''deactivating'' opts a = Some a' \<and> actives a' = actives a"
proof -
  let ?a = "update_entity e (\<lambda>en. en\<lparr>en_state := ''deactivating''\<rparr>) a"
  let ?o = "BaseModel_set_key (no_options\<lparr>op_confirming := True\<rparr>)"
  from set_opened_active [of e ?a n ?o] assms obtain a1 where
    a1: "set_entity_state (Suc n) e ''opened'' ?o ?a = Some a1" "actives a1 = actives a" by auto
  have "\<exists>a2. stateChange (Suc n) e ''deactivating'' opts ?a = Some a2 \<and> actives a2 = actives a"
  proof (cases "unsaved_changes e ?a \<and> \<not> op_saved opts \<and> \<not> op_confirmed opts")
    case True
    then have "stateChange (Suc n) e ''deactivating'' opts ?a = Some (defer_call (ConfirmDeactivation e) a1)"
      by (subst stateChange.simps) (simp add: a1)
    then show ?thesis using a1(2) by (simp add: actives_def defer_call_def)
  next
    case False
    then have "stateChange (Suc n) e ''deactivating'' opts ?a = Some (deactivate_fields e opts ?a)"
      by (subst stateChange.simps) auto
    moreover have "actives (deactivate_fields e opts ?a) = actives ?a"
      by (rule skeleton_actives) simp
    ultimately show ?thesis by simp
  qed
  then show ?thesis by (subst set_entity_state.simps) auto
qed

lemma enforce_total:
  assumes "\<forall>x \<in> set xs. x < length (actives a) \<and> actives a ! x"
  shows "\<exists>a'. enforceSingleActiveEntity (Suc (Suc n)) xs a = Some a' \<and> actives a' = actives a"
  using assms
proof (induction xs arbitrary: a)
  case Nil
  then show ?case by (subst enforceSingleActiveEntity.simps) simp
next
  case (Cons x xs)
  from set_deactivating_active [of x a n "BaseModel_set_key no_options"] Cons.prems obtain a1 where
    "set_entity_state (Suc (Suc n)) x ''deactivating'' (BaseModel_set_key no_options) a = Some a1" "actives a1 = actives a"
    by auto
  moreover from this Cons.IH [of a1] Cons.prems obtain a2 where
    "enforceSingleActiveEntity (Suc (Suc n)) xs a1 = Some a2" "actives a2 = actives a" by auto
  ultimately show ?case by (subst enforceSingleActiveEntity.simps) simp
qed

lemma set_opened_total:
  assumes "e < length (actives a)"
  shows "\<exists>a'. set_entity_state (Suc (Suc (Suc n))) e ''opened'' opts a = Some a'"
proof -
  let ?a = "update_entity e (\<lambda>en. en\<lparr>en_state := ''opened''\<rparr>) a"
  let ?b = "update_entity e (\<lambda>en. en\<lparr>en_isActive := True\<rparr>) ?a"
  let ?xs = "filter (\<lambda>x. en_isActive (ap_entities ?b ! x) \<and> x \<noteq> e) [0..<length (ap_entities ?b)]"
  have "\<forall>x \<in> set ?xs. x < length (actives ?b) \<and> actives ?b ! x"
    by (auto simp: actives_def)
  from enforce_total [OF this, of n] have "\<exists>a'. stateChange (Suc (Suc n)) e ''opened'' opts ?a = Some a'"
    by (subst stateChange.simps) (auto simp: Let_def)
  then show ?thesis by (subst set_entity_state.simps) auto
qed

lemma set_entity_state_total:
  assumes "e < length (ap_entities a)"
  shows "\<exists>a'. set_entity_state 4 e st opts a = Some a'"
proof (cases "st = ''opened''")
  case True
  with set_opened_total [of e a 1 opts] assms show ?thesis
    by (simp add: actives_def numeral_eq_Suc)
next
  case False
  let ?a = "update_entity e (\<lambda>en. en\<lparr>en_state := st\<rparr>) a"
  have "e < length (actives a)" using assms by (simp add: actives_def)
  then have e: "e < length (actives ?a)" by simp
  from set_opened_total [OF e, of 0 "BaseModel_set_key (no_options\<lparr>op_confirming := True\<rparr>)"] obtain a1 where
    "set_entity_state 3 e ''opened'' (BaseModel_set_key (no_options\<lparr>op_confirming := True\<rparr>)) ?a = Some a1"
    by (auto simp: numeral_eq_Suc)
  then have "\<exists>a'. stateChange 3 e ''deactivating'' opts ?a = Some a'"
    by (simp add: stateChange_deactivating)
  with False have "\<exists>a'. stateChange 3 e st opts ?a = Some a'"
    using entity_state_cases [of st] by (elim disjE) (simp_all add: stateChange_cases stateChange_other)
  then show ?thesis by (subst set_entity_state.simps) (auto simp: numeral_eq_Suc)
qed

text \<open>
  C29. Every change of an entity state ends: the changes it causes (reopening to ask the user, deactivating the other
  active entities, which may be reopened themselves) are never nested deeper than four.
\<close>

theorem change_state_terminates:
  assumes "e < length (ap_entities a)"
  shows "\<exists>a'. change_state e st opts a = Some a'"
  using set_entity_state_total [OF assms] by (simp add: change_state_def)


theorem change_state_terminates_witness:
  "\<exists>a'. change_state 0 ''launching'' no_options
     \<lparr>ap_entities = [new_entity], ap_fields = [], ap_defaultFields = [], ap_highlighted = None, ap_active = None,
      ap_modal = None, ap_reload = False, ap_deferred = [], ap_saving = [], ap_reverted = [], ap_editors = [],
      ap_networkErrors = [], ap_pageReloads = 0\<rparr> = Some a'"
  by (rule change_state_terminates) simp

end
