(* ===== verification/Quickedit_Invariant.thy ===== *)
theory Quickedit_Invariant
  imports Quickedit_App
begin

text \<open>
  The invariant of the in-place editing application: one active field, one save request for each entity, valid
  states. The locale \<open>app_invariant\<close> lists what the primitive changes must keep; every step is composed of them.
\<close>

section \<open>The invariant of the application\<close>

text \<open>A request is in flight for exactly the entities whose \<open>isCommitting\<close> is set, and one for each.\<close>

definition mutex :: "app \<Rightarrow> bool" where
  "mutex a \<longleftrightarrow> (\<forall>e < length (ap_entities a).
     count_list (ap_saving a) e = (if en_isCommitting (ap_entities a ! e) then 1 else 0))"

text \<open>The field that is being activated or is active is the active field of the application: there is one at most.\<close>

definition single_active :: "app \<Rightarrow> bool" where
  "single_active a \<longleftrightarrow> (\<forall>i < length (ap_fields a). field_state a i \<in> set activeFieldStates \<longrightarrow> ap_active a = Some i)"

definition deferred_ok :: "nat \<Rightarrow> deferred \<Rightarrow> bool" where
  "deferred_ok n d = (case d of SetEntityState e st opts \<Rightarrow> e < n | ConfirmDeactivation e \<Rightarrow> e < n)"

definition in_range :: "app \<Rightarrow> bool" where
  "in_range a \<longleftrightarrow>
     (\<forall>f \<in> set (ap_fields a). fd_entity f < length (ap_entities a)) \<and>
     (\<forall>d \<in> set (ap_deferred a). deferred_ok (length (ap_entities a)) d) \<and>
     (\<forall>e. ap_modal a = Some e \<longrightarrow> e < length (ap_entities a)) \<and>
     (\<forall>i. ap_active a = Some i \<longrightarrow> i < length (ap_fields a)) \<and>
     (\<forall>e \<in> set (ap_saving a). e < length (ap_entities a))"

definition valid_states :: "app \<Rightarrow> bool" where
  "valid_states a \<longleftrightarrow>
     (\<forall>en \<in> set (ap_entities a). en_state en \<in> set entity_states) \<and>
     (\<forall>f \<in> set (ap_fields a). fd_state f \<in> set field_states)"

definition app_inv :: "app \<Rightarrow> bool" where
  "app_inv a \<longleftrightarrow> mutex a \<and> single_active a \<and> in_range a \<and> valid_states a"

text \<open>All but the clause on the active field.\<close>

definition base_inv :: "app \<Rightarrow> bool" where
  "base_inv a \<longleftrightarrow> mutex a \<and> in_range a \<and> valid_states a"

lemma app_inv_base: "app_inv a \<longleftrightarrow> base_inv a \<and> single_active a"
  by (auto simp: app_inv_def base_inv_def)

lemma set_list_update: "x \<in> set (xs[i := y]) \<Longrightarrow> x \<in> set xs \<or> x = y"
  by (meson in_mono insert_iff set_update_subset_insert)

lemma base_update_entity:
  assumes "base_inv a" and "\<And>en. en_isCommitting (g en) = en_isCommitting en"
    and "\<And>en. en_state en \<in> set entity_states \<Longrightarrow> en_state (g en) \<in> set entity_states"
  shows "base_inv (update_entity e g a)"
proof (cases "e < length (ap_entities a)")
  case True
  with assms show ?thesis
    by (auto simp: base_inv_def mutex_def in_range_def valid_states_def update_entity_def nth_list_update
        dest!: set_list_update)
qed (use assms(1) in \<open>simp add: update_entity_def list_update_beyond\<close>)

lemma base_update_field:
  assumes "base_inv a" and "\<And>f. fd_entity (g f) = fd_entity f"
    and "\<And>f. fd_state f \<in> set field_states \<Longrightarrow> fd_state (g f) \<in> set field_states"
  shows "base_inv (update_field i g a)"
proof (cases "i < length (ap_fields a)")
  case True
  with assms show ?thesis
    by (auto simp: base_inv_def mutex_def in_range_def valid_states_def update_field_def dest!: set_list_update)
qed (use assms(1) in \<open>simp add: update_field_def list_update_beyond\<close>)

lemma base_defer: "base_inv a \<Longrightarrow> deferred_ok (length (ap_entities a)) d \<Longrightarrow> base_inv (defer_call d a)"
  by (auto simp: base_inv_def mutex_def in_range_def valid_states_def defer_call_def)

lemma base_set_attribute:
  "base_inv a \<Longrightarrow> (\<And>en. en_isCommitting (g en) = en_isCommitting en) \<Longrightarrow> (\<And>en. en_state (g en) = en_state en) \<Longrightarrow>
   base_inv (set_attribute e g a)"
  by (simp add: set_attribute_def base_update_entity)

lemma base_push: "base_inv a \<Longrightarrow> base_inv (push_temp_field e x a)"
proof -
  assume b: "base_inv a"
  then have "base_inv (a\<lparr>ap_defaultFields := xs\<rparr>)" for xs
    by (simp add: base_inv_def mutex_def in_range_def valid_states_def)
  with b show ?thesis
    by (auto simp: push_temp_field_def intro: base_update_entity split: option.splits)
qed

lemma base_updateInTempStore: "base_inv a \<Longrightarrow> base_inv (updateInTempStoreAttributes e i a)"
  by (simp add: updateInTempStoreAttributes_def Let_def base_set_attribute base_update_field base_push)

lemma base_try_commit:
  assumes "base_inv a" and "e < length (ap_entities a)"
  shows "base_inv (try_commit e a)"
proof (cases "EntityModel_validate (ap_entities a ! e) (states_of e a) (en_state (ap_entities a ! e)) True
    (BaseModel_set_key ready_options) = None")
  case True
  then have "\<not> en_isCommitting (ap_entities a ! e)" by (auto simp: EntityModel_validate_def Let_def)
  with assms True show ?thesis
    by (auto simp: try_commit_def base_inv_def mutex_def in_range_def valid_states_def update_entity_def nth_list_update
        dest!: set_list_update)
qed (use assms(1) in \<open>auto simp: try_commit_def\<close>)

lemma lengths_of_skeleton:
  "skeleton a = skeleton b \<Longrightarrow> length (ap_entities a) = length (ap_entities b) \<and> length (ap_fields a) = length (ap_fields b)"
  by (auto simp: skeleton_def dest: map_eq_imp_length_eq)

lemma base_fieldStateChange:
  assumes "base_inv a" and "e < length (ap_entities a)"
  shows "base_inv (fieldStateChange e i st a)"
proof -
  have "length (ap_entities (updateInTempStoreAttributes e i a)) = length (ap_entities a)"
    "length (ap_entities (defer_call d a)) = length (ap_entities a)" for d
    using lengths_of_skeleton [of "updateInTempStoreAttributes e i a" a] by (simp_all add: defer_call_def)
  with assms show ?thesis
    by (simp add: fieldStateChange_def Let_def base_defer deferred_ok_def base_set_attribute base_updateInTempStore base_try_commit)
qed

lemma base_editorStateChange: "base_inv a \<Longrightarrow> i < length (ap_fields a) \<Longrightarrow> base_inv (editorStateChange i st a)"
  by (auto simp: editorStateChange_def Let_def base_inv_def mutex_def in_range_def valid_states_def)

lemma base_field_event:
  assumes "base_inv a" and "i < length (ap_fields a)"
  shows "base_inv (field_event i st a)"
proof -
  have "fd_entity (ap_fields a ! i) < length (ap_entities a)"
    using assms by (simp add: base_inv_def in_range_def)
  with assms lengths_of_skeleton [of "fieldStateChange (fd_entity (ap_fields a ! i)) i st a" a] show ?thesis
    by (simp add: field_event_def base_fieldStateChange base_editorStateChange)
qed

section \<open>One active field\<close>

definition only_active :: "nat \<Rightarrow> app \<Rightarrow> bool" where
  "only_active i a \<longleftrightarrow> (\<forall>k < length (ap_fields a). k \<noteq> i \<longrightarrow> field_state a k \<notin> set activeFieldStates)"

lemma field_state_frames [simp]:
  "field_state (update_entity e g a) k = field_state a k"
  "field_state (defer_call d a) k = field_state a k"
  "field_state (set_attribute e g a) k = field_state a k"
  "field_state (push_temp_field e x a) k = field_state a k"
  "field_state (a\<lparr>ap_active := x'\<rparr>) k = field_state a k"
  "field_state (try_commit e a) k = field_state a k"
  by (auto simp: field_state_def update_entity_def defer_call_def set_attribute_def push_temp_field_def try_commit_def
      split: option.splits)

lemma field_state_update:
  "i < length (ap_fields a) \<Longrightarrow>
   field_state (update_field i g a) k = (if k = i then fd_state (g (ap_fields a ! i)) else field_state a k)"
  by (simp add: field_state_def update_field_def)

lemma field_state_update_keeps: "(\<And>f. fd_state (g f) = fd_state f) \<Longrightarrow> field_state (update_field i g a) k = field_state a k"
  by (cases "i < length (ap_fields a)") (auto simp: field_state_def update_field_def nth_list_update list_update_beyond)

lemma field_state_reactions [simp]:
  "field_state (updateInTempStoreAttributes e i a) k = field_state a k"
  "field_state (fieldStateChange e i st a) k = field_state a k"
  by (simp_all add: updateInTempStoreAttributes_def fieldStateChange_def Let_def field_state_update_keeps)

lemma field_state_editor [simp]: "field_state (editorStateChange i st a) k = field_state a k"
  by (simp add: editorStateChange_def Let_def field_state_def)

lemma field_state_event [simp]: "field_state (field_event i st a) k = field_state a k"
  by (simp add: field_event_def)

lemma active_frames [simp]:
  "ap_active (update_entity e g a) = ap_active a"
  "ap_active (update_field i h a) = ap_active a"
  "ap_active (defer_call d a) = ap_active a"
  "ap_active (set_attribute e g a) = ap_active a"
  "ap_active (push_temp_field e x a) = ap_active a"
  "ap_active (try_commit e a) = ap_active a"
  by (simp_all add: update_entity_def update_field_def defer_call_def set_attribute_def push_temp_field_def try_commit_def
      split: option.splits)

lemma active_reactions [simp]:
  "ap_active (updateInTempStoreAttributes e i a) = ap_active a"
  "ap_active (fieldStateChange e i st a) = ap_active a"
  by (simp_all add: updateInTempStoreAttributes_def fieldStateChange_def Let_def)

lemma candidate_not_active [simp]: "''candidate'' \<notin> set activeFieldStates"
  by (simp add: activeFieldStates_def)

lemma active_event:
  "ap_active (field_event i st a) =
   (if st \<in> set activeFieldStates then Some i
    else if ap_active a = Some i \<and> st = ''candidate'' then None else ap_active a)"
  by (cases "st \<in> set activeFieldStates"; cases "st = ''candidate''")
    (simp_all add: field_event_def editorStateChange_def Let_def)

lemma length_fields_frames:
  "length (ap_fields (field_event i st a)) = length (ap_fields a)"
  "length (ap_fields (update_field i g a)) = length (ap_fields a)"
  "length (ap_fields (set_field_state i st opts a)) = length (ap_fields a)"
  "length (ap_entities (set_field_state i st opts a)) = length (ap_entities a)"
  using lengths_of_skeleton [of "field_event i st a" a] lengths_of_skeleton [OF skeleton_field(1) [of i st opts a]]
  by (simp_all add: update_field_def)

text \<open>A new state of field \<open>i\<close>, with the reactions to it.\<close>

definition enter_state :: "nat \<Rightarrow> string \<Rightarrow> app \<Rightarrow> app" where
  "enter_state i st a =
     field_event i st (update_field i (\<lambda>f. f\<lparr>fd_state := st, fd_previous := fd_state f\<rparr>) a)"

lemma enter_state_fields:
  "i < length (ap_fields a) \<Longrightarrow> field_state (enter_state i st a) k = (if k = i then st else field_state a k)"
  by (simp add: enter_state_def field_state_update)

lemma length_enter_state [simp]: "length (ap_fields (enter_state i st a)) = length (ap_fields a)"
  by (simp add: enter_state_def length_fields_frames)

lemma enter_state_inv:
  assumes "app_inv a" and "i < length (ap_fields a)" and "st \<in> set field_states"
    and "st \<in> set activeFieldStates \<Longrightarrow> only_active i a"
  shows "app_inv (enter_state i st a)"
proof -
  have "base_inv (enter_state i st a)"
    unfolding enter_state_def using assms
    by (intro base_field_event base_update_field) (auto simp: app_inv_base length_fields_frames)
  moreover have "ap_active (enter_state i st a) =
      (if st \<in> set activeFieldStates then Some i
       else if ap_active a = Some i \<and> st = ''candidate'' then None else ap_active a)"
    by (simp add: enter_state_def active_event)
  moreover have "field_state a k \<in> set activeFieldStates \<longrightarrow> ap_active a = Some k" if "k < length (ap_fields a)" for k
    using assms(1) that by (simp add: app_inv_def single_active_def)
  ultimately show ?thesis
    unfolding app_inv_base single_active_def using assms(2,4)
    by (auto simp: enter_state_fields only_active_def)
qed

lemma set_field_state_enter:
  assumes "acceptEditorStateChange (field_state a i) st opts i a = (a1, ok)" and "field_state a1 i = field_state a i"
  shows "set_field_state i st opts a =
     (if field_state a i = st then update_field i (\<lambda>f. f\<lparr>fd_previous := st\<rparr>) a
      else if st \<notin> set field_states then a
      else if ok then enter_state i st a1 else a1)"
proof -
  have "update_field i (\<lambda>f. f\<lparr>fd_state := st, fd_previous := field_state a i\<rparr>) a1 =
      update_field i (\<lambda>f. f\<lparr>fd_state := st, fd_previous := fd_state f\<rparr>) a1"
    using assms(2) by (simp add: update_field_def field_state_def)
  moreover have "index_of field_states st = -1 \<longleftrightarrow> st \<notin> set field_states" by (simp add: index_of_def)
  ultimately show ?thesis
    using assms(1) by (subst set_field_state.simps) (simp add: Let_def enter_state_def)
qed

lemma accept_inactive_target:
  assumes "to \<notin> set activeFieldStates"
  shows "acceptEditorStateChange from to opts i a = (a, snd (acceptEditorStateChange from to opts i a))"
proof -
  have "fst (acceptEditorStateChange from to opts i a) = a"
    using assms by (subst acceptEditorStateChange.simps) simp
  then show ?thesis by (simp add: prod_eq_iff)
qed

lemma app_inv_previous: "app_inv a \<Longrightarrow> app_inv (update_field i (\<lambda>f. f\<lparr>fd_previous := p\<rparr>) a)"
  unfolding app_inv_base
  by (auto simp: base_update_field single_active_def field_state_update_keeps length_fields_frames)

lemma set_field_state_quiet:
  assumes "app_inv a" and "i < length (ap_fields a)" and "st \<notin> set activeFieldStates"
  shows "app_inv (set_field_state i st opts a)"
proof -
  have "app_inv (enter_state i st a)" if "st \<in> set field_states"
    using assms that by (intro enter_state_inv) auto
  with set_field_state_enter [OF accept_inactive_target [OF assms(3)]] assms show ?thesis
    by (simp add: app_inv_previous)
qed

lemma activation_sources:
  assumes "from \<in> set field_states" and "to \<in> set activeFieldStates" and "from \<noteq> to" and "from \<noteq> ''inactive''"
    and "followsStateSequence field_states from to \<or> exceptional_change from to"
  shows "from \<in> set readyFieldStates \<or> from = ''invalid'' \<or> from \<in> set activeFieldStates"
proof -
  have "list_all (\<lambda>f. list_all (\<lambda>t. f \<noteq> t \<and> f \<noteq> ''inactive'' \<and> (followsStateSequence field_states f t \<or> exceptional_change f t) \<longrightarrow>
      f \<in> set readyFieldStates \<or> f = ''invalid'' \<or> f \<in> set activeFieldStates) activeFieldStates) field_states"
    by code_simp
  with assms show ?thesis by (simp only: list_all_iff) blast
qed

lemma not_active_states [simp]:
  "''saving'' \<notin> set activeFieldStates" "''changed'' \<notin> set activeFieldStates" "''invalid'' \<notin> set activeFieldStates"
  "''inactive'' \<notin> set activeFieldStates"
  by (simp_all add: activeFieldStates_def)

lemma stop_active_field:
  assumes "s \<in> set activeFieldStates"
  shows "acceptEditorStateChange s ''candidate'' no_options j a = (a, True)"
  using assms by (subst acceptEditorStateChange.simps) (simp add: exceptional_change_def no_options_def)

text \<open>What the application does to the active field \<open>j\<close> when another field is activated.\<close>

definition leave_active :: "nat \<Rightarrow> app \<Rightarrow> app" where
  "leave_active j a =
     (if field_state a j \<in> set activeFieldStates then set_field_state j ''candidate'' no_options a
      else if field_state a j = ''changed'' \<or> field_state a j = ''invalid'' then set_field_state j ''saving'' no_options a
      else a)"

lemma quiet_states:
  assumes "j < length (ap_fields a)" and "st \<notin> set activeFieldStates"
  shows "field_state (set_field_state j st opts a) k =
     (if k = j \<and> st \<in> set field_states \<and> snd (acceptEditorStateChange (field_state a j) st opts j a) then st else field_state a k)"
  using set_field_state_enter [OF accept_inactive_target [OF assms(2)], of a j opts] assms(1)
  by (auto simp: enter_state_fields field_state_update_keeps)

lemma leave_active_effect:
  assumes "app_inv a" and "ap_active a = Some j" and "j < length (ap_fields a)" and "j \<noteq> i"
  shows "app_inv (leave_active j a)" and "length (ap_fields (leave_active j a)) = length (ap_fields a)"
    and "field_state (leave_active j a) i = field_state a i" and "only_active i (leave_active j a)"
proof -
  show "app_inv (leave_active j a)"
    using assms by (simp add: leave_active_def set_field_state_quiet)
  show len: "length (ap_fields (leave_active j a)) = length (ap_fields a)"
    by (simp add: leave_active_def length_fields_frames)
  show "field_state (leave_active j a) i = field_state a i"
    using assms(3,4) by (simp add: leave_active_def quiet_states)
  have cand: "''candidate'' \<in> set field_states" by (simp add: field_states_def)
  have "field_state (leave_active j a) j \<notin> set activeFieldStates"
    using assms(3) cand by (auto simp: leave_active_def quiet_states stop_active_field)
  moreover have "field_state (leave_active j a) k = field_state a k" if "k \<noteq> j" for k
    using assms(3) that by (simp add: leave_active_def quiet_states)
  moreover have "field_state a k \<notin> set activeFieldStates" if "k \<noteq> j" "k < length (ap_fields a)" for k
    using assms(1,2) that by (auto simp: app_inv_def single_active_def)
  ultimately show "only_active i (leave_active j a)" unfolding only_active_def len by metis
qed

lemma accept_branches:
  assumes "op_reason opts \<notin> {Some ''stop'', Some ''rerender''}" and "to \<in> set activeFieldStates"
    and "followsStateSequence field_states from to \<or> exceptional_change from to"
    and "from \<in> set readyFieldStates \<or> from = ''invalid''"
  shows "acceptEditorStateChange from to opts i a =
     (case ap_active a of
        None \<Rightarrow> (a, True)
      | Some j \<Rightarrow>
          if j = i then (a, True)
          else if from = ''invalid'' then ((leave_active j a)\<lparr>ap_active := Some i\<rparr>, False) else (leave_active j a, True))"
proof -
  have "\<not> (op_reason opts = Some ''stop'' \<or> op_reason opts = Some ''rerender'')"
    and "\<not> (\<not> followsStateSequence field_states from to \<and> \<not> exceptional_change from to)"
    using assms(1,3) by auto
  with assms(2,4) show ?thesis
    by (subst acceptEditorStateChange.simps, cases "ap_active a") (simp_all only: if_False if_True simp_thms Let_def leave_active_def option.case)
qed

lemma accept_active:
  assumes "app_inv a" and "i < length (ap_fields a)" and "to \<in> set activeFieldStates" and "field_state a i \<noteq> to"
    and "field_state a i \<noteq> ''inactive''" and "op_reason opts \<notin> {Some ''stop'', Some ''rerender''}"
  shows "\<exists>a1 ok. acceptEditorStateChange (field_state a i) to opts i a = (a1, ok) \<and> app_inv a1 \<and>
     length (ap_fields a1) = length (ap_fields a) \<and> field_state a1 i = field_state a i \<and> (ok \<longrightarrow> only_active i a1)"
proof (cases "followsStateSequence field_states (field_state a i) to \<or> exceptional_change (field_state a i) to")
  case False
  then have "acceptEditorStateChange (field_state a i) to opts i a = (a, False)"
    using assms(6) by (subst acceptEditorStateChange.simps) simp
  with assms(1) show ?thesis by blast
next
  case seq: True
  let ?from = "field_state a i"
  have "?from \<in> set field_states"
    using assms(1,2) by (simp add: app_inv_def valid_states_def field_state_def)
  with activation_sources [OF _ assms(3,4,5) seq] consider
    "?from \<in> set readyFieldStates \<or> ?from = ''invalid''" | "?from \<in> set activeFieldStates"
    "?from \<notin> set readyFieldStates" "?from \<noteq> ''invalid''" by blast
  then show ?thesis
  proof cases
    case 1
    note br = accept_branches [OF assms(6,3) seq 1, of i a]
    have single: "field_state a k \<in> set activeFieldStates \<Longrightarrow> k < length (ap_fields a) \<Longrightarrow> ap_active a = Some k" for k
      using assms(1) by (simp add: app_inv_def single_active_def)
    show ?thesis
    proof (cases "ap_active a = None \<or> ap_active a = Some i")
      case True
      then have "acceptEditorStateChange ?from to opts i a = (a, True)" using br by auto
      moreover have "only_active i a" using True single by (auto simp: only_active_def)
      ultimately show ?thesis using assms(1) by blast
    next
      case False
      then obtain j where j: "ap_active a = Some j" "j \<noteq> i" by auto
      then have "j < length (ap_fields a)" using assms(1) by (simp add: app_inv_def in_range_def)
      note eff = leave_active_effect [OF assms(1) j(1) this j(2)]
      have "app_inv ((leave_active j a)\<lparr>ap_active := Some i\<rparr>)" if "?from = ''invalid''"
      proof -
        have "base_inv ((leave_active j a)\<lparr>ap_active := Some i\<rparr>)"
          using eff(1,2) assms(2) by (auto simp: app_inv_base base_inv_def mutex_def in_range_def valid_states_def)
        with that eff(3,4) show ?thesis
          unfolding app_inv_base by (auto simp: single_active_def only_active_def)
      qed
      with br j eff show ?thesis by (simp, blast)
    qed
  next
    case 2
    then have "acceptEditorStateChange ?from to opts i a = (a, True)"
      using assms(3,6) seq candidate_not_active by (subst acceptEditorStateChange.simps) auto
    moreover have "ap_active a = Some i"
      using assms(1,2) 2(1) by (simp add: app_inv_def single_active_def)
    then have "only_active i a" using assms(1) by (auto simp: only_active_def app_inv_def single_active_def)
    ultimately show ?thesis using assms(1) by blast
  qed
qed

text \<open>
  The changes of field states that come from the editors: an editor exists once its field left the inactive state,
  and editors do not use the reasons of the application.
\<close>

definition editor_change :: "nat \<Rightarrow> string \<Rightarrow> options \<Rightarrow> app \<Rightarrow> bool" where
  "editor_change i st opts a \<longleftrightarrow>
     i < length (ap_fields a) \<and>
     (st \<in> set activeFieldStates \<longrightarrow>
       field_state a i \<noteq> ''inactive'' \<and> op_reason opts \<notin> {Some ''stop'', Some ''rerender''})"

lemma set_field_state_inv:
  assumes "app_inv a" and "editor_change i st opts a"
  shows "app_inv (set_field_state i st opts a)"
proof (cases "st \<in> set activeFieldStates \<and> field_state a i \<noteq> st")
  case True
  with assms accept_active [of a i st opts] obtain a1 ok where
    acc: "acceptEditorStateChange (field_state a i) st opts i a = (a1, ok)" and a1: "app_inv a1"
      "length (ap_fields a1) = length (ap_fields a)" "field_state a1 i = field_state a i" "ok \<longrightarrow> only_active i a1"
    by (auto simp: editor_change_def)
  have "app_inv (enter_state i st a1)" if ok "st \<in> set field_states"
    using a1 that assms(2) by (intro enter_state_inv) (auto simp: editor_change_def)
  with set_field_state_enter [OF acc a1(3)] a1 assms(1) show ?thesis by (simp add: app_inv_previous)
next
  case False
  have "set_field_state i (field_state a i) opts a = update_field i (\<lambda>f. f\<lparr>fd_previous := field_state a i\<rparr>) a"
    by (subst set_field_state.simps) (simp add: Let_def)
  with False assms show ?thesis
    by (cases "field_state a i = st") (auto simp: app_inv_previous editor_change_def intro: set_field_state_quiet)
qed

section \<open>Invariants of the application\<close>

text \<open>
  The contract between the reactions to field states and the rest of the application: what a property of the
  application has to survive so that every step keeps it.
\<close>

locale app_invariant =
  fixes P :: "app \<Rightarrow> bool"
  assumes field_change: "P a \<Longrightarrow> editor_change i st opts a \<Longrightarrow> P (set_field_state i st opts a)"
    and ready_event: "P a \<Longrightarrow> i < length (ap_fields a) \<Longrightarrow> field_state a i \<in> set readyFieldStates \<Longrightarrow>
      P (field_event i (field_state a i) a)"
    and entity_state: "P a \<Longrightarrow> st \<in> set entity_states \<Longrightarrow> P (update_entity e (\<lambda>en. en\<lparr>en_state := st\<rparr>) a)"
    and entity_flags: "P a \<Longrightarrow> (\<And>en. en_state (g en) = en_state en) \<Longrightarrow>
      (\<And>en. en_isCommitting (g en) = en_isCommitting en) \<Longrightarrow> P (update_entity e g a)"
    and field_flags: "P a \<Longrightarrow> (\<And>f. fd_state (h f) = fd_state f) \<Longrightarrow> (\<And>f. fd_entity (h f) = fd_entity f) \<Longrightarrow>
      P (update_field i h a)"
    and deferral: "P a \<Longrightarrow> deferred_ok (length (ap_entities a)) d \<Longrightarrow> P (defer_call d a)"
    and dequeue: "P a \<Longrightarrow> ap_deferred a = d # ds \<Longrightarrow> P (a\<lparr>ap_deferred := ds\<rparr>) \<and> deferred_ok (length (ap_entities a)) d"
    and set_reload: "P a \<Longrightarrow> P (a\<lparr>ap_reload := r\<rparr>)"
    and set_editors: "P a \<Longrightarrow> P (a\<lparr>ap_editors := es\<rparr>)"
    and count_reload: "P a \<Longrightarrow> P (a\<lparr>ap_pageReloads := n\<rparr>)"
    and network_error: "P a \<Longrightarrow> P (a\<lparr>ap_networkErrors := es\<rparr>)"
    and open_modal: "P a \<Longrightarrow> e < length (ap_entities a) \<Longrightarrow> P (a\<lparr>ap_modal := Some e\<rparr>)"
    and close_modal: "P a \<Longrightarrow> ap_modal a = Some e \<Longrightarrow> P (a\<lparr>ap_modal := None\<rparr>) \<and> e < length (ap_entities a)"
    and answered: "P a \<Longrightarrow> e \<in> set (ap_saving a) \<Longrightarrow>
      P ((update_entity e (\<lambda>en. en\<lparr>en_isCommitting := False\<rparr>) a)\<lparr>ap_saving := remove1 e (ap_saving a)\<rparr>) \<and>
      e < length (ap_entities a)"
begin

lemma quiet_change: "P a \<Longrightarrow> i < length (ap_fields a) \<Longrightarrow> st \<notin> set activeFieldStates \<Longrightarrow> P (set_field_state i st opts a)"
  by (rule field_change) (simp_all add: editor_change_def)

lemma fold_fields:
  assumes "P a" and "\<forall>i \<in> set is. i < length (ap_fields a)"
    and "\<And>i b. P b \<Longrightarrow> i < length (ap_fields b) \<Longrightarrow> P (g i b)" and "\<And>i b. skeleton (g i b) = skeleton b"
  shows "P (fold g is a)"
  using assms(1,2)
proof (induction "is" arbitrary: a)
  case (Cons i "is")
  have "length (ap_fields (g i a)) = length (ap_fields a)"
    using lengths_of_skeleton [OF assms(4)] by blast
  with Cons assms(3) show ?case by simp
qed simp

lemma keeps_set_field_states:
  "P a \<Longrightarrow> \<forall>i \<in> set is. i < length (ap_fields a) \<Longrightarrow> st \<notin> set activeFieldStates \<Longrightarrow> P (set_field_states is st opts a)"
  unfolding set_field_states_def by (rule fold_fields) (auto intro: quiet_change simp: skeleton_field)

lemma fields_of_range: "i \<in> set (fields_of e a) \<Longrightarrow> i < length (ap_fields a)"
  by (simp add: fields_of_def)

lemma keeps_commit_fields: "P a \<Longrightarrow> P (commit_fields e a)"
  by (auto simp: commit_fields_def Let_def fields_of_range intro!: keeps_set_field_states)

lemma keeps_set_attribute:
  "P a \<Longrightarrow> (\<And>en. en_state (g en) = en_state en) \<Longrightarrow> (\<And>en. en_isCommitting (g en) = en_isCommitting en) \<Longrightarrow>
   P (set_attribute e g a)"
  by (simp add: set_attribute_def entity_flags)

lemma keeps_deactivate_fields: "P a \<Longrightarrow> P (deactivate_fields e opts a)"
  unfolding deactivate_fields_def Let_def
  by (rule fold_fields)
    (auto simp: candidate_or_event_def skeleton_field fields_of_range intro!: keeps_set_attribute ready_event quiet_change)

lemma keeps_close_fields: "P a \<Longrightarrow> P (close_fields e opts a)"
  unfolding close_fields_def
proof (rule fold_fields)
  fix i b assume "P b" "i < length (ap_fields b)"
  then show "P (close_field opts i b)"
    unfolding close_field_def Let_def
    by (intro quiet_change field_flags) (simp_all add: length_fields_frames)
qed (auto simp: fields_of_range close_field_def skeleton_field skeleton_update_field)

lemma keeps_appStateChange: "P a \<Longrightarrow> e < length (ap_entities a) \<Longrightarrow> P (appStateChange e st a)"
  unfolding appStateChange_def Let_def
  by (auto intro!: deferral set_reload set_editors count_reload simp: deferred_ok_def)

lemma lengths_appStateChange [simp]: "length (ap_entities (appStateChange e st a)) = length (ap_entities a)"
  by (simp add: appStateChange_def Let_def defer_call_def)

lemma validated_state:
  "state_accepted e st opts a \<Longrightarrow> op_validate opts \<Longrightarrow> en_state (ap_entities a ! e) \<noteq> st \<Longrightarrow> st \<in> set entity_states"
  by (auto simp: state_accepted_def EntityModel_validate_def Let_def index_of_def split: if_splits)

text \<open>
  The handlers call each other, so they are followed by their common induction.  Each branch is a
  lemma of its own whose premises are what the induction says of the handlers that branch calls.
\<close>

lemma keeps_set_entity_state:
  assumes "P a" and e: "e < length (ap_entities a)" and valid: "op_validate opts \<or> st \<in> set entity_states"
    and call: "set_entity_state n e st opts a = Some a'"
    and handler: "\<And>m b a1. \<not> (\<not> state_accepted e st opts a \<or> en_state (ap_entities a ! e) = st) \<Longrightarrow> n = Suc m \<Longrightarrow>
      b = update_entity e (\<lambda>en. en\<lparr>en_state := st\<rparr>) a \<Longrightarrow> P b \<Longrightarrow> e < length (ap_entities b) \<Longrightarrow>
      stateChange m e st opts b = Some a1 \<Longrightarrow> P a1 \<and> length (ap_entities a1) = length (ap_entities b)"
  shows "P a' \<and> length (ap_entities a') = length (ap_entities a)"
proof (cases "\<not> state_accepted e st opts a \<or> en_state (ap_entities a ! e) = st")
  case True
  with call assms(1) show ?thesis by (subst (asm) set_entity_state.simps) (auto split: if_splits)
next
  case False
  let ?b = "update_entity e (\<lambda>en. en\<lparr>en_state := st\<rparr>) a"
  from False call obtain m a1 where m: "n = Suc m" "stateChange m e st opts ?b = Some a1" "a' = appStateChange e st a1"
    by (subst (asm) set_entity_state.simps) (auto split: nat.splits option.splits)
  have len: "length (ap_entities ?b) = length (ap_entities a)" by (simp add: update_entity_def)
  have "st \<in> set entity_states" using False valid validated_state by blast
  with assms(1) have "P ?b" by (intro entity_state)
  with handler [OF False m(1) refl _ _ m(2)] e len have "P a1 \<and> length (ap_entities a1) = length (ap_entities a)" by simp
  with m(3) e show ?thesis by (simp add: keeps_appStateChange)
qed

lemma same_skeleton: "P b \<Longrightarrow> skeleton b = skeleton a \<Longrightarrow> P b \<and> length (ap_entities b) = length (ap_entities a)"
  using lengths_of_skeleton by blast

lemma keeps_stateChange_fields:
  assumes "P a" and "e < length (ap_entities a)" and call: "stateChange n e to opts a = Some a'"
    and "to \<noteq> ''opened''" and "to \<noteq> ''deactivating''"
  shows "P a' \<and> length (ap_entities a') = length (ap_entities a)"
proof -
  from entity_state_cases [of to] show ?thesis
  proof (elim disjE)
    assume "to = ''closed''"
    with call have "a' = update_entity e (\<lambda>en. en\<lparr>en_isActive := False, en_inTempStore := False, en_isDirty := False\<rparr>) a"
      by (simp add: stateChange_cases)
    with assms(1) show ?thesis by (simp add: entity_flags) (simp add: update_entity_def)
  next
    assume "to = ''opening''"
    with call have "a' = set_field_states (fields_of e a) ''candidate'' opts a" by (simp add: stateChange_cases)
    with assms(1) show ?thesis by (auto simp: fields_of_range intro!: same_skeleton keeps_set_field_states)
  next
    assume "to = ''committing''"
    with call have "a' = commit_fields e a" by (simp add: stateChange_cases)
    with assms(1) show ?thesis by (auto intro!: same_skeleton keeps_commit_fields)
  next
    assume "to = ''closing''"
    with call have "a' = close_fields e opts a" by (simp add: stateChange_cases)
    with assms(1) show ?thesis by (auto intro!: same_skeleton keeps_close_fields)
  next
    assume "to \<notin> set entity_states"
    with call assms(1) show ?thesis by (simp add: stateChange_other)
  next
    assume "to = ''launching''"
    with call assms(1) show ?thesis by (simp add: stateChange_cases)
  qed (use assms(4,5) in simp_all)
qed

lemma keeps_stateChange_opened:
  assumes "P a" and call: "stateChange n e ''opened'' opts a = Some a'"
    and enforce: "\<And>b xs. attribute_accepted e a \<and> \<not> en_isActive (ap_entities a ! e) \<Longrightarrow>
      b = update_entity e (\<lambda>en. en\<lparr>en_isActive := True\<rparr>) a \<Longrightarrow>
      xs = filter (\<lambda>x. en_isActive (ap_entities b ! x) \<and> x \<noteq> e) [0..<length (ap_entities b)] \<Longrightarrow> P b \<Longrightarrow>
      \<forall>x \<in> set xs. x < length (ap_entities b) \<Longrightarrow> enforceSingleActiveEntity n xs b = Some a' \<Longrightarrow>
      P a' \<and> length (ap_entities a') = length (ap_entities b)"
  shows "P a' \<and> length (ap_entities a') = length (ap_entities a)"
proof (cases "attribute_accepted e a \<and> \<not> en_isActive (ap_entities a ! e)")
  case True
  let ?b = "update_entity e (\<lambda>en. en\<lparr>en_isActive := True\<rparr>) a"
  let ?xs = "filter (\<lambda>x. en_isActive (ap_entities ?b ! x) \<and> x \<noteq> e) [0..<length (ap_entities ?b)]"
  have b: "P ?b" "length (ap_entities ?b) = length (ap_entities a)"
    using assms(1) by (simp add: entity_flags) (simp add: update_entity_def)
  from True call have "enforceSingleActiveEntity n ?xs ?b = Some a'" by (simp add: stateChange_opened Let_def)
  from enforce [OF True refl refl b(1) _ this] b(2) show ?thesis by simp
next
  case False
  with call assms(1) show ?thesis by (auto simp: stateChange_opened)
qed

lemma keeps_stateChange_deactivating:
  assumes "P a" and "e < length (ap_entities a)" and call: "stateChange n e ''deactivating'' opts a = Some a'"
    and reopen: "\<And>a1. unsaved_changes e a \<and> \<not> op_saved opts \<and> \<not> op_confirmed opts \<Longrightarrow>
      set_entity_state n e ''opened'' (BaseModel_set_key (no_options\<lparr>op_confirming := True\<rparr>)) a = Some a1 \<Longrightarrow>
      P a1 \<and> length (ap_entities a1) = length (ap_entities a)"
  shows "P a' \<and> length (ap_entities a') = length (ap_entities a)"
proof (cases "unsaved_changes e a \<and> \<not> op_saved opts \<and> \<not> op_confirmed opts")
  case True
  with call obtain a1 where
    a1: "set_entity_state n e ''opened'' (BaseModel_set_key (no_options\<lparr>op_confirming := True\<rparr>)) a = Some a1"
      "a' = defer_call (ConfirmDeactivation e) a1"
    by (auto simp: stateChange_deactivating split: option.splits)
  from reopen [OF True a1(1)] a1(2) assms(2) show ?thesis
    by (simp add: deferral deferred_ok_def) (simp add: defer_call_def)
next
  case False
  with call have "a' = deactivate_fields e opts a" by (auto simp: stateChange_deactivating)
  with assms(1) show ?thesis by (auto intro!: same_skeleton keeps_deactivate_fields)
qed

lemma keeps_entity_changes:
  "P a \<Longrightarrow> e < length (ap_entities a) \<Longrightarrow> op_validate opts \<or> st \<in> set entity_states \<Longrightarrow>
   set_entity_state n e st opts a = Some a' \<Longrightarrow> P a' \<and> length (ap_entities a') = length (ap_entities a)"
  "P a \<Longrightarrow> e < length (ap_entities a) \<Longrightarrow> stateChange n e st opts a = Some a' \<Longrightarrow>
   P a' \<and> length (ap_entities a') = length (ap_entities a)"
  "P a \<Longrightarrow> \<forall>x \<in> set xs. x < length (ap_entities a) \<Longrightarrow> enforceSingleActiveEntity n xs a = Some a' \<Longrightarrow>
   P a' \<and> length (ap_entities a') = length (ap_entities a)"
proof (induction n e st opts a and n e st opts a and n xs a arbitrary: a' and a' and a'
    rule: set_entity_state_stateChange_enforceSingleActiveEntity.induct)
  case (1 n e st opts a)
  show ?case
    by (rule keeps_set_entity_state [OF "1.prems"]) (use "1.IH" in auto)
next
  case (2 n e to opts a)
  consider (opened) "to = ''opened''" | (deactivating) "to = ''deactivating''"
    | (fields) "to \<noteq> ''opened''" "to \<noteq> ''deactivating''" by blast
  then show ?case
  proof cases
    case opened
    have "to \<noteq> ''closed''" "to \<noteq> ''opening''" using opened by simp_all
    note enforce = "2.IH"(1) [OF this opened]
    from "2.prems"(1,3) show ?thesis unfolding opened
      by (rule keeps_stateChange_opened) (use enforce in blast)
  next
    case deactivating
    have "to \<noteq> ''closed''" "to \<noteq> ''opening''" "to \<noteq> ''opened''" "to \<noteq> ''committing''" using deactivating by simp_all
    note reopen = "2.IH"(2) [OF this deactivating _ "2.prems"(1,2)]
    from "2.prems" show ?thesis unfolding deactivating
      by (rule keeps_stateChange_deactivating) (use reopen in \<open>simp add: BaseModel_set_key_def\<close>)
  next
    case fields
    with keeps_stateChange_fields [OF "2.prems"] show ?thesis by blast
  qed
next
  case (3 n xs a)
  show ?case
  proof (cases xs)
    case Nil
    with "3.prems" show ?thesis by (subst (asm) enforceSingleActiveEntity.simps) simp
  next
    case (Cons x xs')
    with "3.prems"(3) obtain a1 where
      a1: "set_entity_state n x ''deactivating'' (BaseModel_set_key no_options) a = Some a1"
        "enforceSingleActiveEntity n xs' a1 = Some a'"
      by (subst (asm) enforceSingleActiveEntity.simps) (auto split: option.splits)
    with "3.IH"(1) Cons "3.prems" have "P a1 \<and> length (ap_entities a1) = length (ap_entities a)"
      by (auto simp: BaseModel_set_key_def)
    with "3.IH"(2) Cons "3.prems"(2) a1 show ?thesis by auto
  qed
qed

end

section \<open>The steps of the application\<close>

text \<open>
  What can happen on the page: an editor changes the state of its field; the user starts editing an entity, saves
  or cancels; a deferred function runs; the server answers a request; the user answers the discard dialog.
\<close>

inductive step :: "app \<Rightarrow> app \<Rightarrow> bool" where
  editor: "editor_change i st opts a \<Longrightarrow> step a (set_field_state i st opts a)"
| user: "e < length (ap_entities a) \<Longrightarrow> st \<in> {''launching'', ''committing'', ''deactivating''} \<Longrightarrow>
    change_state e st no_options a = Some a' \<Longrightarrow> step a a'"
| deferred: "run_deferred a = Some a' \<Longrightarrow> step a a'"
| saved: "e \<in> set (ap_saving a) \<Longrightarrow> save_success e a = Some a' \<Longrightarrow> step a a'"
| failed: "e \<in> set (ap_saving a) \<Longrightarrow> save_error e a = Some a' \<Longrightarrow> step a a'"
| dialog: "ap_modal a = Some e \<Longrightarrow> closeDiscardDialog save e a = Some a' \<Longrightarrow> step a a'"

inductive_cases step_elim: "step a a'"

context app_invariant
begin

lemma keeps_change_state:
  "P a \<Longrightarrow> e < length (ap_entities a) \<Longrightarrow> change_state e st opts a = Some a' \<Longrightarrow>
   P a' \<and> length (ap_entities a') = length (ap_entities a)"
  unfolding change_state_def by (rule keeps_entity_changes(1)) (auto simp: BaseModel_set_key_def)

lemma keeps_run_deferred:
  assumes "P a" and "run_deferred a = Some a'"
  shows "P a'"
proof (cases "ap_deferred a")
  case Nil
  with assms show ?thesis by simp
next
  case (Cons d ds)
  from dequeue [OF assms(1) Cons] have P: "P (a\<lparr>ap_deferred := ds\<rparr>)" and ok: "deferred_ok (length (ap_entities a)) d" by simp_all
  show ?thesis
  proof (cases d)
    case (SetEntityState e st opts)
    with assms(2) Cons ok keeps_change_state [OF P] show ?thesis by (simp add: deferred_ok_def)
  next
    case (ConfirmDeactivation e)
    with assms(2) Cons ok P open_modal [OF P, of e] show ?thesis
      by (auto simp: confirmEntityDeactivation_def deferred_ok_def)
  qed
qed

lemma keeps_clear_temp_store: "P a \<Longrightarrow> P (clear_temp_store e a)"
proof -
  assume "P a"
  then have "P (fold clear_field (fields_of e a) a)"
    by (rule fold_fields) (auto simp: fields_of_range clear_field_def skeleton_update_field intro!: field_flags)
  then show ?thesis unfolding clear_temp_store_def by (intro keeps_set_attribute) simp_all
qed

lemma saving_clear [simp]: "ap_saving (clear_temp_store e a) = ap_saving a"
proof -
  have "ap_saving (fold clear_field is a) = ap_saving a" for "is"
    by (induction "is" arbitrary: a) (simp_all add: clear_field_def update_field_def)
  then show ?thesis by (simp add: clear_temp_store_def set_attribute_def update_entity_def)
qed

lemma keeps_save_success:
  assumes "P a" and "e \<in> set (ap_saving a)" and "save_success e a = Some a'"
  shows "P a'"
proof -
  let ?a1 = "clear_temp_store e a"
  let ?a2 = "(update_entity e (\<lambda>en. en\<lparr>en_isCommitting := False\<rparr>) ?a1)\<lparr>ap_saving := remove1 e (ap_saving ?a1)\<rparr>"
  have "P ?a1" using assms(1) by (rule keeps_clear_temp_store)
  from answered [OF this, of e] assms(2) have a2: "P ?a2" "e < length (ap_entities ?a1)" by simp_all
  then have "e < length (ap_entities ?a2)" by (simp add: update_entity_def)
  moreover have "''deactivating'' \<in> set entity_states" by (simp add: entity_states_def)
  ultimately show ?thesis
    using keeps_entity_changes(1) [OF a2(1) _ disjI2] assms(3) unfolding save_success_def Let_def by blast
qed

lemma keeps_save_error:
  assumes "P a" and "e \<in> set (ap_saving a)" and "save_error e a = Some a'"
  shows "P a'"
proof -
  let ?a1 = "(update_entity e (\<lambda>en. en\<lparr>en_isCommitting := False\<rparr>) a)\<lparr>ap_saving := remove1 e (ap_saving a)\<rparr>"
  from answered [OF assms(1,2)] have a1: "P ?a1" "e < length (ap_entities ?a1)" by (simp_all add: update_entity_def)
  from assms(3) obtain a2 where a2: "change_state e ''opened'' (no_options\<lparr>op_reason := Some ''networkerror''\<rparr>) ?a1 = Some a2"
    "a' = a2\<lparr>ap_networkErrors := ap_networkErrors a2 @ [e]\<rparr>"
    by (auto simp: save_error_def Let_def split: option.splits)
  from keeps_change_state [OF a1 a2(1)] a2(2) show ?thesis by (simp add: network_error)
qed

lemma keeps_dialog:
  assumes "P a" and "ap_modal a = Some e" and "closeDiscardDialog save e a = Some a'"
  shows "P a'"
proof -
  let ?a1 = "a\<lparr>ap_modal := None\<rparr>"
  from close_modal [OF assms(1,2)] have a1: "P ?a1" "e < length (ap_entities ?a1)" by simp_all
  show ?thesis
  proof (cases save)
    case True
    with assms(3) keeps_change_state [OF a1] show ?thesis by (simp add: closeDiscardDialog_def Let_def)
  next
    case False
    with assms(3) obtain a2 where a2: "change_state e ''deactivating'' (no_options\<lparr>op_confirmed := True\<rparr>) ?a1 = Some a2"
      "a' = a2 \<or> a' = set_attribute e (\<lambda>en. en\<lparr>en_reload := False\<rparr>) (a2\<lparr>ap_reload := True\<rparr>)"
      by (auto simp: closeDiscardDialog_def Let_def split: option.splits if_splits)
    from keeps_change_state [OF a1 a2(1)] have "P a2" by simp
    with a2(2) show ?thesis by (auto intro: keeps_set_attribute set_reload)
  qed
qed

lemma keeps_step: "step a a' \<Longrightarrow> P a \<Longrightarrow> P a'"
  by (erule step_elim)
    (auto dest: keeps_change_state keeps_run_deferred keeps_save_success keeps_save_error keeps_dialog intro: field_change)

lemma keeps_reachable: "step\<^sup>*\<^sup>* a a' \<Longrightarrow> P a \<Longrightarrow> P a'"
  by (induction rule: rtranclp_induct) (auto dest: keeps_step)

end

lemma single_update_field:
  "(\<And>f. fd_state (h f) = fd_state f) \<Longrightarrow> single_active (update_field i h a) = single_active a"
  by (simp add: single_active_def field_state_update_keeps length_fields_frames)

lemma single_update_entity: "single_active (update_entity e g a) = single_active a"
  by (simp add: single_active_def) (simp add: update_entity_def)

lemma single_defer: "single_active (defer_call d a) = single_active a"
  by (simp add: single_active_def) (simp add: defer_call_def)

lemma remove1_committing:
  assumes "app_inv a" and "e \<in> set (ap_saving a)"
  shows "app_inv ((update_entity e (\<lambda>en. en\<lparr>en_isCommitting := False\<rparr>) a)\<lparr>ap_saving := remove1 e (ap_saving a)\<rparr>)"
    and "e < length (ap_entities a)"
proof -
  let ?a = "(update_entity e (\<lambda>en. en\<lparr>en_isCommitting := False\<rparr>) a)\<lparr>ap_saving := remove1 e (ap_saving a)\<rparr>"
  show e: "e < length (ap_entities a)" using assms by (auto simp: app_inv_def in_range_def)
  have "count_list (ap_saving a) e = (if en_isCommitting (ap_entities a ! e) then 1 else 0)"
    using assms(1) e by (simp add: app_inv_def mutex_def)
  moreover have "count_list (ap_saving a) e \<noteq> 0" using assms(2) by (simp add: count_list_0_iff)
  ultimately have "count_list (remove1 e (ap_saving a)) e = 0"
    by (simp add: count_list_remove1 split: if_splits)
  then have "mutex ?a"
    using assms(1) e by (auto simp: app_inv_def mutex_def update_entity_def nth_list_update count_list_remove1)
  moreover have "in_range ?a"
    using assms(1) by (auto simp: app_inv_def in_range_def update_entity_def dest: notin_set_remove1)
  moreover have "valid_states ?a"
    using assms(1) e by (auto simp: app_inv_def valid_states_def update_entity_def dest!: set_list_update)
  moreover have "single_active ?a"
    using assms(1) single_update_entity [of e _ a] by (simp add: app_inv_def single_active_def field_state_def update_entity_def)
  ultimately show "app_inv ?a" by (simp add: app_inv_def)
qed

lemma inv_frames:
  "app_inv (a\<lparr>ap_reload := r\<rparr>) = app_inv a"
  "app_inv (a\<lparr>ap_editors := es\<rparr>) = app_inv a"
  "app_inv (a\<lparr>ap_pageReloads := n\<rparr>) = app_inv a"
  "app_inv (a\<lparr>ap_networkErrors := es\<rparr>) = app_inv a"
  by (simp_all add: app_inv_def mutex_def single_active_def in_range_def valid_states_def field_state_def)

lemma queue_inv:
  "app_inv (a\<lparr>ap_deferred := ds\<rparr>) \<longleftrightarrow>
     mutex a \<and> single_active a \<and> in_range (a\<lparr>ap_deferred := ds\<rparr>) \<and> valid_states a"
  "app_inv (a\<lparr>ap_modal := m\<rparr>) \<longleftrightarrow>
     mutex a \<and> single_active a \<and> in_range (a\<lparr>ap_modal := m\<rparr>) \<and> valid_states a"
  by (simp_all add: app_inv_def mutex_def single_active_def valid_states_def field_state_def)

lemma dequeue_inv:
  assumes "app_inv a" and "ap_deferred a = d # ds"
  shows "app_inv (a\<lparr>ap_deferred := ds\<rparr>) \<and> deferred_ok (length (ap_entities a)) d"
proof -
  have "in_range a" using assms(1) by (simp add: app_inv_def)
  with assms(2) have "in_range (a\<lparr>ap_deferred := ds\<rparr>)" "deferred_ok (length (ap_entities a)) d"
    by (simp_all add: in_range_def)
  moreover have "mutex a" "single_active a" "valid_states a" using assms(1) by (simp_all add: app_inv_def)
  ultimately show ?thesis unfolding queue_inv(1) by blast
qed

lemma modal_inv:
  assumes "app_inv a"
  shows "e < length (ap_entities a) \<Longrightarrow> app_inv (a\<lparr>ap_modal := Some e\<rparr>)"
    and "ap_modal a = Some e \<Longrightarrow> app_inv (a\<lparr>ap_modal := None\<rparr>) \<and> e < length (ap_entities a)"
proof -
  have r: "in_range a" using assms by (simp add: app_inv_def)
  show "e < length (ap_entities a) \<Longrightarrow> app_inv (a\<lparr>ap_modal := Some e\<rparr>)"
    using assms r unfolding queue_inv(2) by (simp add: app_inv_def in_range_def)
  show "ap_modal a = Some e \<Longrightarrow> app_inv (a\<lparr>ap_modal := None\<rparr>) \<and> e < length (ap_entities a)"
    using assms r unfolding queue_inv(2) by (simp add: app_inv_def in_range_def)
qed

interpretation inv: app_invariant app_inv
proof
  fix a :: app and i e :: nat and st opts d ds r es n
    and g :: "entity \<Rightarrow> entity" and h :: "field \<Rightarrow> field"
  show "app_inv a \<Longrightarrow> editor_change i st opts a \<Longrightarrow> app_inv (set_field_state i st opts a)"
    by (rule set_field_state_inv)
  show "app_inv a \<Longrightarrow> i < length (ap_fields a) \<Longrightarrow> field_state a i \<in> set readyFieldStates \<Longrightarrow>
      app_inv (field_event i (field_state a i) a)"
  proof -
    assume a: "app_inv a" "i < length (ap_fields a)" "field_state a i \<in> set readyFieldStates"
    then have na: "field_state a i \<notin> set activeFieldStates" by (auto simp: readyFieldStates_def activeFieldStates_def)
    have "single_active (field_event i (field_state a i) a)"
      using a na by (auto simp: app_inv_base single_active_def active_event length_fields_frames)
    with a show ?thesis by (simp add: app_inv_base base_field_event)
  qed
  show "app_inv a \<Longrightarrow> st \<in> set entity_states \<Longrightarrow> app_inv (update_entity e (\<lambda>en. en\<lparr>en_state := st\<rparr>) a)"
    unfolding app_inv_base single_update_entity by (auto intro!: base_update_entity)
  show "app_inv a \<Longrightarrow> (\<And>en. en_state (g en) = en_state en) \<Longrightarrow> (\<And>en. en_isCommitting (g en) = en_isCommitting en) \<Longrightarrow>
      app_inv (update_entity e g a)"
    unfolding app_inv_base single_update_entity by (auto intro!: base_update_entity)
  show "app_inv a \<Longrightarrow> (\<And>f. fd_state (h f) = fd_state f) \<Longrightarrow> (\<And>f. fd_entity (h f) = fd_entity f) \<Longrightarrow>
      app_inv (update_field i h a)"
    by (simp add: app_inv_base single_update_field base_update_field)
  show "app_inv a \<Longrightarrow> deferred_ok (length (ap_entities a)) d \<Longrightarrow> app_inv (defer_call d a)"
    unfolding app_inv_base single_defer by (auto intro!: base_defer)
  show "app_inv a \<Longrightarrow> ap_deferred a = d # ds \<Longrightarrow> app_inv (a\<lparr>ap_deferred := ds\<rparr>) \<and> deferred_ok (length (ap_entities a)) d"
    by (rule dequeue_inv)
  show "app_inv a \<Longrightarrow> app_inv (a\<lparr>ap_reload := r\<rparr>)" "app_inv a \<Longrightarrow> app_inv (a\<lparr>ap_editors := es\<rparr>)"
    "app_inv a \<Longrightarrow> app_inv (a\<lparr>ap_pageReloads := n\<rparr>)" "app_inv a \<Longrightarrow> app_inv (a\<lparr>ap_networkErrors := es\<rparr>)"
    by (simp_all add: inv_frames)
  show "app_inv a \<Longrightarrow> e < length (ap_entities a) \<Longrightarrow> app_inv (a\<lparr>ap_modal := Some e\<rparr>)"
    "app_inv a \<Longrightarrow> ap_modal a = Some e \<Longrightarrow> app_inv (a\<lparr>ap_modal := None\<rparr>) \<and> e < length (ap_entities a)"
    by (rule modal_inv; assumption)+
  show "app_inv a \<Longrightarrow> e \<in> set (ap_saving a) \<Longrightarrow>
      app_inv ((update_entity e (\<lambda>en. en\<lparr>en_isCommitting := False\<rparr>) a)\<lparr>ap_saving := remove1 e (ap_saving a)\<rparr>) \<and>
      e < length (ap_entities a)"
    using remove1_committing by blast
qed

section \<open>Safety of reachable applications\<close>

text \<open>The page before editing starts: entities and fields given by their IDs and the index of their entity.\<close>

definition start_app :: "nat \<Rightarrow> (string \<times> nat) list \<Rightarrow> app" where
  "start_app n fs =
     \<lparr>ap_entities = replicate n new_entity,
      ap_fields = map (\<lambda>(fid, e). \<lparr>fd_fieldID = fid, fd_entity = e, fd_state = ''inactive'', fd_previous = ''inactive'',
        fd_inTempStore = False\<rparr>) fs,
      ap_defaultFields = [], ap_highlighted = None, ap_active = None, ap_modal = None, ap_reload = False,
      ap_deferred = [], ap_saving = [], ap_reverted = [], ap_editors = [], ap_networkErrors = [], ap_pageReloads = 0\<rparr>"

lemma start_app_inv: "\<forall>(fid, e) \<in> set fs. e < n \<Longrightarrow> app_inv (start_app n fs)"
proof -
  assume range: "\<forall>(fid, e) \<in> set fs. e < n"
  have "mutex (start_app n fs)" by (simp add: mutex_def start_app_def new_entity_def)
  moreover have "single_active (start_app n fs)"
    by (simp add: single_active_def field_state_def start_app_def case_prod_beta)
  moreover have "in_range (start_app n fs)" using range by (auto simp: in_range_def start_app_def)
  moreover have "valid_states (start_app n fs)"
    by (auto simp: valid_states_def start_app_def new_entity_def entity_states_def field_states_def)
  ultimately show ?thesis by (simp add: app_inv_def)
qed

lemma reachable_inv: "\<forall>(fid, e) \<in> set fs. e < n \<Longrightarrow> step\<^sup>*\<^sup>* (start_app n fs) a \<Longrightarrow> app_inv a"
  using inv.keeps_reachable start_app_inv by blast

text \<open>Concrete sessions, as lists of the events of \<open>step\<close>; a disallowed event ends the session with \<open>None\<close>.\<close>

datatype event = Editor nat string | User nat string | Deferred | Saved nat | Failed nat | Dialog bool

fun perform :: "event \<Rightarrow> app \<Rightarrow> app option" where
  "perform (Editor i st) a = (if editor_change i st no_options a then Some (set_field_state i st no_options a) else None)"
| "perform (User e st) a =
     (if e < length (ap_entities a) \<and> (st = ''launching'' \<or> st = ''committing'' \<or> st = ''deactivating'')
      then change_state e st no_options a else None)"
| "perform Deferred a = run_deferred a"
| "perform (Saved e) a = (if e \<in> set (ap_saving a) then save_success e a else None)"
| "perform (Failed e) a = (if e \<in> set (ap_saving a) then save_error e a else None)"
| "perform (Dialog save) a = (case ap_modal a of None \<Rightarrow> None | Some e \<Rightarrow> closeDiscardDialog save e a)"

fun session :: "event list \<Rightarrow> app \<Rightarrow> app option" where
  "session [] a = Some a"
| "session (ev # evs) a = (case perform ev a of None \<Rightarrow> None | Some a1 \<Rightarrow> session evs a1)"

lemma perform_step: "perform ev a = Some a' \<Longrightarrow> step a a'"
  by (cases ev) (auto intro: step.intros simp del: run_deferred.simps split: if_splits option.splits)

lemma session_steps: "session evs a = Some a' \<Longrightarrow> step\<^sup>*\<^sup>* a a'"
  by (induction evs arbitrary: a)
    (auto dest!: perform_step intro: converse_rtranclp_into_rtranclp split: option.splits)

definition opening_session :: "nat \<Rightarrow> event list" where
  "opening_session e = [User e ''launching'', Deferred, Deferred]"

definition saving_session :: "event list" where
  "saving_session = opening_session 0 @
     [Editor 0 ''activating'', Editor 0 ''active'', Editor 0 ''changed'', User 0 ''committing'', Editor 0 ''saved'',
      Editor 0 ''candidate'']"

definition page_fields :: "(string \<times> nat) list" where
  "page_fields = [(''node/1/title/en/full'', 0), (''node/2/title/en/full'', 1)]"

definition two_entities :: app where
  "two_entities = start_app 2 page_fields"

lemma page_fields_range: "\<forall>(fid, e) \<in> set page_fields. e < 2"
  by (simp add: page_fields_def)

lemma two_entities_run: "session evs two_entities = Some a \<Longrightarrow> step\<^sup>*\<^sup>* (start_app 2 page_fields) a"
  unfolding two_entities_def by (rule session_steps)

definition editing_app :: app where
  "editing_app = the (session (opening_session 0 @ [Editor 0 ''activating'']) two_entities)"

definition saving_app :: app where
  "saving_app = the (session saving_session two_entities)"

lemma editing_app_run: "session (opening_session 0 @ [Editor 0 ''activating'']) two_entities = Some editing_app"
proof -
  have "session (opening_session 0 @ [Editor 0 ''activating'']) two_entities \<noteq> None" by code_simp
  then show ?thesis by (auto simp: editing_app_def)
qed

lemma saving_app_run: "session saving_session two_entities = Some saving_app"
proof -
  have "session saving_session two_entities \<noteq> None" by code_simp
  then show ?thesis by (auto simp: saving_app_def)
qed



text \<open>
  C7. At most one request to save an entity is in flight, and one is exactly while \<open>isCommitting\<close> is set: the flag
  works as a mutex.
\<close>

theorem one_save_request:
  assumes "\<forall>(fid, e) \<in> set fs. e < n" and "step\<^sup>*\<^sup>* (start_app n fs) a" and "e < length (ap_entities a)"
  shows "count_list (ap_saving a) e = (if en_isCommitting (ap_entities a ! e) then 1 else 0)"
  using reachable_inv [OF assms(1,2)] assms(3) by (simp add: app_inv_def mutex_def)

theorem one_save_request_witness:
  "en_isCommitting (ap_entities saving_app ! 0) \<and> count_list (ap_saving saving_app) 0 = 1"
proof -
  have "0 < length (ap_entities saving_app)" "en_isCommitting (ap_entities saving_app ! 0)" by code_simp+
  with one_save_request [OF page_fields_range two_entities_run [OF saving_app_run]] show ?thesis by simp
qed

text \<open>
  C39. Every state that an entity or a field reaches is one of its sequence of states.
\<close>

theorem states_stay_valid:
  assumes "\<forall>(fid, e) \<in> set fs. e < n" and "step\<^sup>*\<^sup>* (start_app n fs) a"
  shows "list_all (\<lambda>en. en_state en \<in> set entity_states) (ap_entities a) \<and>
     list_all (\<lambda>f. fd_state f \<in> set field_states) (ap_fields a)"
  using reachable_inv [OF assms] by (simp add: app_inv_def valid_states_def list_all_iff)

theorem states_stay_valid_witness:
  "map en_state (ap_entities saving_app) = [''committing'', ''closed''] \<and>
   list_all (\<lambda>en. en_state en \<in> set entity_states) (ap_entities saving_app)"
proof -
  have "map en_state (ap_entities saving_app) = [''committing'', ''closed'']" by code_simp
  with states_stay_valid [OF page_fields_range two_entities_run [OF saving_app_run]] show ?thesis by blast
qed

end
