(* ===== verification/Quickedit_Flow.thy ===== *)
theory Quickedit_Flow
  imports Quickedit_Invariant
begin

text \<open>
  What the in-place editing application does along the way from opening an entity to saving and closing it.
\<close>

section \<open>Opening an entity\<close>

lemma skeleton_entity:
  assumes "skeleton b = skeleton a"
  shows "k < length (ap_fields a) \<Longrightarrow> fd_entity (ap_fields b ! k) = fd_entity (ap_fields a ! k)"
    and "fields_of e b = fields_of e a"
    and "n < length (ap_entities a) \<Longrightarrow> en_state (ap_entities b ! n) = en_state (ap_entities a ! n)"
proof -
  have m: "map fd_entity (ap_fields b) = map fd_entity (ap_fields a)"
    and len: "length (ap_fields b) = length (ap_fields a)" "length (ap_entities b) = length (ap_entities a)"
    and st: "map (\<lambda>en. (en_state en, en_isActive en)) (ap_entities b) = map (\<lambda>en. (en_state en, en_isActive en)) (ap_entities a)"
    using assms lengths_of_skeleton [OF assms] by (simp_all add: skeleton_def)
  have ent: "fd_entity (ap_fields b ! k) = fd_entity (ap_fields a ! k)" if "k < length (ap_fields a)" for k
    using arg_cong [OF m, of "\<lambda>xs. xs ! k"] that len by simp
  then show "k < length (ap_fields a) \<Longrightarrow> fd_entity (ap_fields b ! k) = fd_entity (ap_fields a ! k)" .
  show "fields_of e b = fields_of e a"
    unfolding fields_of_def len by (rule filter_cong) (simp_all add: ent)
  show "n < length (ap_entities a) \<Longrightarrow> en_state (ap_entities b ! n) = en_state (ap_entities a ! n)"
    using arg_cong [OF st, of "\<lambda>xs. xs ! n"] len by simp
qed

lemma candidate_from_inactive:
  assumes "field_state a i = ''inactive''" and "i < length (ap_fields a)" and "op_reason opts = None"
    and "en_state (ap_entities a ! (fd_entity (ap_fields a ! i))) = ''opening''"
  shows "ap_entities (set_field_state i ''candidate'' opts a) = ap_entities a"
    and "ap_deferred (set_field_state i ''candidate'' opts a) =
      ap_deferred a @ [SetEntityState (fd_entity (ap_fields a ! i)) ''opened'' ready_options]"
    and "field_state (set_field_state i ''candidate'' opts a) k = (if k = i then ''candidate'' else field_state a k)"
proof -
  have "followsStateSequence field_states ''inactive'' ''candidate''" by code_simp
  moreover have "''inactive'' \<notin> set activeFieldStates" by simp
  ultimately have acc: "acceptEditorStateChange (field_state a i) ''candidate'' opts i a = (a, True)"
    unfolding assms(1) using assms(3) by (subst acceptEditorStateChange.simps) simp
  have "''candidate'' \<in> set field_states" by (simp add: field_states_def)
  with set_field_state_enter [OF acc refl] assms(1)
  have e: "set_field_state i ''candidate'' opts a = enter_state i ''candidate'' a" by simp
  show "field_state (set_field_state i ''candidate'' opts a) k = (if k = i then ''candidate'' else field_state a k)"
    using assms(2) by (simp add: e enter_state_fields)
  show "ap_entities (set_field_state i ''candidate'' opts a) = ap_entities a"
    "ap_deferred (set_field_state i ''candidate'' opts a) =
      ap_deferred a @ [SetEntityState (fd_entity (ap_fields a ! i)) ''opened'' ready_options]"
    using assms(2,4)
    by (simp_all add: e enter_state_def field_event_def editorStateChange_def fieldStateChange_def Let_def update_field_def
        defer_call_def)
qed

lemma all_candidates:
  assumes "distinct is" and "\<forall>i \<in> set is. i < length (ap_fields a) \<and> field_state a i = ''inactive'' \<and> fd_entity (ap_fields a ! i) = e"
    and "en_state (ap_entities a ! e) = ''opening''" and "op_reason opts = None"
  shows "ap_entities (set_field_states is ''candidate'' opts a) = ap_entities a \<and>
     ap_deferred (set_field_states is ''candidate'' opts a) =
       ap_deferred a @ replicate (length is) (SetEntityState e ''opened'' ready_options) \<and>
     (\<forall>k. field_state (set_field_states is ''candidate'' opts a) k = (if k \<in> set is then ''candidate'' else field_state a k))"
  using assms(1-3)
proof (induction "is" arbitrary: a)
  case (Cons i "is")
  let ?b = "set_field_state i ''candidate'' opts a"
  have i: "i < length (ap_fields a)" "field_state a i = ''inactive''" "fd_entity (ap_fields a ! i) = e"
    using Cons.prems by auto
  note step = candidate_from_inactive [OF i(2,1) assms(4)]
  note ent = skeleton_entity [OF skeleton_field(1) [of i "''candidate''" opts a]]
  have "\<forall>k \<in> set is. k < length (ap_fields ?b) \<and> field_state ?b k = ''inactive'' \<and> fd_entity (ap_fields ?b ! k) = e"
    using Cons.prems step(3) i ent by (auto simp: length_fields_frames)
  moreover have "en_state (ap_entities ?b ! e) = ''opening''" using step(1) i Cons.prems(3) by simp
  ultimately have IH: "ap_entities (set_field_states is ''candidate'' opts ?b) = ap_entities ?b \<and>
     ap_deferred (set_field_states is ''candidate'' opts ?b) =
       ap_deferred ?b @ replicate (length is) (SetEntityState e ''opened'' ready_options) \<and>
     (\<forall>k. field_state (set_field_states is ''candidate'' opts ?b) k = (if k \<in> set is then ''candidate'' else field_state ?b k))"
    using Cons.IH [of ?b] Cons.prems(1) by simp
  have "set_field_states (i # is) ''candidate'' opts a = set_field_states is ''candidate'' opts ?b"
    by (simp add: set_field_states_def)
  with IH step i Cons.prems(3) show ?case by simp
qed (simp add: set_field_states_def)

lemma set_entity_state_accepted:
  "state_accepted e st opts a \<Longrightarrow> en_state (ap_entities a ! e) \<noteq> st \<Longrightarrow>
   set_entity_state (Suc m) e st opts a =
     map_option (appStateChange e st) (stateChange m e st opts (update_entity e (\<lambda>en. en\<lparr>en_state := st\<rparr>) a))"
  by (subst set_entity_state.simps) (simp add: map_option_case)

lemma set_entity_state_rejected: "\<not> state_accepted e st opts a \<Longrightarrow> set_entity_state m e st opts a = Some a"
  by (subst set_entity_state.simps) simp

lemma accepted_if:
  assumes "\<not> en_isCommitting (ap_entities a ! e)" and "st \<in> set entity_states"
    and "acceptStateChange (en_state (ap_entities a ! e)) st opts"
    and "\<And>acc. op_accept opts = Some acc \<Longrightarrow> \<forall>s \<in> set (states_of e a). s \<in> set acc"
  shows "state_accepted e st opts a"
  using assms
  by (auto simp: state_accepted_def EntityModel_validate_def Let_def index_of_def fieldsHaveAcceptableStates_def
      filter_empty_conv split: option.splits)

lemma forward_accepted:
  "followsStateSequence entity_states from to \<Longrightarrow> acceptStateChange from to opts"
  by (simp add: acceptStateChange_def)

lemma entity_sequence:
  "followsStateSequence entity_states ''closed'' ''launching''"
  "followsStateSequence entity_states ''launching'' ''opening''"
  "followsStateSequence entity_states ''opening'' ''opened''"
  "followsStateSequence entity_states ''opened'' ''committing''"
  by code_simp+

lemma in_entity_states:
  "''launching'' \<in> set entity_states" "''opening'' \<in> set entity_states" "''opened'' \<in> set entity_states"
  "''committing'' \<in> set entity_states" "''deactivating'' \<in> set entity_states"
  by (simp_all add: entity_states_def)

lemma entity_after_update [simp]: "e < length (ap_entities a) \<Longrightarrow> ap_entities (update_entity e g a) ! e = g (ap_entities a ! e)"
  by (simp add: update_entity_def)

lemma update_entity_frames [simp]:
  "ap_fields (update_entity e g a) = ap_fields a" "ap_deferred (update_entity e g a) = ap_deferred a"
  "ap_saving (update_entity e g a) = ap_saving a" "ap_defaultFields (update_entity e g a) = ap_defaultFields a"
  "length (ap_entities (update_entity e g a)) = length (ap_entities a)"
  by (simp_all add: update_entity_def)

lemma fields_of_cong: "ap_fields b = ap_fields a \<Longrightarrow> fields_of e b = fields_of e a"
  by (simp add: fields_of_def)

lemma launch_step:
  assumes "e < length (ap_entities a)" and "en_state (ap_entities a ! e) = ''closed''"
    and "\<not> en_isCommitting (ap_entities a ! e)"
  shows "\<exists>a1. change_state e ''launching'' no_options a = Some a1 \<and> ap_fields a1 = ap_fields a \<and>
     ap_deferred a1 = ap_deferred a @ [SetEntityState e ''opening'' no_options] \<and>
     ap_entities a1 = (ap_entities a)[e := (ap_entities a ! e)\<lparr>en_state := ''launching''\<rparr>]"
proof -
  have "state_accepted e ''launching'' (BaseModel_set_key no_options) a"
    by (rule accepted_if)
      (simp_all add: assms in_entity_states forward_accepted entity_sequence BaseModel_set_key_def no_options_def)
  then show ?thesis
    using assms(2)
    by (simp add: change_state_def numeral_eq_Suc set_entity_state_accepted stateChange_cases appStateChange_def defer_call_def)
      (simp add: update_entity_def)
qed

lemma opening_step:
  assumes "e < length (ap_entities a)" and "en_state (ap_entities a ! e) = ''launching''"
    and "\<not> en_isCommitting (ap_entities a ! e)" and "\<forall>i \<in> set (fields_of e a). field_state a i = ''inactive''"
    and "ap_deferred a = SetEntityState e ''opening'' no_options # ds"
  shows "\<exists>a1. run_deferred a = Some a1 \<and> fields_of e a1 = fields_of e a \<and>
     (\<forall>i \<in> set (fields_of e a). field_state a1 i = ''candidate'') \<and>
     ap_deferred a1 = ds @ replicate (length (fields_of e a)) (SetEntityState e ''opened'' ready_options) \<and>
     ap_entities a1 = (ap_entities a)[e := (ap_entities a ! e)\<lparr>en_state := ''opening''\<rparr>]"
proof -
  let ?b = "a\<lparr>ap_deferred := ds\<rparr>"
  let ?c = "update_entity e (\<lambda>en. en\<lparr>en_state := ''opening''\<rparr>) ?b"
  let ?o = "BaseModel_set_key no_options"
  let ?a1 = "set_field_states (fields_of e ?c) ''candidate'' ?o ?c"
  have f: "fields_of e ?c = fields_of e a" by (simp add: fields_of_def)
  have "state_accepted e ''opening'' ?o ?b"
    by (rule accepted_if)
      (simp_all add: assms in_entity_states forward_accepted entity_sequence BaseModel_set_key_def no_options_def)
  then have run: "run_deferred a = Some ?a1"
    using assms(2,5)
    by (simp add: change_state_def numeral_eq_Suc set_entity_state_accepted stateChange_cases appStateChange_def)
  have "distinct (fields_of e a)" by (simp add: fields_of_def)
  moreover have "\<forall>i \<in> set (fields_of e a). i < length (ap_fields ?c) \<and> field_state ?c i = ''inactive'' \<and> fd_entity (ap_fields ?c ! i) = e"
    using assms(4) by (auto simp: fields_of_def field_state_def)
  moreover have "en_state (ap_entities ?c ! e) = ''opening''" using assms(1) by simp
  moreover have "op_reason ?o = None" by (simp add: BaseModel_set_key_def no_options_def)
  ultimately have "ap_entities ?a1 = ap_entities ?c \<and>
      ap_deferred ?a1 = ap_deferred ?c @ replicate (length (fields_of e a)) (SetEntityState e ''opened'' ready_options) \<and>
      (\<forall>k. field_state ?a1 k = (if k \<in> set (fields_of e a) then ''candidate'' else field_state ?c k))"
    unfolding f by (rule all_candidates)
  moreover have "fields_of e ?a1 = fields_of e a"
    using skeleton_entity(2) [of ?a1 ?c e] f by simp
  ultimately show ?thesis using run by (simp add: update_entity_def)
qed

lemma opened_step:
  assumes "e < length (ap_entities a)" and "en_state (ap_entities a ! e) = ''opening''"
    and "\<not> en_isCommitting (ap_entities a ! e)" and "\<forall>i \<in> set (fields_of e a). field_state a i = ''candidate''"
    and "ap_deferred a = SetEntityState e ''opened'' ready_options # ds"
    and "\<forall>x < length (ap_entities a). \<not> en_isActive (ap_entities a ! x)"
  shows "\<exists>a1. run_deferred a = Some a1 \<and> ap_fields a1 = ap_fields a \<and>
     en_state (ap_entities a1 ! e) = ''opened'' \<and> en_isActive (ap_entities a1 ! e)"
proof -
  let ?b = "a\<lparr>ap_deferred := ds\<rparr>"
  let ?c = "update_entity e (\<lambda>en. en\<lparr>en_state := ''opened''\<rparr>) ?b"
  let ?d = "update_entity e (\<lambda>en. en\<lparr>en_isActive := True\<rparr>) ?c"
  let ?o = "BaseModel_set_key ready_options"
  have "states_of e ?b = map (\<lambda>_. ''candidate'') (fields_of e a)"
    using assms(4) by (simp add: states_of_def fields_of_def field_state_def)
  then have "\<forall>s \<in> set (states_of e ?b). s \<in> set readyFieldStates" by (auto simp: readyFieldStates_def)
  then have "state_accepted e ''opened'' ?o ?b"
    by (intro accepted_if)
      (simp_all add: assms in_entity_states forward_accepted entity_sequence BaseModel_set_key_def ready_options_def no_options_def)
  moreover have "attribute_accepted e ?c"
    using assms(1,3) by (simp add: attribute_accepted_def EntityModel_validate_def)
  moreover have "\<not> en_isActive (ap_entities ?c ! e)" using assms(1,6) by simp
  moreover have "filter (\<lambda>x. en_isActive (ap_entities ?d ! x) \<and> x \<noteq> e) [0..<length (ap_entities ?d)] = []"
  proof -
    have "\<not> (en_isActive (ap_entities ?d ! x) \<and> x \<noteq> e)" if "x < length (ap_entities a)" for x
      using that assms(6) by (cases "x = e") (simp_all add: update_entity_def)
    then show ?thesis unfolding filter_empty_conv by simp
  qed
  moreover have "enforceSingleActiveEntity n [] ?d = Some ?d" for n
    by (subst enforceSingleActiveEntity.simps) simp
  ultimately have "run_deferred a = Some ?d"
    using assms(2,5)
    by (simp add: change_state_def numeral_eq_Suc set_entity_state_accepted stateChange_opened Let_def appStateChange_def)
  then show ?thesis using assms(1) by simp
qed

text \<open>
  Editing starts: launching a closed entity and running the two deferred functions that follow opens it, with
  all its fields as candidates and the entity marked as active.
\<close>

theorem launching_opens_entity:
  assumes "e < length (ap_entities a)" and "en_state (ap_entities a ! e) = ''closed''"
    and "\<not> en_isCommitting (ap_entities a ! e)" and "ap_deferred a = []" and "fields_of e a \<noteq> []"
    and "\<forall>i \<in> set (fields_of e a). field_state a i = ''inactive''"
    and "\<forall>x < length (ap_entities a). \<not> en_isActive (ap_entities a ! x)"
  shows "\<exists>a1 a2 a3. change_state e ''launching'' no_options a = Some a1 \<and> run_deferred a1 = Some a2 \<and>
     run_deferred a2 = Some a3 \<and> en_state (ap_entities a3 ! e) = ''opened'' \<and> en_isActive (ap_entities a3 ! e) \<and>
     (\<forall>i \<in> set (fields_of e a). field_state a3 i = ''candidate'')"
proof -
  from launch_step [OF assms(1-3)] assms(4) obtain a1 where
    a1: "change_state e ''launching'' no_options a = Some a1" "ap_fields a1 = ap_fields a"
      "ap_deferred a1 = [SetEntityState e ''opening'' no_options]"
      "ap_entities a1 = (ap_entities a)[e := (ap_entities a ! e)\<lparr>en_state := ''launching''\<rparr>]" by auto
  have f1: "fields_of e a1 = fields_of e a" using a1(2) by (rule fields_of_cong)
  have "\<exists>a2. run_deferred a1 = Some a2 \<and> fields_of e a2 = fields_of e a1 \<and>
     (\<forall>i \<in> set (fields_of e a1). field_state a2 i = ''candidate'') \<and>
     ap_deferred a2 = [] @ replicate (length (fields_of e a1)) (SetEntityState e ''opened'' ready_options) \<and>
     ap_entities a2 = (ap_entities a1)[e := (ap_entities a1 ! e)\<lparr>en_state := ''opening''\<rparr>]"
    using assms a1 f1 by (intro opening_step) (auto simp: field_state_def)
  then obtain a2 where
    a2: "run_deferred a1 = Some a2" "fields_of e a2 = fields_of e a" "\<forall>i \<in> set (fields_of e a). field_state a2 i = ''candidate''"
      "ap_deferred a2 = replicate (length (fields_of e a)) (SetEntityState e ''opened'' ready_options)"
      "ap_entities a2 = (ap_entities a)[e := (ap_entities a ! e)\<lparr>en_state := ''opening''\<rparr>]"
    using a1(4) f1 assms(1) by auto
  obtain k where "length (fields_of e a) = Suc k" using assms(5) by (cases "fields_of e a") auto
  with a2(4) have d: "ap_deferred a2 = SetEntityState e ''opened'' ready_options # replicate k (SetEntityState e ''opened'' ready_options)"
    by simp
  have "\<exists>a3. run_deferred a2 = Some a3 \<and> ap_fields a3 = ap_fields a2 \<and>
      en_state (ap_entities a3 ! e) = ''opened'' \<and> en_isActive (ap_entities a3 ! e)"
    using assms(1,3,7) a2(2,3,5)
    by (intro opened_step [OF _ _ _ _ d]) (auto simp: nth_list_update)
  then obtain a3 where a3: "run_deferred a2 = Some a3" "ap_fields a3 = ap_fields a2"
      "en_state (ap_entities a3 ! e) = ''opened''" "en_isActive (ap_entities a3 ! e)" by blast
  have "\<forall>i \<in> set (fields_of e a). field_state a3 i = ''candidate''"
    using a2(3) a3(2) by (simp add: field_state_def)
  with a1(1) a2(1) a3 show ?thesis by blast
qed

theorem launching_opens_entity_witness:
  "\<exists>a1 a2 a3. change_state 0 ''launching'' no_options two_entities = Some a1 \<and> run_deferred a1 = Some a2 \<and>
     run_deferred a2 = Some a3 \<and> en_state (ap_entities a3 ! 0) = ''opened'' \<and> field_state a3 0 = ''candidate''"
proof -
  have "\<forall>i \<in> set (fields_of 0 two_entities). field_state two_entities i = ''inactive''"
    "fields_of 0 two_entities = [0]" "0 < length (ap_entities two_entities)" "ap_deferred two_entities = []"
    "en_state (ap_entities two_entities ! 0) = ''closed''" "\<not> en_isCommitting (ap_entities two_entities ! 0)"
    by code_simp+
  moreover have "\<forall>x < length (ap_entities two_entities). \<not> en_isActive (ap_entities two_entities ! x)"
    by (simp add: two_entities_def start_app_def new_entity_def)
  ultimately show ?thesis using launching_opens_entity [of 0 two_entities] by auto
qed

section \<open>Saving an entity\<close>

lemma quiet_event:
  assumes "en_state (ap_entities a ! fd_entity (ap_fields a ! i)) = ''deactivating''"
  shows "ap_entities (field_event i st a) = ap_entities a" and "ap_defaultFields (field_event i st a) = ap_defaultFields a"
  using assms by (simp_all add: field_event_def editorStateChange_def fieldStateChange_def Let_def defer_call_def)

lemma quiet_candidate:
  assumes "en_state (ap_entities a ! fd_entity (ap_fields a ! i)) = ''deactivating''" and "i < length (ap_fields a)"
  shows "ap_entities (candidate_or_event opts i a) = ap_entities a \<and>
     ap_defaultFields (candidate_or_event opts i a) = ap_defaultFields a"
proof -
  let ?b = "update_field i (\<lambda>f. f\<lparr>fd_state := ''candidate'', fd_previous := fd_state f\<rparr>) a"
  have "en_state (ap_entities ?b ! fd_entity (ap_fields ?b ! i)) = ''deactivating''"
    using assms by (simp add: update_field_def)
  note e = quiet_event [OF this, of "''candidate''"]
  have "set_field_state i ''candidate'' opts a \<in>
      {update_field i (\<lambda>f. f\<lparr>fd_previous := ''candidate''\<rparr>) a, a, enter_state i ''candidate'' a}"
    using set_field_state_enter [OF accept_inactive_target [OF candidate_not_active] refl, of i opts a] by simp
  with e quiet_event [OF assms(1)] show ?thesis
    by (auto simp: candidate_or_event_def enter_state_def update_field_def)
qed

lemma quiet_candidates:
  assumes "\<forall>i \<in> set is. i < length (ap_fields a) \<and> fd_entity (ap_fields a ! i) = e"
    and "en_state (ap_entities a ! e) = ''deactivating''"
  shows "ap_entities (fold (candidate_or_event opts) is a) = ap_entities a \<and>
     ap_defaultFields (fold (candidate_or_event opts) is a) = ap_defaultFields a"
  using assms
proof (induction "is" arbitrary: a)
  case (Cons i "is")
  let ?b = "candidate_or_event opts i a"
  have b: "ap_entities ?b = ap_entities a" "ap_defaultFields ?b = ap_defaultFields a"
    using quiet_candidate [of a i opts] Cons.prems by simp_all
  have sk: "skeleton ?b = skeleton a" by (simp add: candidate_or_event_def skeleton_field(1))
  have "\<forall>j \<in> set is. j < length (ap_fields ?b) \<and> fd_entity (ap_fields ?b ! j) = e"
    using Cons.prems(1) skeleton_entity(1) [OF sk] lengths_of_skeleton [OF sk] by auto
  with Cons.IH [of ?b] Cons.prems(2) b show ?case by simp
qed simp

lemma temp_fields_cong:
  "en_fieldsInTempStore (ap_entities b ! e) = en_fieldsInTempStore (ap_entities a ! e) \<Longrightarrow>
   ap_defaultFields b = ap_defaultFields a \<Longrightarrow> temp_fields e b = temp_fields e a"
  by (simp add: temp_fields_def split: option.splits)

lemma fields_of_members: "\<forall>i \<in> set (fields_of e a). i < length (ap_fields a) \<and> fd_entity (ap_fields a ! i) = e"
  by (simp add: fields_of_def)

lemma deactivate_keeps_temp_fields:
  assumes "e < length (ap_entities a)" and "en_state (ap_entities a ! e) = ''deactivating''"
  shows "temp_fields e (deactivate_fields e opts a) = temp_fields e a"
proof -
  define b where "b = set_attribute e (\<lambda>en. en\<lparr>en_reload := (temp_fields e a \<noteq> [] \<or>
    filter (\<lambda>s. s = ''invalid'') (states_of e a) \<noteq> [])\<rparr>) a"
  have "en_state (ap_entities b ! e) = ''deactivating''" and t: "temp_fields e b = temp_fields e a"
    using assms by (auto simp: b_def set_attribute_def intro!: temp_fields_cong)
  with quiet_candidates [OF fields_of_members, of b e opts] have
    "temp_fields e (fold (candidate_or_event opts) (fields_of e b) b) = temp_fields e b"
    by (intro temp_fields_cong) simp_all
  with t show ?thesis by (simp add: deactivate_fields_def Let_def b_def)
qed

lemma committing_blocks_attributes:
  "en_isCommitting (ap_entities a ! e) \<Longrightarrow> set_attribute e g a = a"
  by (simp add: set_attribute_def attribute_accepted_def EntityModel_validate_def Let_def)

lemma clear_fields_frame:
  "ap_entities (fold clear_field is a) = ap_entities a" "ap_defaultFields (fold clear_field is a) = ap_defaultFields a"
  by (induction "is" arbitrary: a) (simp_all add: clear_field_def update_field_def)

text \<open>
  A saved entity still counts as unsaved: while a request is in flight \<open>validate\<close> rejects every change of another
  attribute, so that the success handler does not empty \<open>fieldsInTempStore\<close>, and the next time the entity is closed the
  user is asked to discard changes that have been saved.
\<close>

theorem saved_entity_counts_as_unsaved:
  assumes "e < length (ap_entities a)" and "en_isCommitting (ap_entities a ! e)" and "save_success e a = Some a'"
  shows "temp_fields e a' = temp_fields e a \<and> (temp_fields e a \<noteq> [] \<longrightarrow> unsaved_changes e a')"
proof -
  let ?b = "fold clear_field (fields_of e a) a"
  let ?c = "(update_entity e (\<lambda>en. en\<lparr>en_isCommitting := False\<rparr>) ?b)\<lparr>ap_saving := remove1 e (ap_saving ?b)\<rparr>"
  let ?d = "update_entity e (\<lambda>en. en\<lparr>en_state := ''deactivating''\<rparr>) ?c"
  let ?o = "BaseModel_set_object (no_options\<lparr>op_saved := True\<rparr>)"
  have "clear_temp_store e a = ?b"
    using assms(2) by (simp add: clear_temp_store_def committing_blocks_attributes clear_fields_frame)
  then have run: "set_entity_state 4 e ''deactivating'' ?o ?c = Some a'"
    using assms(3) by (simp add: save_success_def Let_def)
  have len: "e < length (ap_entities ?d)" using assms(1) by (simp add: clear_fields_frame)
  have t: "temp_fields e ?c = temp_fields e a" "temp_fields e ?d = temp_fields e a"
    using assms(1) by (intro temp_fields_cong; simp add: clear_fields_frame)+
  have "temp_fields e a' = temp_fields e a"
  proof (cases "en_state (ap_entities ?c ! e) = ''deactivating''")
    case True
    with run have "a' = ?c" by (simp add: set_entity_state.simps [of 4] split: if_splits)
    with t show ?thesis by simp
  next
    case False
    have "state_accepted e ''deactivating'' ?o ?c"
      by (simp add: state_accepted_def BaseModel_set_object_def no_options_def)
    with run False have "a' = appStateChange e ''deactivating'' (deactivate_fields e ?o ?d)"
      by (simp add: numeral_eq_Suc set_entity_state_accepted stateChange_deactivating BaseModel_set_object_def)
    then have "a' = deactivate_fields e ?o ?d" by (simp add: appStateChange_def)
    moreover have "en_state (ap_entities ?d ! e) = ''deactivating''" using len by simp
    ultimately show ?thesis using deactivate_keeps_temp_fields [OF len] t by simp
  qed
  then show ?thesis by (simp add: unsaved_changes_def)
qed

theorem saved_entity_counts_as_unsaved_witness:
  "\<exists>a'. session [Saved 0] saving_app = Some a' \<and> unsaved_changes 0 a'"
proof -
  have "0 < length (ap_entities saving_app)" "en_isCommitting (ap_entities saving_app ! 0)" by code_simp+
  moreover have "save_success 0 saving_app \<noteq> None" "0 \<in> set (ap_saving saving_app)" "temp_fields 0 saving_app \<noteq> []"
    by code_simp+
  ultimately show ?thesis using saved_entity_counts_as_unsaved [of 0 saving_app] by auto
qed

section \<open>Fields in the temporary store\<close>

lemma saved_accepted: "acceptEditorStateChange ''saving'' ''saved'' opts i a = (a, True)"
proof -
  have "followsStateSequence field_states ''saving'' ''saved''" by code_simp
  moreover have "''saved'' \<notin> set activeFieldStates" by (simp add: activeFieldStates_def)
  ultimately show ?thesis by (subst acceptEditorStateChange.simps) simp
qed

lemma saved_reaction:
  assumes "i < length (ap_fields a)" and "field_state a i = ''saving''"
    and "en_state (ap_entities a ! fd_entity (ap_fields a ! i)) = ''opened''"
  shows "set_field_state i ''saved'' opts a = editorStateChange i ''saved'' (updateInTempStoreAttributes
     (fd_entity (ap_fields a ! i)) i (update_field i (\<lambda>f. f\<lparr>fd_state := ''saved'', fd_previous := fd_state f\<rparr>) a))"
proof -
  have "''saved'' \<in> set field_states" by (simp add: field_states_def)
  with set_field_state_enter [OF saved_accepted [of opts i a, folded assms(2)] refl] assms(2)
  have "set_field_state i ''saved'' opts a = enter_state i ''saved'' a" by simp
  also have "\<dots> = editorStateChange i ''saved'' (updateInTempStoreAttributes
     (fd_entity (ap_fields a ! i)) i (update_field i (\<lambda>f. f\<lparr>fd_state := ''saved'', fd_previous := fd_state f\<rparr>) a))"
    using assms(1,3) by (simp add: enter_state_def field_event_def fieldStateChange_def Let_def update_field_def)
  finally show ?thesis .
qed

lemma editor_change_entities [simp]:
  "ap_entities (editorStateChange i st a) = ap_entities a" "ap_defaultFields (editorStateChange i st a) = ap_defaultFields a"
  by (simp_all add: editorStateChange_def Let_def)

lemma update_field_entities [simp]:
  "ap_entities (update_field i h a) = ap_entities a" "ap_defaultFields (update_field i h a) = ap_defaultFields a"
  by (simp_all add: update_field_def)

lemma set_attribute_frames:
  "ap_defaultFields (set_attribute e g a) = ap_defaultFields a"
  "x \<noteq> e \<Longrightarrow> ap_entities (set_attribute e g a) ! x = ap_entities a ! x"
  "ap_fields (set_attribute e g a) = ap_fields a"
  by (simp_all add: set_attribute_def update_entity_def)

lemma set_attribute_keeps_temp:
  "(\<And>en. en_fieldsInTempStore (g en) = en_fieldsInTempStore en) \<Longrightarrow>
   en_fieldsInTempStore (ap_entities (set_attribute e g a) ! x) = en_fieldsInTempStore (ap_entities a ! x)"
  by (cases "e < length (ap_entities a)")
    (auto simp: set_attribute_def update_entity_def nth_list_update list_update_beyond)

text \<open>
  The default value of \<open>fieldsInTempStore\<close> is one array for all entity models: when a field of an entity is saved for
  the first time, it also appears among the stored fields of every other entity that has not stored one itself, and
  the user is asked about unsaved changes there too.
\<close>

theorem stored_field_leaks_to_other_entity:
  assumes "i < length (ap_fields a)" and "field_state a i = ''saving''" and "fd_entity (ap_fields a ! i) = e"
    and "en_state (ap_entities a ! e) = ''opened''" and "x \<noteq> e"
    and "en_fieldsInTempStore (ap_entities a ! e) = None" and "en_fieldsInTempStore (ap_entities a ! x) = None"
  shows "fd_fieldID (ap_fields a ! i) \<in> set (temp_fields x (set_field_state i ''saved'' opts a)) \<and>
     unsaved_changes x (set_field_state i ''saved'' opts a)"
proof -
  let ?u = "update_field i (\<lambda>f. f\<lparr>fd_state := ''saved'', fd_previous := fd_state f\<rparr>) a"
  let ?b = "update_field i (\<lambda>f. f\<lparr>fd_inTempStore := True\<rparr>) (set_attribute e (\<lambda>en. en\<lparr>en_inTempStore := True\<rparr>) ?u)"
  have "field_state ?u i = ''saved''" and id: "fd_fieldID (ap_fields ?u ! i) = fd_fieldID (ap_fields a ! i)"
    using assms(1) by (simp_all add: field_state_def update_field_def)
  then have s: "set_field_state i ''saved'' opts a = editorStateChange i ''saved''
      (set_attribute e (\<lambda>en. en\<lparr>en_fieldsInTempStore := Some (uniq (temp_fields e
        (push_temp_field e (fd_fieldID (ap_fields a ! i)) ?b)))\<rparr>) (push_temp_field e (fd_fieldID (ap_fields a ! i)) ?b))"
    using saved_reaction [OF assms(1,2), of opts] assms(3,4) by (simp add: updateInTempStoreAttributes_def Let_def)
  have b: "en_fieldsInTempStore (ap_entities ?b ! k) = en_fieldsInTempStore (ap_entities a ! k)" for k
    using set_attribute_keeps_temp [of "\<lambda>en. en\<lparr>en_inTempStore := True\<rparr>" e ?u k] by simp
  then have p: "push_temp_field e y ?b = ?b\<lparr>ap_defaultFields := ap_defaultFields ?b @ [y]\<rparr>" for y
    using assms(6) by (simp add: push_temp_field_def)
  have "temp_fields x (set_field_state i ''saved'' opts a) = ap_defaultFields ?b @ [fd_fieldID (ap_fields a ! i)]"
    unfolding s p temp_fields_def using b [of x] assms(5,7) by (simp add: set_attribute_frames)
  then show ?thesis by (simp add: unsaved_changes_def)
qed

definition storing_app :: app where
  "storing_app = the (session (opening_session 0 @ [Editor 0 ''activating'', Editor 0 ''active'', Editor 0 ''changed'',
     Editor 0 ''saving'']) two_entities)"

theorem stored_field_leaks_to_other_entity_witness:
  "unsaved_changes 1 (set_field_state 0 ''saved'' no_options storing_app)"
proof -
  have "0 < length (ap_fields storing_app)" "field_state storing_app 0 = ''saving''"
    "fd_entity (ap_fields storing_app ! 0) = 0" "en_state (ap_entities storing_app ! 0) = ''opened''"
    "en_fieldsInTempStore (ap_entities storing_app ! 0) = None" "en_fieldsInTempStore (ap_entities storing_app ! 1) = None"
    by code_simp+
  with stored_field_leaks_to_other_entity [of 0 storing_app 0 1 no_options] show ?thesis by simp
qed

section \<open>State changes that are refused or stall\<close>

lemma unacceptable_fields:
  assumes "op_accept opts = Some acc" and "acc \<noteq> []" and "i \<in> set (fields_of e a)" and "field_state a i \<notin> set acc"
  shows "\<not> fieldsHaveAcceptableStates (states_of e a) (case op_accept opts of None \<Rightarrow> [] | Some xs \<Rightarrow> xs)"
  using assms by (auto simp: fieldsHaveAcceptableStates_def states_of_def filter_empty_conv)

text \<open>
  A change of the entity state that names acceptable field states does nothing unless every field of the entity is in
  one of them: an entity is never opened, closed or left while a field is still in another state.
\<close>

theorem unacceptable_field_blocks_change:
  assumes "op_accept opts = Some acc" and "acc \<noteq> []" and "i \<in> set (fields_of e a)" and "field_state a i \<notin> set acc"
    and "en_state (ap_entities a ! e) \<noteq> st"
  shows "change_state e st opts a = Some a"
proof -
  have "op_accept (BaseModel_set_key opts) = Some acc" using assms(1) by (simp add: BaseModel_set_key_def)
  from unacceptable_fields [OF this assms(2-4)] assms(5) have "\<not> state_accepted e st (BaseModel_set_key opts) a"
    by (simp add: state_accepted_def EntityModel_validate_def Let_def BaseModel_set_key_def)
  then show ?thesis by (simp add: change_state_def set_entity_state_rejected)
qed

theorem unacceptable_field_blocks_change_witness:
  "change_state 0 ''closing'' ready_options editing_app = Some editing_app"
proof -
  have "field_state editing_app 0 = ''activating''" "fields_of 0 editing_app = [0]"
    "en_state (ap_entities editing_app ! 0) = ''opened''" by code_simp+
  then show ?thesis
    by (intro unacceptable_field_blocks_change [of _ readyFieldStates 0]) (simp_all add: ready_options_def readyFieldStates_def)
qed

text \<open>
  Committing an entity none of whose fields is active or changed stalls: no save request is sent, no function is
  deferred and no field changes, so that the entity stays in the state committing.
\<close>

theorem commit_without_field_change_stalls:
  assumes "e < length (ap_entities a)" and "en_state (ap_entities a ! e) = ''opened''"
    and "\<not> en_isCommitting (ap_entities a ! e)" and "\<forall>i \<in> set (fields_of e a). field_state a i \<in> set readyFieldStates"
  shows "change_state e ''committing'' no_options a = Some (update_entity e (\<lambda>en. en\<lparr>en_state := ''committing''\<rparr>) a)"
proof -
  let ?b = "update_entity e (\<lambda>en. en\<lparr>en_state := ''committing''\<rparr>) a"
  have "state_accepted e ''committing'' (BaseModel_set_key no_options) a"
    using assms by (intro accepted_if)
      (simp_all add: in_entity_states forward_accepted entity_sequence BaseModel_set_key_def no_options_def)
  moreover have "filter (\<lambda>i. field_state ?b i = ''active'') (fields_of e ?b) = []"
    "filter (\<lambda>i. field_state ?b i \<in> set changedFieldStates) (fields_of e ?b) = []"
    using assms(4) by (auto simp: filter_empty_conv readyFieldStates_def changedFieldStates_def fields_of_cong [of ?b a])
  then have "commit_fields e ?b = ?b" by (simp add: commit_fields_def set_field_states_def)
  ultimately show ?thesis
    using assms(2)
    by (simp add: change_state_def numeral_eq_Suc set_entity_state_accepted stateChange_cases appStateChange_def)
qed

definition stored_app :: app where
  "stored_app = the (session (opening_session 0 @ [Editor 0 ''activating'', Editor 0 ''active'', Editor 0 ''changed'',
     Editor 0 ''saving'', Editor 0 ''saved'', Editor 0 ''candidate'']) two_entities)"

theorem commit_without_field_change_stalls_witness:
  "temp_fields 0 stored_app = [''node/1/title/en/full''] \<and>
   change_state 0 ''committing'' no_options stored_app =
     Some (update_entity 0 (\<lambda>en. en\<lparr>en_state := ''committing''\<rparr>) stored_app)"
proof -
  have "0 < length (ap_entities stored_app)" "en_state (ap_entities stored_app ! 0) = ''opened''"
    "\<not> en_isCommitting (ap_entities stored_app ! 0)"
    "\<forall>i \<in> set (fields_of 0 stored_app). field_state stored_app i \<in> set readyFieldStates"
    "temp_fields 0 stored_app = [''node/1/title/en/full'']" by code_simp+
  with commit_without_field_change_stalls [of 0 stored_app] show ?thesis by blast
qed

end
