(* ===== verification/Tabledrag.thy ===== *)
theory Tabledrag
  imports Js_Object
begin

text \<open>
  Draggable tables, \<open>core/misc/tabledrag.es6.js\<close>: rows of a table are moved and indented with the pointer or the
  keyboard, and the form fields in them (weights, parents, depths) follow.

  The table is the list of the rows of its body; a row carries its identity, the classes that the code tests, the
  number of its indentation elements and the form fields in it. Rows are passed as identities, as DOM elements are.
  What only the browser knows, the position and height of rows, is an argument. Calls of the behaviors' detach and
  attach functions around a move and the empty hooks \<open>onDrag\<close>, \<open>onDrop\<close>, \<open>onSwap\<close> and \<open>onIndent\<close> are left out.
\<close>

section \<open>Rows, settings and row objects\<close>

record form_field =
  ff_classes :: "string list"
  ff_value :: string
  ff_options :: "string list option"

record row =
  rw_id :: nat
  rw_draggable :: bool
  rw_root :: bool
  rw_leaf :: bool
  rw_hidden :: bool
  rw_indents :: nat
  rw_fields :: "form_field list"
  rw_changed :: bool

record row_settings =
  rs_target :: string
  rs_source :: string
  rs_relationship :: string
  rs_action :: string
  rs_limit :: int

type_synonym table_settings = "row_settings jsobj jsobj"

record row_object =
  ro_element :: nat
  ro_children :: "nat list"
  ro_group :: "nat list"
  ro_indents :: int
  ro_groupDepth :: int
  ro_changed :: bool
  ro_indentEnabled :: bool
  ro_maxDepth :: int
  ro_direction :: string
  ro_interval :: "(int \<times> int) option"

text \<open>The rows before and after a row; \<open>prev\<close> and \<open>next\<close> are the nearest of them.\<close>

definition rows_before :: "row list \<Rightarrow> nat \<Rightarrow> row list" where
  "rows_before rows i = takeWhile (\<lambda>r. rw_id r \<noteq> i) rows"

definition rows_after :: "row list \<Rightarrow> nat \<Rightarrow> row list" where
  "rows_after rows i = tl (dropWhile (\<lambda>r. rw_id r \<noteq> i) rows)"

definition prev_row :: "row list \<Rightarrow> nat \<Rightarrow> row option" where
  "prev_row rows i = (let rs = rows_before rows i in if rs = [] then None else Some (last rs))"

definition next_row :: "row list \<Rightarrow> nat \<Rightarrow> row option" where
  "next_row rows i = (case rows_after rows i of [] \<Rightarrow> None | r # _ \<Rightarrow> Some r)"

definition get_row :: "row list \<Rightarrow> nat \<Rightarrow> row option" where
  "get_row rows i = find (\<lambda>r. rw_id r = i) rows"

definition indents_of :: "row list \<Rightarrow> nat \<Rightarrow> nat" where
  "indents_of rows i = (case get_row rows i of None \<Rightarrow> 0 | Some r \<Rightarrow> rw_indents r)"

definition is_root :: "row list \<Rightarrow> nat \<Rightarrow> bool" where
  "is_root rows i = (case get_row rows i of None \<Rightarrow> False | Some r \<Rightarrow> rw_root r)"

text \<open>The constructor of row objects; \<open>indents\<close> and \<open>children\<close> are only set, and used, when indentation is enabled.\<close>

definition findChildren :: "row list \<Rightarrow> nat \<Rightarrow> nat \<Rightarrow> nat list" where
  "findChildren rows i parentIndentation =
     map rw_id (takeWhile (\<lambda>r. rw_draggable r \<and> rw_indents r > parentIndentation) (rows_after rows i))"

definition new_row :: "row list \<Rightarrow> nat \<Rightarrow> bool \<Rightarrow> int \<Rightarrow> row_object" where
  "new_row rows i indentEnabled maxDepth =
     (let ind = indents_of rows i;
          children = (if indentEnabled then findChildren rows i ind else []);
          grp = i # children
      in \<lparr>ro_element = i, ro_children = children, ro_group = grp, ro_indents = int ind,
          ro_groupDepth = fold (\<lambda>j d. max (int (indents_of rows j)) d) (if indentEnabled then grp else []) (int ind),
          ro_changed = False, ro_indentEnabled = indentEnabled, ro_maxDepth = maxDepth, ro_direction = [],
          ro_interval = None\<rparr>)"

section \<open>Moving and indenting\<close>

definition validIndentInterval :: "row_object \<Rightarrow> row list \<Rightarrow> row option \<Rightarrow> row option \<Rightarrow> int \<times> int" where
  "validIndentInterval ro rows prevRow nextRow =
     (let minIndent = (case nextRow of None \<Rightarrow> 0 | Some r \<Rightarrow> int (rw_indents r));
          maxIndent =
            (case prevRow of
               None \<Rightarrow> 0
             | Some p \<Rightarrow>
                 if \<not> rw_draggable p \<or> is_root rows (ro_element ro) then 0
                 else
                   (let m = int (rw_indents p) + (if rw_leaf p then 0 else 1)
                    in if ro_maxDepth ro \<noteq> 0 then min m (ro_maxDepth ro - (ro_groupDepth ro - ro_indents ro)) else m))
      in (minIndent, maxIndent))"

text \<open>\<open>isValidSwap\<close> leaves the interval of the tested position in the row object, whatever it returns.\<close>

definition isValidSwap :: "row list \<Rightarrow> nat \<Rightarrow> row_object \<Rightarrow> row_object \<times> bool" where
  "isValidSwap rows i ro =
     (let first_fixed = (case rows of [] \<Rightarrow> False | r # _ \<Rightarrow> rw_id r = i \<and> \<not> rw_draggable r) in
      if ro_indentEnabled ro
      then
        (let interval = (if ro_direction ro = ''down''
                         then validIndentInterval ro rows (get_row rows i) (next_row rows i)
                         else validIndentInterval ro rows (prev_row rows i) (get_row rows i));
             ro1 = ro\<lparr>ro_interval := Some interval\<rparr>
         in if fst interval > snd interval then (ro1, False) else (ro1, \<not> first_fixed))
      else (ro, \<not> first_fixed))"

datatype position = Before | After

definition move_rows :: "position \<Rightarrow> nat \<Rightarrow> nat list \<Rightarrow> row list \<Rightarrow> row list" where
  "move_rows pos i grp rows =
     (let moved = List.map_filter (get_row rows) grp;
          rest = filter (\<lambda>r. rw_id r \<notin> set grp) rows
      in concat (map (\<lambda>r. if rw_id r = i then (case pos of Before \<Rightarrow> moved @ [r] | After \<Rightarrow> r # moved) else [r]) rest))"

definition swap :: "position \<Rightarrow> nat \<Rightarrow> row_object \<Rightarrow> row list \<Rightarrow> row_object \<times> row list" where
  "swap pos i ro rows = (ro\<lparr>ro_changed := True\<rparr>, move_rows pos i (ro_group ro) rows)"

definition shift_rows :: "nat list \<Rightarrow> (nat \<Rightarrow> nat) \<Rightarrow> row list \<Rightarrow> row list" where
  "shift_rows grp g rows = map (\<lambda>r. if rw_id r \<in> set grp then r\<lparr>rw_indents := g (rw_indents r)\<rparr> else r) rows"

text \<open>
  Without indentation \<open>this.indents\<close> is undefined, and every computation with it is \<open>NaN\<close>: nothing changes. The loop
  adds or removes one indentation element in each row of the group at a time.
\<close>

definition indent :: "int \<Rightarrow> row_object \<Rightarrow> row list \<Rightarrow> int \<times> row_object \<times> row list" where
  "indent indentDiff ro rows =
     (if \<not> ro_indentEnabled ro then (0, ro, rows)
      else
        (let interval = (case ro_interval ro of
               Some iv \<Rightarrow> iv
             | None \<Rightarrow> validIndentInterval ro rows (prev_row rows (ro_element ro)) (next_row rows (last (ro_group ro))));
             ind = min (max (ro_indents ro + indentDiff) (fst interval)) (snd interval);
             diff = ind - ro_indents ro;
             rows' = (shift_rows (ro_group ro) (\<lambda>n. if diff < 0 then n - 1 else n + 1) ^^ nat \<bar>diff\<bar>) rows
         in (diff,
             ro\<lparr>ro_interval := Some interval, ro_indents := ind, ro_groupDepth := ro_groupDepth ro + diff,
                ro_changed := (ro_changed ro \<or> diff \<noteq> 0)\<rparr>,
             rows')))"

text \<open>
  The test for a target field in \<open>findSiblings\<close> asks whether a jQuery object is truthy, which it always is: every
  row at the same level is a sibling.
\<close>

fun same_level :: "bool \<Rightarrow> int \<Rightarrow> row list \<Rightarrow> row list" where
  "same_level indentEnabled ind [] = []"
| "same_level indentEnabled ind (r # rs) =
     (if \<not> indentEnabled \<or> int (rw_indents r) = ind then r # same_level indentEnabled ind rs
      else if int (rw_indents r) < ind then []
      else same_level indentEnabled ind rs)"

definition findSiblings :: "row list \<Rightarrow> row_object \<Rightarrow> nat list" where
  "findSiblings rows ro =
     map rw_id (rev (same_level (ro_indentEnabled ro) (ro_indents ro) (rev (rows_before rows (ro_element ro)))))
     @ ro_element ro #
     map rw_id (same_level (ro_indentEnabled ro) (ro_indents ro) (rows_after rows (ro_element ro)))"

section \<open>Form fields\<close>

definition has_class :: "string \<Rightarrow> form_field \<Rightarrow> bool" where
  "has_class c f \<longleftrightarrow> c \<in> set (ff_classes f)"

definition row_find :: "string \<Rightarrow> row \<Rightarrow> form_field list" where
  "row_find c r = filter (has_class c) (rw_fields r)"

text \<open>Setting the value of a \<open>select\<close> to something that is not an option deselects all.\<close>

definition set_value :: "string \<Rightarrow> form_field \<Rightarrow> form_field" where
  "set_value v f =
     f\<lparr>ff_value := (case ff_options f of None \<Rightarrow> v | Some vs \<Rightarrow> if v \<in> set vs then v else [])\<rparr>"

fun update_first :: "('a \<Rightarrow> bool) \<Rightarrow> ('a \<Rightarrow> 'a) \<Rightarrow> 'a list \<Rightarrow> 'a list" where
  "update_first P g [] = []"
| "update_first P g (x # xs) = (if P x then g x # xs else x # update_first P g xs)"

definition update_row_field :: "nat \<Rightarrow> string \<Rightarrow> (form_field \<Rightarrow> form_field) \<Rightarrow> row list \<Rightarrow> row list" where
  "update_row_field i c g rows =
     map (\<lambda>r. if rw_id r = i then r\<lparr>rw_fields := update_first (has_class c) g (rw_fields r)\<rparr> else r) rows"

definition rowSettings :: "table_settings \<Rightarrow> string \<Rightarrow> row \<Rightarrow> row_settings option" where
  "rowSettings settings grp r =
     (case js_get settings grp of
        None \<Rightarrow> None
      | Some ds \<Rightarrow> map_option snd (find (\<lambda>(delta, s). list_ex (has_class (rs_target s)) (row_find grp r)) ds))"

definition copyDragClasses :: "row option \<Rightarrow> row \<Rightarrow> string \<Rightarrow> row list \<Rightarrow> row list" where
  "copyDragClasses sourceRow targetRow grp rows =
     (case (case sourceRow of None \<Rightarrow> [] | Some r \<Rightarrow> row_find grp r, row_find grp targetRow) of
        (s # _, _ # _) \<Rightarrow> update_row_field (rw_id targetRow) grp (\<lambda>f. f\<lparr>ff_classes := ff_classes s\<rparr>) rows
      | _ \<Rightarrow> rows)"

text \<open>
  The source row. \<open>prev('tr:first-of-type')\<close> is the previous row only when that is the first row of the table, and
  \<open>next('tr:first-of-type')\<close> is never a row. The class \<open>js-indentations\<close> does not exist, so that the two counts
  compared are both zero.
\<close>

definition sibling_source :: "row list \<Rightarrow> row \<Rightarrow> string \<Rightarrow> row" where
  "sibling_source rows changedRow grp =
     (case rows_before rows (rw_id changedRow) of
        [p] \<Rightarrow> if rw_draggable p \<and> row_find grp p \<noteq> [] then p else changedRow
      | _ \<Rightarrow> changedRow)"

definition parent_source :: "row list \<Rightarrow> row \<Rightarrow> row_object \<Rightarrow> row option \<times> bool" where
  "parent_source rows changedRow ro =
     (case dropWhile (\<lambda>r. int (rw_indents r) \<ge> ro_indents ro) (rev (rows_before rows (rw_id changedRow))) of
        p # _ \<Rightarrow> (Some p, False)
      | [] \<Rightarrow>
          (let first = (case rows of r # _ \<Rightarrow> if rw_draggable r then Some r else None | [] \<Rightarrow> None);
               source = (if first \<noteq> None \<and> rw_id (the first) = ro_element ro
                         then (case next_row rows (last (ro_group ro)) of
                                 Some r \<Rightarrow> if rw_draggable r then Some r else None
                               | None \<Rightarrow> None)
                         else first)
           in (source, True)))"

definition source_row :: "row list \<Rightarrow> row \<Rightarrow> row_object \<Rightarrow> string \<Rightarrow> string \<Rightarrow> row option \<times> bool" where
  "source_row rows changedRow ro grp relationship =
     (if relationship = ''self'' \<or> relationship = ''group'' then (Some changedRow, False)
      else if relationship = ''sibling'' then (Some (sibling_source rows changedRow grp), False)
      else if relationship = ''parent'' then parent_source rows changedRow ro
      else (None, False))"

text \<open>\<open>parseInt(value, 10) || 0\<close>\<close>

definition parse_weight :: "string \<Rightarrow> int" where
  "parse_weight v =
     (let s = dropWhile (\<lambda>c. c \<in> set [CHR '' '', CHR 0x09, CHR 0x0A, CHR 0x0B, CHR 0x0C, CHR 0x0D, CHR 0xA0]) v in
      case s of
        [] \<Rightarrow> 0
      | c # cs \<Rightarrow>
          if c = CHR ''-'' then - int (str_nat (takeWhile is_digit cs))
          else if c = CHR ''+'' then int (str_nat (takeWhile is_digit cs))
          else int (str_nat (takeWhile is_digit s)))"

text \<open>
  Assigning values to the fields of several rows in turn: \<open>nxt\<close> gives the next value and the rest of the
  supply, which is what the callback of \<open>each\<close> keeps in its closure.
\<close>

fun assign_fields :: "('s \<Rightarrow> string \<times> 's) \<Rightarrow> string \<Rightarrow> form_field list \<Rightarrow> 's \<Rightarrow> form_field list \<times> 's" where
  "assign_fields nxt c [] s = ([], s)"
| "assign_fields nxt c (f # fs) s =
     (if has_class c f
      then (case nxt s of (v, s1) \<Rightarrow> case assign_fields nxt c fs s1 of (fs', s2) \<Rightarrow> (set_value v f # fs', s2))
      else (case assign_fields nxt c fs s of (fs', s1) \<Rightarrow> (f # fs', s1)))"

fun assign_rows :: "('s \<Rightarrow> string \<times> 's) \<Rightarrow> string \<Rightarrow> nat list \<Rightarrow> row list \<Rightarrow> 's \<Rightarrow> row list" where
  "assign_rows nxt c is [] s = []"
| "assign_rows nxt c is (r # rs) s =
     (if rw_id r \<in> set is
      then (case assign_fields nxt c (rw_fields r) s of (fs, s1) \<Rightarrow> r\<lparr>rw_fields := fs\<rparr> # assign_rows nxt c is rs s1)
      else r # assign_rows nxt c is rs s)"

definition next_option :: "string \<Rightarrow> string list \<Rightarrow> string \<times> string list" where
  "next_option maxVal vs = (case vs of [] \<Rightarrow> (maxVal, []) | v # vs' \<Rightarrow> (v, vs'))"

definition next_weight :: "int \<Rightarrow> string \<times> int" where
  "next_weight w = (int_str w, w + 1)"

definition first_weight :: "row list \<Rightarrow> string \<Rightarrow> nat list \<Rightarrow> int" where
  "first_weight rows c siblings =
     (case get_row rows (hd siblings) of
        None \<Rightarrow> 0
      | Some r \<Rightarrow> (case row_find c r of [] \<Rightarrow> 0 | f # _ \<Rightarrow> parse_weight (ff_value f)))"

definition order_fields :: "row list \<Rightarrow> row_object \<Rightarrow> string \<Rightarrow> form_field \<Rightarrow> row list" where
  "order_fields rows ro c targetElement =
     (let siblings = findSiblings rows ro in
      case ff_options targetElement of
        Some vs \<Rightarrow> assign_rows (next_option (if vs = [] then ''undefined'' else last vs)) c siblings rows vs
      | None \<Rightarrow> assign_rows next_weight c siblings rows (first_weight rows c siblings))"

text \<open>
  \<open>updateField\<close>. Without a source row \<open>$(sourceClass, undefined)\<close> searches the document, here the table.
\<close>

definition updateField :: "table_settings \<Rightarrow> nat \<Rightarrow> string \<Rightarrow> row_object \<Rightarrow> row list \<Rightarrow> row list js" where
  "updateField settings changed grp ro rows =
     (case get_row rows changed of
        None \<Rightarrow> Inr rows
      | Some changedRow \<Rightarrow>
          (case rowSettings settings grp changedRow of
             None \<Rightarrow> Inl TypeError
           | Some rs0 \<Rightarrow>
               (case source_row rows changedRow ro grp (rs_relationship rs0) of
                  (sourceRow, useSibling) \<Rightarrow>
                    (let rows1 = copyDragClasses sourceRow changedRow grp rows in
                     case Option.bind (get_row rows1 changed) (rowSettings settings grp) of
                       None \<Rightarrow> Inl TypeError
                     | Some rs1 \<Rightarrow>
                         (let target = rs_target rs1;
                              source = (if useSibling then target else rs_source rs1);
                              source_rows = (case sourceRow of
                                  None \<Rightarrow> rows1 | Some r \<Rightarrow> List.map_filter (get_row rows1) [rw_id r]);
                              sources = concat (map (\<lambda>r. map (\<lambda>f. (r, f)) (row_find source r)) source_rows)
                          in
                          case Option.bind (get_row rows1 changed) (\<lambda>r. find (has_class target) (rw_fields r)) of
                            None \<Rightarrow> Inr rows1
                          | Some targetElement \<Rightarrow>
                              if rs_action rs1 = ''depth''
                              then Inr (update_row_field changed target
                                     (set_value (nat_str (case sources of [] \<Rightarrow> 0 | (r, f) # _ \<Rightarrow> rw_indents r))) rows1)
                              else if rs_action rs1 = ''match''
                              then (case sources of
                                      [] \<Rightarrow> Inl TypeError
                                    | (r, f) # _ \<Rightarrow> Inr (update_row_field changed target (set_value (ff_value f)) rows1))
                              else if rs_action rs1 = ''order'' then Inr (order_fields rows1 ro target targetElement)
                              else Inr rows1)))))"

fun updateFields :: "table_settings \<Rightarrow> nat \<Rightarrow> string list \<Rightarrow> row_object \<Rightarrow> row list \<Rightarrow> row list js" where
  "updateFields settings changed [] ro rows = Inr rows"
| "updateFields settings changed (grp # grps) ro rows =
     (case updateField settings changed grp ro rows of
        Inl e \<Rightarrow> Inl e
      | Inr rows1 \<Rightarrow> updateFields settings changed grps ro rows1)"

section \<open>The table and its event handlers\<close>

record drag_object =
  do_initOffset :: "int \<times> int"
  do_indentPointerX :: int

record drag_table =
  td_rows :: "row list"
  td_settings :: table_settings
  td_indentEnabled :: bool
  td_maxDepth :: int
  td_rtl :: int
  td_indentAmount :: int
  td_indentCount :: int
  td_rowObject :: "row_object option"
  td_dragObject :: "drag_object option"
  td_oldY :: int
  td_changed :: bool

text \<open>
  The constructor. The direction and the width of an indentation, which is not zero, are measured in the browser. A
  limit that is missing is 0.
\<close>

definition all_settings :: "table_settings \<Rightarrow> row_settings list" where
  "all_settings settings = concat (map (\<lambda>(grp, ds). map snd ds) settings)"

definition tableDrag :: "table_settings \<Rightarrow> row list \<Rightarrow> int \<Rightarrow> int \<Rightarrow> drag_table" where
  "tableDrag settings rows rtl indentAmount =
     \<lparr>td_rows = rows, td_settings = settings,
      td_indentEnabled = list_ex (\<lambda>s. rs_relationship s = ''parent'') (all_settings settings),
      td_maxDepth = fold (\<lambda>s d. if rs_limit s > 0 then rs_limit s else d) (all_settings settings) 0,
      td_rtl = rtl, td_indentAmount = indentAmount,
      td_indentCount = fold (\<lambda>r n. if rw_draggable r then max (int (rw_indents r)) n else n) rows 1,
      td_rowObject = None, td_dragObject = None, td_oldY = 0, td_changed = False\<rparr>"

text \<open>
  Dragging with the pointer. \<open>geom\<close> gives the top and the height of a row in the current layout; a row is a target
  when the pointer is within half its height from its top.
\<close>

definition over_row :: "int \<times> int \<Rightarrow> int \<Rightarrow> bool" where
  "over_row place y \<longleftrightarrow> 2 * y > 2 * fst place - snd place \<and> 2 * y < 2 * fst place + snd place"

definition findDropTargetRow ::
    "(row list \<Rightarrow> nat \<Rightarrow> int \<times> int) \<Rightarrow> int \<Rightarrow> row list \<Rightarrow> row_object \<Rightarrow> row_object \<times> nat option" where
  "findDropTargetRow geom y rows ro =
     (case find (\<lambda>r. \<not> rw_hidden r \<and> over_row (geom rows (rw_id r)) y) rows of
        None \<Rightarrow> (ro, None)
      | Some r \<Rightarrow>
          if (if ro_indentEnabled ro then rw_id r \<in> set (ro_group ro) else rw_id r = ro_element ro) then (ro, None)
          else (case isValidSwap rows (rw_id r) ro of (ro1, ok) \<Rightarrow> (ro1, if ok then Some (rw_id r) else None)))"

definition js_round_div :: "int \<Rightarrow> int \<Rightarrow> int" where
  "js_round_div a b = (2 * a + b) div (2 * b)"

definition directed :: "int \<Rightarrow> int \<Rightarrow> row_object \<Rightarrow> row_object" where
  "directed y oldY ro = ro\<lparr>ro_direction := (if y > oldY then ''down'' else ''up'')\<rparr>"

definition drop_position :: "row_object \<Rightarrow> position" where
  "drop_position ro = (if ro_direction ro = ''down'' then After else Before)"

definition drag_vertical ::
    "(row list \<Rightarrow> nat \<Rightarrow> int \<times> int) \<Rightarrow> int \<Rightarrow> int \<Rightarrow> row_object \<Rightarrow> row list \<Rightarrow> row_object \<times> row list" where
  "drag_vertical geom y oldY ro rows =
     (if y \<noteq> oldY
      then (case findDropTargetRow geom y rows (directed y oldY ro) of
              (ro', None) \<Rightarrow> (ro', rows)
            | (ro', Some i) \<Rightarrow> swap (drop_position (directed y oldY ro)) i ro' rows)
      else (ro, rows))"

definition dragRow :: "(row list \<Rightarrow> nat \<Rightarrow> int \<times> int) \<Rightarrow> int \<times> int \<Rightarrow> drag_table \<Rightarrow> drag_table" where
  "dragRow geom pointer t =
     (case (td_dragObject t, td_rowObject t) of
        (Some d, Some ro) \<Rightarrow>
          (let y = snd pointer - snd (do_initOffset d) in
           case drag_vertical geom y (td_oldY t) ro (td_rows t) of
             (ro1, rows1) \<Rightarrow>
               if td_indentEnabled t
               then
                 (case indent (js_round_div (fst pointer - do_indentPointerX d) (td_indentAmount t)) ro1 rows1 of
                    (indentChange, ro2, rows2) \<Rightarrow>
                      t\<lparr>td_rows := rows2, td_rowObject := Some ro2, td_oldY := y,
                        td_dragObject := Some (d\<lparr>do_indentPointerX :=
                          do_indentPointerX d + td_indentAmount t * indentChange * td_rtl t\<rparr>),
                        td_indentCount := max (td_indentCount t) (ro_indents ro2)\<rparr>)
               else t\<lparr>td_rows := rows1, td_rowObject := Some ro1, td_oldY := y\<rparr>)
      | _ \<Rightarrow> t)"

fun update_children :: "table_settings \<Rightarrow> string \<Rightarrow> nat list \<Rightarrow> row_object \<Rightarrow> row list \<Rightarrow> row list js" where
  "update_children settings grp [] ro rows = Inr rows"
| "update_children settings grp (i # is) ro rows =
     (case updateField settings i grp ro rows of Inl e \<Rightarrow> Inl e | Inr rows1 \<Rightarrow> update_children settings grp is ro rows1)"

fun update_groups :: "table_settings \<Rightarrow> string list \<Rightarrow> row_object \<Rightarrow> row list \<Rightarrow> row list js" where
  "update_groups settings [] ro rows = Inr rows"
| "update_groups settings (grp # grps) ro rows =
     (case Option.bind (get_row rows (ro_element ro)) (rowSettings settings grp) of
        None \<Rightarrow> Inl TypeError
      | Some rs \<Rightarrow>
          (case (if rs_relationship rs = ''group'' then update_children settings grp (ro_children ro) ro rows else Inr rows) of
             Inl e \<Rightarrow> Inl e
           | Inr rows1 \<Rightarrow> update_groups settings grps ro rows1))"

definition markChanged :: "nat \<Rightarrow> row list \<Rightarrow> row list" where
  "markChanged i rows = map (\<lambda>r. if rw_id r = i then r\<lparr>rw_changed := True\<rparr> else r) rows"

definition dropRow :: "drag_table \<Rightarrow> drag_table js" where
  "dropRow t =
     (case td_rowObject t of
        None \<Rightarrow> Inr (t\<lparr>td_dragObject := None\<rparr>)
      | Some ro \<Rightarrow>
          if \<not> ro_changed ro then Inr (t\<lparr>td_rowObject := None, td_dragObject := None\<rparr>)
          else
            (case updateFields (td_settings t) (ro_element ro) (js_keys (td_settings t)) ro (td_rows t) of
               Inl e \<Rightarrow> Inl e
             | Inr rows1 \<Rightarrow>
                 (case update_groups (td_settings t) (js_keys (td_settings t)) ro rows1 of
                    Inl e \<Rightarrow> Inl e
                  | Inr rows2 \<Rightarrow>
                      Inr (t\<lparr>td_rows := markChanged (ro_element ro) rows2, td_changed := True, td_rowObject := None,
                             td_dragObject := None\<rparr>))))"

text \<open>
  The keyboard. The loop that looks for the previous top-level row reads the height of a row that is not there when it
  passes the first row. Hidden rows are skipped.
\<close>

fun previous_top_level :: "row list \<Rightarrow> row js" where
  "previous_top_level [] = Inl TypeError"
| "previous_top_level (p # ps) = (if rw_indents p = 0 then Inr p else previous_top_level ps)"

definition key_swap :: "position \<Rightarrow> nat \<Rightarrow> row_object \<Rightarrow> row list \<Rightarrow> row_object \<times> row list" where
  "key_swap pos i ro rows =
     (case swap pos i ro rows of
        (ro1, rows1) \<Rightarrow> (case indent 0 (ro1\<lparr>ro_interval := None\<rparr>) rows1 of (change, ro2, rows2) \<Rightarrow> (ro2, rows2)))"

definition key_up :: "nat \<Rightarrow> row_object \<Rightarrow> row list \<Rightarrow> (row_object \<times> row list) js" where
  "key_up item ro rows =
     (case dropWhile rw_hidden (rev (rows_before rows (ro_element ro))) of
        [] \<Rightarrow> Inr (ro, rows)
      | p # ps \<Rightarrow>
          (let ro1 = ro\<lparr>ro_direction := ''up''\<rparr> in
           if is_root rows item
           then
             (case previous_top_level (p # ps) of
                Inl e \<Rightarrow> Inl e
              | Inr q \<Rightarrow> Inr (swap Before (rw_id q) ro1 rows))
           else if rw_id (hd rows) \<noteq> rw_id p \<or> rw_draggable p then Inr (key_swap Before (rw_id p) ro1 rows)
           else Inr (ro1, rows)))"

definition key_down :: "nat \<Rightarrow> row_object \<Rightarrow> row list \<Rightarrow> row_object \<times> row list" where
  "key_down item ro rows =
     (case dropWhile rw_hidden (rows_after rows (last (ro_group ro))) of
        [] \<Rightarrow> (ro, rows)
      | n # ns \<Rightarrow>
          (let ro1 = ro\<lparr>ro_direction := ''down''\<rparr> in
           if is_root rows item
           then swap After (last (ro_group (new_row rows (rw_id n) (ro_indentEnabled ro) (ro_maxDepth ro)))) ro1 rows
           else key_swap After (rw_id n) ro1 rows))"

definition keydown :: "int \<Rightarrow> nat \<Rightarrow> drag_table \<Rightarrow> drag_table js" where
  "keydown keyCode item t =
     (let ro = (case td_rowObject t of
                  Some r \<Rightarrow> Some r
                | None \<Rightarrow> if keyCode \<noteq> 9 then Some (new_row (td_rows t) item (td_indentEnabled t) (td_maxDepth t)) else None)
      in case ro of
           None \<Rightarrow> Inr t
         | Some r \<Rightarrow>
             (let store = (\<lambda>(ro', rows'). t\<lparr>td_rowObject := Some ro', td_rows := rows'\<rparr>)
              in if keyCode \<in> {37, 63234} then Inr (store (snd (indent (- td_rtl t) r (td_rows t))))
                 else if keyCode \<in> {39, 63235} then Inr (store (snd (indent (td_rtl t) r (td_rows t))))
                 else if keyCode \<in> {38, 63232}
                 then (case key_up item r (td_rows t) of Inl e \<Rightarrow> Inl e | Inr p \<Rightarrow> Inr (store p))
                 else if keyCode \<in> {40, 63233} then Inr (store (key_down item r (td_rows t)))
                 else Inr (store (r, td_rows t))))"

text \<open>
  Leaving a handle drops the row that was moved with the keyboard. The flag \<open>safeBlur\<close> is set while a handle has the
  focus, except during a move. Starting to drag blurs the handle of a row that is left from the keyboard, after
  the drag object has been created.
\<close>

definition blur :: "drag_table \<Rightarrow> drag_table js" where
  "blur t = (if td_rowObject t \<noteq> None then dropRow t else Inr t)"

definition dragStart :: "int \<times> int \<Rightarrow> int \<times> int \<Rightarrow> nat \<Rightarrow> drag_table \<Rightarrow> drag_table js" where
  "dragStart pointer docPos item t =
     (case blur (t\<lparr>td_dragObject := Some \<lparr>do_initOffset = (fst pointer - fst docPos, snd pointer - snd docPos),
               do_indentPointerX = fst pointer\<rparr>\<rparr>) of
        Inl e \<Rightarrow> Inl e
      | Inr t1 \<Rightarrow>
          Inr (t1\<lparr>td_rowObject := Some (new_row (td_rows t1) item (td_indentEnabled t1) (td_maxDepth t1)),
                 td_oldY := snd pointer\<rparr>))"

end
