(* ===== verification/Tabledrag_Tree.thy ===== *)
theory Tabledrag_Tree
  imports Tabledrag "HOL-Library.Multiset"
begin

text \<open>
  The rows of a draggable table with indentation form a forest: the theory shows when moving and indenting keep it
  one, within the depth limit of the table, and where they do not.
\<close>

section \<open>Tables that are forests\<close>

text \<open>The deepest level of a row below the row \<open>p\<close>.\<close>

definition level_limit :: "row \<Rightarrow> nat" where
  "level_limit p = (if rw_draggable p then rw_indents p + (if rw_leaf p then 0 else 1) else 0)"

definition fits :: "row \<Rightarrow> row \<Rightarrow> bool" where
  "fits p r \<longleftrightarrow> rw_indents r \<le> level_limit p"

definition tree_ok :: "row list \<Rightarrow> bool" where
  "tree_ok rows \<longleftrightarrow>
     (rows \<noteq> [] \<longrightarrow> rw_indents (hd rows) = 0) \<and> successively fits rows \<and> distinct (map rw_id rows) \<and>
     (\<forall>r \<in> set rows. \<not> rw_draggable r \<or> rw_root r \<longrightarrow> rw_indents r = 0)"

definition depth_ok :: "int \<Rightarrow> row list \<Rightarrow> bool" where
  "depth_ok maxDepth rows \<longleftrightarrow> maxDepth \<noteq> 0 \<longrightarrow> (\<forall>r \<in> set rows. int (rw_indents r) \<le> maxDepth)"

text \<open>A row with all its descendants.\<close>

definition subtree :: "row list \<Rightarrow> bool" where
  "subtree grp \<longleftrightarrow> grp \<noteq> [] \<and> rw_draggable (hd grp) \<and>
     (\<forall>r \<in> set (tl grp). rw_draggable r \<and> rw_indents (hd grp) < rw_indents r)"

definition shifted :: "int \<Rightarrow> row list \<Rightarrow> row list" where
  "shifted d grp = map (\<lambda>r. r\<lparr>rw_indents := nat (int (rw_indents r) + d)\<rparr>) grp"

definition limit_after :: "row list \<Rightarrow> nat" where
  "limit_after pre = (if pre = [] then 0 else level_limit (last pre))"

definition next_level :: "row list \<Rightarrow> nat" where
  "next_level post = (if post = [] then 0 else rw_indents (hd post))"

lemma hd_append_cases: "hd (xs @ ys) = (if xs = [] then hd ys else hd xs)"
  by (simp add: hd_append)

lemma successively_fits_append:
  "successively fits (xs @ ys) \<longleftrightarrow>
   successively fits xs \<and> successively fits ys \<and> (xs = [] \<or> ys = [] \<or> fits (last xs) (hd ys))"
  by (simp add: successively_append_iff)

lemma shifted_simps [simp]:
  "map rw_id (shifted d grp) = map rw_id grp" "length (shifted d grp) = length grp" "shifted d grp = [] \<longleftrightarrow> grp = []"
  "grp \<noteq> [] \<Longrightarrow> hd (shifted d grp) = (hd grp)\<lparr>rw_indents := nat (int (rw_indents (hd grp)) + d)\<rparr>"
  "grp \<noteq> [] \<Longrightarrow> last (shifted d grp) = (last grp)\<lparr>rw_indents := nat (int (rw_indents (last grp)) + d)\<rparr>"
  by (simp_all add: shifted_def comp_def hd_map last_map)

lemma subtree_levels: "subtree grp \<Longrightarrow> r \<in> set grp \<Longrightarrow> rw_draggable r \<and> rw_indents (hd grp) \<le> rw_indents r"
  by (cases grp) (auto simp: subtree_def)

lemma shifted_fits:
  assumes "successively fits grp" and "\<forall>r \<in> set grp. rw_draggable r \<and> 0 \<le> int (rw_indents r) + d"
  shows "successively fits (shifted d grp)"
  using assms
proof (induction grp rule: induct_list012)
  case (3 x y zs)
  then have "successively fits (shifted d (y # zs))" by simp
  moreover have "fits x y" "rw_draggable x" "0 \<le> int (rw_indents x) + d" using "3.prems" by simp_all
  then have "fits (x\<lparr>rw_indents := nat (int (rw_indents x) + d)\<rparr>) (y\<lparr>rw_indents := nat (int (rw_indents y) + d)\<rparr>)"
    by (auto simp: fits_def level_limit_def)
  ultimately show ?case by (simp add: shifted_def)
qed (simp_all add: shifted_def)

lemma tree_okI:
  assumes "rows \<noteq> [] \<Longrightarrow> rw_indents (hd rows) = 0" and "successively fits rows" and "distinct (map rw_id rows)"
    and "\<And>r. r \<in> set rows \<Longrightarrow> \<not> rw_draggable r \<or> rw_root r \<Longrightarrow> rw_indents r = 0"
  shows "tree_ok rows"
  unfolding tree_ok_def using assms by blast

lemma tree_okD:
  assumes "tree_ok rows"
  shows "rows \<noteq> [] \<Longrightarrow> rw_indents (hd rows) = 0" and "successively fits rows" and "distinct (map rw_id rows)"
    and "r \<in> set rows \<Longrightarrow> \<not> rw_draggable r \<or> rw_root r \<Longrightarrow> rw_indents r = 0"
  using assms unfolding tree_ok_def by blast+

lemma tree_first_level:
  assumes "tree_ok (pre @ x # post)"
  shows "rw_indents x \<le> limit_after pre"
proof (cases "pre = []")
  case True
  with tree_okD(1) [OF assms] show ?thesis by (simp add: limit_after_def)
next
  case False
  with tree_okD(2) [OF assms] have "fits (last pre) x" by (simp add: successively_fits_append)
  with False show ?thesis by (simp add: fits_def limit_after_def)
qed

lemma tree_join:
  assumes "successively fits pre" and "successively fits post" and "next_level post \<le> limit_after pre" and "pre \<noteq> []"
  shows "successively fits (pre @ post)"
  using assms unfolding successively_fits_append by (simp add: fits_def next_level_def limit_after_def split: if_splits)

lemma tree_remove:
  assumes "tree_ok (pre @ grp @ post)" and "subtree grp" and "next_level post \<le> rw_indents (hd grp)"
  shows "tree_ok (pre @ post)"
proof -
  obtain x grp' where g: "grp = x # grp'" using assms(2) by (cases grp) (auto simp: subtree_def)
  have le: "next_level post \<le> limit_after pre" using tree_first_level [of pre x "grp' @ post"] assms(1,3) g by simp
  have s: "successively fits pre" "successively fits post"
    using tree_okD(2) [OF assms(1)] by (simp_all add: successively_fits_append)
  show ?thesis
  proof (rule tree_okI)
    show "rw_indents (hd (pre @ post)) = 0" if "pre @ post \<noteq> []"
    proof (cases "pre = []")
      case True
      with le that show ?thesis by (simp add: limit_after_def next_level_def)
    next
      case False
      with tree_okD(1) [OF assms(1)] show ?thesis by simp
    qed
    show "successively fits (pre @ post)"
      using tree_join [OF s le] s by (cases "pre = []") simp_all
    show "distinct (map rw_id (pre @ post))" using tree_okD(3) [OF assms(1)] by auto
    show "rw_indents r = 0" if "r \<in> set (pre @ post)" "\<not> rw_draggable r \<or> rw_root r" for r
      using tree_okD(4) [OF assms(1), of r] that by auto
  qed
qed

lemma tree_insert:
  assumes "tree_ok (pre @ post)" and "subtree grp" and "successively fits grp" and "distinct (map rw_id (pre @ grp @ post))"
    and "\<forall>r \<in> set (tl grp). \<not> rw_root r" and "rw_root (hd grp) \<longrightarrow> m = 0"
    and "m \<le> limit_after pre" and "next_level post \<le> m"
  shows "tree_ok (pre @ shifted (int m - int (rw_indents (hd grp))) grp @ post)" (is "tree_ok (pre @ ?s @ post)")
proof (rule tree_okI)
  let ?d = "int m - int (rw_indents (hd grp))"
  have g: "grp \<noteq> []" using assms(2) by (simp add: subtree_def)
  have lev: "rw_draggable r" "rw_indents (hd grp) \<le> rw_indents r" if "r \<in> set grp" for r
    using subtree_levels [OF assms(2) that] by simp_all
  have hd: "rw_indents (hd ?s) = m" "?s \<noteq> []" using g by simp_all
  have lst: "rw_draggable (last ?s)" "m \<le> rw_indents (last ?s)"
    using g lev [of "last grp"] by simp_all
  show "rw_indents (hd (pre @ ?s @ post)) = 0"
  proof (cases "pre = []")
    case True
    with hd assms(7) show ?thesis by (simp add: limit_after_def hd_append_cases)
  next
    case False
    with tree_okD(1) [OF assms(1)] show ?thesis by simp
  qed
  have "successively fits ?s" using assms(3) lev by (intro shifted_fits) force+
  moreover have "pre \<noteq> [] \<Longrightarrow> fits (last pre) (hd ?s)"
    using assms(7) hd by (simp add: fits_def limit_after_def)
  moreover have "post \<noteq> [] \<Longrightarrow> fits (last ?s) (hd post)"
    using assms(8) lst by (simp add: fits_def level_limit_def next_level_def)
  moreover have "successively fits pre" "successively fits post"
    using tree_okD(2) [OF assms(1)] by (simp_all add: successively_fits_append)
  ultimately show "successively fits (pre @ ?s @ post)"
    unfolding successively_fits_append using hd(2) by (auto simp: hd_append_cases)
  show "distinct (map rw_id (pre @ ?s @ post))" using assms(4) by simp
  show "rw_indents r = 0" if r: "r \<in> set (pre @ ?s @ post)" "\<not> rw_draggable r \<or> rw_root r" for r
  proof (cases "r \<in> set ?s")
    case True
    then obtain q where q: "q \<in> set grp" "r = q\<lparr>rw_indents := nat (int (rw_indents q) + ?d)\<rparr>"
      by (auto simp: shifted_def)
    have "q = hd grp \<or> q \<in> set (tl grp)" using q(1) by (cases grp) auto
    with assms(5,6) lev [OF q(1)] q(2) r(2) show ?thesis by auto
  next
    case False
    with r tree_okD(4) [OF assms(1), of r] show ?thesis by auto
  qed
qed

section \<open>Where a row object is in the table\<close>

text \<open>The group of the row object is a contiguous subtree between \<open>pre\<close> and \<open>post\<close>, whose data it has.\<close>

definition held :: "row_object \<Rightarrow> row list \<Rightarrow> row list \<Rightarrow> row list \<Rightarrow> row list \<Rightarrow> bool" where
  "held ro rows pre grp post \<longleftrightarrow>
     rows = pre @ grp @ post \<and> subtree grp \<and> ro_group ro = map rw_id grp \<and> ro_element ro = rw_id (hd grp) \<and>
     ro_indents ro = int (rw_indents (hd grp)) \<and> ro_indentEnabled ro \<and> ro_groupDepth ro = int (Max (rw_indents ` set grp))"

text \<open>It also has all descendants of its row.\<close>

definition block :: "row_object \<Rightarrow> row list \<Rightarrow> row list \<Rightarrow> row list \<Rightarrow> row list \<Rightarrow> bool" where
  "block ro rows pre grp post \<longleftrightarrow> held ro rows pre grp post \<and> next_level post \<le> rw_indents (hd grp)"

lemma split_at_id:
  assumes "rw_id x \<notin> rw_id ` set pre"
  shows "rows_before (pre @ x # post) (rw_id x) = pre" and "rows_after (pre @ x # post) (rw_id x) = post"
    and "get_row (pre @ x # post) (rw_id x) = Some x"
proof -
  have n: "\<forall>r \<in> set pre. rw_id r \<noteq> rw_id x" using assms by (metis image_eqI)
  show "rows_before (pre @ x # post) (rw_id x) = pre"
    using n by (simp add: rows_before_def takeWhile_append2)
  show "rows_after (pre @ x # post) (rw_id x) = post"
    using n by (simp add: rows_after_def dropWhile_append2)
  show "get_row (pre @ x # post) (rw_id x) = Some x"
    using n by (induction pre) (simp_all add: get_row_def)
qed

lemma prev_next_rows:
  assumes "rw_id x \<notin> rw_id ` set pre"
  shows "prev_row (pre @ x # post) (rw_id x) = (if pre = [] then None else Some (last pre))"
    and "next_row (pre @ x # post) (rw_id x) = (if post = [] then None else Some (hd post))"
  using split_at_id [OF assms, of post] by (simp_all add: prev_row_def next_row_def split: list.splits)

lemma get_row_in: "distinct (map rw_id rows) \<Longrightarrow> r \<in> set rows \<Longrightarrow> get_row rows (rw_id r) = Some r"
  by (induction rows) (auto simp: get_row_def rev_image_eqI)

lemma next_level_dropWhile:
  assumes "tree_ok (pre @ x # post)"
  shows "next_level (dropWhile (\<lambda>r. rw_draggable r \<and> rw_indents r > rw_indents x) post) \<le> rw_indents x"
proof (cases "dropWhile (\<lambda>r. rw_draggable r \<and> rw_indents r > rw_indents x) post")
  case (Cons y ys)
  then have "\<not> (rw_draggable y \<and> rw_indents y > rw_indents x)" by (simp add: dropWhile_eq_Cons_conv)
  moreover have "y \<in> set post" using Cons set_dropWhileD [of y _ post] by (metis list.set_intros(1))
  moreover from this tree_okD(4) [OF assms, of y] have "\<not> rw_draggable y \<Longrightarrow> rw_indents y = 0" by simp
  ultimately show ?thesis using Cons by (auto simp: next_level_def)
qed (simp add: next_level_def)

lemma fold_max: "fold (\<lambda>j d. max (f j) d) js (d :: int) = Max (insert d (f ` set js))"
proof (induction js arbitrary: d)
  case (Cons j js)
  have "Max (insert (max (f j) d) (f ` set js)) = Max (insert d (insert (f j) (f ` set js)))"
    by (cases "f ` set js = {}") (auto simp: max.commute max.left_commute)
  with Cons show ?case by simp
qed simp

lemma indents_of_in: "distinct (map rw_id rows) \<Longrightarrow> r \<in> set rows \<Longrightarrow> indents_of rows (rw_id r) = rw_indents r"
  by (simp add: indents_of_def get_row_in)

text \<open>A new row object is the row with all its descendants.\<close>

lemma new_row_block:
  assumes "tree_ok rows" and "x \<in> set rows" and "rw_draggable x"
  obtains pre grp post where "block (new_row rows (rw_id x) True md) rows pre grp post"
proof -
  from assms(2) obtain pre post0 where r: "rows = pre @ x # post0" by (auto simp: in_set_conv_decomp)
  let ?P = "\<lambda>r. rw_draggable r \<and> rw_indents r > rw_indents x"
  let ?grp = "x # takeWhile ?P post0"
  have d: "distinct (map rw_id rows)" using assms(1) by (rule tree_okD)
  then have nx: "rw_id x \<notin> rw_id ` set pre" using r by auto
  have ind: "indents_of rows (rw_id x) = rw_indents x" using indents_of_in [OF d assms(2)] .
  have sub: "set ?grp \<subseteq> set rows" using r by (auto dest: set_takeWhileD)
  have "map (indents_of rows) (map rw_id ?grp) = map rw_indents ?grp"
    unfolding map_map by (rule map_cong) (use indents_of_in [OF d] sub in auto)
  then have img: "indents_of rows ` set (map rw_id ?grp) = rw_indents ` set ?grp" by (metis list.set_map)
  have "(\<lambda>j. int (indents_of rows j)) ` set (map rw_id ?grp) = int ` rw_indents ` set ?grp"
    unfolding img [symmetric] image_image ..
  then have mx: "insert (int (rw_indents x)) ((\<lambda>j. int (indents_of rows j)) ` set (map rw_id ?grp)) = int ` rw_indents ` set ?grp"
    by auto
  have children: "findChildren rows (rw_id x) (rw_indents x) = map rw_id (takeWhile ?P post0)"
    unfolding findChildren_def r split_at_id(2) [OF nx] ..
  have "Max (int ` rw_indents ` set ?grp) = int (Max (rw_indents ` set ?grp))"
    by (rule mono_Max_commute [symmetric]) (auto simp: mono_def)
  then have "ro_groupDepth (new_row rows (rw_id x) True md) = int (Max (rw_indents ` set ?grp))"
    using mx ind children by (simp add: new_row_def Let_def fold_max)
  moreover have "subtree ?grp" using assms(3) by (auto simp: subtree_def dest: set_takeWhileD)
  moreover have "next_level (dropWhile ?P post0) \<le> rw_indents x"
    using next_level_dropWhile [of pre x post0] assms(1) r by simp
  ultimately have "block (new_row rows (rw_id x) True md) rows pre ?grp (dropWhile ?P post0)"
    using r ind children by (simp add: block_def held_def new_row_def Let_def)
  with that show ?thesis by blast
qed

section \<open>Indenting\<close>

lemma funpow_step: "((\<lambda>n. n - Suc 0) ^^ k) n = n - k" "(Suc ^^ k) n = n + k"
  by (induction k) simp_all

lemma shift_rows_funpow:
  "(shift_rows is g ^^ k) rows = map (\<lambda>r. if rw_id r \<in> set is then r\<lparr>rw_indents := (g ^^ k) (rw_indents r)\<rparr> else r) rows"
proof (induction k)
  case 0
  have e: "(\<lambda>r. if rw_id r \<in> set is then r\<lparr>rw_indents := (g ^^ 0) (rw_indents r)\<rparr> else r) = (\<lambda>r. r)"
    unfolding funpow_0 by auto
  show ?case unfolding e by simp
next
  case (Suc k)
  then show ?case by (auto simp: shift_rows_def)
qed

lemma shift_loop:
  "(shift_rows is (\<lambda>n. if d < 0 then n - 1 else n + 1) ^^ nat \<bar>d\<bar>) rows =
   map (\<lambda>r. if rw_id r \<in> set is then r\<lparr>rw_indents := nat (int (rw_indents r) + d)\<rparr> else r) rows"
proof -
  have "((\<lambda>n. if d < 0 then n - 1 else n + 1) ^^ nat \<bar>d\<bar>) n = nat (int n + d)" for n :: nat
    by (cases "d < 0") (simp_all add: funpow_step)
  then show ?thesis unfolding shift_rows_funpow by simp
qed

lemma shift_block:
  assumes "distinct (map rw_id (pre @ grp @ post))"
  shows "map (\<lambda>r. if rw_id r \<in> set (map rw_id grp) then r\<lparr>rw_indents := nat (int (rw_indents r) + d)\<rparr> else r) (pre @ grp @ post) =
     pre @ shifted d grp @ post"
proof -
  have "rw_id r \<notin> set (map rw_id grp)" if "r \<in> set pre \<union> set post" for r using assms that by auto
  then have "map (\<lambda>r. if rw_id r \<in> set (map rw_id grp) then r\<lparr>rw_indents := nat (int (rw_indents r) + d)\<rparr> else r) xs = xs"
    if "set xs \<subseteq> set pre \<union> set post" for xs using that by (intro map_idI) auto
  then show ?thesis by (simp add: shifted_def)
qed

text \<open>An interval that is safe at a place: between the level of the next row and the limit of the previous one.\<close>

definition safe_interval :: "row_object \<Rightarrow> row list \<Rightarrow> row list \<Rightarrow> row list \<Rightarrow> int \<times> int \<Rightarrow> bool" where
  "safe_interval ro pre grp post iv \<longleftrightarrow>
     int (next_level post) \<le> fst iv \<and> fst iv \<le> snd iv \<and> snd iv \<le> int (limit_after pre) \<and>
     (rw_root (hd grp) \<longrightarrow> snd iv \<le> 0) \<and>
     (ro_maxDepth ro \<noteq> 0 \<longrightarrow> snd iv = 0 \<or> snd iv \<le> ro_maxDepth ro - (ro_groupDepth ro - ro_indents ro))"

definition interval_at :: "row_object \<Rightarrow> row list \<Rightarrow> row list \<Rightarrow> row list \<Rightarrow> int \<times> int" where
  "interval_at ro rows pre post =
     validIndentInterval ro rows (if pre = [] then None else Some (last pre)) (if post = [] then None else Some (hd post))"

lemma is_root_block: "held ro rows pre grp post \<Longrightarrow> distinct (map rw_id rows) \<Longrightarrow> is_root rows (ro_element ro) = rw_root (hd grp)"
  by (cases grp) (auto simp: block_def held_def subtree_def is_root_def get_row_in)

lemma interval_at_bounds:
  assumes "is_root rows (ro_element ro) = rw_root (hd grp)"
  shows "fst (interval_at ro rows pre post) = int (next_level post)"
    and "snd (interval_at ro rows pre post) \<le> int (limit_after pre)"
    and "rw_root (hd grp) \<Longrightarrow> snd (interval_at ro rows pre post) = 0"
    and "ro_maxDepth ro \<noteq> 0 \<Longrightarrow> snd (interval_at ro rows pre post) = 0 \<or>
      snd (interval_at ro rows pre post) \<le> ro_maxDepth ro - (ro_groupDepth ro - ro_indents ro)"
    and "ro_maxDepth ro = 0 \<Longrightarrow> \<not> rw_root (hd grp) \<Longrightarrow> snd (interval_at ro rows pre post) = int (limit_after pre)"
    and "\<not> rw_root (hd grp) \<Longrightarrow> snd (interval_at ro rows pre post) = int (limit_after pre) \<or>
      snd (interval_at ro rows pre post) = ro_maxDepth ro - (ro_groupDepth ro - ro_indents ro)"
  using assms by (auto simp: interval_at_def validIndentInterval_def Let_def next_level_def limit_after_def level_limit_def min_def)

lemma safe_interval_at:
  assumes "is_root rows (ro_element ro) = rw_root (hd grp)" and "fst (interval_at ro rows pre post) \<le> snd (interval_at ro rows pre post)"
  shows "safe_interval ro pre grp post (interval_at ro rows pre post)"
  using interval_at_bounds [OF assms(1), where pre = pre and post = post] assms(2) by (auto simp: safe_interval_def)

text \<open>Depth of the group of a row object.\<close>

lemma block_depth: "held ro rows pre grp post \<Longrightarrow> r \<in> set grp \<Longrightarrow> int (rw_indents r) \<le> ro_groupDepth ro"
  by (simp add: block_def held_def)

lemma block_depth_limit:
  assumes "held ro rows pre grp post" and "depth_ok md rows" and "md \<noteq> 0"
  shows "ro_groupDepth ro \<le> md"
proof -
  have g: "grp \<noteq> []" using assms(1) by (simp add: block_def held_def subtree_def)
  then have "Max (rw_indents ` set grp) \<in> rw_indents ` set grp" by (intro Max_in) simp_all
  then obtain r where r: "r \<in> set grp" "Max (rw_indents ` set grp) = rw_indents r" by auto
  then have "r \<in> set rows" using assms(1) by (simp add: block_def held_def)
  then have "int (rw_indents r) \<le> md" using assms(2,3) by (simp add: depth_ok_def)
  then show ?thesis using assms(1) r(2) by (simp add: block_def held_def)
qed

text \<open>Where the row object is, the level of its row lies in the interval.\<close>

lemma current_level_valid:
  assumes "tree_ok rows" and "block ro rows pre grp post" and "depth_ok (ro_maxDepth ro) rows"
  shows "int (next_level post) \<le> ro_indents ro" and "ro_indents ro \<le> snd (interval_at ro rows pre post)"
proof -
  have b: "rows = pre @ grp @ post" "subtree grp" "ro_indents ro = int (rw_indents (hd grp))"
    "next_level post \<le> rw_indents (hd grp)" using assms(2) by (simp_all add: block_def held_def)
  then obtain x grp' where g: "grp = x # grp'" by (cases grp) (auto simp: subtree_def)
  show "int (next_level post) \<le> ro_indents ro" using b by simp
  have root: "is_root rows (ro_element ro) = rw_root (hd grp)"
    using is_root_block [of ro rows pre grp post] assms(2) tree_okD(3) [OF assms(1)] by (simp add: block_def)
  have "rw_indents x \<le> limit_after pre" using tree_first_level [of pre x "grp' @ post"] assms(1) b(1) g by simp
  moreover have "ro_maxDepth ro \<noteq> 0 \<Longrightarrow> ro_groupDepth ro \<le> ro_maxDepth ro"
    using block_depth_limit [of ro rows pre grp post] assms(2,3) unfolding block_def by blast
  moreover have "ro_maxDepth ro = 0 \<Longrightarrow> \<not> rw_root x \<Longrightarrow> snd (interval_at ro rows pre post) = int (limit_after pre)"
    using interval_at_bounds(5) [OF root] g by simp
  moreover have "\<not> rw_root x \<Longrightarrow> snd (interval_at ro rows pre post) = int (limit_after pre) \<or>
      snd (interval_at ro rows pre post) = ro_maxDepth ro - (ro_groupDepth ro - ro_indents ro)"
    using interval_at_bounds(6) [OF root] g by simp
  moreover have "rw_root x \<Longrightarrow> rw_indents x = 0 \<and> snd (interval_at ro rows pre post) = 0"
    using tree_okD(4) [OF assms(1), of x] interval_at_bounds(3) [OF root] b(1) g by simp
  ultimately show "ro_indents ro \<le> snd (interval_at ro rows pre post)"
    using b(3) g by (cases "rw_root x"; cases "ro_maxDepth ro = 0") auto
qed

lemma indent_interval:
  assumes "held ro rows pre grp post" and "distinct (map rw_id rows)"
  shows "prev_row rows (ro_element ro) = (if pre = [] then None else Some (last pre))"
    and "next_row rows (last (ro_group ro)) = (if post = [] then None else Some (hd post))"
proof -
  have b: "rows = pre @ grp @ post" "grp \<noteq> []" "ro_group ro = map rw_id grp" "ro_element ro = rw_id (hd grp)"
    using assms(1) by (simp_all add: block_def held_def subtree_def)
  have rows: "rows = pre @ hd grp # tl grp @ post" using b by simp
  have "rw_id (hd grp) \<notin> rw_id ` set pre" using assms(2) b by (cases grp) auto
  then show "prev_row rows (ro_element ro) = (if pre = [] then None else Some (last pre))"
    unfolding rows b(4) by (rule prev_next_rows(1))
  have rows': "rows = (pre @ butlast grp) @ last grp # post" using b by simp
  have "rw_id (last grp) \<notin> rw_id ` set (pre @ butlast grp)"
    using assms(2) unfolding rows' by (simp only: map_append distinct_append list.map) auto
  then have "next_row rows (rw_id (last grp)) = (if post = [] then None else Some (hd post))"
    unfolding rows' by (rule prev_next_rows(2))
  then show "next_row rows (last (ro_group ro)) = (if post = [] then None else Some (hd post))"
    using b by (simp add: last_map)
qed

text \<open>
  What an indentation needs of the group and the rows around it, before the level of the group is adjusted: the
  rows around form a forest, and so does the group.
\<close>

definition movable :: "row_object \<Rightarrow> row list \<Rightarrow> row list \<Rightarrow> row list \<Rightarrow> row list \<Rightarrow> bool" where
  "movable ro rows pre grp post \<longleftrightarrow>
     held ro rows pre grp post \<and> tree_ok (pre @ post) \<and> successively fits grp \<and> distinct (map rw_id rows) \<and>
     (\<forall>r \<in> set (tl grp). \<not> rw_root r) \<and> depth_ok (ro_maxDepth ro) rows"

definition level_in :: "row_object \<Rightarrow> int \<Rightarrow> int \<times> int \<Rightarrow> int" where
  "level_in ro d iv = min (max (ro_indents ro + d) (fst iv)) (snd iv)"

lemma Max_shifted:
  assumes "subtree grp" and "0 \<le> int (rw_indents (hd grp)) + d"
  shows "int (Max (rw_indents ` set (shifted d grp))) = int (Max (rw_indents ` set grp)) + d"
proof -
  have g: "grp \<noteq> []" using assms(1) by (simp add: subtree_def)
  have nn: "0 \<le> int (rw_indents r) + d" if "r \<in> set grp" for r using subtree_levels [OF assms(1) that] assms(2) by simp
  have "rw_indents ` set (shifted d grp) = (\<lambda>n. nat (int n + d)) ` rw_indents ` set grp"
    by (auto simp: shifted_def image_image)
  also have "Max \<dots> = nat (int (Max (rw_indents ` set grp)) + d)"
    using g by (subst mono_Max_commute [symmetric]) (auto simp: mono_def)
  moreover have "Max (rw_indents ` set grp) \<in> rw_indents ` set grp" using g by (intro Max_in) simp_all
  ultimately show ?thesis using nn by auto
qed

lemma indent_movable:
  fixes d :: int
  assumes mv: "movable ro rows pre grp post" and iv: "safe_interval ro pre grp post iv"
    and used: "iv = (case ro_interval ro of Some v \<Rightarrow> v | None \<Rightarrow> interval_at ro rows pre post)"
  defines "lev \<equiv> level_in ro d iv"
  defines "diff \<equiv> lev - ro_indents ro"
  defines "ro' \<equiv> ro\<lparr>ro_interval := Some iv, ro_indents := lev, ro_groupDepth := ro_groupDepth ro + diff,
      ro_changed := (ro_changed ro \<or> diff \<noteq> 0)\<rparr>"
  defines "rows' \<equiv> pre @ shifted diff grp @ post"
  shows "indent d ro rows = (diff, ro', rows')"
    and "fst iv \<le> lev \<and> lev \<le> snd iv"
    and "tree_ok rows'" and "depth_ok (ro_maxDepth ro) rows'"
    and "block ro' rows' pre (shifted diff grp) post" and "safe_interval ro' pre (shifted diff grp) post iv"
proof -
  have h: "held ro rows pre grp post" "tree_ok (pre @ post)" "successively fits grp" "distinct (map rw_id rows)"
    "\<forall>r \<in> set (tl grp). \<not> rw_root r" "depth_ok (ro_maxDepth ro) rows" using mv by (simp_all add: movable_def)
  then have b: "rows = pre @ grp @ post" "subtree grp" "ro_group ro = map rw_id grp" "ro_element ro = rw_id (hd grp)"
    "ro_indents ro = int (rw_indents (hd grp))" "ro_indentEnabled ro" "ro_groupDepth ro = int (Max (rw_indents ` set grp))"
    by (simp_all add: held_def)
  have g: "grp \<noteq> []" using b(2) by (simp add: subtree_def)
  show lv: "fst iv \<le> lev \<and> lev \<le> snd iv" using iv by (auto simp: lev_def level_in_def safe_interval_def)
  obtain m where m: "lev = int m" using lv iv by (metis safe_interval_def nat_0_le of_nat_0_le_iff order_trans)
  have iv': "iv = (case ro_interval ro of Some v \<Rightarrow> v
      | None \<Rightarrow> validIndentInterval ro rows (prev_row rows (ro_element ro)) (next_row rows (last (ro_group ro))))"
    unfolding used interval_at_def indent_interval [OF h(1,4)] ..
  have "(shift_rows (ro_group ro) (\<lambda>n. if diff < 0 then n - 1 else n + 1) ^^ nat \<bar>diff\<bar>) rows = rows'"
    unfolding shift_loop rows'_def unfolding b(1,3) using h(4) b(1) by (intro shift_block) simp
  then show "indent d ro rows = (diff, ro', rows')"
    using b(6) iv' [symmetric] by (simp add: indent_def lev_def diff_def level_in_def Let_def ro'_def)
  have d: "diff = int m - int (rw_indents (hd grp))" by (simp add: diff_def m b(5))
  have lim: "m \<le> limit_after pre" "next_level post \<le> m" "rw_root (hd grp) \<longrightarrow> m = 0"
    using iv lv m by (auto simp: safe_interval_def)
  show "tree_ok rows'" unfolding rows'_def d using h b(1,2) lim by (intro tree_insert) simp_all
  have sub: "subtree (shifted diff grp)"
  proof -
    have "shifted diff grp = (hd grp)\<lparr>rw_indents := m\<rparr> # shifted diff (tl grp)"
      using g d by (cases grp) (simp_all add: shifted_def)
    moreover have "\<forall>r \<in> set (shifted diff (tl grp)). rw_draggable r \<and> m < rw_indents r"
      using b(2) d by (auto simp: subtree_def shifted_def)
    ultimately show ?thesis using b(2) by (simp add: subtree_def)
  qed
  have depth: "int (Max (rw_indents ` set (shifted diff grp))) = ro_groupDepth ro + diff"
    using Max_shifted [OF b(2), of diff] b(7) d by simp
  show "block ro' rows' pre (shifted diff grp) post"
    unfolding block_def held_def ro'_def rows'_def using sub depth b g d m lim(2) by simp
  show "safe_interval ro' pre (shifted diff grp) post iv"
    using iv g by (auto simp: safe_interval_def diff_def ro'_def)
  have gd: "ro_maxDepth ro \<noteq> 0 \<Longrightarrow> ro_groupDepth ro + diff \<le> ro_maxDepth ro"
    using block_depth_limit [OF h(1,6)] iv lv b(5) by (auto simp: safe_interval_def diff_def)
  have "int (rw_indents r) \<le> ro_groupDepth ro + diff" if "r \<in> set (shifted diff grp)" for r
    unfolding depth [symmetric] using that by simp
  then show "depth_ok (ro_maxDepth ro) rows'"
    using h(6) gd b(1) by (fastforce simp: depth_ok_def rows'_def)
qed

section \<open>Moving\<close>

lemma map_filter_get_row:
  assumes "distinct (map rw_id rows)" and "set grp \<subseteq> set rows"
  shows "List.map_filter (get_row rows) (map rw_id grp) = grp"
  using assms(2)
proof (induction grp)
  case (Cons r grp)
  then show ?case using get_row_in [OF assms(1), of r] by (simp add: List.map_filter_simps)
qed (simp add: List.map_filter_simps)

lemma concat_single:
  assumes "rw_id x \<notin> rw_id ` set u" and "rw_id x \<notin> rw_id ` set v"
  shows "concat (map (\<lambda>r. if rw_id r = rw_id x then f r else [r]) (u @ x # v)) = u @ f x @ v"
proof -
  have "concat (map (\<lambda>r. if rw_id r = rw_id x then f r else [r]) xs) = xs" if "rw_id x \<notin> rw_id ` set xs" for xs
    using that by (induction xs) auto
  then show ?thesis using assms by simp
qed

lemma move_rows_block:
  assumes "distinct (map rw_id (pre @ grp @ post))" and "pre @ post = u @ x # v"
  shows "move_rows After (rw_id x) (map rw_id grp) (pre @ grp @ post) = u @ x # grp @ v"
    and "move_rows Before (rw_id x) (map rw_id grp) (pre @ grp @ post) = u @ grp @ x # v"
proof -
  have "filter (\<lambda>r. rw_id r \<notin> set (map rw_id grp)) xs = xs" if "set xs \<subseteq> set pre \<union> set post" for xs
  proof (rule filter_True)
    have "rw_id ` set grp \<inter> (rw_id ` set pre \<union> rw_id ` set post) = {}" using assms(1) by auto
    then show "\<forall>r \<in> set xs. rw_id r \<notin> set (map rw_id grp)" using that by (auto dest!: subsetD)
  qed
  then have "filter (\<lambda>r. rw_id r \<notin> set (map rw_id grp)) (pre @ grp @ post) = pre @ post" by simp
  moreover have "List.map_filter (get_row (pre @ grp @ post)) (map rw_id grp) = grp"
    by (rule map_filter_get_row [OF assms(1)]) auto
  moreover have "distinct (map rw_id (pre @ post))" using assms(1) by auto
  then have "rw_id x \<notin> rw_id ` set u" "rw_id x \<notin> rw_id ` set v" unfolding assms(2) by auto
  note c = concat_single [OF this]
  ultimately show "move_rows After (rw_id x) (map rw_id grp) (pre @ grp @ post) = u @ x # grp @ v"
    "move_rows Before (rw_id x) (map rw_id grp) (pre @ grp @ post) = u @ grp @ x # v"
    unfolding move_rows_def Let_def assms(2)
    using c [of "\<lambda>r. r # grp"] c [of "\<lambda>r. grp @ [r]"] by (simp_all only: position.simps append.simps append_assoc)
qed

text \<open>The rows before and after the group once it is moved next to the row \<open>x\<close>.\<close>

fun place :: "position \<Rightarrow> row list \<Rightarrow> row \<Rightarrow> row list \<Rightarrow> row list \<times> row list" where
  "place After u x v = (u @ [x], v)"
| "place Before u x v = (u, x # v)"

definition tracked :: "row_object \<Rightarrow> row list \<Rightarrow> row list \<Rightarrow> row list \<Rightarrow> row list \<Rightarrow> bool" where
  "tracked ro rows pre grp post \<longleftrightarrow> tree_ok rows \<and> depth_ok (ro_maxDepth ro) rows \<and> block ro rows pre grp post"

lemma trackedD:
  assumes "tracked ro rows pre grp post"
  shows "rows = pre @ grp @ post" "tree_ok rows" "depth_ok (ro_maxDepth ro) rows" "held ro rows pre grp post"
    "subtree grp" "distinct (map rw_id rows)" "ro_group ro = map rw_id grp" "grp \<noteq> []"
    "next_level post \<le> rw_indents (hd grp)" "block ro rows pre grp post" "ro_indentEnabled ro"
    "ro_element ro = rw_id (hd grp)"
proof -
  show "tree_ok rows" using assms by (simp add: tracked_def)
  then show "distinct (map rw_id rows)" by (rule tree_okD)
  show "depth_ok (ro_maxDepth ro) rows" using assms by (simp add: tracked_def)
qed (use assms in \<open>simp_all add: tracked_def block_def held_def subtree_def\<close>)

lemma held_moved:
  "held ro rows pre grp post \<Longrightarrow> held ro (u @ grp @ v) u grp v"
  by (simp add: held_def)

lemma held_changed [simp]: "held (ro\<lparr>ro_changed := c\<rparr>) = held ro" "held (ro\<lparr>ro_interval := iv\<rparr>) = held ro"
  "held (ro\<lparr>ro_direction := d\<rparr>) = held ro"
  by (simp_all add: held_def fun_eq_iff)

lemma movable_moved:
  assumes "tracked ro rows pre grp post" and "u @ v = pre @ post" and "held ro' (u @ grp @ v) u grp v"
    and "ro_maxDepth ro' = ro_maxDepth ro"
  shows "movable ro' (u @ grp @ v) u grp v"
proof -
  note t = trackedD [OF assms(1)]
  have "tree_ok (u @ v)" unfolding assms(2) using t tree_remove by blast
  moreover have "successively fits grp" using tree_okD(2) [OF t(2)] unfolding t(1) successively_fits_append by blast
  moreover have "distinct (map rw_id (u @ grp @ v))"
  proof -
    have "mset (map rw_id (u @ grp @ v)) = mset (map rw_id rows)"
      unfolding t(1) using arg_cong [OF assms(2), of "\<lambda>xs. mset (map rw_id xs)"] by simp
    then show ?thesis using t(6) by (metis mset_eq_imp_distinct_iff)
  qed
  moreover have "\<not> rw_root r" if "r \<in> set (tl grp)" for r
  proof -
    have "r \<in> set rows" "rw_indents r > 0" using that t(1,5) by (auto simp: subtree_def dest: list.set_sel(2) [OF t(8)])
    then show ?thesis using tree_okD(4) [OF t(2)] by auto
  qed
  moreover have "depth_ok (ro_maxDepth ro) (u @ grp @ v)"
    using t(3) arg_cong [OF assms(2), of set] unfolding t(1) depth_ok_def by auto
  ultimately show ?thesis using assms(3,4) by (auto simp: movable_def)
qed

lemma swap_tracked:
  assumes "tracked ro rows pre grp post" and "pre @ post = u @ x # v"
  shows "swap pos (rw_id x) ro rows =
     (ro\<lparr>ro_changed := True\<rparr>, case place pos u x v of (u', v') \<Rightarrow> u' @ grp @ v')"
  using trackedD [OF assms(1)] move_rows_block [of pre grp post, OF _ assms(2)]
  by (cases pos) (simp_all add: swap_def)

definition good :: "row_object \<Rightarrow> row list \<Rightarrow> bool" where
  "good ro rows \<longleftrightarrow> (\<exists>pre grp post. tracked ro rows pre grp post \<and>
     (\<forall>iv. ro_interval ro = Some iv \<longrightarrow> safe_interval ro pre grp post iv))"

text \<open>What a row holds besides its level; moving and indenting lose and add nothing.\<close>

definition contents :: "row list \<Rightarrow> row multiset" where
  "contents rows = mset (map (\<lambda>r. r\<lparr>rw_indents := 0\<rparr>) rows)"

lemma contents_append [simp]: "contents (xs @ ys) = contents xs + contents ys" "contents (x # xs) = contents [x] + contents xs"
  by (simp_all add: contents_def)

lemma contents_shifted [simp]: "contents (shifted d grp) = contents grp"
  by (simp add: contents_def shifted_def comp_def)

lemma indent_result:
  assumes "movable ro rows pre grp post" and "safe_interval ro pre grp post iv"
    and "iv = (case ro_interval ro of Some v \<Rightarrow> v | None \<Rightarrow> interval_at ro rows pre post)"
    and "indent d ro rows = (change, ro', rows')"
  shows "good ro' rows'" and "contents rows' = contents rows" and "ro_maxDepth ro' = ro_maxDepth ro"
    and "ro_indentEnabled ro'" and "ro_element ro' = ro_element ro"
    and "fst iv \<le> ro_indents ro' \<and> ro_indents ro' \<le> snd iv" and "ro_indents ro' = ro_indents ro + change"
proof -
  note r = indent_movable [OF assms(1-3), of d]
  let ?lev = "level_in ro d iv"
  let ?diff = "?lev - ro_indents ro"
  have e: "change = ?diff" "ro' = ro\<lparr>ro_interval := Some iv, ro_indents := ?lev, ro_groupDepth := ro_groupDepth ro + ?diff,
      ro_changed := (ro_changed ro \<or> ?diff \<noteq> 0)\<rparr>" "rows' = pre @ shifted ?diff grp @ post"
    using r(1) assms(4) by simp_all
  have "tracked ro' rows' pre (shifted ?diff grp) post" "safe_interval ro' pre (shifted ?diff grp) post iv" "ro_interval ro' = Some iv"
    using r(3-6) unfolding tracked_def e by simp_all
  then show "good ro' rows'" unfolding good_def by auto
  have "rows = pre @ grp @ post" "ro_indentEnabled ro" using assms(1) by (simp_all add: movable_def held_def)
  then show "contents rows' = contents rows" "ro_indentEnabled ro'" using e by simp_all
  show "ro_maxDepth ro' = ro_maxDepth ro" "ro_element ro' = ro_element ro" "ro_indents ro' = ro_indents ro + change"
    "fst iv \<le> ro_indents ro' \<and> ro_indents ro' \<le> snd iv"
    using e r(2) by simp_all
qed

lemma indent_good:
  assumes "good ro rows" and "indent d ro rows = (change, ro', rows')"
  shows "good ro' rows'" and "contents rows' = contents rows" and "ro_maxDepth ro' = ro_maxDepth ro"
    and "ro_element ro' = ro_element ro" and "ro_indents ro' = ro_indents ro + change"
proof -
  from assms(1) obtain pre grp post where tr: "tracked ro rows pre grp post"
    and iv: "\<forall>iv. ro_interval ro = Some iv \<longrightarrow> safe_interval ro pre grp post iv" by (auto simp: good_def)
  note t = trackedD [OF tr]
  have mv: "movable ro rows pre grp post"
    using movable_moved [OF tr refl] t(1,4) by simp
  let ?iv = "case ro_interval ro of Some v \<Rightarrow> v | None \<Rightarrow> interval_at ro rows pre post"
  have root: "is_root rows (ro_element ro) = rw_root (hd grp)" by (rule is_root_block [OF t(4,6)])
  have "safe_interval ro pre grp post (interval_at ro rows pre post)"
    using current_level_valid [OF t(2,10,3)] interval_at_bounds(1) [OF root, of pre post]
    by (intro safe_interval_at [OF root]) simp
  with iv have "safe_interval ro pre grp post ?iv" by (simp split: option.splits)
  from indent_result [OF mv this refl assms(2)]
  show "good ro' rows'" "contents rows' = contents rows" "ro_maxDepth ro' = ro_maxDepth ro"
    "ro_element ro' = ro_element ro" "ro_indents ro' = ro_indents ro + change" by simp_all
qed

text \<open>The group is moved next to \<open>x\<close> and its level is adjusted to an interval that is safe there.\<close>

lemma swap_indent_good:
  assumes "tracked ro rows pre grp post" and "pre @ post = u @ x # v" and "place pos u x v = (u', v')"
    and "swap pos (rw_id x) ro0 rows = (ro1, rows1)" and "ro0 = ro\<lparr>ro_interval := iv0, ro_direction := dir\<rparr>"
    and "safe_interval ro u' grp v' (case iv0 of Some v \<Rightarrow> v | None \<Rightarrow> interval_at ro rows1 u' v')"
    and "indent d ro1 rows1 = (change, ro2, rows2)"
  shows "good ro2 rows2" and "contents rows2 = contents rows" and "ro_maxDepth ro2 = ro_maxDepth ro"
    and "ro_element ro2 = ro_element ro"
proof -
  note t = trackedD [OF assms(1)]
  have uv: "u' @ v' = pre @ post" using assms(2,3) by (cases pos) auto
  have "held ro0 = held ro" using assms(5) by simp
  then have "tracked ro0 rows pre grp post" using assms(1,5) by (simp add: tracked_def block_def)
  from swap_tracked [OF this assms(2), of pos] assms(3,4)
  have s: "ro1 = ro0\<lparr>ro_changed := True\<rparr>" "rows1 = u' @ grp @ v'" by simp_all
  have ro1: "ro_interval ro1 = iv0" "ro_maxDepth ro1 = ro_maxDepth ro" "ro_element ro1 = ro_element ro" using s(1) assms(5) by simp_all
  have "held ro1 rows1 u' grp v'" unfolding s(2) using held_moved [OF t(4)] s(1) assms(5) by (simp add: held_def)
  then have mv: "movable ro1 rows1 u' grp v'" unfolding s(2) using movable_moved [OF assms(1) uv] ro1(2) by blast
  have iv: "interval_at ro1 = interval_at ro" "safe_interval ro1 = safe_interval ro"
    using s(1) assms(5) by (simp_all add: interval_at_def validIndentInterval_def safe_interval_def fun_eq_iff Let_def)
  have c: "contents rows1 = contents rows" using arg_cong [OF uv, of contents] unfolding s(2) t(1) by (simp add: ac_simps)
  have "safe_interval ro1 u' grp v' (case ro_interval ro1 of Some v \<Rightarrow> v | None \<Rightarrow> interval_at ro1 rows1 u' v')"
    unfolding iv ro1(1) by (rule assms(6))
  from indent_result [OF mv this refl assms(7)] c ro1
  show "good ro2 rows2" "contents rows2 = contents rows" "ro_maxDepth ro2 = ro_maxDepth ro" "ro_element ro2 = ro_element ro"
    by simp_all
qed

section \<open>The keyboard\<close>

lemma adjacent_levels: "tree_ok (u @ v) \<Longrightarrow> next_level v \<le> limit_after u"
  using tree_first_level [of u "hd v" "tl v"] by (cases v) (simp_all add: next_level_def)

lemma is_root_moved:
  assumes "tracked ro rows pre grp post" and "u @ v = pre @ post"
  shows "is_root (u @ grp @ v) (ro_element ro) = rw_root (hd grp)"
proof -
  note t = trackedD [OF assms(1)]
  have "movable ro (u @ grp @ v) u grp v" by (rule movable_moved [OF assms held_moved [OF t(4)] refl])
  then show ?thesis using is_root_block by (auto simp: movable_def)
qed

text \<open>Without a depth limit the interval at a new place is never empty.\<close>

lemma key_swap_good:
  assumes "tracked ro rows pre grp post" and "pre @ post = u @ x # v" and "ro_maxDepth ro = 0" and "\<not> rw_root (hd grp)"
    and "key_swap pos (rw_id x) (ro\<lparr>ro_direction := dir\<rparr>) rows = (ro2, rows2)"
  shows "good ro2 rows2 \<and> contents rows2 = contents rows \<and> ro_maxDepth ro2 = ro_maxDepth ro \<and> ro_element ro2 = ro_element ro"
proof -
  note t = trackedD [OF assms(1)]
  obtain u' v' where p: "place pos u x v = (u', v')" by (cases "place pos u x v")
  have uv: "u' @ v' = pre @ post" using p assms(2) by (cases pos) auto
  let ?ro0 = "ro\<lparr>ro_interval := None, ro_direction := dir\<rparr>"
  obtain ro1 rows1 where s: "swap pos (rw_id x) ?ro0 rows = (ro1, rows1)" by (cases "swap pos (rw_id x) ?ro0 rows")
  have s': "swap pos (rw_id x) (ro\<lparr>ro_direction := dir\<rparr>) rows = (ro1\<lparr>ro_interval := ro_interval ro\<rparr>, rows1)"
    using s by (auto simp: swap_def)
  have "ro_interval ro1 = None" using s by (auto simp: swap_def)
  then have i: "ro1\<lparr>ro_interval := None\<rparr> = ro1" by simp
  obtain change where ind: "indent 0 ro1 rows1 = (change, ro2, rows2)"
    using assms(5) s' i by (auto simp: key_swap_def split: prod.splits)
  have "rows1 = u' @ grp @ v'"
    using s swap_tracked [OF assms(1,2), of pos] p by (simp add: swap_def)
  then have root: "is_root rows1 (ro_element ro) = rw_root (hd grp)" using is_root_moved [OF assms(1) uv] by simp
  have "tree_ok (u' @ v')" unfolding uv using t(1,2,5,9) tree_remove by blast
  then have "safe_interval ro u' grp v' (interval_at ro rows1 u' v')"
    using adjacent_levels interval_at_bounds(1,5) [OF root] assms(3,4) by (intro safe_interval_at [OF root]) simp
  from swap_indent_good [OF assms(1,2) p s refl _ ind] this show ?thesis by simp
qed

lemma split_rest:
  assumes "x \<in> set (pre @ post)"
  obtains u v where "pre @ post = u @ x # v"
  using assms by (auto simp: in_set_conv_decomp simp del: set_append)

lemma tracked_around:
  assumes "tracked ro rows pre grp post"
  shows "rows_before rows (ro_element ro) = pre" and "rows_after rows (last (ro_group ro)) = post"
proof -
  note t = trackedD [OF assms]
  have r1: "rows = pre @ hd grp # tl grp @ post" using t(1,8) by simp
  have "rw_id (hd grp) \<notin> rw_id ` set pre" using t(6) unfolding r1 by auto
  then show "rows_before rows (ro_element ro) = pre" unfolding r1 t(12) by (rule split_at_id(1))
  have r2: "rows = (pre @ butlast grp) @ last grp # post" using t(1,8) by simp
  have "rw_id (last grp) \<notin> rw_id ` set (pre @ butlast grp)"
    using t(6) unfolding r2 by (simp only: map_append distinct_append list.map) auto
  then have "rows_after rows (rw_id (last grp)) = post" unfolding r2 by (rule split_at_id(2))
  then show "rows_after rows (last (ro_group ro)) = post" using t(7,8) by (simp add: last_map)
qed

text \<open>A root row stays at level 0 when it is moved between rows of which the next is at level 0.\<close>

lemma swap_root_good:
  assumes "tracked ro rows pre grp post" and "pre @ post = u @ x # v" and "place pos u x v = (u', v')"
    and "rw_root (hd grp)" and "next_level v' = 0" and "swap pos (rw_id x) (ro\<lparr>ro_direction := dir\<rparr>) rows = (ro1, rows1)"
    and "\<forall>iv. ro_interval ro = Some iv \<longrightarrow> safe_interval ro pre grp post iv"
  shows "good ro1 rows1 \<and> contents rows1 = contents rows \<and> ro_maxDepth ro1 = ro_maxDepth ro \<and> ro_element ro1 = ro_element ro"
proof -
  note t = trackedD [OF assms(1)]
  have uv: "u' @ v' = pre @ post" using assms(2,3) by (cases pos) auto
  have r: "rows1 = u' @ grp @ v'" using assms(3,6) swap_tracked [OF assms(1,2), of pos] by (simp add: swap_def)
  have ro1: "ro1 = ro\<lparr>ro_direction := dir, ro_changed := True\<rparr>" using assms(6) by (simp add: swap_def)
  have mv: "movable ro (u' @ grp @ v') u' grp v'" by (rule movable_moved [OF assms(1) uv held_moved [OF t(4)] refl])
  have z: "rw_indents (hd grp) = 0" using tree_okD(4) [OF t(2), of "hd grp"] assms(4) t(1,8) by simp
  have "shifted 0 grp = grp" by (simp add: shifted_def)
  moreover have "tree_ok (u' @ shifted (int 0 - int (rw_indents (hd grp))) grp @ v')"
    using mv t(5) assms(5) by (intro tree_insert) (simp_all add: movable_def)
  ultimately have "tree_ok rows1" using z r by simp
  moreover have "held ro1 rows1 u' grp v'" unfolding ro1 r using mv by (simp add: movable_def)
  moreover have "depth_ok (ro_maxDepth ro1) rows1" unfolding ro1 r using mv by (simp add: movable_def)
  ultimately have "tracked ro1 rows1 u' grp v'" using assms(5) by (simp add: tracked_def block_def)
  moreover have "safe_interval ro1 u' grp v' iv" if "ro_interval ro1 = Some iv" for iv
  proof -
    have "ro_interval ro = Some iv" using that ro1 by simp
    with assms(7) have "safe_interval ro pre grp post iv" by blast
    then show ?thesis using assms(4,5) ro1 by (simp add: safe_interval_def)
  qed
  ultimately have "good ro1 rows1" unfolding good_def by blast
  moreover have "contents rows1 = contents rows"
    using arg_cong [OF uv, of contents] unfolding r t(1) by (simp add: ac_simps)
  ultimately show ?thesis using ro1 by simp
qed

text \<open>The invariant of a table with indentation.\<close>

definition drag_inv :: "drag_table \<Rightarrow> bool" where
  "drag_inv t \<longleftrightarrow> tree_ok (td_rows t) \<and> depth_ok (td_maxDepth t) (td_rows t) \<and> td_indentEnabled t \<and>
     (\<forall>ro. td_rowObject t = Some ro \<longrightarrow> good ro (td_rows t) \<and> ro_maxDepth ro = td_maxDepth t)"

lemma good_tree: "good ro rows \<Longrightarrow> tree_ok rows \<and> depth_ok (ro_maxDepth ro) rows"
  by (auto simp: good_def tracked_def)

lemma drag_inv_store:
  assumes "drag_inv t" and "good ro rows" and "ro_maxDepth ro = td_maxDepth t"
  shows "drag_inv (t\<lparr>td_rowObject := Some ro, td_rows := rows\<rparr>)"
  using assms good_tree [OF assms(2)] by (simp add: drag_inv_def)

lemma new_row_good:
  assumes "tree_ok rows" and "depth_ok md rows" and "x \<in> set rows" and "rw_draggable x"
  shows "good (new_row rows (rw_id x) True md) rows"
proof -
  obtain pre grp post where "block (new_row rows (rw_id x) True md) rows pre grp post"
    by (rule new_row_block [OF assms(1,3,4)])
  then show ?thesis using assms(1,2) by (auto simp: good_def tracked_def new_row_def Let_def)
qed

lemma previous_top_level_found:
  "xs \<noteq> [] \<Longrightarrow> rw_indents (last xs) = 0 \<Longrightarrow> \<exists>q. previous_top_level xs = Inr q \<and> q \<in> set xs \<and> rw_indents q = 0"
  by (induction xs) (auto split: if_splits)

lemma no_hidden: "list_all (\<lambda>r. \<not> rw_hidden r) rows \<Longrightarrow> set xs \<subseteq> set rows \<Longrightarrow> dropWhile rw_hidden xs = xs"
  by (cases xs) (auto simp: list_all_iff)

definition kept :: "row_object \<Rightarrow> row list \<Rightarrow> row_object \<Rightarrow> row list \<Rightarrow> bool" where
  "kept ro rows ro' rows' \<longleftrightarrow> good ro' rows' \<and> contents rows' = contents rows \<and> ro_maxDepth ro' = ro_maxDepth ro"

lemma good_direction: "good ro rows \<Longrightarrow> kept ro rows (ro\<lparr>ro_direction := dir\<rparr>) rows"
  by (simp add: kept_def good_def tracked_def block_def safe_interval_def)

lemma key_up_good:
  assumes "good ro rows" and "ro_maxDepth ro = 0" and "list_all (\<lambda>r. \<not> rw_hidden r) rows" and "ro_element ro = item"
  shows "\<exists>ro' rows'. key_up item ro rows = Inr (ro', rows') \<and> kept ro rows ro' rows'"
proof -
  from assms(1) obtain pre grp post where tr: "tracked ro rows pre grp post"
    and iv: "\<forall>iv. ro_interval ro = Some iv \<longrightarrow> safe_interval ro pre grp post iv" by (auto simp: good_def)
  note t = trackedD [OF tr]
  have root: "is_root rows item = rw_root (hd grp)" using is_root_block [OF t(4,6)] assms(4) by simp
  have vis: "dropWhile rw_hidden (rev (rows_before rows (ro_element ro))) = rev pre"
    unfolding tracked_around(1) [OF tr] using no_hidden [OF assms(3), of "rev pre"] t(1) by simp
  show ?thesis
  proof (cases "rev pre")
    case Nil
    then show ?thesis unfolding key_up_def vis using assms(1) by (simp add: kept_def)
  next
    case (Cons p ps)
    then have "p \<in> set (rev pre)" "rev pre \<noteq> []" by simp_all
    then have p: "p \<in> set pre" "pre \<noteq> []" by simp_all
    show ?thesis
    proof (cases "rw_root (hd grp)")
      case True
      have "rw_indents (last (rev pre)) = 0" using tree_okD(1) [OF t(2)] p(2) t(1) by (simp add: last_rev)
      then obtain q where q: "previous_top_level (rev pre) = Inr q" "q \<in> set pre" "rw_indents q = 0"
        using previous_top_level_found [of "rev pre"] p(2) by auto
      then obtain u v where uv: "pre @ post = u @ q # v" using split_rest [of q pre post] by auto
      obtain ro1 rows1 where s: "swap Before (rw_id q) (ro\<lparr>ro_direction := ''up''\<rparr>) rows = (ro1, rows1)" by fastforce
      have "kept ro rows ro1 rows1"
        using swap_root_good [OF tr uv _ True _ s iv, of u "q # v"] q(3) by (simp add: kept_def next_level_def)
      then show ?thesis using True root vis Cons q(1) s by (simp add: key_up_def Let_def)
    next
      case False
      obtain u v where uv: "pre @ post = u @ p # v" using split_rest [of p pre post] p(1) by auto
      obtain ro2 rows2 where s: "key_swap Before (rw_id p) (ro\<lparr>ro_direction := ''up''\<rparr>) rows = (ro2, rows2)" by fastforce
      have "kept ro rows ro2 rows2" using key_swap_good [OF tr uv assms(2) False s] by (simp add: kept_def)
      then show ?thesis using False root vis Cons s good_direction [OF assms(1)] by (simp add: key_up_def Let_def)
    qed
  qed
qed

lemma group_end:
  assumes "tree_ok rows" and "rows = pre @ n # post"
  shows "\<exists>g w v. post = g @ v \<and> last (ro_group (new_row rows (rw_id n) True md)) = rw_id w \<and>
     n # g = butlast (n # g) @ [w] \<and> next_level v \<le> rw_indents n"
proof -
  have nn: "rw_id n \<notin> rw_id ` set pre" using tree_okD(3) [OF assms(1)] assms(2) by auto
  let ?P = "\<lambda>r. rw_draggable r \<and> rw_indents r > rw_indents n"
  have "n \<in> set rows" using assms(2) by simp
  then have ind: "indents_of rows (rw_id n) = rw_indents n" using tree_okD(3) [OF assms(1)] by (rule indents_of_in [rotated])
  have "ro_group (new_row rows (rw_id n) True md) = map rw_id (n # takeWhile ?P post)"
    using ind assms(2) split_at_id(2) [OF nn] by (simp add: new_row_def Let_def findChildren_def)
  then have "last (ro_group (new_row rows (rw_id n) True md)) = rw_id (last (n # takeWhile ?P post))"
    by (simp add: last_map)
  moreover have "n # takeWhile ?P post = butlast (n # takeWhile ?P post) @ [last (n # takeWhile ?P post)]"
    using append_butlast_last_id [of "n # takeWhile ?P post"] by simp
  moreover have "next_level (dropWhile ?P post) \<le> rw_indents n"
    using next_level_dropWhile [of pre n post] assms by simp
  moreover have "post = takeWhile ?P post @ dropWhile ?P post" by simp
  ultimately show ?thesis by blast
qed

lemma key_down_good:
  assumes "good ro rows" and "ro_maxDepth ro = 0" and "list_all (\<lambda>r. \<not> rw_hidden r) rows" and "ro_element ro = item"
    and "key_down item ro rows = (ro', rows')"
  shows "kept ro rows ro' rows'"
proof -
  from assms(1) obtain pre grp post where tr: "tracked ro rows pre grp post"
    and iv: "\<forall>iv. ro_interval ro = Some iv \<longrightarrow> safe_interval ro pre grp post iv" by (auto simp: good_def)
  note t = trackedD [OF tr]
  have root: "is_root rows item = rw_root (hd grp)" using is_root_block [OF t(4,6)] assms(4) by simp
  have vis: "dropWhile rw_hidden (rows_after rows (last (ro_group ro))) = post"
    unfolding tracked_around(2) [OF tr] using no_hidden [OF assms(3), of post] t(1) by auto
  show ?thesis
  proof (cases post)
    case Nil
    then show ?thesis using assms(1,5) unfolding key_down_def vis by (simp add: kept_def)
  next
    case (Cons n ns)
    show ?thesis
    proof (cases "rw_root (hd grp)")
      case True
      then have "rw_indents n = 0" using tree_okD(4) [OF t(2), of "hd grp"] t(1,8,9) Cons by (simp add: next_level_def)
      let ?g = "last (ro_group (new_row rows (rw_id n) (ro_indentEnabled ro) (ro_maxDepth ro)))"
      obtain u w v where uv: "pre @ post = u @ w # v" and w: "?g = rw_id w" and v: "next_level v = 0"
      proof -
        have "rows = (pre @ grp) @ n # ns" using t(1) Cons by simp
        from group_end [OF t(2) this, of "ro_maxDepth ro"] obtain g w v where
          g: "ns = g @ v" "last (ro_group (new_row rows (rw_id n) True (ro_maxDepth ro))) = rw_id w"
            "n # g = butlast (n # g) @ [w]" "next_level v \<le> rw_indents n" by blast
        from g(3) have "pre @ post = (pre @ butlast (n # g)) @ w # v" using Cons g(1)
          by (metis append.assoc append_Cons append_Nil)
        moreover have "?g = rw_id w" "next_level v = 0" using g(2,4) t(11) \<open>rw_indents n = 0\<close> by simp_all
        ultimately show ?thesis by (rule that)
      qed
      obtain ro1 rows1 where s: "swap After (rw_id w) (ro\<lparr>ro_direction := ''down''\<rparr>) rows = (ro1, rows1)" by fastforce
      have "kept ro rows ro1 rows1"
        using swap_root_good [OF tr uv _ True v s iv, of "u @ [w]"] by (simp add: kept_def)
      moreover have "(ro', rows') = (ro1, rows1)" using assms(5) True root s w unfolding key_down_def vis Cons by simp
      ultimately show ?thesis by simp
    next
      case False
      have "n \<in> set (pre @ post)" using Cons by simp
      then obtain u v where uv: "pre @ post = u @ n # v" by (rule split_rest)
      have "key_swap After (rw_id n) (ro\<lparr>ro_direction := ''down''\<rparr>) rows = (ro', rows')"
        using assms(5) False root unfolding key_down_def vis Cons by simp
      from key_swap_good [OF tr uv assms(2) False this] show ?thesis by (simp add: kept_def)
    qed
  qed
qed

lemma key_step:
  assumes "drag_inv t" and "td_maxDepth t = 0" and "list_all (\<lambda>r. \<not> rw_hidden r) (td_rows t)" and "ro_element ro = item"
    and "good ro (td_rows t)" and "ro_maxDepth ro = td_maxDepth t"
  shows "kept ro (td_rows t) (fst (snd (indent d ro (td_rows t)))) (snd (snd (indent d ro (td_rows t))))"
    and "\<exists>ro' rows'. key_up item ro (td_rows t) = Inr (ro', rows') \<and> kept ro (td_rows t) ro' rows'"
    and "kept ro (td_rows t) (fst (key_down item ro (td_rows t))) (snd (key_down item ro (td_rows t)))"
    and "kept ro (td_rows t) ro (td_rows t)"
proof -
  obtain change ro' rows' where "indent d ro (td_rows t) = (change, ro', rows')" by (metis surj_pair)
  with indent_good [OF assms(5) this]
  show "kept ro (td_rows t) (fst (snd (indent d ro (td_rows t)))) (snd (snd (indent d ro (td_rows t))))"
    by (simp add: kept_def)
  have "ro_maxDepth ro = 0" using assms(2,6) by simp
  from key_up_good [OF assms(5) this assms(3,4)] key_down_good [OF assms(5) this assms(3,4)]
  show "\<exists>ro' rows'. key_up item ro (td_rows t) = Inr (ro', rows') \<and> kept ro (td_rows t) ro' rows'"
    "kept ro (td_rows t) (fst (key_down item ro (td_rows t))) (snd (key_down item ro (td_rows t)))"
    by simp_all
  show "kept ro (td_rows t) ro (td_rows t)" using assms(5) by (simp add: kept_def)
qed

lemma store_kept:
  assumes "drag_inv t" and "ro_maxDepth ro = td_maxDepth t" and "kept ro (td_rows t) ro' rows'"
  shows "drag_inv (t\<lparr>td_rowObject := Some ro', td_rows := rows'\<rparr>) \<and> contents rows' = contents (td_rows t)"
  using assms drag_inv_store [OF assms(1), of ro' rows'] by (simp add: kept_def)

text \<open>
  C24. The keyboard keeps a table without depth limit and without hidden rows a forest, as long as a row object that
  lingers from an earlier key or drag is the one of the row whose handle has the focus: whatever key is pressed on
  the handle of a draggable row, the handler does not throw, the first row and rows below fixed rows stay at level 0, every other row is at most one
  level below the row above it (and not below a leaf), and no row is lost or changed otherwise.
\<close>

theorem keydown_keeps_forest:
  assumes "drag_inv t" and "td_maxDepth t = 0" and "list_all (\<lambda>r. \<not> rw_hidden r) (td_rows t)"
    and "x \<in> set (td_rows t)" and "rw_draggable x" and "\<forall>ro. td_rowObject t = Some ro \<longrightarrow> ro_element ro = rw_id x"
  shows "\<exists>t'. keydown keyCode (rw_id x) t = Inr t' \<and> drag_inv t' \<and> contents (td_rows t') = contents (td_rows t)"
proof -
  let ?rows = "td_rows t"
  let ?new = "new_row ?rows (rw_id x) (td_indentEnabled t) (td_maxDepth t)"
  have inv: "tree_ok ?rows" "depth_ok (td_maxDepth t) ?rows" "td_indentEnabled t" using assms(1) by (simp_all add: drag_inv_def)
  have new: "good ?new ?rows" "ro_maxDepth ?new = td_maxDepth t" "ro_element ?new = rw_id x"
    using new_row_good [OF inv(1,2) assms(4,5)] inv(3) by (simp_all add: new_row_def Let_def)
  show ?thesis
  proof (cases "td_rowObject t = None \<and> keyCode = 9")
    case True
    then show ?thesis using assms(1) by (simp add: keydown_def)
  next
    case False
    define ro where "ro = (case td_rowObject t of Some r \<Rightarrow> r | None \<Rightarrow> ?new)"
    have ro: "good ro ?rows" "ro_maxDepth ro = td_maxDepth t" "ro_element ro = rw_id x"
      using new assms(1,6) by (auto simp: ro_def drag_inv_def split: option.splits)
    note k = key_step [OF assms(1-3) ro(3,1,2)]
    have st: "drag_inv (t\<lparr>td_rowObject := Some ro', td_rows := rows'\<rparr>)" "contents rows' = contents ?rows"
      if "kept ro ?rows ro' rows'" for ro' rows' using store_kept [OF assms(1) ro(2) that] by simp_all
    obtain ro1 rows1 where up: "key_up (rw_id x) ro ?rows = Inr (ro1, rows1)" "kept ro ?rows ro1 rows1" using k(2) by blast
    have "(case td_rowObject t of Some r \<Rightarrow> Some r | None \<Rightarrow> if keyCode \<noteq> 9 then Some ?new else None) = Some ro"
      using False by (auto simp: ro_def split: option.splits)
    then have e: "keydown keyCode (rw_id x) t =
        (let store = (\<lambda>(ro', rows'). t\<lparr>td_rowObject := Some ro', td_rows := rows'\<rparr>) in
         if keyCode \<in> {37, 63234} then Inr (store (snd (indent (- td_rtl t) ro ?rows)))
         else if keyCode \<in> {39, 63235} then Inr (store (snd (indent (td_rtl t) ro ?rows)))
         else if keyCode \<in> {38, 63232} then (case key_up (rw_id x) ro ?rows of Inl e \<Rightarrow> Inl e | Inr p \<Rightarrow> Inr (store p))
         else if keyCode \<in> {40, 63233} then Inr (store (key_down (rw_id x) ro ?rows))
         else Inr (store (ro, ?rows)))"
      unfolding keydown_def Let_def by simp
    show ?thesis
      unfolding e Let_def using st [OF k(1)] st [OF up(2)] st [OF k(3)] st [OF k(4)] up(1)
      by (simp add: case_prod_beta)
  qed
qed

section \<open>The pointer\<close>

lemma interval_at_neighbours:
  "validIndentInterval ro rows p n =
   interval_at ro rows (case p of None \<Rightarrow> [] | Some x \<Rightarrow> [x]) (case n of None \<Rightarrow> [] | Some y \<Rightarrow> [y])"
  by (cases p; cases n) (simp_all add: interval_at_def)

lemma interval_at_pre: "pre \<noteq> [] \<Longrightarrow> interval_at ro rows pre post = interval_at ro rows [last pre] post"
  by (simp add: interval_at_def)

lemma safe_from_neighbours:
  assumes "is_root rows (ro_element ro) = rw_root (hd grp)" and "fst iv \<le> snd iv"
    and "iv = validIndentInterval ro rows (if u = [] then None else Some (last u)) n"
    and "next_level v \<le> (case n of None \<Rightarrow> 0 | Some r \<Rightarrow> rw_indents r)"
  shows "safe_interval ro u grp v iv"
proof -
  let ?n = "case n of None \<Rightarrow> [] | Some y \<Rightarrow> [y]"
  have "iv = interval_at ro rows u ?n"
    using assms(3) interval_at_pre [of u ro rows ?n] unfolding interval_at_neighbours by (cases "u = []") simp_all
  with safe_interval_at [OF assms(1)] assms(2) have "safe_interval ro u grp ?n iv" by simp
  moreover have "next_level ?n = (case n of None \<Rightarrow> 0 | Some r \<Rightarrow> rw_indents r)" by (cases n) (simp_all add: next_level_def)
  ultimately show ?thesis using assms(4) by (auto simp: safe_interval_def)
qed

text \<open>An accepted swap leaves a safe interval, unless the row above the target belongs to the group itself.\<close>

definition own_neighbour :: "row list \<Rightarrow> row_object \<Rightarrow> nat \<Rightarrow> bool" where
  "own_neighbour rows ro i \<longleftrightarrow> ro_direction ro \<noteq> ''down'' \<and>
     (case prev_row rows i of None \<Rightarrow> False | Some p \<Rightarrow> rw_id p \<in> set (ro_group ro))"

lemma accepted_interval:
  assumes "isValidSwap rows i ro = (ro1, True)" and "ro_indentEnabled ro"
  defines "iv \<equiv> (if ro_direction ro = ''down'' then validIndentInterval ro rows (get_row rows i) (next_row rows i)
     else validIndentInterval ro rows (prev_row rows i) (get_row rows i))"
  shows "ro1 = ro\<lparr>ro_interval := Some iv\<rparr>" and "fst iv \<le> snd iv"
  using assms(1,2) by (auto simp: isValidSwap_def iv_def Let_def not_less split: if_splits)

lemma accepted_swap_safe:
  assumes tr: "tracked ro rows pre grp post" and acc: "isValidSwap rows (rw_id x) ro = (ro1, True)"
    and x: "x \<in> set (pre @ post)" and own: "\<not> own_neighbour rows ro (rw_id x)"
  shows "\<exists>u v u' v' iv. pre @ post = u @ x # v \<and> place (drop_position ro) u x v = (u', v') \<and>
     ro1 = ro\<lparr>ro_interval := Some iv\<rparr> \<and> safe_interval ro u' grp v' iv"
proof -
  note t = trackedD [OF tr]
  have root: "is_root rows (ro_element ro) = rw_root (hd grp)" by (rule is_root_block [OF t(4,6)])
  have gx: "get_row rows (rw_id x) = Some x" using get_row_in [OF t(6)] x t(1) by auto
  define iv where "iv = (if ro_direction ro = ''down'' then validIndentInterval ro rows (Some x) (next_row rows (rw_id x))
     else validIndentInterval ro rows (prev_row rows (rw_id x)) (Some x))"
  have iv: "ro1 = ro\<lparr>ro_interval := Some iv\<rparr>" "fst iv \<le> snd iv"
    using accepted_interval [OF acc t(11), unfolded gx] unfolding iv_def by simp_all
  have safe: "safe_interval ro (fst (place (drop_position ro) u x v)) grp (snd (place (drop_position ro) u x v)) iv"
    if "ro_direction ro = ''down'' \<Longrightarrow> next_level v \<le> (case next_row rows (rw_id x) of None \<Rightarrow> 0 | Some r \<Rightarrow> rw_indents r)"
      and "ro_direction ro \<noteq> ''down'' \<Longrightarrow> prev_row rows (rw_id x) = (if u = [] then None else Some (last u))" for u v
  proof (cases "ro_direction ro = ''down''")
    case True
    with that(1) show ?thesis
      by (intro safe_from_neighbours [OF root iv(2), where n = "next_row rows (rw_id x)"]) (simp_all add: drop_position_def iv_def)
  next
    case False
    with that(2) show ?thesis
      by (intro safe_from_neighbours [OF root iv(2), where n = "Some x"]) (simp_all add: drop_position_def iv_def next_level_def)
  qed
  from x consider q u where "pre = u @ x # q" | q v where "post = q @ x # v"
    by (auto simp: in_set_conv_decomp)
  then show ?thesis
  proof cases
    case 1
    have r: "rows = u @ x # q @ grp @ post" using t(1) 1 by simp
    have nx: "rw_id x \<notin> rw_id ` set u" using t(6) unfolding r by auto
    note n = prev_next_rows [OF nx, of "q @ grp @ post", folded r]
    have "next_level (q @ post) \<le> (case next_row rows (rw_id x) of None \<Rightarrow> 0 | Some r \<Rightarrow> rw_indents r)"
      using n(2) t(8,9) by (simp add: next_level_def hd_append_cases split: if_splits)
    then have "safe_interval ro (fst (place (drop_position ro) u x (q @ post))) grp (snd (place (drop_position ro) u x (q @ post))) iv"
      using n(1) by (intro safe)
    moreover have "pre @ post = u @ x # q @ post" using 1 by simp
    ultimately show ?thesis using iv(1) by (metis prod.collapse)
  next
    case 2
    let ?u = "pre @ q"
    have r: "rows = (pre @ grp @ q) @ x # v" using t(1) 2 by simp
    have nx: "rw_id x \<notin> rw_id ` set (pre @ grp @ q)" using t(6) unfolding r by auto
    note n = prev_next_rows [OF nx, of v, folded r]
    have "q \<noteq> []" if "ro_direction ro \<noteq> ''down''"
      using own that n(1) t(7,8) by (auto simp: own_neighbour_def)
    then have "prev_row rows (rw_id x) = (if ?u = [] then None else Some (last ?u))" if "ro_direction ro \<noteq> ''down''"
      using n(1) that t(8) by auto
    then have "safe_interval ro (fst (place (drop_position ro) ?u x v)) grp (snd (place (drop_position ro) ?u x v)) iv"
      using n(2) by (intro safe) (simp_all add: next_level_def)
    moreover have "pre @ post = ?u @ x # v" using 2 by simp
    ultimately show ?thesis using iv(1) by (metis prod.collapse)
  qed
qed

text \<open>
  The row under the pointer, and the calls that are harmless: no row, a row of the group, or an accepted swap next to
  rows outside the group.
\<close>

definition row_under :: "(row list \<Rightarrow> nat \<Rightarrow> int \<times> int) \<Rightarrow> int \<Rightarrow> row list \<Rightarrow> row option" where
  "row_under geom y rows = find (\<lambda>r. \<not> rw_hidden r \<and> over_row (geom rows (rw_id r)) y) rows"

definition clean_target :: "(row list \<Rightarrow> nat \<Rightarrow> int \<times> int) \<Rightarrow> int \<Rightarrow> row list \<Rightarrow> row_object \<Rightarrow> bool" where
  "clean_target geom y rows ro \<longleftrightarrow>
     (case row_under geom y rows of
        None \<Rightarrow> True
      | Some r \<Rightarrow> rw_id r \<in> set (ro_group ro) \<or> snd (isValidSwap rows (rw_id r) ro) \<and> \<not> own_neighbour rows ro (rw_id r))"

lemma dragRow_unfold:
  assumes "td_dragObject t = Some d" and "td_rowObject t = Some ro" and "td_indentEnabled t"
    and "drag_vertical geom (snd pointer - snd (do_initOffset d)) (td_oldY t) ro (td_rows t) = (ro1, rows1)"
    and "indent (js_round_div (fst pointer - do_indentPointerX d) (td_indentAmount t)) ro1 rows1 = (change, ro2, rows2)"
  shows "td_rows (dragRow geom pointer t) = rows2" and "td_rowObject (dragRow geom pointer t) = Some ro2"
    and "td_maxDepth (dragRow geom pointer t) = td_maxDepth t" and "td_indentEnabled (dragRow geom pointer t)"
proof -
  have "dragRow geom pointer t =
      t\<lparr>td_rows := rows2, td_rowObject := Some ro2, td_oldY := snd pointer - snd (do_initOffset d),
        td_dragObject := Some (d\<lparr>do_indentPointerX := do_indentPointerX d + td_indentAmount t * change * td_rtl t\<rparr>),
        td_indentCount := max (td_indentCount t) (ro_indents ro2)\<rparr>"
    using assms by (simp add: dragRow_def Let_def)
  then show "td_rows (dragRow geom pointer t) = rows2" "td_rowObject (dragRow geom pointer t) = Some ro2"
    "td_maxDepth (dragRow geom pointer t) = td_maxDepth t" "td_indentEnabled (dragRow geom pointer t)"
    using assms(3) by simp_all
qed

lemma drag_vertical_kept:
  assumes "good ro rows" and "y = oldY \<or> clean_target geom y rows (directed y oldY ro)"
    and "drag_vertical geom y oldY ro rows = (ro1, rows1)" and "indent d ro1 rows1 = (change, ro2, rows2)"
  shows "kept ro rows ro2 rows2"
proof -
  let ?ro = "directed y oldY ro"
  have g: "good ?ro rows" "ro_maxDepth ?ro = ro_maxDepth ro"
    using good_direction [OF assms(1), of "ro_direction ?ro"] by (simp_all add: directed_def kept_def)
  have quiet: "kept ro rows ro2 rows2" if "good ro1 rows" "rows1 = rows" "ro_maxDepth ro1 = ro_maxDepth ro"
    using indent_good [OF that(1), of d change ro2 rows2] assms(4) that by (simp add: kept_def)
  show ?thesis
  proof (cases "y = oldY")
    case True
    then have "ro1 = ro" "rows1 = rows" using assms(3) by (simp_all add: drag_vertical_def)
    then show ?thesis using assms(1) by (intro quiet) simp_all
  next
    case False
    with assms(2) have clean: "clean_target geom y rows ?ro" by simp
    from g(1) have en: "ro_indentEnabled ?ro" by (auto simp: good_def dest: trackedD(11))
    show ?thesis
    proof (cases "row_under geom y rows")
      case None
      then have "ro1 = ?ro" "rows1 = rows"
        using False assms(3) by (simp_all add: drag_vertical_def findDropTargetRow_def row_under_def)
      then show ?thesis using g by (intro quiet) simp_all
    next
      case (Some r)
      show ?thesis
      proof (cases "rw_id r \<in> set (ro_group ?ro)")
        case True
        then have "ro1 = ?ro" "rows1 = rows"
          using Some False assms(3) en by (simp_all add: drag_vertical_def findDropTargetRow_def row_under_def)
        then show ?thesis using g by (intro quiet) simp_all
      next
        case out: False
        with clean Some have ok: "snd (isValidSwap rows (rw_id r) ?ro)" and own: "\<not> own_neighbour rows ?ro (rw_id r)"
          by (simp_all add: clean_target_def)
        from ok obtain ro' where acc: "isValidSwap rows (rw_id r) ?ro = (ro', True)" by (metis prod.collapse)
        from g(1) obtain pre grp post where tr: "tracked ?ro rows pre grp post" by (auto simp: good_def)
        note t = trackedD [OF tr]
        have "r \<in> set rows" using Some by (auto simp: row_under_def find_Some_iff in_set_conv_nth)
        then have "r \<in> set (pre @ post)" using t(1,7) out by auto
        from accepted_swap_safe [OF tr acc this own] obtain u v u' v' iv where
          uv: "pre @ post = u @ r # v" and p: "place (drop_position ?ro) u r v = (u', v')"
          and ro': "ro' = ?ro\<lparr>ro_interval := Some iv\<rparr>" and safe: "safe_interval ?ro u' grp v' iv" by blast
        have s: "swap (drop_position ?ro) (rw_id r) ro' rows = (ro1, rows1)"
          using assms(3) False Some out en acc by (simp add: drag_vertical_def findDropTargetRow_def row_under_def)
        have e: "ro' = ?ro\<lparr>ro_interval := Some iv, ro_direction := ro_direction ?ro\<rparr>" using ro' by simp
        have "safe_interval ?ro u' grp v' (case Some iv of Some v \<Rightarrow> v | None \<Rightarrow> interval_at ?ro rows1 u' v')" using safe by simp
        from swap_indent_good [OF tr uv p s e this assms(4)] g(2) show ?thesis by (simp add: kept_def)
      qed
    qed
  qed
qed

text \<open>
  C8. A pointer drag keeps the table a forest within its depth limit: after each move event the group has been moved
  and indented so that no row is orphaned or too deep, and no row is lost or changed otherwise. This holds for events
  that find no target row, one of the group, or one with which a swap is accepted and whose upper neighbour is not in the group.
\<close>

theorem dragRow_keeps_forest:
  assumes "drag_inv t" and "td_dragObject t = Some d" and "td_rowObject t = Some ro"
    and "y = snd pointer - snd (do_initOffset d)"
    and "y = td_oldY t \<or> clean_target geom y (td_rows t) (directed y (td_oldY t) ro)"
  shows "drag_inv (dragRow geom pointer t) \<and> contents (td_rows (dragRow geom pointer t)) = contents (td_rows t)"
proof -
  have inv: "good ro (td_rows t)" "ro_maxDepth ro = td_maxDepth t" "td_indentEnabled t"
    using assms(1,3) by (simp_all add: drag_inv_def)
  obtain ro1 rows1 where s: "drag_vertical geom y (td_oldY t) ro (td_rows t) = (ro1, rows1)" by fastforce
  obtain change ro2 rows2 where
    i: "indent (js_round_div (fst pointer - do_indentPointerX d) (td_indentAmount t)) ro1 rows1 = (change, ro2, rows2)"
    by (metis surj_pair)
  have k: "kept ro (td_rows t) ro2 rows2" by (rule drag_vertical_kept [OF inv(1) assms(5) s i])
  note u = dragRow_unfold [OF assms(2,3) inv(3) s [unfolded assms(4)] i]
  have "good ro2 rows2" "ro_maxDepth ro2 = td_maxDepth t" "contents rows2 = contents (td_rows t)"
    using k inv(2) by (simp_all add: kept_def)
  then show ?thesis using u good_tree [of ro2 rows2] by (simp add: drag_inv_def)
qed

section \<open>Bounds of an indentation\<close>

lemma indent_change:
  assumes "tracked ro rows pre grp post" and "ro_interval ro = None" and "indent d ro rows = (change, ro', rows')"
  shows "if 0 \<le> d then 0 \<le> change \<and> change \<le> d else d \<le> change \<and> change \<le> 0"
proof -
  note t = trackedD [OF assms(1)]
  let ?iv = "interval_at ro rows pre post"
  have mv: "movable ro rows pre grp post" using movable_moved [OF assms(1) refl] t(1,4) by simp
  have root: "is_root rows (ro_element ro) = rw_root (hd grp)" by (rule is_root_block [OF t(4,6)])
  have lev: "fst ?iv \<le> ro_indents ro" "ro_indents ro \<le> snd ?iv"
    using current_level_valid [OF t(2,10,3)] interval_at_bounds(1) [OF root, of pre post] by simp_all
  then have "safe_interval ro pre grp post ?iv" by (intro safe_interval_at [OF root]) simp
  from indent_movable(1) [OF mv this, of d] assms(2,3) have "change = level_in ro d ?iv - ro_indents ro" by simp
  with lev show ?thesis by (auto simp: level_in_def)
qed

text \<open>
  C30. The first indentation of a freshly made row object (\<open>new this.row\<close>, before any swap has stored an interval in
  it, for a row at its place in a table with indentation) goes in the proposed direction and no further than proposed: the change lies between 0 and the
  proposed difference, the row object knows the new level, the table stays a forest and no row gets deeper than the
  limit of the table.
\<close>

theorem indent_bounds:
  assumes "tree_ok rows" and "depth_ok maxDepth rows" and "x \<in> set rows" and "rw_draggable x"
    and "indent d (new_row rows (rw_id x) True maxDepth) rows = (change, ro', rows')"
  shows "(if 0 \<le> d then 0 \<le> change \<and> change \<le> d else d \<le> change \<and> change \<le> 0) \<and>
     ro_indents ro' = int (rw_indents x) + change \<and> tree_ok rows' \<and> depth_ok maxDepth rows'"
proof -
  let ?ro = "new_row rows (rw_id x) True maxDepth"
  have ro: "ro_interval ?ro = None" "ro_maxDepth ?ro = maxDepth" "ro_indents ?ro = int (rw_indents x)"
    using indents_of_in [OF tree_okD(3) [OF assms(1)] assms(3)] by (simp_all add: new_row_def Let_def)
  have g: "good ?ro rows" by (rule new_row_good [OF assms(1-4)])
  then obtain pre grp post where tr: "tracked ?ro rows pre grp post" by (auto simp: good_def)
  note i = indent_good [OF g assms(5)]
  show ?thesis
    using indent_change [OF tr ro(1) assms(5)] i(3,5) good_tree [OF i(1)] ro by simp
qed

section \<open>Sample tables\<close>

definition plain_row :: "nat \<Rightarrow> nat \<Rightarrow> row" where
  "plain_row i n = \<lparr>rw_id = i, rw_draggable = True, rw_root = False, rw_leaf = False, rw_hidden = False, rw_indents = n,
     rw_fields = [], rw_changed = False\<rparr>"

definition levels_table :: "int \<Rightarrow> nat list \<Rightarrow> drag_table" where
  "levels_table maxDepth ns =
     \<lparr>td_rows = map (\<lambda>i. plain_row i (ns ! i)) [0..<length ns], td_settings = [], td_indentEnabled = True,
      td_maxDepth = maxDepth, td_rtl = 1, td_indentAmount = 30, td_indentCount = 1, td_rowObject = None,
      td_dragObject = None, td_oldY = 0, td_changed = False\<rparr>"

definition row_levels :: "drag_table \<Rightarrow> (nat \<times> nat) list" where
  "row_levels t = map (\<lambda>r. (rw_id r, rw_indents r)) (td_rows t)"

text \<open>Rows of height 20, one below the other.\<close>

definition stacked :: "row list \<Rightarrow> nat \<Rightarrow> int \<times> int" where
  "stacked rows i = (20 * int (length (rows_before rows i)), 20)"

fun drag_path :: "(int \<times> int) list \<Rightarrow> drag_table \<Rightarrow> drag_table" where
  "drag_path [] t = t"
| "drag_path (p # ps) t = drag_path ps (dragRow stacked p t)"

definition dragging :: "nat \<Rightarrow> drag_table \<Rightarrow> drag_table" where
  "dragging i t = (case dragStart (0, 20 * int i) (0, 20 * int i) i t of Inr t' \<Rightarrow> t' | Inl e \<Rightarrow> t)"

lemma levels_tree: "tree_ok (td_rows (levels_table md ns)) \<longleftrightarrow> tree_ok (map (\<lambda>i. plain_row i (ns ! i)) [0..<length ns])"
  by (simp add: levels_table_def)

theorem indent_bounds_witness:
  "\<exists>ro' rows'. indent 5 (new_row (td_rows (levels_table 2 [0, 1, 0, 1])) 2 True 2) (td_rows (levels_table 2 [0, 1, 0, 1])) =
     (1, ro', rows') \<and> map rw_indents rows' = [0, 1, 1, 2] \<and> tree_ok rows'"
proof -
  let ?rows = "td_rows (levels_table 2 [0, 1, 0, 1])"
  let ?x = "plain_row 2 0"
  obtain change ro' rows' where i: "indent 5 (new_row ?rows (rw_id ?x) True 2) ?rows = (change, ro', rows')" by (metis surj_pair)
  have "tree_ok ?rows" "depth_ok 2 ?rows" "?x \<in> set ?rows" "rw_draggable ?x" by code_simp+
  from indent_bounds [OF this i] have "tree_ok rows'" by simp
  moreover have "fst (indent 5 (new_row ?rows (rw_id ?x) True 2) ?rows) = 1"
    "map rw_indents (snd (snd (indent 5 (new_row ?rows (rw_id ?x) True 2) ?rows))) = [0, 1, 1, 2]" by code_simp+
  moreover have "rw_id ?x = 2" by (simp add: plain_row_def)
  ultimately show ?thesis using i by auto
qed

theorem keydown_keeps_forest_witness:
  "\<exists>t'. keydown 40 1 (levels_table 0 [0, 1, 0, 1]) = Inr t' \<and> tree_ok (td_rows t') \<and> map rw_id (td_rows t') = [0, 2, 1, 3]"
proof -
  let ?t = "levels_table 0 [0, 1, 0, 1]"
  let ?x = "plain_row 1 1"
  have inv: "drag_inv ?t"
  proof -
    have "tree_ok (td_rows ?t)" "depth_ok (td_maxDepth ?t) (td_rows ?t)" "td_indentEnabled ?t" by code_simp+
    then show ?thesis by (simp add: drag_inv_def levels_table_def)
  qed
  have "td_maxDepth ?t = 0" "list_all (\<lambda>r. \<not> rw_hidden r) (td_rows ?t)" "?x \<in> set (td_rows ?t)" "rw_draggable ?x" by code_simp+
  moreover have "\<forall>ro. td_rowObject ?t = Some ro \<longrightarrow> ro_element ro = rw_id ?x" by (simp add: levels_table_def)
  ultimately obtain t' where t': "keydown 40 (rw_id ?x) ?t = Inr t'" "drag_inv t'"
    using keydown_keeps_forest [OF inv, of ?x 40] by blast
  have "(case keydown 40 1 ?t of Inr t \<Rightarrow> map rw_id (td_rows t) | Inl e \<Rightarrow> []) = [0, 2, 1, 3]" by code_simp
  moreover have "rw_id ?x = 1" by (simp add: plain_row_def)
  ultimately show ?thesis using t' by (auto simp: drag_inv_def)
qed

lemma dragStart_inv:
  assumes "drag_inv t" and "td_rowObject t = None" and "x \<in> set (td_rows t)" and "rw_draggable x"
    and "dragStart pointer docPos (rw_id x) t = Inr t'"
  shows "drag_inv t'" and "td_rows t' = td_rows t"
proof -
  have inv: "tree_ok (td_rows t)" "depth_ok (td_maxDepth t) (td_rows t)" "td_indentEnabled t"
    using assms(1) by (simp_all add: drag_inv_def)
  have t': "td_rows t' = td_rows t" "td_maxDepth t' = td_maxDepth t" "td_indentEnabled t' = td_indentEnabled t"
    "td_rowObject t' = Some (new_row (td_rows t) (rw_id x) True (td_maxDepth t))"
    using assms(2,5) inv(3) by (auto simp: dragStart_def blur_def)
  then show "td_rows t' = td_rows t" by simp
  have "ro_maxDepth (new_row (td_rows t) (rw_id x) True (td_maxDepth t)) = td_maxDepth t"
    by (simp add: new_row_def Let_def)
  with t' inv new_row_good [OF inv(1,2) assms(3,4)] show "drag_inv t'" by (simp add: drag_inv_def)
qed

theorem dragRow_keeps_forest_witness:
  "row_levels (dragRow stacked (0, 20) (dragging 2 (levels_table 2 [0, 1, 0, 1]))) = [(0, 0), (2, 1), (3, 2), (1, 1)] \<and>
   drag_inv (dragRow stacked (0, 20) (dragging 2 (levels_table 2 [0, 1, 0, 1])))"
proof -
  let ?tbl = "levels_table 2 [0, 1, 0, 1]" and ?x = "plain_row 2 0"
  let ?t = "dragging 2 ?tbl"
  have "tree_ok (td_rows ?tbl)" "depth_ok (td_maxDepth ?tbl) (td_rows ?tbl)" "td_indentEnabled ?tbl" by code_simp+
  then have inv0: "drag_inv ?tbl" by (simp add: drag_inv_def levels_table_def)
  have s: "dragStart (0, 40) (0, 40) (rw_id ?x) ?tbl = Inr ?t"
    by (simp add: dragging_def dragStart_def blur_def levels_table_def plain_row_def)
  have m: "?x \<in> set (td_rows ?tbl)" "rw_draggable ?x" by code_simp+
  have "td_rowObject ?tbl = None" by (simp add: levels_table_def)
  then have inv: "drag_inv ?t" by (rule dragStart_inv(1) [OF inv0 _ m s])
  let ?ro = "new_row (td_rows ?tbl) 2 True 2" and ?d = "\<lparr>do_initOffset = (0, 0), do_indentPointerX = 0\<rparr>"
  have d: "td_dragObject ?t = Some ?d" "td_rowObject ?t = Some ?ro"
    by (simp_all add: dragging_def dragStart_def blur_def levels_table_def)
  have "clean_target stacked 20 (td_rows ?t) (directed 20 (td_oldY ?t) ?ro)" by code_simp
  with dragRow_keeps_forest [OF inv d, of 20 "(0, 20)" stacked] have "drag_inv (dragRow stacked (0, 20) ?t)" by simp
  moreover have "row_levels (dragRow stacked (0, 20) ?t) = [(0, 0), (2, 1), (3, 2), (1, 1)]" by code_simp
  ultimately show ?thesis by simp
qed

section \<open>Where the forest breaks\<close>

text \<open>
  The pointer can indent the first row of a table, which has no row above it. First, a row with a child is dragged
  over a place that is too deep for it: the swap is rejected, but the interval of that place stays in the row
  object and is used where the row is. Second, the pointer returns from below the table to the row under the dragged
  one: the swap changes nothing, but the interval is computed from the dragged row itself as the row above.
\<close>

theorem drag_indents_first_row:
  "row_levels (drag_path [(0, 60)] (dragging 0 (levels_table 2 [0, 1, 0, 1, 2]))) = [(0, 1), (1, 2), (2, 0), (3, 1), (4, 2)] \<and>
   row_levels (drag_path [(0, 60), (30, 20)] (dragging 0 (levels_table 0 [0, 0]))) = [(0, 1), (1, 0)]"
  by code_simp

text \<open>
  The arrow keys move a row without testing whether its group fits: in a table with the depth limit 3, moving a
  group of four levels up between a row and its deep descendants leaves a row at level 3 directly below one at level 1.
\<close>

theorem keyboard_orphans_row:
  "(case keydown 38 4 (levels_table 3 [0, 1, 2, 3, 0, 1, 2, 3, 1]) of
      Inl e \<Rightarrow> []
    | Inr t \<Rightarrow> row_levels t) = [(0, 0), (1, 1), (2, 2), (4, 0), (5, 1), (6, 2), (7, 3), (8, 1), (3, 3)]"
  by code_simp

text \<open>
  The first drag after a row was moved with the keyboard does nothing: starting to drag drops the row that is left
  from the keyboard, which also discards the drag object that has just been created, and every later move event is ignored.
\<close>

theorem drag_after_keyboard_ignored:
  assumes "td_rowObject t \<noteq> None" and "dragStart start docPos item t = Inr t'"
  shows "td_dragObject t' = None \<and> dragRow geom pointer t' = t'"
proof -
  obtain t1 where t1: "dropRow (t\<lparr>td_dragObject := Some \<lparr>do_initOffset = (fst start - fst docPos, snd start - snd docPos),
      do_indentPointerX = fst start\<rparr>\<rparr>) = Inr t1"
    "t' = t1\<lparr>td_rowObject := Some (new_row (td_rows t1) item (td_indentEnabled t1) (td_maxDepth t1)), td_oldY := snd start\<rparr>"
    using assms by (auto simp: dragStart_def blur_def split: sum.splits)
  have "td_dragObject t1 = None"
    using t1(1) by (auto simp: dropRow_def split: option.splits if_splits sum.splits)
  with t1(2) show ?thesis by (simp add: dragRow_def)
qed

theorem drag_after_keyboard_ignored_witness:
  "\<exists>t t'. keydown 40 0 (levels_table 0 [0, 0]) = Inr t \<and> dragStart (0, 0) (0, 0) 1 t = Inr t' \<and>
     dragRow stacked (0, 20) t' = t'"
proof -
  let ?t = "case keydown 40 0 (levels_table 0 [0, 0]) of Inr t \<Rightarrow> t | Inl e \<Rightarrow> levels_table 0 [0, 0]"
  let ?t' = "case dragStart (0, 0) (0, 0) 1 ?t of Inr t \<Rightarrow> t | Inl e \<Rightarrow> ?t"
  have e: "(case keydown 40 0 (levels_table 0 [0, 0]) of Inr t \<Rightarrow> True | Inl e \<Rightarrow> False)"
    "(case dragStart (0, 0) (0, 0) 1 ?t of Inr t \<Rightarrow> True | Inl e \<Rightarrow> False)"
    "(case td_rowObject ?t of Some ro \<Rightarrow> True | None \<Rightarrow> False)" by code_simp+
  have k: "keydown 40 0 (levels_table 0 [0, 0]) = Inr ?t" using e(1) by (auto split: sum.splits)
  have s: "dragStart (0, 0) (0, 0) 1 ?t = Inr ?t'" using e(2) by (auto split: sum.splits)
  have "td_rowObject ?t \<noteq> None" using e(3) by (auto split: option.splits)
  from drag_after_keyboard_ignored [OF this s] k s show ?thesis by blast
qed

end
