(* ===== verification/Tabledrag_Forest.thy ===== *)
theory Tabledrag_Forest
  imports Tabledrag_Tree
begin

text \<open>
  The specification of a draggable table as an ordered forest of rows: what the code computes from indentations are
  the subtree, the parent and the siblings of a row. The theory also holds the properties of the form fields.
\<close>

section \<open>Forests\<close>

datatype node = Node row "node list"

fun node_row :: "node \<Rightarrow> row" where
  "node_row (Node r ts) = r"

text \<open>The rows of a tree whose root is at the level \<open>d\<close>.\<close>

fun flat :: "nat \<Rightarrow> node \<Rightarrow> row list" where
  "flat d (Node r ts) = r\<lparr>rw_indents := d\<rparr> # concat (map (flat (Suc d)) ts)"

definition table_of :: "nat \<Rightarrow> node list \<Rightarrow> row list" where
  "table_of d ts = concat (map (flat d) ts)"

lemma flat_Node [simp]: "flat d (Node r ts) = r\<lparr>rw_indents := d\<rparr> # table_of (Suc d) ts"
  by (simp add: table_of_def)

declare flat.simps [simp del]

lemma table_of_simps [simp]:
  "table_of d [] = []" "table_of d (t # ts) = flat d t @ table_of d ts" "table_of d (ts @ us) = table_of d ts @ table_of d us"
  by (simp_all add: table_of_def)

text \<open>The lists of sibling trees of a forest, with their level.\<close>

inductive family :: "nat \<Rightarrow> node list \<Rightarrow> nat \<Rightarrow> node list \<Rightarrow> bool" where
  top: "family d ts d ts"
| below: "family d ts e (us @ Node r vs # ws) \<Longrightarrow> family d ts (Suc e) vs"

text \<open>A family and its descendants are a contiguous part of the table, and what follows is less deep.\<close>

lemma family_contiguous:
  "family d ts e us \<Longrightarrow> \<exists>A B. table_of d ts = A @ table_of e us @ B \<and> (B \<noteq> [] \<longrightarrow> rw_indents (hd B) < e)"
proof (induction rule: family.induct)
  case (top d ts)
  have "table_of d ts = [] @ table_of d ts @ []" by simp
  then show ?case by blast
next
  case (below d ts e us r vs ws)
  then obtain A B where A: "table_of d ts = A @ table_of e (us @ Node r vs # ws) @ B" "B \<noteq> [] \<longrightarrow> rw_indents (hd B) < e" by blast
  let ?B = "table_of e ws @ B"
  have "table_of d ts = (A @ table_of e us @ [r\<lparr>rw_indents := e\<rparr>]) @ table_of (Suc e) vs @ ?B"
    using A(1) by (simp add: flat_Node)
  moreover have "rw_indents (hd ?B) < Suc e" if "?B \<noteq> []"
    using that A(2) by (cases ws; cases "hd ws") (auto simp: flat_Node)
  ultimately show ?case by blast
qed

lemma flat_levels: "r \<in> set (flat d t) \<Longrightarrow> d \<le> rw_indents r"
  by (induction d t rule: flat.induct) (fastforce simp: table_of_def)

lemma table_levels: "r \<in> set (table_of d ts) \<Longrightarrow> d \<le> rw_indents r"
  by (auto simp: table_of_def dest: flat_levels)


lemma same_level_deeper: "\<forall>r \<in> set xs. e < rw_indents r \<Longrightarrow> same_level True (int e) (xs @ ys) = same_level True (int e) ys"
  by (induction xs) auto

lemma same_level_table: "same_level True (int e) (table_of e us @ ys) = map (\<lambda>t. (node_row t)\<lparr>rw_indents := e\<rparr>) us @ same_level True (int e) ys"
proof (induction us)
  case (Cons t us)
  obtain r vs where t: "t = Node r vs" by (cases t)
  have "\<forall>q \<in> set (table_of (Suc e) vs). e < rw_indents q" using table_levels [of _ "Suc e" vs] by fastforce
  from same_level_deeper [OF this] Cons show ?case by (simp add: t)
qed simp

lemma same_level_table_rev:
  "same_level True (int e) (rev (table_of e us) @ ys) = rev (map (\<lambda>t. (node_row t)\<lparr>rw_indents := e\<rparr>) us) @ same_level True (int e) ys"
proof (induction us rule: rev_induct)
  case (snoc t us)
  obtain r vs where t: "t = Node r vs" by (cases t)
  have "\<forall>q \<in> set (rev (table_of (Suc e) vs)). e < rw_indents q" using table_levels [of _ "Suc e" vs] by fastforce
  from same_level_deeper [OF this] snoc show ?case by (simp add: t)
qed simp

lemma same_level_stop: "(B \<noteq> [] \<longrightarrow> rw_indents (hd B) < e) \<Longrightarrow> same_level True (int e) B = []"
  by (cases B) auto

text \<open>
  C12. The code reads a table as the forest that it shows: for a row at any place of a forest, the group that is moved
  with it is its subtree, the row that is looked up as its parent is its parent, and the rows whose weights are
  numbered anew are the children of that parent, in their order.
\<close>

theorem table_refines_forest:
  assumes "family 0 ts d (ps @ Node p (us @ Node c vs # ws) # qs)" and "distinct (map rw_id (table_of 0 ts))"
    and "\<forall>r \<in> set (table_of 0 ts). rw_draggable r"
  shows "let rows = table_of 0 ts; ro = new_row rows (rw_id c) True maxDepth in
     ro_group ro = map rw_id (flat (Suc d) (Node c vs)) \<and>
     parent_source rows (c\<lparr>rw_indents := Suc d\<rparr>) ro = (Some (p\<lparr>rw_indents := d\<rparr>), False) \<and>
     findSiblings rows ro = map (\<lambda>t. rw_id (node_row t)) (us @ Node c vs # ws)"
proof -
  define rows where "rows = table_of 0 ts"
  define ro where "ro = new_row rows (rw_id c) True maxDepth"
  let ?c = "c\<lparr>rw_indents := Suc d\<rparr>" and ?p = "p\<lparr>rw_indents := d\<rparr>"
  have "family 0 ts (Suc d) (us @ Node c vs # ws)" using assms(1) by (rule family.below)
  from family_contiguous [OF assms(1)] obtain A B where
    A: "rows = A @ table_of d (ps @ Node p (us @ Node c vs # ws) # qs) @ B" "B \<noteq> [] \<longrightarrow> rw_indents (hd B) < d"
    unfolding rows_def by blast
  let ?A = "A @ table_of d ps @ [?p]" and ?B = "table_of d qs @ B"
  let ?pre = "?A @ table_of (Suc d) us" and ?post = "table_of (Suc (Suc d)) vs @ table_of (Suc d) ws @ ?B"
  have r: "rows = ?pre @ ?c # ?post" using A(1) by simp
  have B: "?B \<noteq> [] \<longrightarrow> rw_indents (hd ?B) < Suc d" using A(2) by (cases qs; cases "hd qs") auto
  have dist: "distinct (map rw_id rows)" using assms(2) by (simp add: rows_def)
  then have nc: "rw_id ?c \<notin> rw_id ` set ?pre" unfolding r by auto
  note sp = split_at_id [OF nc, of ?post, folded r]
  have ind: "indents_of rows (rw_id c) = Suc d" using sp(3) by (simp add: indents_of_def)
  have dr: "rw_draggable q" if "q \<in> set ?post" for q using assms(3) that r unfolding rows_def by auto
  have "takeWhile (\<lambda>q. rw_draggable q \<and> rw_indents q > Suc d) ?post = table_of (Suc (Suc d)) vs"
  proof -
    have "\<forall>q \<in> set (table_of (Suc (Suc d)) vs). rw_draggable q \<and> rw_indents q > Suc d"
      using table_levels [of _ "Suc (Suc d)" vs] dr by fastforce
    moreover have "takeWhile (\<lambda>q. rw_draggable q \<and> rw_indents q > Suc d) (table_of (Suc d) ws @ ?B) = []"
      using B by (cases ws; cases "hd ws"; cases ?B) auto
    ultimately show ?thesis by (simp add: takeWhile_append2)
  qed
  then have g: "ro_group ro = map rw_id (flat (Suc d) (Node c vs))"
    using ind sp(2) by (simp add: ro_def new_row_def Let_def findChildren_def)
  have ro: "ro_indents ro = int (Suc d)" "ro_element ro = rw_id c" "ro_indentEnabled ro"
    using ind by (simp_all add: ro_def new_row_def Let_def)
  have "dropWhile (\<lambda>q. int (rw_indents q) \<ge> int (Suc d)) (rev ?pre) = ?p # rev (A @ table_of d ps)"
  proof -
    have "\<forall>q \<in> set (rev (table_of (Suc d) us)). int (rw_indents q) \<ge> int (Suc d)"
      using table_levels [of _ "Suc d" us] by fastforce
    from dropWhile_append2 [of "rev (table_of (Suc d) us)" "\<lambda>q. int (rw_indents q) \<ge> int (Suc d)" "rev ?A"] this
    show ?thesis by simp
  qed
  then have p: "parent_source rows ?c ro = (Some ?p, False)"
    using sp(1) ro(1) by (simp add: parent_source_def)
  have "same_level True (int (Suc d)) (rev ?pre) = rev (map (\<lambda>t. (node_row t)\<lparr>rw_indents := Suc d\<rparr>) us)"
    using same_level_table_rev [of "Suc d" us "rev ?A"] by simp
  moreover have "same_level True (int (Suc d)) ?post = map (\<lambda>t. (node_row t)\<lparr>rw_indents := Suc d\<rparr>) ws"
    using same_level_deeper [of "table_of (Suc (Suc d)) vs" "Suc d" "table_of (Suc d) ws @ ?B"] same_level_table [of "Suc d" ws ?B]
      same_level_stop [OF B] table_levels [of _ "Suc (Suc d)" vs] by fastforce
  ultimately have "findSiblings rows ro = map (\<lambda>t. rw_id (node_row t)) (us @ Node c vs # ws)"
    using sp(1,2) ro by (simp add: findSiblings_def rev_map comp_def)
  with g p show ?thesis unfolding Let_def rows_def [symmetric] ro_def [symmetric] by blast
qed

section \<open>Weights\<close>

text \<open>The values of the fields of a class in some rows, in the order of the table.\<close>

definition target_values :: "string \<Rightarrow> nat list \<Rightarrow> row list \<Rightarrow> string list" where
  "target_values c is rows = concat (map (\<lambda>r. map ff_value (row_find c r)) (filter (\<lambda>r. rw_id r \<in> set is) rows))"

fun dealt :: "('s \<Rightarrow> string \<times> 's) \<Rightarrow> 's \<Rightarrow> nat \<Rightarrow> string list \<times> 's" where
  "dealt nxt s 0 = ([], s)"
| "dealt nxt s (Suc n) = (case dealt nxt (snd (nxt s)) n of (vs, s') \<Rightarrow> (fst (nxt s) # vs, s'))"

lemma dealt_append:
  "dealt nxt s (m + n) = (case dealt nxt s m of (vs, s1) \<Rightarrow> case dealt nxt s1 n of (ws, s2) \<Rightarrow> (vs @ ws, s2))"
  by (induction m arbitrary: s) (simp_all split: prod.splits)

text \<open>A field to which every value can be assigned: an input, or a select that offers them all.\<close>

definition takes :: "string set \<Rightarrow> form_field \<Rightarrow> bool" where
  "takes vs f \<longleftrightarrow> (case ff_options f of None \<Rightarrow> True | Some xs \<Rightarrow> vs \<subseteq> set xs)"

lemma set_value_class [simp]: "has_class c (set_value v f) = has_class c f"
  by (simp add: has_class_def set_value_def)

lemma set_value_takes: "takes vs f \<Longrightarrow> v \<in> vs \<Longrightarrow> ff_value (set_value v f) = v"
  by (auto simp: takes_def set_value_def split: option.splits)

lemma assign_fields_dealt:
  assumes "\<forall>f \<in> set fs. has_class c f \<longrightarrow> takes vs f" and "\<And>s. fst (nxt s) \<in> vs"
  shows "(map ff_value (filter (has_class c) (fst (assign_fields nxt c fs s))), snd (assign_fields nxt c fs s)) =
     dealt nxt s (length (filter (has_class c) fs))"
  using assms(1)
proof (induction fs arbitrary: s)
  case (Cons f fs)
  show ?case
  proof (cases "has_class c f")
    case True
    then have "ff_value (set_value (fst (nxt s)) f) = fst (nxt s)" using Cons.prems assms(2) by (auto intro: set_value_takes)
    with True Cons.IH [of "snd (nxt s)", symmetric] Cons.prems show ?thesis by (simp add: case_prod_beta)
  next
    case False
    with Cons.IH [of s, symmetric] Cons.prems show ?thesis by (simp split: prod.splits)
  qed
qed simp

lemma assign_rows_dealt:
  assumes "\<forall>r \<in> set rows. \<forall>f \<in> set (rw_fields r). has_class c f \<longrightarrow> takes vs f" and "\<And>s. fst (nxt s) \<in> vs"
  shows "target_values c is (assign_rows nxt c is rows s) = fst (dealt nxt s (length (target_values c is rows)))"
  using assms(1)
proof (induction rows arbitrary: s)
  case (Cons r rows)
  show ?case
  proof (cases "rw_id r \<in> set is")
    case True
    obtain fs s1 where a: "assign_fields nxt c (rw_fields r) s = (fs, s1)" by fastforce
    have "(map ff_value (filter (has_class c) fs), s1) = dealt nxt s (length (row_find c r))"
      using assign_fields_dealt [of "rw_fields r" c vs nxt s] Cons.prems assms(2) a by (simp add: row_find_def)
    with True a Cons.IH [of s1] Cons.prems show ?thesis
      by (simp add: target_values_def row_find_def dealt_append split: prod.splits)
        (metis (no_types, lifting) fst_conv snd_conv)
  next
    case False
    with Cons.IH [of s] Cons.prems show ?thesis by (simp add: target_values_def)
  qed
qed (simp add: target_values_def)

lemma assign_rows_frame:
  "map rw_id (assign_rows nxt c is rows s) = map rw_id rows" "map rw_indents (assign_rows nxt c is rows s) = map rw_indents rows"
  by (induction rows arbitrary: s) (simp_all split: prod.splits)

lemma dealt_weights: "fst (dealt next_weight w n) = map (\<lambda>k. int_str (w + int k)) [0..<n]"
proof (induction n arbitrary: w)
  case (Suc n)
  have "[0..<Suc n] = 0 # map Suc [0..<n]" by (simp add: upt_conv_Cons map_Suc_upt del: upt_Suc)
  then show ?case using Suc [of "w + 1"] by (simp add: next_weight_def comp_def ac_simps case_prod_beta del: upt_Suc)
qed simp

lemma parse_weight_int_str: "parse_weight (int_str w) = w"
proof -
  have d: "takeWhile is_digit (nat_str n) = nat_str n" for n using nat_str_digits by (simp add: takeWhile_eq_all_conv)
  show ?thesis
  proof (cases "w < 0")
    case True
    then show ?thesis by (simp add: parse_weight_def int_str_def Let_def d)
  next
    case False
    obtain c cs where n: "nat_str (nat w) = c # cs" by (meson neq_Nil_conv nat_str_not_Nil)
    then have "is_digit c" using nat_str_digits [of c "nat w"] by simp
    then have "c \<noteq> CHR ''-''" "c \<noteq> CHR ''+''"
      "c \<notin> set [CHR '' '', CHR 0x09, CHR 0x0A, CHR 0x0B, CHR 0x0C, CHR 0x0D, CHR 0xA0]"
      by (auto simp: is_digit_def)
    with False n d [of "nat w"] str_nat_nat_str [of "nat w"] show ?thesis
      by (simp add: parse_weight_def int_str_def Let_def split: if_splits)
  qed
qed

text \<open>
  When a row is dropped, the weights of its siblings are numbered anew: the weight fields in the rows that
  \<open>findSiblings\<close> gives hold consecutive integers in the order of the table, starting with the weight of the first
  one, and no row moves or changes its level.
\<close>

theorem order_numbers_siblings:
  assumes "ff_options targetElement = None"
    and "\<forall>r \<in> set rows. \<forall>f \<in> set (rw_fields r). has_class c f \<longrightarrow> ff_options f = None"
  shows "let siblings = findSiblings rows ro; rows' = order_fields rows ro c targetElement in
     map parse_weight (target_values c siblings rows') =
       map (\<lambda>k. first_weight rows c siblings + int k) [0..<length (target_values c siblings rows)] \<and>
     map rw_id rows' = map rw_id rows \<and> map rw_indents rows' = map rw_indents rows"
proof -
  have "\<forall>r \<in> set rows. \<forall>f \<in> set (rw_fields r). has_class c f \<longrightarrow> takes UNIV f"
    using assms(2) by (auto simp: takes_def)
  note w = assign_rows_dealt [OF this, of next_weight, simplified dealt_weights]
  show ?thesis
    unfolding Let_def order_fields_def assms(1) option.case using w
    by (simp add: assign_rows_frame comp_def parse_weight_int_str)
qed

section \<open>Samples\<close>

definition sample_forest :: "node list" where
  "sample_forest = [Node (plain_row 0 0) [Node (plain_row 1 0) [Node (plain_row 2 0) []], Node (plain_row 3 0) []]]"

theorem table_refines_forest_witness:
  "let rows = table_of 0 sample_forest; ro = new_row rows 1 True 0 in
     ro_group ro = [1, 2] \<and> findSiblings rows ro = [1, 3] \<and> fst (parent_source rows (plain_row 1 1) ro) = Some (plain_row 0 0)"
proof -
  have fam: "family 0 sample_forest 0 ([] @ Node (plain_row 0 0)
      ([] @ Node (plain_row 1 0) [Node (plain_row 2 0) []] # [Node (plain_row 3 0) []]) # [])"
    unfolding append_Nil sample_forest_def by (rule family.top)
  have "distinct (map rw_id (table_of 0 sample_forest))" "\<forall>r \<in> set (table_of 0 sample_forest). rw_draggable r"
    by (simp_all add: sample_forest_def plain_row_def)
  from table_refines_forest [OF fam this, of 0] show ?thesis by (simp add: Let_def plain_row_def)
qed

definition weight_row :: "nat \<Rightarrow> string \<Rightarrow> row" where
  "weight_row i w = (plain_row i 0)\<lparr>rw_fields := [\<lparr>ff_classes = [''weight''], ff_value = w, ff_options = None\<rparr>]\<rparr>"

theorem order_numbers_siblings_witness:
  "let rows = [weight_row 0 ''-1'', weight_row 2 ''5'', weight_row 1 ''0''];
       ro = new_row rows 2 False 0;
       rows' = order_fields rows ro ''weight'' (hd (rw_fields (weight_row 2 ''5'')))
   in map parse_weight (target_values ''weight'' [0, 2, 1] rows') = [-1, 0, 1]"
proof -
  let ?rows = "[weight_row 0 ''-1'', weight_row 2 ''5'', weight_row 1 ''0'']"
  let ?ro = "new_row ?rows 2 False 0"
  have o: "ff_options (hd (rw_fields (weight_row 2 ''5''))) = None"
    "\<forall>r \<in> set ?rows. \<forall>f \<in> set (rw_fields r). has_class ''weight'' f \<longrightarrow> ff_options f = None"
    by (simp_all add: weight_row_def)
  have s: "findSiblings ?rows ?ro = [0, 2, 1]" "first_weight ?rows ''weight'' [0, 2, 1] = -1"
    "length (target_values ''weight'' [0, 2, 1] ?rows) = 3" by code_simp+
  show ?thesis using order_numbers_siblings [OF o, of ?ro] s by (simp add: Let_def numeral_eq_Suc)
qed

end
