(* ===== verification/Tabledrag_Columns.thy ===== *)
theory Tabledrag_Columns
  imports Js_Prelude
begin

text \<open>
  The columns of draggable tables that hold weights or parents (\<open>initColumns\<close> to \<open>showColumns\<close> of
  \<open>core/misc/tabledrag.es6.js\<close>): they are hidden, or shown instead of the drag handles, in all draggable tables of the
  page at once. A table is the list of its rows of cells; a cell carries the classes and properties that the code uses.
\<close>

section \<open>Marking columns\<close>

record cell =
  ce_colSpan :: int
  ce_hide :: bool
  ce_hasColspan :: bool
  ce_displayed :: bool

record column_table =
  ct_rows :: "cell list list"
  ct_handles :: bool

text \<open>The property \<open>colSpan\<close> is clamped to the range from 1 to 1000.\<close>

definition set_colSpan :: "int \<Rightarrow> cell \<Rightarrow> cell" where
  "set_colSpan n c = c\<lparr>ce_colSpan := max 1 (min 1000 n)\<rparr>"

fun adjust_index :: "nat \<Rightarrow> int \<Rightarrow> cell list \<Rightarrow> int" where
  "adjust_index n index [] = index"
| "adjust_index n index (c # cs) =
     adjust_index (Suc n) (if int n < index \<and> ce_colSpan c > 1 then index - (ce_colSpan c - 1) else index) cs"

definition mark_cell :: "cell \<Rightarrow> cell" where
  "mark_cell c = (if ce_colSpan c > 1 then c\<lparr>ce_hasColspan := True\<rparr> else c\<lparr>ce_hide := True\<rparr>)"

definition addColspanClass :: "nat \<Rightarrow> cell list \<Rightarrow> cell list js" where
  "addColspanClass columnIndex cells =
     (let index = adjust_index 0 (int columnIndex) cells in
      if index > 0
      then (if nat index \<le> length cells
            then Inr (cells[nat index - 1 := mark_cell (cells ! (nat index - 1))])
            else Inl TypeError)
      else Inr cells)"

fun mark_rows :: "nat \<Rightarrow> cell list list \<Rightarrow> cell list list js" where
  "mark_rows columnIndex [] = Inr []"
| "mark_rows columnIndex (r # rs) =
     (case addColspanClass columnIndex r of
        Inl e \<Rightarrow> Inl e
      | Inr r' \<Rightarrow> (case mark_rows columnIndex rs of Inl e \<Rightarrow> Inl e | Inr rs' \<Rightarrow> Inr (r' # rs')))"

text \<open>
  A setting of a group is given by the column of the first field with its target class, if there is one, and whether
  the setting asks to hide it. The variables \<open>hidden\<close> and \<open>cell\<close> keep their values from group to group.
\<close>

type_synonym column_setting = "nat option \<times> bool"

definition group_column :: "column_setting list \<Rightarrow> nat option" where
  "group_column settings = Option.bind (find (\<lambda>(col, hidden). col \<noteq> None \<and> hidden) settings) fst"

fun mark_groups :: "column_setting list list \<Rightarrow> nat option \<Rightarrow> cell list list \<Rightarrow> cell list list js" where
  "mark_groups [] cell rows = Inr rows"
| "mark_groups (g # gs) cell rows =
     (let cell' = (case group_column g of Some k \<Rightarrow> Some k | None \<Rightarrow> cell) in
      case (case cell' of Some k \<Rightarrow> mark_rows (k + 1) rows | None \<Rightarrow> Inr rows) of
        Inl e \<Rightarrow> Inl e
      | Inr rows' \<Rightarrow> mark_groups gs cell' rows')"

section \<open>Hiding and showing\<close>

definition hide_cell :: "cell \<Rightarrow> cell" where
  "hide_cell c =
     (let c1 = (if ce_hide c then c\<lparr>ce_displayed := False\<rparr> else c)
      in if ce_hasColspan c1 then set_colSpan (ce_colSpan c1 - 1) c1 else c1)"

definition show_cell :: "cell \<Rightarrow> cell" where
  "show_cell c =
     (let c1 = (if ce_hide c then c\<lparr>ce_displayed := True\<rparr> else c)
      in if ce_hasColspan c1 then set_colSpan (ce_colSpan c1 + 1) c1 else c1)"

definition hideColumns :: "column_table list \<Rightarrow> column_table list" where
  "hideColumns tables = map (\<lambda>t. t\<lparr>ct_handles := True, ct_rows := map (map hide_cell) (ct_rows t)\<rparr>) tables"

definition showColumns :: "column_table list \<Rightarrow> column_table list" where
  "showColumns tables = map (\<lambda>t. t\<lparr>ct_handles := False, ct_rows := map (map show_cell) (ct_rows t)\<rparr>) tables"

definition displayColumns :: "bool \<Rightarrow> column_table list \<Rightarrow> column_table list" where
  "displayColumns displayWeight tables = (if displayWeight then showColumns tables else hideColumns tables)"

text \<open>
  \<open>toggleColumns\<close> also stores the choice: \<open>Some True\<close> or nothing. \<open>initColumns\<close> marks the columns of a new table,
  which joins the draggable tables of the page, and displays the columns of all of them.
\<close>

definition toggleColumns :: "bool \<times> bool option \<times> column_table list \<Rightarrow> bool \<times> bool option \<times> column_table list" where
  "toggleColumns s =
     (case s of (showWeight, stored, tables) \<Rightarrow>
        let showWeight' = \<not> showWeight
        in (showWeight', if showWeight' then Some True else None, displayColumns showWeight' tables))"

definition initColumns ::
    "bool \<Rightarrow> column_setting list list \<Rightarrow> column_table \<Rightarrow> column_table list \<Rightarrow> column_table list js" where
  "initColumns showWeight settings table tables =
     (case mark_groups settings None (ct_rows table) of
        Inl e \<Rightarrow> Inl e
      | Inr rows \<Rightarrow> Inr (displayColumns showWeight (tables @ [table\<lparr>ct_rows := rows\<rparr>])))"

section \<open>Toggling\<close>

text \<open>Columns that are shown: cells to be hidden are displayed, handles are not, and spanning cells can be reduced.\<close>

definition shown :: "column_table \<Rightarrow> bool" where
  "shown t \<longleftrightarrow> \<not> ct_handles t \<and> list_all (list_all (\<lambda>c. (ce_hide c \<longrightarrow> ce_displayed c) \<and>
     (ce_hasColspan c \<longrightarrow> 1 < ce_colSpan c \<and> ce_colSpan c \<le> 1000))) (ct_rows t)"

lemma show_hide_cell:
  assumes "ce_hide c \<longrightarrow> ce_displayed c" and "ce_hasColspan c \<longrightarrow> 1 < ce_colSpan c \<and> ce_colSpan c \<le> 1000"
  shows "show_cell (hide_cell c) = c"
  using assms by (cases "ce_hide c"; cases "ce_hasColspan c") (simp_all add: show_cell_def hide_cell_def Let_def set_colSpan_def)

lemma show_hide_table:
  assumes "shown t"
  shows "t\<lparr>ct_handles := False, ct_rows := map (map show_cell) (map (map hide_cell) (ct_rows t))\<rparr> = t"
proof -
  have "map (map show_cell) (map (map hide_cell) (ct_rows t)) = ct_rows t"
    using assms show_hide_cell by (auto simp: shown_def list_all_iff intro!: map_idI)
  then show ?thesis using assms by (cases t) (simp add: shown_def)
qed

text \<open>
  Hiding the columns and showing them again restores every table: what is displayed, the handles and all column
  spans; toggling twice restores the tables and the choice of the user.
\<close>

theorem toggle_twice:
  assumes "list_all shown tables"
  shows "toggleColumns (toggleColumns (True, Some True, tables)) = (True, Some True, tables)"
proof -
  have "showColumns (hideColumns tables) = tables"
    using assms
  proof (induction tables)
    case (Cons t tables)
    then show ?case using show_hide_table [of t] by (simp add: showColumns_def hideColumns_def)
  qed (simp add: showColumns_def hideColumns_def)
  then show ?thesis by (simp add: toggleColumns_def displayColumns_def Let_def)
qed

theorem toggle_twice_witness:
  "toggleColumns (toggleColumns (True, Some True,
     [\<lparr>ct_rows = [[\<lparr>ce_colSpan = 2, ce_hide = False, ce_hasColspan = True, ce_displayed = True\<rparr>]], ct_handles = False\<rparr>])) =
   (True, Some True,
     [\<lparr>ct_rows = [[\<lparr>ce_colSpan = 2, ce_hide = False, ce_hasColspan = True, ce_displayed = True\<rparr>]], ct_handles = False\<rparr>])"
  by (rule toggle_twice) (simp add: shown_def)

section \<open>Several tables\<close>

lemma hide_hide_colSpan:
  assumes "ce_hasColspan c" and "k < ce_colSpan c" and "ce_colSpan c \<le> 1000" and "0 \<le> k"
  shows "ce_colSpan ((hide_cell ^^ nat k) c) = ce_colSpan c - k \<and> ce_hasColspan ((hide_cell ^^ nat k) c)"
proof -
  have "ce_colSpan ((hide_cell ^^ n) c) = ce_colSpan c - int n \<and> ce_hasColspan ((hide_cell ^^ n) c)" if "int n < ce_colSpan c" for n
    using that
  proof (induction n)
    case (Suc n)
    then have "ce_colSpan ((hide_cell ^^ n) c) = ce_colSpan c - int n" "ce_hasColspan ((hide_cell ^^ n) c)" by simp_all
    moreover have "ce_colSpan (hide_cell d) = ce_colSpan d - 1 \<and> ce_hasColspan (hide_cell d)"
      if "ce_hasColspan d" "1 < ce_colSpan d" "ce_colSpan d \<le> 1000" for d
      using that by (cases "ce_hide d") (simp_all add: hide_cell_def Let_def set_colSpan_def)
    ultimately show ?case using Suc.prems assms(3) by simp
  qed (simp add: assms(1))
  from this [of "nat k"] assms(2,4) show ?thesis by simp
qed

fun init_tables :: "column_setting list list \<Rightarrow> column_table list \<Rightarrow> column_table list \<Rightarrow> column_table list js" where
  "init_tables settings [] tables = Inr tables"
| "init_tables settings (t # ts) tables =
     (case initColumns False settings t tables of Inl e \<Rightarrow> Inl e | Inr tables' \<Rightarrow> init_tables settings ts tables')"

lemma init_tables_hide:
  assumes "init_tables settings ts tables = Inr tables'"
  shows "\<exists>new. tables' = (hideColumns ^^ length ts) tables @ new"
  using assms
proof (induction ts arbitrary: tables)
  case (Cons t ts)
  then obtain t' where "init_tables settings ts (hideColumns (tables @ [t'])) = Inr tables'"
    by (auto simp: initColumns_def displayColumns_def split: sum.splits)
  moreover have "hideColumns (tables @ [t']) = hideColumns tables @ hideColumns [t']" by (simp add: hideColumns_def)
  ultimately obtain new where "tables' = (hideColumns ^^ length ts) (hideColumns tables @ hideColumns [t']) @ new"
    using Cons.IH [of "hideColumns (tables @ [t'])"] by auto
  moreover have "(hideColumns ^^ n) (xs @ ys) = (hideColumns ^^ n) xs @ (hideColumns ^^ n) ys" for n xs ys
    by (induction n) (simp_all add: hideColumns_def)
  ultimately show ?case by (auto simp: funpow_swap1)
qed simp

lemma hideColumns_funpow: "ct_rows ((hideColumns ^^ n) [t] ! 0) = map (map (hide_cell ^^ n)) (ct_rows t)"
proof -
  have "\<exists>h. (hideColumns ^^ n) [t] = [t\<lparr>ct_handles := h, ct_rows := map (map (hide_cell ^^ n)) (ct_rows t)\<rparr>]"
  proof (induction n)
    case 0
    have "[t] = [t\<lparr>ct_handles := ct_handles t, ct_rows := map (map (hide_cell ^^ 0)) (ct_rows t)\<rparr>]"
      by (cases t) (simp add: id_def [symmetric])
    then show ?case unfolding funpow_0 by blast
  next
    case (Suc n)
    then show ?case by (auto simp: hideColumns_def comp_def)
  qed
  then show ?thesis by auto
qed

text \<open>
  Every further draggable table on a page reduces the spanning cells of the tables before it once more: when a table
  has been prepared and \<open>k\<close> others follow, a cell of it that spans \<open>n\<close> columns ends up with \<open>n - k\<close>.
\<close>

theorem later_tables_reduce_colspan:
  assumes "init_tables settings ts [t] = Inr tables" and "r < length (ct_rows t)" and "j < length (ct_rows t ! r)"
    and "ce_hasColspan (ct_rows t ! r ! j)" and "int (length ts) < ce_colSpan (ct_rows t ! r ! j)"
    and "ce_colSpan (ct_rows t ! r ! j) \<le> 1000"
  shows "ce_colSpan (ct_rows (tables ! 0) ! r ! j) = ce_colSpan (ct_rows t ! r ! j) - int (length ts)"
proof -
  obtain new where n: "tables = (hideColumns ^^ length ts) [t] @ new" using init_tables_hide [OF assms(1)] by blast
  have "length ((hideColumns ^^ k) [t]) = 1" for k by (induction k) (simp_all add: hideColumns_def)
  then have "ct_rows (tables ! 0) = map (map (hide_cell ^^ length ts)) (ct_rows t)"
    using hideColumns_funpow [of "length ts" t] n by (simp add: nth_append)
  then show ?thesis
    using hide_hide_colSpan [OF assms(4,5,6)] assms(2,3) by simp
qed

definition two_cells :: "column_table" where
  "two_cells = \<lparr>ct_rows = [[\<lparr>ce_colSpan = 1, ce_hide = False, ce_hasColspan = False, ce_displayed = True\<rparr>,
     \<lparr>ce_colSpan = 3, ce_hide = False, ce_hasColspan = True, ce_displayed = True\<rparr>]], ct_handles = False\<rparr>"

theorem later_tables_reduce_colspan_witness:
  "\<exists>tables. init_tables [] [two_cells] [two_cells] = Inr tables \<and> ce_colSpan (ct_rows (tables ! 0) ! 0 ! 1) = 2"
proof -
  obtain tables where t: "init_tables [] [two_cells] [two_cells] = Inr tables"
    by (simp add: initColumns_def)
  have "0 < length (ct_rows two_cells)" "1 < length (ct_rows two_cells ! 0)" "ce_hasColspan (ct_rows two_cells ! 0 ! 1)"
    "int (length [two_cells]) < ce_colSpan (ct_rows two_cells ! 0 ! 1)" "ce_colSpan (ct_rows two_cells ! 0 ! 1) \<le> 1000"
    "ce_colSpan (ct_rows two_cells ! 0 ! 1) = 3" by (simp_all add: two_cells_def)
  with later_tables_reduce_colspan [OF t, of 0 1] t show ?thesis by simp
qed

end
