(* ===== verification/Contextual_Links.thy ===== *)
theory Contextual_Links
  imports Drupal_Api
begin

text \<open>
  Contextual links (\<open>modules/contextual/js\<close>): the model of a link (\<open>models/StateModel.es6.js\<close>), the
  handlers of its keyboard, region and visual views, and the cache of rendered links with the requests
  of \<open>contextual.es6.js\<close>.

  The links of the page are the collection \<open>Drupal.contextual.collection\<close>; a link is its position in
  it. Every view belongs to one link and keeps a flag or a timer, so the state has one \<open>cview\<close> for each
  link. Backbone runs change listeners of the views that only draw; they are not part of the state.
\<close>

section \<open>The model of a link\<close>

record clink =
  cl_title :: string
  cl_regionIsHovered :: bool
  cl_hasFocus :: bool
  cl_isOpen :: bool
  cl_isLocked :: bool

text \<open>\<open>vw_timer\<close> is the timer of the keyboard view, \<open>NaN\<close> before any was set.\<close>

record cview =
  vw_timer :: "nat option"
  vw_region_touch :: bool
  vw_visual_touch :: bool

record clinks =
  cs_links :: "clink list"
  cs_views :: "cview list"
  cs_timers :: "(nat \<times> nat) list"
  cs_next_timer :: nat

definition new_link :: "string \<Rightarrow> clink" where
  "new_link title = \<lparr>cl_title = title, cl_regionIsHovered = False, cl_hasFocus = False, cl_isOpen = False, cl_isLocked = False\<rparr>"

definition new_view :: cview where
  "new_view = \<lparr>vw_timer = None, vw_region_touch = False, vw_visual_touch = False\<rparr>"

definition upd_link :: "nat \<Rightarrow> (clink \<Rightarrow> clink) \<Rightarrow> clink list \<Rightarrow> clink list" where
  "upd_link i f ls = ls[i := f (ls ! i)]"

definition link_close :: "nat \<Rightarrow> clink list \<Rightarrow> clink list" where
  "link_close i ls = upd_link i (\<lambda>l. l\<lparr>cl_isOpen := False\<rparr>) ls"

definition link_blur :: "nat \<Rightarrow> clink list \<Rightarrow> clink list" where
  "link_blur i ls = (if \<not> cl_isOpen (ls ! i) then upd_link i (\<lambda>l. l\<lparr>cl_hasFocus := False\<rparr>) ls else ls)"

definition link_focus :: "nat \<Rightarrow> clink list \<Rightarrow> clink list" where
  "link_focus i ls =
     fold (\<lambda>j ls. if j \<noteq> i then link_blur j (link_close j ls) else ls) [0..<length ls]
       (upd_link i (\<lambda>l. l\<lparr>cl_hasFocus := True\<rparr>) ls)"

definition link_toggleOpen :: "nat \<Rightarrow> clink list \<Rightarrow> clink list" where
  "link_toggleOpen i ls =
     (let newIsOpen = (\<not> cl_isOpen (ls ! i));
          ls1 = upd_link i (\<lambda>l. l\<lparr>cl_isOpen := newIsOpen\<rparr>) ls
      in if newIsOpen then link_focus i ls1 else ls1)"

section \<open>The handlers of the views\<close>

abbreviation on_links :: "(clink list \<Rightarrow> clink list) \<Rightarrow> clinks \<Rightarrow> clinks" where
  "on_links f s \<equiv> s\<lparr>cs_links := f (cs_links s)\<rparr>"

definition upd_view :: "nat \<Rightarrow> (cview \<Rightarrow> cview) \<Rightarrow> clinks \<Rightarrow> clinks" where
  "upd_view i f s = s\<lparr>cs_views := (cs_views s)[i := f (cs_views s ! i)]\<rparr>"

text \<open>\<open>KeyboardView\<close>: \<open>clearTimeout\<close> of the stored timer, then focus.\<close>

definition keyboard_focus :: "nat \<Rightarrow> clinks \<Rightarrow> clinks" where
  "keyboard_focus i s =
     on_links (link_focus i) (s\<lparr>cs_timers := filter (\<lambda>(n, j). vw_timer (cs_views s ! i) \<noteq> Some n) (cs_timers s)\<rparr>)"

definition keyboard_blur_trigger :: "nat \<Rightarrow> clinks \<Rightarrow> clinks" where
  "keyboard_blur_trigger i s = on_links (link_blur i) s"

definition keyboard_blur_link :: "nat \<Rightarrow> clinks \<Rightarrow> clinks" where
  "keyboard_blur_link i s =
     upd_view i (\<lambda>v. v\<lparr>vw_timer := Some (cs_next_timer s)\<rparr>)
       (s\<lparr>cs_timers := cs_timers s @ [(cs_next_timer s, i)], cs_next_timer := Suc (cs_next_timer s)\<rparr>)"

text \<open>The 150 ms timer set by blurring a link: any pending timer may run.\<close>

definition keyboard_timer :: "nat \<Rightarrow> clinks \<Rightarrow> clinks" where
  "keyboard_timer n s =
     (case map_of (cs_timers s) n of
        None \<Rightarrow> s
      | Some i \<Rightarrow> on_links (\<lambda>ls. link_blur i (link_close i ls)) (s\<lparr>cs_timers := filter (\<lambda>(m, j). m \<noteq> n) (cs_timers s)\<rparr>))"

definition region_touchstart :: "nat \<Rightarrow> clinks \<Rightarrow> clinks" where
  "region_touchstart i = upd_view i (\<lambda>v. v\<lparr>vw_region_touch := True\<rparr>)"

definition region_mousemove :: "nat \<Rightarrow> clinks \<Rightarrow> clinks" where
  "region_mousemove i = upd_view i (\<lambda>v. v\<lparr>vw_region_touch := False\<rparr>)"

definition region_mouseenter :: "nat \<Rightarrow> clinks \<Rightarrow> clinks" where
  "region_mouseenter i s =
     (if \<not> vw_region_touch (cs_views s ! i) then on_links (upd_link i (\<lambda>l. l\<lparr>cl_regionIsHovered := True\<rparr>)) s else s)"

definition region_mouseleave :: "nat \<Rightarrow> clinks \<Rightarrow> clinks" where
  "region_mouseleave i s =
     (if \<not> vw_region_touch (cs_views s ! i)
      then on_links (\<lambda>ls. upd_link i (\<lambda>l. l\<lparr>cl_regionIsHovered := False\<rparr>) (link_blur i (link_close i ls))) s else s)"

definition visual_touchstart :: "nat \<Rightarrow> clinks \<Rightarrow> clinks" where
  "visual_touchstart i = upd_view i (\<lambda>v. v\<lparr>vw_visual_touch := True\<rparr>)"

definition visual_mousemove :: "nat \<Rightarrow> clinks \<Rightarrow> clinks" where
  "visual_mousemove i = upd_view i (\<lambda>v. v\<lparr>vw_visual_touch := False\<rparr>)"

definition visual_mouseenter :: "nat \<Rightarrow> clinks \<Rightarrow> clinks" where
  "visual_mouseenter i s = (if \<not> vw_visual_touch (cs_views s ! i) then on_links (link_focus i) s else s)"

definition visual_click_trigger :: "nat \<Rightarrow> clinks \<Rightarrow> clinks" where
  "visual_click_trigger i s = on_links (link_toggleOpen i) s"

definition visual_click_link :: "nat \<Rightarrow> clinks \<Rightarrow> clinks" where
  "visual_click_link i s = on_links (\<lambda>ls. link_blur i (link_close i ls)) s"

text \<open>\<open>VisualView.render\<close>: whether the trigger is visible and the menu is shown.\<close>

definition trigger_visible :: "clink \<Rightarrow> bool" where
  "trigger_visible l \<longleftrightarrow> cl_isLocked l \<or> cl_regionIsHovered l \<or> cl_isOpen l"

datatype link_event =
    Focus nat | Blur_trigger nat | Blur_link nat | Timer nat
  | Region_touchstart nat | Region_mousemove nat | Region_mouseenter nat | Region_mouseleave nat
  | Visual_touchstart nat | Visual_mousemove nat | Visual_mouseenter nat | Click_trigger nat | Click_link nat

fun handle_event :: "link_event \<Rightarrow> clinks \<Rightarrow> clinks" where
  "handle_event (Focus i) = keyboard_focus i"
| "handle_event (Blur_trigger i) = keyboard_blur_trigger i"
| "handle_event (Blur_link i) = keyboard_blur_link i"
| "handle_event (Timer n) = keyboard_timer n"
| "handle_event (Region_touchstart i) = region_touchstart i"
| "handle_event (Region_mousemove i) = region_mousemove i"
| "handle_event (Region_mouseenter i) = region_mouseenter i"
| "handle_event (Region_mouseleave i) = region_mouseleave i"
| "handle_event (Visual_touchstart i) = visual_touchstart i"
| "handle_event (Visual_mousemove i) = visual_mousemove i"
| "handle_event (Visual_mouseenter i) = visual_mouseenter i"
| "handle_event (Click_trigger i) = visual_click_trigger i"
| "handle_event (Click_link i) = visual_click_link i"

definition event_target :: "link_event \<Rightarrow> nat option" where
  "event_target e =
     (case e of
        Focus i \<Rightarrow> Some i | Blur_trigger i \<Rightarrow> Some i | Blur_link i \<Rightarrow> Some i | Timer n \<Rightarrow> None
      | Region_touchstart i \<Rightarrow> Some i | Region_mousemove i \<Rightarrow> Some i | Region_mouseenter i \<Rightarrow> Some i
      | Region_mouseleave i \<Rightarrow> Some i | Visual_touchstart i \<Rightarrow> Some i | Visual_mousemove i \<Rightarrow> Some i
      | Visual_mouseenter i \<Rightarrow> Some i | Click_trigger i \<Rightarrow> Some i | Click_link i \<Rightarrow> Some i)"

text \<open>\<open>collection.add(model)\<close> for a link with its views.\<close>

definition add_link :: "clink \<Rightarrow> clinks \<Rightarrow> clinks" where
  "add_link l s = s\<lparr>cs_links := cs_links s @ [l], cs_views := cs_views s @ [new_view]\<rparr>"

definition no_links :: clinks where
  "no_links = \<lparr>cs_links = [], cs_views = [], cs_timers = [], cs_next_timer = 0\<rparr>"

section \<open>At most one link is open\<close>

text \<open>
  An open link has the focus and no other link has it.
\<close>

definition one_open :: "clink list \<Rightarrow> bool" where
  "one_open ls \<longleftrightarrow>
     (\<forall>i < length ls. cl_isOpen (ls ! i) \<longrightarrow> cl_hasFocus (ls ! i)) \<and>
     (\<forall>i < length ls. \<forall>j < length ls. cl_hasFocus (ls ! i) \<and> cl_hasFocus (ls ! j) \<longrightarrow> i = j)"

lemma length_link_ops [simp]:
  "length (upd_link i f ls) = length ls" "length (link_close i ls) = length ls" "length (link_blur i ls) = length ls"
  by (simp_all add: upd_link_def link_close_def link_blur_def)

lemma nth_upd_link: "j < length ls \<Longrightarrow> upd_link i f ls ! j = (if i = j then f (ls ! j) else ls ! j)"
  by (simp add: upd_link_def)

text \<open>The loop of \<open>focus\<close>: every other link ends closed and without focus.\<close>

definition dismissed :: "clink \<Rightarrow> clink" where
  "dismissed l = l\<lparr>cl_isOpen := False, cl_hasFocus := False\<rparr>"

lemma close_blur: "link_blur j (link_close j ls) = upd_link j dismissed ls" if "j < length ls"
  using that by (simp add: link_blur_def link_close_def upd_link_def dismissed_def)

lemma fold_dismiss:
  "\<forall>j \<in> set js. j < length ls \<Longrightarrow>
   length (fold (\<lambda>j ls. if j \<noteq> i then link_blur j (link_close j ls) else ls) js ls) = length ls \<and>
   (\<forall>k < length ls. fold (\<lambda>j ls. if j \<noteq> i then link_blur j (link_close j ls) else ls) js ls ! k =
      (if k \<in> set js \<and> k \<noteq> i then dismissed (ls ! k) else ls ! k))"
proof (induction js arbitrary: ls)
  case (Cons j js)
  show ?case
  proof (cases "j = i")
    case True
    with Cons show ?thesis by auto
  next
    case False
    let ?ls = "upd_link j dismissed ls"
    have idem: "dismissed (dismissed l) = dismissed l" for l by (simp add: dismissed_def)
    from Cons.IH [of ?ls] Cons.prems False show ?thesis by (auto simp: close_blur nth_upd_link idem)
  qed
qed simp

lemma link_focus_nth:
  assumes "i < length ls"
  shows "length (link_focus i ls) = length ls"
    and "k < length ls \<Longrightarrow> link_focus i ls ! k = (if k = i then (ls ! i)\<lparr>cl_hasFocus := True\<rparr> else dismissed (ls ! k))"
  using fold_dismiss [of "[0..<length ls]" "upd_link i (\<lambda>l. l\<lparr>cl_hasFocus := True\<rparr>) ls" i] assms
  by (auto simp: link_focus_def nth_upd_link)

lemma one_open_focus: "i < length ls \<Longrightarrow> one_open (link_focus i ls)"
  by (auto simp: one_open_def link_focus_nth dismissed_def split: if_splits)

lemma one_open_close: "one_open ls \<Longrightarrow> one_open (link_close i ls)"
  by (auto simp: one_open_def link_close_def nth_upd_link)

lemma one_open_blur: "one_open ls \<Longrightarrow> one_open (link_blur i ls)"
  by (auto simp: one_open_def link_blur_def nth_upd_link split: if_splits)

lemma one_open_same:
  "one_open ls \<Longrightarrow> (\<And>l. cl_isOpen (f l) = cl_isOpen l) \<Longrightarrow> (\<And>l. cl_hasFocus (f l) = cl_hasFocus l) \<Longrightarrow> one_open (upd_link i f ls)"
  by (auto simp: one_open_def nth_upd_link)

lemma one_open_toggle: "i < length ls \<Longrightarrow> one_open ls \<Longrightarrow> one_open (link_toggleOpen i ls)"
  using one_open_close [of ls i] by (auto simp: link_toggleOpen_def Let_def one_open_focus link_close_def)

definition links_wf :: "clinks \<Rightarrow> bool" where
  "links_wf s \<longleftrightarrow> length (cs_views s) = length (cs_links s) \<and> (\<forall>(n, i) \<in> set (cs_timers s). i < length (cs_links s))"

inductive links_run :: "clinks \<Rightarrow> bool" where
  links_start: "links_run no_links"
| links_add: "links_run s \<Longrightarrow> links_run (add_link (new_link title) s)"
| links_event: "links_run s \<Longrightarrow> (\<And>i. event_target e = Some i \<Longrightarrow> i < length (cs_links s)) \<Longrightarrow> links_run (handle_event e s)"

lemmas event_defs = keyboard_focus_def keyboard_blur_trigger_def keyboard_blur_link_def keyboard_timer_def
  region_touchstart_def region_mousemove_def region_mouseenter_def region_mouseleave_def visual_touchstart_def
  visual_mousemove_def visual_mouseenter_def visual_click_trigger_def visual_click_link_def upd_view_def

lemma length_link_focus [simp]: "length (link_focus i ls) = length ls"
proof -
  have "length (fold (\<lambda>j ls. if j \<noteq> i then link_blur j (link_close j ls) else ls) js ls') = length ls'" for js ls'
    by (induction js arbitrary: ls') simp_all
  then show ?thesis by (simp add: link_focus_def)
qed

lemma length_link_toggle [simp]: "length (link_toggleOpen i ls) = length ls"
  by (simp add: link_toggleOpen_def Let_def)

lemma length_event [simp]: "length (cs_links (handle_event e s)) = length (cs_links s)"
  by (cases e) (simp_all add: event_defs split: option.split)

lemma wf_event: "links_wf s \<Longrightarrow> (\<And>i. event_target e = Some i \<Longrightarrow> i < length (cs_links s)) \<Longrightarrow> links_wf (handle_event e s)"
  by (cases e) (auto simp: event_defs links_wf_def event_target_def split: option.split)

lemma one_open_event:
  assumes "links_wf s" and "one_open (cs_links s)" and "\<And>i. event_target e = Some i \<Longrightarrow> i < length (cs_links s)"
  shows "one_open (cs_links (handle_event e s))"
proof (cases e)
  case (Timer n)
  with assms show ?thesis by (auto simp: event_defs one_open_close one_open_blur split: option.split)
qed (use assms in \<open>auto simp: event_defs event_target_def one_open_focus one_open_close one_open_blur one_open_toggle one_open_same\<close>)

lemma one_open_add: "one_open ls \<Longrightarrow> \<not> cl_isOpen l \<Longrightarrow> \<not> cl_hasFocus l \<Longrightarrow> one_open (ls @ [l])"
  by (auto simp: one_open_def nth_append less_Suc_eq)

lemma links_run_inv: "links_run s \<Longrightarrow> links_wf s \<and> one_open (cs_links s)"
proof (induction rule: links_run.induct)
  case links_start
  then show ?case by (simp add: no_links_def links_wf_def one_open_def)
next
  case (links_add s title)
  then show ?case by (auto simp: add_link_def links_wf_def one_open_add new_link_def)
next
  case (links_event s e)
  then show ?case using wf_event one_open_event by blast
qed

section \<open>Requests and the cache of rendered links\<close>

text \<open>
  The storage of the session is a dictionary of strings. Cached links are dropped when the stored hash
  of the user's permissions is not the current one; \<open>permissionsHash\<close> is any value of the settings.
\<close>

definition contextual_prefix :: string where
  "contextual_prefix = ''Drupal.contextual.''"

definition hash_key :: string where
  "hash_key = ''Drupal.contextual.permissionsHash''"

definition refresh_cache :: "jsval \<Rightarrow> string jsobj \<Rightarrow> string jsobj" where
  "refresh_cache permissionsHash storage =
     (let cachedPermissionsHash = (case js_get storage hash_key of None \<Rightarrow> VNull | Some h \<Rightarrow> VStr h)
      in if cachedPermissionsHash \<noteq> permissionsHash
         then js_put hash_key (to_str permissionsHash)
           (case permissionsHash of
              VStr h \<Rightarrow> fold (\<lambda>key st. if take 18 key = contextual_prefix then js_del key st else st) (js_keys storage) storage
            | _ \<Rightarrow> storage)
         else storage)"

text \<open>
  \<open>attach\<close>: placeholders whose rendered links are cached are initialised later (with the cached text),
  the others are requested, each with its token.
\<close>

definition split_cached :: "string jsobj \<Rightarrow> (string \<times> string) list \<Rightarrow> (string \<times> string) list \<times> string list \<times> string list" where
  "split_cached storage ids =
     fold (\<lambda>(cid, token) (cached_links, uncachedIDs, uncachedTokens).
        (case js_get storage (contextual_prefix @ cid) of
           Some html \<Rightarrow>
             if html \<noteq> [] then (cached_links @ [(cid, html)], uncachedIDs, uncachedTokens)
             else (cached_links, uncachedIDs @ [cid], uncachedTokens @ [token])
         | None \<Rightarrow> (cached_links, uncachedIDs @ [cid], uncachedTokens @ [token])))
      ids ([], [], [])"

text \<open>\<open>success(results)\<close>: every result is stored; the placeholders of the non-empty ones are rendered.\<close>

definition store_results :: "(string \<times> string) list \<Rightarrow> string jsobj \<Rightarrow> string jsobj \<times> (string \<times> string) list" where
  "store_results results storage =
     fold (\<lambda>(cid, html) (st, rendered).
        (js_put (contextual_prefix @ cid) html st, if html \<noteq> [] then rendered @ [(cid, html)] else rendered))
      results (storage, [])"

text \<open>The destination parameter appended to the links of a rendered menu.\<close>

definition destination_href :: "path_settings \<Rightarrow> string \<Rightarrow> string \<Rightarrow> string" where
  "destination_href ps currentPath u =
     (let destination = ''destination='' @ encodePath (drupal_url ps currentPath);
          glue = (if \<not> sublist ''?'' u then ''?'' else ''&'')
      in u @ glue @ destination)"

lemma fold_del_get:
  "js_get (fold (\<lambda>key st. if P key then js_del key st else st) ks ob) k = (if k \<in> set ks \<and> P k then None else js_get ob k)"
  by (induction ks arbitrary: ob) auto

lemma split_cached_loop:
  "fold (\<lambda>(cid, token) (cached_links, uncachedIDs, uncachedTokens).
        (case js_get storage (contextual_prefix @ cid) of
           Some html \<Rightarrow>
             if html \<noteq> [] then (cached_links @ [(cid, html)], uncachedIDs, uncachedTokens)
             else (cached_links, uncachedIDs @ [cid], uncachedTokens @ [token])
         | None \<Rightarrow> (cached_links, uncachedIDs @ [cid], uncachedTokens @ [token]))) ids (ts, us, ks) =
   (let cached = (\<lambda>cid. js_get storage (contextual_prefix @ cid) \<noteq> None \<and> js_get storage (contextual_prefix @ cid) \<noteq> Some [])
    in (ts @ map (\<lambda>(cid, token). (cid, the (js_get storage (contextual_prefix @ cid)))) (filter (\<lambda>(cid, token). cached cid) ids),
        us @ map fst (filter (\<lambda>(cid, token). \<not> cached cid) ids),
        ks @ map snd (filter (\<lambda>(cid, token). \<not> cached cid) ids)))"
  by (induction ids arbitrary: ts us ks) (auto simp: Let_def split: option.splits)

lemma store_results_get:
  "js_get (fst (fold (\<lambda>(cid, html) (st, rendered).
        (js_put (contextual_prefix @ cid) html st, if html \<noteq> [] then rendered @ [(cid, html)] else rendered))
      results (st, rendered))) k =
   (case map_of (rev (map (\<lambda>(cid, html). (contextual_prefix @ cid, html)) results)) k of Some h \<Rightarrow> Some h | None \<Rightarrow> js_get st k)"
  by (induction results arbitrary: st rendered) (auto simp: map_add_def split: option.splits)

section \<open>Properties\<close>

text \<open>
  C31. Whatever happens to the links of a page (focus and blur by keyboard, timers, mouse, touch and
  clicks in any order), at most one of them has the focus or is open, and a link whose menu is open has
  the focus: focusing or opening a link takes the focus from every other and closes it.
\<close>

theorem at_most_one_link_open:
  assumes "links_run s" and "i < length (cs_links s)" and "j < length (cs_links s)"
    and "cl_isOpen (cs_links s ! i) \<or> cl_hasFocus (cs_links s ! i)"
    and "cl_isOpen (cs_links s ! j) \<or> cl_hasFocus (cs_links s ! j)"
  shows "i = j \<and> cl_hasFocus (cs_links s ! i)"
  using links_run_inv [OF assms(1)] assms(2-) by (auto simp: one_open_def)

definition two_links :: clinks where
  "two_links = handle_event (Click_trigger 1) (handle_event (Click_trigger 0)
     (add_link (new_link ''Footer'') (add_link (new_link ''Header'') no_links)))"

lemma two_links_run: "links_run two_links"
  unfolding two_links_def
  by (intro links_event links_add links_start) (simp_all only: length_event, simp_all add: event_target_def add_link_def)

lemma two_links_length: "length (cs_links two_links) = 2"
  unfolding two_links_def length_event by (simp add: add_link_def no_links_def)

theorem at_most_one_link_open_witness: "(1 :: nat) = 1 \<and> cl_hasFocus (cs_links two_links ! 1)"
proof (rule at_most_one_link_open [OF two_links_run])
  show "1 < length (cs_links two_links)" "1 < length (cs_links two_links)"
    by (simp_all add: two_links_length)
  show "cl_isOpen (cs_links two_links ! 1) \<or> cl_hasFocus (cs_links two_links ! 1)"
    "cl_isOpen (cs_links two_links ! 1) \<or> cl_hasFocus (cs_links two_links ! 1)"
    by code_simp+
qed

text \<open>
  When the stored hash is not the hash of the current permissions, no link rendered for the earlier
  permissions stays in the cache, every entry of other scripts stays, and the new hash is stored; with
  equal hashes the cache is left alone.
\<close>

theorem changed_permissions_clear_cache:
  "js_get (refresh_cache (VStr h) storage) k =
     (if js_get storage hash_key = Some h then js_get storage k
      else if k = hash_key then Some h
      else if take 18 k = contextual_prefix then None
      else js_get storage k)"
proof -
  have keys: "k \<notin> set (js_keys storage) \<Longrightarrow> js_get storage k = None"
    by (meson jsobj.keys_get)
  show ?thesis
    using keys by (auto simp: refresh_cache_def Let_def fold_del_get split: option.splits)
qed

text \<open>
  Once the server has rendered the links of every requested placeholder with a non-empty text, the
  next \<open>attach\<close> of the same placeholders requests nothing and renders all of them from the cache.
\<close>

theorem rendered_links_not_requested_again:
  assumes "split_cached storage ids = (cached_links, uncachedIDs, uncachedTokens)"
    and "set uncachedIDs \<subseteq> fst ` set results" and "\<forall>(cid, html) \<in> set results. html \<noteq> []"
  shows "\<exists>cached_links'. split_cached (fst (store_results results storage)) ids = (cached_links', [], []) \<and> map fst cached_links' = map fst ids"
proof -
  let ?st = "fst (store_results results storage)"
  let ?cached = "\<lambda>st cid. js_get st (contextual_prefix @ cid) \<noteq> None \<and> js_get st (contextual_prefix @ cid) \<noteq> Some []"
  let ?new = "map_of (rev (map (\<lambda>(cid, html). (contextual_prefix @ cid, html)) results))"
  have get: "js_get ?st k = (case ?new k of Some h \<Rightarrow> Some h | None \<Rightarrow> js_get storage k)" for k
    unfolding store_results_def by (rule store_results_get)
  have nonempty: "h \<noteq> []" if "?new k = Some h" for k h
    using that assms(3) by (auto dest!: map_of_SomeD)
  have dom: "?new (contextual_prefix @ cid) \<noteq> None" if "cid \<in> fst ` set results" for cid
    using that unfolding map_of_eq_None_iff by (auto simp: image_image case_prod_beta intro: rev_image_eqI)
  have uncached: "uncachedIDs = map fst (filter (\<lambda>(cid, token). \<not> ?cached storage cid) ids)"
    using assms(1) by (simp add: split_cached_def split_cached_loop Let_def)
  have all: "?cached ?st (fst p)" if "p \<in> set ids" for p
  proof (cases "?cached storage (fst p)")
    case True
    then show ?thesis unfolding get using nonempty by (auto split: option.splits)
  next
    case False
    with that have "fst p \<in> set uncachedIDs" unfolding uncached by (force simp: case_prod_beta)
    with assms(2) dom have "?new (contextual_prefix @ fst p) \<noteq> None" by blast
    then show ?thesis unfolding get using nonempty by (auto split: option.splits)
  qed
  then have "filter (\<lambda>(cid, token). ?cached ?st cid) ids = ids" "filter (\<lambda>(cid, token). \<not> ?cached ?st cid) ids = []"
    unfolding filter_id_conv filter_empty_conv case_prod_beta by blast+
  then show ?thesis by (auto simp: split_cached_def split_cached_loop Let_def)
qed

theorem rendered_links_not_requested_again_witness:
  "\<exists>cached_links'. split_cached (fst (store_results [(''node:1'', ''<ul></ul>'')] [])) [(''node:1'', ''token'')] = (cached_links', [], []) \<and>
     map fst cached_links' = map fst [(''node:1'', ''token'')]"
  by (rule rendered_links_not_requested_again [where storage = "[]" and cached_links = "[]" and uncachedIDs = "[''node:1'']" and
        uncachedTokens = "[''token'']"]) (simp_all add: split_cached_def)

end
