(* ===== verification/Tabbing_Manager.thy ===== *)
theory Tabbing_Manager
  imports Js_Object
begin

text \<open>
  The tabbing manager of \<open>core/misc/tabbingmanager.es6.js\<close>: a stack of tabbing contexts, of which the
  topmost restricts the elements of the page that the tab key reaches. Activating a context records the
  \<open>tabindex\<close> and \<open>autofocus\<close> attributes of every other tabbable element under the level of the context
  (the jQuery data \<open>drupalOriginalTabIndices\<close>) and overwrites them; deactivating it writes them back.

  Elements are addresses. A context is an object shared by the stack and by the module that asked for
  it, so contexts live in a heap \<open>tb_contexts\<close> and the stack holds their addresses. The library
  \<open>tabbable\<close> is a parameter: \<open>lib_tabbable\<close> lists the tabbable elements inside an element and
  \<open>lib_isTabbable\<close> tests one element, on the page as its attributes are at that moment. Document
  events are logged; the modules of the repository do not listen to them.

  The first part is the model; the second shows that whatever modules constrain and release, at most the
  topmost context is active, the page shows the attributes it had with the elements outside the
  active context made untabbable, and releasing every context gives the page back.
\<close>

section \<open>State\<close>

type_synonym elem = nat

record tab_attrs =
  ta_tabindex :: "elem \<Rightarrow> string option"
  ta_autofocus :: "elem \<Rightarrow> string option"

record tabbable_lib =
  lib_tabbable :: "tab_attrs \<Rightarrow> elem \<Rightarrow> elem list"
  lib_isTabbable :: "tab_attrs \<Rightarrow> elem \<Rightarrow> bool"
  lib_body :: elem

record tab_info =
  ti_tabindex :: "string option"
  ti_autofocus :: bool

record TabbingContext =
  tc_level :: nat
  tc_tabbableElements :: "elem list"
  tc_disabledElements :: "elem list"
  tc_released :: bool
  tc_active :: bool
  tc_trapFocus :: bool

datatype focus_trap = Tab_to_first "elem list" | ShiftTab_to_last "elem list"

datatype tabbing_event = Constrained nat | Released nat | Activated nat | Deactivated nat

record tabbing =
  tb_stack :: "nat list"
  tb_contexts :: "TabbingContext list"
  tb_attrs :: tab_attrs
  tb_data :: "elem \<Rightarrow> tab_info jsobj option"
  tb_traps :: "elem \<Rightarrow> focus_trap list"
  tb_focus :: "elem option"
  tb_events :: "tabbing_event list"

abbreviation ctx :: "tabbing \<Rightarrow> nat \<Rightarrow> TabbingContext" where
  "ctx s c \<equiv> tb_contexts s ! c"

definition update_ctx :: "nat \<Rightarrow> (TabbingContext \<Rightarrow> TabbingContext) \<Rightarrow> tabbing \<Rightarrow> tabbing" where
  "update_ctx c f s = s\<lparr>tb_contexts := (tb_contexts s)[c := f (ctx s c)]\<rparr>"

definition log_event :: "tabbing_event \<Rightarrow> tabbing \<Rightarrow> tabbing" where
  "log_event e s = s\<lparr>tb_events := tb_events s @ [e]\<rparr>"

text \<open>\<open>new TabbingManager()\<close> on a page with the given attributes.\<close>

definition TabbingManager :: "tab_attrs \<Rightarrow> tabbing" where
  "TabbingManager a =
     \<lparr>tb_stack = [], tb_contexts = [], tb_attrs = a, tb_data = (\<lambda>_. None), tb_traps = (\<lambda>_. []),
      tb_focus = None, tb_events = []\<rparr>"

section \<open>Recording and restoring attributes\<close>

definition recordTabindex :: "nat \<Rightarrow> elem \<Rightarrow> tabbing \<Rightarrow> tabbing" where
  "recordTabindex level x s =
     (let tabInfo = (case tb_data s x of None \<Rightarrow> [] | Some t \<Rightarrow> t);
          saved = \<lparr>ti_tabindex = ta_tabindex (tb_attrs s) x, ti_autofocus = (ta_autofocus (tb_attrs s) x \<noteq> None)\<rparr>
      in s\<lparr>tb_data := (tb_data s)(x := Some (js_put (nat_str level) saved tabInfo))\<rparr>)"

lemma length_js_del_has: "js_has ob k \<Longrightarrow> length (js_del k ob) < length ob"
  by (induction ob) (auto simp: js_has_def js_del_def le_imp_less_Suc)

text \<open>The \<open>while\<close> loop that deletes a level and the ones above it.\<close>

function delete_levels :: "nat \<Rightarrow> tab_info jsobj \<Rightarrow> tab_info jsobj" where
  "delete_levels l ob =
     (if js_has ob (nat_str l) then delete_levels (Suc l) (js_del (nat_str l) ob) else ob)"
  by pat_completeness auto

termination
  by (relation "measure (\<lambda>(l, ob). length ob)") (auto dest: length_js_del_has)

declare delete_levels.simps [simp del]

definition restore_attrs :: "tab_info \<Rightarrow> elem \<Rightarrow> tab_attrs \<Rightarrow> tab_attrs" where
  "restore_attrs d x a =
     (let a1 = a\<lparr>ta_tabindex := (ta_tabindex a)
            (x := (case ti_tabindex d of None \<Rightarrow> None | Some v \<Rightarrow> if v = '''' then None else Some v))\<rparr>
      in if ti_autofocus d then a1\<lparr>ta_autofocus := (ta_autofocus a1)(x := Some ''autofocus'')\<rparr> else a1)"

definition restoreTabindex :: "nat \<Rightarrow> elem \<Rightarrow> tabbing \<Rightarrow> tabbing" where
  "restoreTabindex level x s =
     (case tb_data s x of
        None \<Rightarrow> s
      | Some tabInfo \<Rightarrow>
          (case js_get tabInfo (nat_str level) of
             None \<Rightarrow> s
           | Some d \<Rightarrow>
               (let s1 = s\<lparr>tb_attrs := restore_attrs d x (tb_attrs s)\<rparr>
                in if level = 0 then s1\<lparr>tb_data := (tb_data s1)(x := None)\<rparr>
                   else s1\<lparr>tb_data := (tb_data s1)(x := Some (delete_levels level tabInfo))\<rparr>)))"

section \<open>Activating and deactivating\<close>

text \<open>\<open>.prop('tabindex', -1).prop('autofocus', false)\<close>\<close>

definition make_untabbable :: "elem list \<Rightarrow> tab_attrs \<Rightarrow> tab_attrs" where
  "make_untabbable xs a =
     \<lparr>ta_tabindex = (\<lambda>x. if x \<in> set xs then Some ''-1'' else ta_tabindex a x),
      ta_autofocus = (\<lambda>x. if x \<in> set xs then None else ta_autofocus a x)\<rparr>"

definition focus_target :: "tab_attrs \<Rightarrow> elem list \<Rightarrow> elem option" where
  "focus_target a xs =
     (let fs = filter (\<lambda>x. ta_autofocus a x \<noteq> None) xs
      in if fs = [] then (case xs of [] \<Rightarrow> None | x # _ \<Rightarrow> Some x) else Some (last fs))"

definition add_trap :: "elem \<Rightarrow> focus_trap \<Rightarrow> tabbing \<Rightarrow> tabbing" where
  "add_trap x h s = s\<lparr>tb_traps := (tb_traps s)(x := tb_traps s x @ [h])\<rparr>"

definition remove_traps :: "elem \<Rightarrow> tabbing \<Rightarrow> tabbing" where
  "remove_traps x s = s\<lparr>tb_traps := (tb_traps s)(x := [])\<rparr>"

definition manager_activate :: "tabbable_lib \<Rightarrow> nat \<Rightarrow> tabbing \<Rightarrow> tabbing" where
  "manager_activate lib c s =
     (let elems = tc_tabbableElements (ctx s c);
          level = tc_level (ctx s c);
          disabledSet = filter (\<lambda>x. x \<notin> set elems) (lib_tabbable lib (tb_attrs s) (lib_body lib));
          s1 = update_ctx c (\<lambda>t. t\<lparr>tc_disabledElements := disabledSet\<rparr>) s;
          s2 = fold (recordTabindex level) disabledSet s1;
          s3 = s2\<lparr>tb_attrs := make_untabbable disabledSet (tb_attrs s2)\<rparr>;
          s4 = (case focus_target (tb_attrs s3) elems of None \<Rightarrow> s3 | Some x \<Rightarrow> s3\<lparr>tb_focus := Some x\<rparr>)
      in if elems \<noteq> [] \<and> tc_trapFocus (ctx s c)
         then add_trap (hd elems) (ShiftTab_to_last elems) (add_trap (last elems) (Tab_to_first elems) s4)
         else s4)"

definition manager_deactivate :: "nat \<Rightarrow> tabbing \<Rightarrow> tabbing" where
  "manager_deactivate c s =
     (let elems = tc_tabbableElements (ctx s c);
          s1 = (if elems = [] then s else remove_traps (last elems) (remove_traps (hd elems) s))
      in fold (restoreTabindex (tc_level (ctx s c))) (tc_disabledElements (ctx s c)) s1)"

definition context_activate :: "tabbable_lib \<Rightarrow> nat \<Rightarrow> tabbing \<Rightarrow> tabbing" where
  "context_activate lib c s =
     (if \<not> tc_active (ctx s c) \<and> \<not> tc_released (ctx s c)
      then log_event (Activated c) (manager_activate lib c (update_ctx c (\<lambda>t. t\<lparr>tc_active := True\<rparr>) s))
      else s)"

definition context_deactivate :: "nat \<Rightarrow> tabbing \<Rightarrow> tabbing" where
  "context_deactivate c s =
     (if tc_active (ctx s c)
      then log_event (Deactivated c) (manager_deactivate c (update_ctx c (\<lambda>t. t\<lparr>tc_active := False\<rparr>) s))
      else s)"

section \<open>Constraining and releasing\<close>

text \<open>
  \<open>unwind released n\<close> is \<open>toActivate + 1\<close> for a stack of height \<open>n\<close>: the loop steps down while the
  context below is released.
\<close>

fun unwind :: "(nat \<Rightarrow> bool) \<Rightarrow> nat \<Rightarrow> nat" where
  "unwind released 0 = 0"
| "unwind released (Suc i) = (if released i then unwind released i else Suc i)"

definition manager_release :: "tabbable_lib \<Rightarrow> tabbing \<Rightarrow> tabbing" where
  "manager_release lib s =
     (let n = unwind (\<lambda>i. tc_released (ctx s (tb_stack s ! i))) (length (tb_stack s));
          s1 = s\<lparr>tb_stack := take n (tb_stack s)\<rparr>
      in if n = 0 then s1 else context_activate lib (tb_stack s1 ! (n - 1)) s1)"

definition context_release :: "tabbable_lib \<Rightarrow> nat \<Rightarrow> tabbing \<Rightarrow> tabbing" where
  "context_release lib c s =
     (if \<not> tc_released (ctx s c)
      then log_event (Released c)
        (manager_release lib (update_ctx c (\<lambda>t. t\<lparr>tc_released := True\<rparr>) (context_deactivate c s)))
      else s)"

definition tabbable_in_roots :: "tabbable_lib \<Rightarrow> tab_attrs \<Rightarrow> elem list \<Rightarrow> elem list" where
  "tabbable_in_roots lib a roots =
     concat (map (\<lambda>r. lib_tabbable lib a r @ (if lib_isTabbable lib a r then [r] else [])) roots)"

text \<open>\<open>new TabbingContext({level, $tabbableElements, trapFocus})\<close> with the defaults of the other fields.\<close>

definition new_TabbingContext :: "nat \<Rightarrow> elem list \<Rightarrow> bool \<Rightarrow> TabbingContext" where
  "new_TabbingContext level elems trapFocus =
     \<lparr>tc_level = level, tc_tabbableElements = elems, tc_disabledElements = [], tc_released = False,
      tc_active = False, tc_trapFocus = trapFocus\<rparr>"

text \<open>The result is the page and the address of the new context.\<close>

definition constrain :: "tabbable_lib \<Rightarrow> elem list \<Rightarrow> bool \<Rightarrow> tabbing \<Rightarrow> tabbing \<times> nat" where
  "constrain lib roots trapFocus s =
     (let s1 = fold context_deactivate (tb_stack s) s;
          elems = tabbable_in_roots lib (tb_attrs s1) roots;
          c = length (tb_contexts s1);
          s2 = s1\<lparr>tb_contexts := tb_contexts s1 @ [new_TabbingContext (length (tb_stack s1)) elems trapFocus]\<rparr>;
          s3 = s2\<lparr>tb_stack := tb_stack s2 @ [c]\<rparr>
      in (log_event (Constrained c) (context_activate lib c s3), c))"

text \<open>A keydown on an element: the \<open>focus-trap\<close> handlers bound to it run in order.\<close>

definition trap_key :: "bool \<Rightarrow> focus_trap \<Rightarrow> tabbing \<times> bool \<Rightarrow> tabbing \<times> bool" where
  "trap_key shiftKey h sp =
     (case h of
        Tab_to_first elems \<Rightarrow>
          if \<not> shiftKey then ((fst sp)\<lparr>tb_focus := Some (hd elems)\<rparr>, True) else sp
      | ShiftTab_to_last elems \<Rightarrow>
          if shiftKey then ((fst sp)\<lparr>tb_focus := Some (last elems)\<rparr>, True) else sp)"

definition trap_keydown :: "elem \<Rightarrow> string \<Rightarrow> bool \<Rightarrow> tabbing \<Rightarrow> tabbing \<times> bool" where
  "trap_keydown x key shiftKey s =
     (if key = ''Tab'' then fold (trap_key shiftKey) (tb_traps s x) (s, False) else (s, False))"

section \<open>What the page shows\<close>

text \<open>
  An element has the tabbing attributes of the original page when its \<open>tabindex\<close> has the same text (a
  missing and an empty attribute both mean none) and it has \<open>autofocus\<close> or not as before.
\<close>

definition attr_text :: "string option \<Rightarrow> string" where
  "attr_text v = (case v of None \<Rightarrow> '''' | Some t \<Rightarrow> t)"

definition same_attrs :: "tab_attrs \<Rightarrow> tab_attrs \<Rightarrow> elem \<Rightarrow> bool" where
  "same_attrs a b x \<longleftrightarrow>
     attr_text (ta_tabindex a x) = attr_text (ta_tabindex b x) \<and>
     (ta_autofocus a x \<noteq> None \<longleftrightarrow> ta_autofocus b x \<noteq> None)"

definition untouched :: "tab_attrs \<Rightarrow> tabbing \<Rightarrow> elem \<Rightarrow> bool" where
  "untouched a0 s x \<longleftrightarrow> same_attrs (tb_attrs s) a0 x \<and> (tb_data s x = None \<or> tb_data s x = Some [])"

definition masked :: "tab_attrs \<Rightarrow> nat \<Rightarrow> tabbing \<Rightarrow> elem \<Rightarrow> bool" where
  "masked a0 level s x \<longleftrightarrow>
     ta_tabindex (tb_attrs s) x = Some ''-1'' \<and> ta_autofocus (tb_attrs s) x = None \<and>
     (\<exists>d. tb_data s x = Some [(nat_str level, d)] \<and>
        attr_text (ti_tabindex d) = attr_text (ta_tabindex a0 x) \<and> ti_autofocus d = (ta_autofocus a0 x \<noteq> None))"

definition traps_of :: "TabbingContext \<Rightarrow> elem \<Rightarrow> focus_trap list" where
  "traps_of t x =
     (let elems = tc_tabbableElements t in
      if elems \<noteq> [] \<and> tc_trapFocus t
      then (if x = last elems then [Tab_to_first elems] else []) @ (if x = hd elems then [ShiftTab_to_last elems] else [])
      else [])"

definition page_clean :: "tab_attrs \<Rightarrow> tabbing \<Rightarrow> bool" where
  "page_clean a0 s \<longleftrightarrow> (\<forall>x. untouched a0 s x) \<and> tb_traps s = (\<lambda>_. [])"

definition page_shows :: "tab_attrs \<Rightarrow> TabbingContext \<Rightarrow> tabbing \<Rightarrow> bool" where
  "page_shows a0 t s \<longleftrightarrow>
     (\<forall>x. if x \<in> set (tc_disabledElements t) then masked a0 (tc_level t) s x else untouched a0 s x) \<and>
     tb_traps s = traps_of t"

definition dom_part :: "tabbing \<Rightarrow> tab_attrs \<times> (elem \<Rightarrow> tab_info jsobj option) \<times> (elem \<Rightarrow> focus_trap list)" where
  "dom_part s = (tb_attrs s, tb_data s, tb_traps s)"

definition stack_part :: "tabbing \<Rightarrow> nat list \<times> TabbingContext list" where
  "stack_part s = (tb_stack s, tb_contexts s)"

lemma page_dom_part:
  "dom_part s = dom_part s' \<Longrightarrow> page_clean a0 s = page_clean a0 s'"
  "dom_part s = dom_part s' \<Longrightarrow> page_shows a0 t s = page_shows a0 t s'"
  by (simp_all add: dom_part_def page_clean_def page_shows_def untouched_def masked_def)

lemma stack_partD:
  "stack_part s = stack_part s' \<Longrightarrow> tb_stack s = tb_stack s'"
  "stack_part s = stack_part s' \<Longrightarrow> tb_contexts s = tb_contexts s'"
  by (simp_all add: stack_part_def)

lemma stack_part_frames [simp]:
  "stack_part (recordTabindex l x s) = stack_part s"
  "stack_part (restoreTabindex l x s) = stack_part s"
  "stack_part (log_event ev s) = stack_part s"
  "stack_part (add_trap x h s) = stack_part s"
  "stack_part (remove_traps x s) = stack_part s"
  "stack_part (s\<lparr>tb_attrs := a\<rparr>) = stack_part s"
  "stack_part (s\<lparr>tb_focus := f\<rparr>) = stack_part s"
  by (simp_all add: stack_part_def recordTabindex_def restoreTabindex_def log_event_def add_trap_def
      remove_traps_def Let_def split: option.splits)

lemma stack_part_fold:
  "(\<And>x s. stack_part (f x s) = stack_part s) \<Longrightarrow> stack_part (fold f xs s) = stack_part s"
  by (induction xs arbitrary: s) simp_all

lemma dom_part_frames [simp]:
  "dom_part (log_event ev s) = dom_part s"
  "dom_part (update_ctx c f s) = dom_part s"
  "dom_part (s\<lparr>tb_focus := g\<rparr>) = dom_part s"
  "dom_part (s\<lparr>tb_stack := st\<rparr>) = dom_part s"
  "dom_part (s\<lparr>tb_contexts := cs\<rparr>) = dom_part s"
  by (simp_all add: dom_part_def log_event_def update_ctx_def)

section \<open>Recording and restoring are inverse\<close>

definition tab_recorded :: "nat \<Rightarrow> tab_attrs \<Rightarrow> elem \<Rightarrow> tab_info jsobj option \<Rightarrow> tab_info jsobj" where
  "tab_recorded level a x old =
     js_put (nat_str level) \<lparr>ti_tabindex = ta_tabindex a x, ti_autofocus = (ta_autofocus a x \<noteq> None)\<rparr>
       (case old of None \<Rightarrow> [] | Some t \<Rightarrow> t)"

lemma fold_recordTabindex:
  "fold (recordTabindex level) xs s =
     s\<lparr>tb_data := (\<lambda>x. if x \<in> set xs then Some (tab_recorded level (tb_attrs s) x (tb_data s x)) else tb_data s x)\<rparr>"
proof (induction xs arbitrary: s)
  case (Cons y ys)
  have "recordTabindex level y s = s\<lparr>tb_data := (tb_data s)(y := Some (tab_recorded level (tb_attrs s) y (tb_data s y)))\<rparr>"
    by (simp add: recordTabindex_def tab_recorded_def Let_def)
  with Cons show ?case by (auto simp: tab_recorded_def fun_eq_iff intro!: tabbing.equality)
qed simp

lemma activation_masks:
  assumes clean: "\<forall>x. untouched a0 s x"
    and s': "s' = (fold (recordTabindex level) xs s)\<lparr>tb_attrs := make_untabbable xs (tb_attrs s)\<rparr>"
  shows "if x \<in> set xs then masked a0 level s' x else untouched a0 s' x"
  using clean [rule_format, of x] unfolding s' fold_recordTabindex
  by (auto simp: untouched_def masked_def make_untabbable_def same_attrs_def tab_recorded_def)

lemma restore_masked:
  assumes "masked a0 level s x"
  shows "untouched a0 (restoreTabindex level x s) x"
proof -
  from assms obtain d where d: "tb_data s x = Some [(nat_str level, d)]"
    "attr_text (ti_tabindex d) = attr_text (ta_tabindex a0 x)" "ti_autofocus d = (ta_autofocus a0 x \<noteq> None)"
    "ta_autofocus (tb_attrs s) x = None"
    by (auto simp: masked_def)
  have "delete_levels level [(nat_str level, d)] = []"
    by (subst delete_levels.simps, subst delete_levels.simps) (simp add: js_has_def js_del_def)
  with d show ?thesis
    by (auto simp: restoreTabindex_def untouched_def same_attrs_def restore_attrs_def attr_text_def Let_def
        split: option.splits)
qed

lemma restore_untouched: "untouched a0 s x \<Longrightarrow> restoreTabindex level x s = s"
  by (auto simp: untouched_def restoreTabindex_def)

lemma restore_elsewhere:
  assumes "y \<noteq> x"
  shows "masked a0 l (restoreTabindex level x s) y = masked a0 l s y"
    and "untouched a0 (restoreTabindex level x s) y = untouched a0 s y"
  using assms
  by (auto simp: restoreTabindex_def restore_attrs_def masked_def untouched_def same_attrs_def Let_def split: option.splits)

lemma traps_restore [simp]: "tb_traps (restoreTabindex level x s) = tb_traps s"
  by (simp add: restoreTabindex_def Let_def split: option.splits)

lemma traps_fold_restore [simp]: "tb_traps (fold (restoreTabindex level) xs s) = tb_traps s"
  by (induction xs arbitrary: s) simp_all

lemma fold_restoreTabindex:
  assumes "\<forall>x. masked a0 level s x \<or> untouched a0 s x" and "\<forall>x. x \<notin> set xs \<longrightarrow> untouched a0 s x"
  shows "untouched a0 (fold (restoreTabindex level) xs s) x"
  using assms
proof (induction xs arbitrary: s)
  case (Cons y ys)
  let ?s = "restoreTabindex level y s"
  have y: "untouched a0 ?s y"
    using Cons.prems(1) restore_masked restore_untouched by metis
  have "masked a0 level ?s x \<or> untouched a0 ?s x" for x
    using y Cons.prems(1) restore_elsewhere by metis
  moreover have "untouched a0 ?s x" if "x \<notin> set ys" for x
    using that y Cons.prems(2) restore_elsewhere(2) by (metis set_ConsD)
  ultimately show ?case using Cons.IH [of ?s] by simp
qed simp

section \<open>Activation and deactivation\<close>

lemma ctx_update_ctx:
  "c < length (tb_contexts s) \<Longrightarrow> ctx (update_ctx c f s) d = (if d = c then f (ctx s c) else ctx s d)"
  by (simp add: update_ctx_def)

lemma length_update_ctx [simp]: "length (tb_contexts (update_ctx c f s)) = length (tb_contexts s)"
  by (simp add: update_ctx_def)

lemma stack_update_ctx [simp]: "tb_stack (update_ctx c f s) = tb_stack s"
  by (simp add: update_ctx_def)

definition disabled_by :: "tabbable_lib \<Rightarrow> TabbingContext \<Rightarrow> tab_attrs \<Rightarrow> elem list" where
  "disabled_by lib t a = filter (\<lambda>x. x \<notin> set (tc_tabbableElements t)) (lib_tabbable lib a (lib_body lib))"

lemma manager_activate_stack:
  "stack_part (manager_activate lib c s) =
     stack_part (update_ctx c (\<lambda>t. t\<lparr>tc_disabledElements := disabled_by lib (ctx s c) (tb_attrs s)\<rparr>) s)"
proof -
  have "stack_part (fold (recordTabindex l) xs s') = stack_part s'" for l xs s'
    by (rule stack_part_fold) simp
  then show ?thesis
    by (simp add: manager_activate_def disabled_by_def Let_def split: option.splits)
qed

lemma traps_add: "tb_traps (add_trap x h s) = (tb_traps s)(x := tb_traps s x @ [h])"
  by (simp add: add_trap_def)

lemma dom_add_trap:
  "tb_attrs (add_trap x h s) = tb_attrs s" "tb_data (add_trap x h s) = tb_data s"
  by (simp_all add: add_trap_def)

lemma manager_activate_shows:
  assumes clean: "page_clean a0 s" and c: "c < length (tb_contexts s)"
  shows "page_shows a0 (ctx (manager_activate lib c s) c) (manager_activate lib c s)"
proof -
  let ?t = "ctx s c" and ?xs = "disabled_by lib (ctx s c) (tb_attrs s)"
  let ?u = "update_ctx c (\<lambda>t. t\<lparr>tc_disabledElements := ?xs\<rparr>) s"
  let ?v = "(fold (recordTabindex (tc_level ?t)) ?xs ?u)\<lparr>tb_attrs := make_untabbable ?xs (tb_attrs ?u)\<rparr>"
  let ?r = "manager_activate lib c s"
  have t': "ctx ?r c = ?t\<lparr>tc_disabledElements := ?xs\<rparr>"
    using stack_partD(2) [OF manager_activate_stack [of lib c s]] c by (simp add: ctx_update_ctx)
  have clean_u: "\<forall>x. untouched a0 ?u x"
    using clean by (simp add: page_clean_def untouched_def update_ctx_def)
  note masks = activation_masks [OF clean_u refl, where level = "tc_level ?t" and xs = ?xs]
  have dom: "tb_attrs ?r = tb_attrs ?v" "tb_data ?r = tb_data ?v"
    by (simp_all add: manager_activate_def disabled_by_def Let_def dom_add_trap fold_recordTabindex split: option.splits)
  have same: "masked a0 l ?r x = masked a0 l ?v x" "untouched a0 ?r x = untouched a0 ?v x" for l x
    by (simp_all only: masked_def untouched_def dom)
  have none: "tb_traps s = (\<lambda>_. [])" using clean by (simp add: page_clean_def)
  have "tb_traps ?r = traps_of (ctx ?r c)"
    unfolding t'
    by (rule ext)
      (auto simp: manager_activate_def traps_of_def Let_def traps_add fold_recordTabindex update_ctx_def none split: option.splits)
  with masks show ?thesis by (simp add: page_shows_def t' same)
qed

lemma manager_deactivate_cleans:
  assumes masks: "page_shows a0 (ctx s c) s"
  shows "page_clean a0 (manager_deactivate c s)"
proof -
  let ?elems = "tc_tabbableElements (ctx s c)"
  let ?u = "if ?elems = [] then s else remove_traps (last ?elems) (remove_traps (hd ?elems) s)"
  have same: "masked a0 l ?u x = masked a0 l s x" "untouched a0 ?u x = untouched a0 s x" for l x
    by (simp_all add: masked_def untouched_def remove_traps_def)
  have "untouched a0 (fold (restoreTabindex (tc_level (ctx s c))) (tc_disabledElements (ctx s c)) ?u) x" for x
    by (rule fold_restoreTabindex) (use masks in \<open>auto simp: page_shows_def same split: if_splits\<close>)
  moreover have "tb_traps ?u = (\<lambda>_. [])"
    using masks by (auto simp: page_shows_def traps_of_def remove_traps_def Let_def fun_eq_iff)
  ultimately show ?thesis by (simp add: page_clean_def manager_deactivate_def Let_def)
qed

lemma manager_deactivate_stack: "stack_part (manager_deactivate c s) = stack_part s"
proof -
  have "stack_part (fold (restoreTabindex l) xs s') = stack_part s'" for l xs s'
    by (rule stack_part_fold) simp
  then show ?thesis by (simp add: manager_deactivate_def Let_def)
qed

section \<open>The invariant of the stack\<close>

definition stack_wf :: "tabbing \<Rightarrow> bool" where
  "stack_wf s \<longleftrightarrow>
     distinct (tb_stack s) \<and>
     (\<forall>i < length (tb_stack s). tb_stack s ! i < length (tb_contexts s) \<and> tc_level (ctx s (tb_stack s ! i)) = i) \<and>
     (\<forall>c < length (tb_contexts s). \<not> tc_released (ctx s c) \<longrightarrow> c \<in> set (tb_stack s))"

text \<open>Between two activations no context is active and the page is clean.\<close>

definition at_rest :: "tab_attrs \<Rightarrow> tabbing \<Rightarrow> bool" where
  "at_rest a0 s \<longleftrightarrow> stack_wf s \<and> page_clean a0 s \<and> (\<forall>c < length (tb_contexts s). \<not> tc_active (ctx s c))"

definition tabbing_inv :: "tab_attrs \<Rightarrow> tabbing \<Rightarrow> bool" where
  "tabbing_inv a0 s \<longleftrightarrow>
     stack_wf s \<and>
     (\<forall>c < length (tb_contexts s). tc_active (ctx s c) \<longleftrightarrow> tb_stack s \<noteq> [] \<and> c = last (tb_stack s)) \<and>
     (if tb_stack s = [] then page_clean a0 s
      else \<not> tc_released (ctx s (last (tb_stack s))) \<and> page_shows a0 (ctx s (last (tb_stack s))) s)"

lemma stack_wf_last: "stack_wf s \<Longrightarrow> tb_stack s \<noteq> [] \<Longrightarrow> last (tb_stack s) < length (tb_contexts s)"
  by (auto simp: stack_wf_def last_conv_nth)

lemma stack_wf_in: "stack_wf s \<Longrightarrow> c \<in> set (tb_stack s) \<Longrightarrow> c < length (tb_contexts s)"
  by (auto simp: stack_wf_def in_set_conv_nth)

lemma context_activate_rest:
  assumes rest: "at_rest a0 s" and top: "tb_stack s \<noteq> []" "c = last (tb_stack s)" "\<not> tc_released (ctx s c)"
  shows "tabbing_inv a0 (context_activate lib c s)"
    and "tb_stack (context_activate lib c s) = tb_stack s"
    and "length (tb_contexts (context_activate lib c s)) = length (tb_contexts s)"
    and "tc_released (ctx (context_activate lib c s) d) = tc_released (ctx s d)"
    and "tc_tabbableElements (ctx (context_activate lib c s) d) = tc_tabbableElements (ctx s d)"
proof -
  let ?u = "update_ctx c (\<lambda>t. t\<lparr>tc_active := True\<rparr>) s"
  let ?m = "manager_activate lib c ?u"
  let ?r = "context_activate lib c s"
  have c: "c < length (tb_contexts s)" using rest top stack_wf_last by (auto simp: at_rest_def)
  have r: "?r = log_event (Activated c) ?m"
    using rest top c by (simp add: context_activate_def at_rest_def)
  have sp: "tb_stack ?r = tb_stack s" "tb_contexts ?r = tb_contexts ?m"
    using stack_partD [OF manager_activate_stack [of lib c ?u]] by (simp_all add: r log_event_def)
  have cs: "tb_contexts ?m = (tb_contexts s)[c := (ctx s c)\<lparr>tc_active := True, tc_disabledElements := disabled_by lib (ctx ?u c) (tb_attrs ?u)\<rparr>]"
    using stack_partD(2) [OF manager_activate_stack [of lib c ?u]] c by (simp add: update_ctx_def)
  have len: "length (tb_contexts ?r) = length (tb_contexts s)" using sp cs by simp
  have other: "ctx ?r d = ctx s d" if "d \<noteq> c" for d using that sp(2) cs by simp
  have this_one: "tc_active (ctx ?r c)" "tc_released (ctx ?r c) = tc_released (ctx s c)"
    "tc_level (ctx ?r c) = tc_level (ctx s c)" "tc_tabbableElements (ctx ?r c) = tc_tabbableElements (ctx s c)"
    using sp(2) cs c by simp_all
  have level: "tc_level (ctx ?r d) = tc_level (ctx s d)" for d by (cases "d = c") (simp_all add: other this_one)
  show rel: "tc_released (ctx ?r d) = tc_released (ctx s d)" for d by (cases "d = c") (simp_all add: other this_one)
  show "tc_tabbableElements (ctx ?r d) = tc_tabbableElements (ctx s d)" by (cases "d = c") (simp_all add: other this_one)
  have active: "tc_active (ctx ?r d) \<longleftrightarrow> d = c" if "d < length (tb_contexts s)" for d
    using that rest by (cases "d = c") (simp_all add: other this_one at_rest_def)
  have "page_clean a0 ?u" using rest page_dom_part(1) [of ?u s] by (simp add: at_rest_def)
  from manager_activate_shows [OF this, of c lib] c have masks: "page_shows a0 (ctx ?m c) ?m" by simp
  have eq: "dom_part ?r = dom_part ?m" by (simp add: r)
  have "page_shows a0 (ctx ?r c) ?r"
    using masks page_dom_part(2) [of ?r ?m, OF eq] unfolding sp(2) by simp
  moreover have "stack_wf ?r"
    using rest unfolding at_rest_def stack_wf_def sp(1) len level rel by blast
  ultimately show "tabbing_inv a0 ?r"
    using top active unfolding tabbing_inv_def sp(1) len rel by simp
  show "tb_stack ?r = tb_stack s" by (rule sp(1))
  show "length (tb_contexts ?r) = length (tb_contexts s)" by (rule len)
qed

lemma page_shows_active [simp]: "page_shows a0 (t\<lparr>tc_active := b\<rparr>) s = page_shows a0 t s"
  by (simp add: page_shows_def traps_of_def fun_eq_iff)

lemma context_deactivate_top:
  assumes inv: "tabbing_inv a0 s" and top: "tb_stack s \<noteq> []"
  shows "at_rest a0 (context_deactivate (last (tb_stack s)) s)"
    and "tb_stack (context_deactivate (last (tb_stack s)) s) = tb_stack s"
    and "tb_contexts (context_deactivate (last (tb_stack s)) s) =
      (tb_contexts s)[last (tb_stack s) := (ctx s (last (tb_stack s)))\<lparr>tc_active := False\<rparr>]"
proof -
  let ?c = "last (tb_stack s)"
  let ?u = "update_ctx ?c (\<lambda>t. t\<lparr>tc_active := False\<rparr>) s"
  let ?r = "context_deactivate ?c s"
  have c: "?c < length (tb_contexts s)" using inv top stack_wf_last by (auto simp: tabbing_inv_def)
  have r: "?r = log_event (Deactivated ?c) (manager_deactivate ?c ?u)"
    using inv top c by (simp add: context_deactivate_def tabbing_inv_def)
  have sp: "tb_stack ?r = tb_stack s" "tb_contexts ?r = tb_contexts ?u"
    using stack_partD [OF manager_deactivate_stack [of ?c ?u]] by (simp_all add: r log_event_def)
  have "page_shows a0 (ctx s ?c) s" using inv top by (simp add: tabbing_inv_def)
  then have "page_shows a0 (ctx ?u ?c) ?u"
    using c page_dom_part(2) [of ?u s] by (simp add: ctx_update_ctx)
  from manager_deactivate_cleans [OF this] have clean: "page_clean a0 ?r"
    using page_dom_part(1) [of ?r "manager_deactivate ?c ?u"] by (simp add: r)
  have "stack_wf ?r" using inv c by (auto simp: tabbing_inv_def stack_wf_def sp update_ctx_def nth_list_update)
  with clean inv top c show "at_rest a0 ?r" by (auto simp: at_rest_def tabbing_inv_def sp update_ctx_def nth_list_update)
  show "tb_stack ?r = tb_stack s" by (rule sp(1))
  show "tb_contexts ?r = (tb_contexts s)[?c := (ctx s ?c)\<lparr>tc_active := False\<rparr>]" by (simp add: sp(2) update_ctx_def)
qed

lemma context_deactivate_inactive: "\<not> tc_active (ctx s c) \<Longrightarrow> context_deactivate c s = s"
  by (simp add: context_deactivate_def)

text \<open>The loop of \<open>constrain\<close> that deactivates every context of the stack.\<close>

lemma fold_deactivate_inactive:
  "\<forall>c \<in> set cs. \<not> tc_active (ctx s c) \<Longrightarrow> fold context_deactivate cs s = s"
  by (induction cs) (simp_all add: context_deactivate_inactive)

lemma fold_deactivate_stack:
  assumes inv: "tabbing_inv a0 s"
  shows "fold context_deactivate (tb_stack s) s =
    (if tb_stack s = [] then s else context_deactivate (last (tb_stack s)) s)"
proof (cases "tb_stack s = []")
  case False
  then have split: "tb_stack s = butlast (tb_stack s) @ [last (tb_stack s)]" by simp
  have "distinct (tb_stack s)" using inv by (simp add: tabbing_inv_def stack_wf_def)
  then have other: "last (tb_stack s) \<notin> set (butlast (tb_stack s))"
    by (subst (asm) split) simp
  have "\<not> tc_active (ctx s c)" if "c \<in> set (butlast (tb_stack s))" for c
    using that other inv stack_wf_in [of s c] by (auto simp: tabbing_inv_def dest: in_set_butlastD)
  then have "fold context_deactivate (butlast (tb_stack s)) s = s"
    by (intro fold_deactivate_inactive) blast
  then have "fold context_deactivate (butlast (tb_stack s) @ [last (tb_stack s)]) s = context_deactivate (last (tb_stack s)) s"
    by simp
  with False split show ?thesis by simp
qed simp

lemma deactivated_stack_rest:
  assumes inv: "tabbing_inv a0 s"
  defines "r \<equiv> fold context_deactivate (tb_stack s) s"
  shows "at_rest a0 r" and "tb_stack r = tb_stack s" and "length (tb_contexts r) = length (tb_contexts s)"
    and "tc_released (ctx r c) = tc_released (ctx s c)"
    and "tc_tabbableElements (ctx r c) = tc_tabbableElements (ctx s c)"
proof -
  have r: "r = (if tb_stack s = [] then s else context_deactivate (last (tb_stack s)) s)"
    unfolding r_def by (rule fold_deactivate_stack [OF inv])
  note top = context_deactivate_top [OF inv]
  have last: "last (tb_stack s) < length (tb_contexts s)" if "tb_stack s \<noteq> []"
    using inv that stack_wf_last by (auto simp: tabbing_inv_def)
  show "at_rest a0 r" using inv top(1) by (auto simp: r tabbing_inv_def at_rest_def)
  show "tb_stack r = tb_stack s" using top(2) by (simp add: r)
  show "length (tb_contexts r) = length (tb_contexts s)" using top(3) by (simp add: r)
  show "tc_released (ctx r c) = tc_released (ctx s c)"
    using top(3) last by (cases "c = last (tb_stack s)") (auto simp: r)
  show "tc_tabbableElements (ctx r c) = tc_tabbableElements (ctx s c)"
    using top(3) last by (cases "c = last (tb_stack s)") (auto simp: r)
qed

lemma tabbing_inv_log [simp]: "tabbing_inv a0 (log_event e s) = tabbing_inv a0 s"
proof -
  have "tb_stack (log_event e s) = tb_stack s" "tb_contexts (log_event e s) = tb_contexts s" by (simp_all add: log_event_def)
  moreover have "dom_part (log_event e s) = dom_part s" by simp
  note page_dom_part [OF this]
  ultimately show ?thesis by (simp add: tabbing_inv_def stack_wf_def)
qed

text \<open>What \<open>constrain\<close> does to the stack: the new context is its new, active top.\<close>

definition pushed :: "tabbable_lib \<Rightarrow> elem list \<Rightarrow> bool \<Rightarrow> tabbing \<Rightarrow> tabbing" where
  "pushed lib roots trapFocus s =
     (let d = fold context_deactivate (tb_stack s) s
      in d\<lparr>tb_contexts := tb_contexts d @
             [new_TabbingContext (length (tb_stack d)) (tabbable_in_roots lib (tb_attrs d) roots) trapFocus],
           tb_stack := tb_stack d @ [length (tb_contexts d)]\<rparr>)"

lemma constrain_activates:
  assumes inv: "tabbing_inv a0 s"
  shows "at_rest a0 (pushed lib roots trapFocus s)" and "tb_stack (pushed lib roots trapFocus s) \<noteq> []"
    and "length (tb_contexts s) = last (tb_stack (pushed lib roots trapFocus s))"
    and "\<not> tc_released (ctx (pushed lib roots trapFocus s) (length (tb_contexts s)))"
    and "constrain lib roots trapFocus s = (log_event (Constrained (length (tb_contexts s)))
      (context_activate lib (length (tb_contexts s)) (pushed lib roots trapFocus s)), length (tb_contexts s))"
proof -
  let ?d = "fold context_deactivate (tb_stack s) s" and ?c = "length (tb_contexts s)"
  let ?u = "pushed lib roots trapFocus s"
  note d = deactivated_stack_rest [OF inv]
  have "page_clean a0 ?u" using d(1) page_dom_part(1) [of ?u ?d] by (simp add: at_rest_def pushed_def Let_def)
  moreover have "?c \<notin> set (tb_stack ?d)"
    using d(1,3) stack_wf_in [of ?d ?c] by (auto simp: at_rest_def)
  then have "stack_wf ?u"
    using d(1) by (auto simp: at_rest_def stack_wf_def nth_append d(3) new_TabbingContext_def less_Suc_eq pushed_def Let_def
        dest: nth_mem stack_wf_in)
  ultimately show "at_rest a0 ?u"
    using d(1) by (auto simp: at_rest_def nth_append less_Suc_eq new_TabbingContext_def pushed_def Let_def)
  show "tb_stack ?u \<noteq> []" "?c = last (tb_stack ?u)" by (simp_all add: pushed_def Let_def d(3))
  show "\<not> tc_released (ctx ?u ?c)" by (simp add: pushed_def Let_def d(3) [symmetric] new_TabbingContext_def)
  show "constrain lib roots trapFocus s = (log_event (Constrained ?c) (context_activate lib ?c ?u), ?c)"
    by (simp add: constrain_def pushed_def Let_def d(3))
qed

lemma constrain_inv:
  fixes lib roots trapFocus
  assumes inv: "tabbing_inv a0 s"
  defines "r \<equiv> fst (constrain lib roots trapFocus s)" and "c \<equiv> length (tb_contexts s)"
  shows "tabbing_inv a0 r" and "tb_stack r = tb_stack s @ [c]" and "snd (constrain lib roots trapFocus s) = c"
    and "length (tb_contexts r) = Suc c"
    and "d < c \<Longrightarrow> tc_released (ctx r d) = tc_released (ctx s d)" and "\<not> tc_released (ctx r c)"
proof -
  let ?u = "pushed lib roots trapFocus s"
  note pre = constrain_activates [OF inv, of lib roots trapFocus, folded c_def]
  note act = context_activate_rest [OF pre(1-4), of lib]
  note d = deactivated_stack_rest [OF inv]
  have r: "r = log_event (Constrained c) (context_activate lib c ?u)" by (simp add: r_def pre(5))
  have frame: "tb_stack r = tb_stack (context_activate lib c ?u)" "tb_contexts r = tb_contexts (context_activate lib c ?u)"
    by (simp_all add: r log_event_def)
  have u: "tb_stack ?u = tb_stack s @ [c]" "length (tb_contexts ?u) = Suc c"
    by (simp_all add: pushed_def Let_def d c_def)
  show "tabbing_inv a0 r" using act(1) by (simp add: r)
  show "tb_stack r = tb_stack s @ [c]" using act(2) by (simp add: frame u)
  show "snd (constrain lib roots trapFocus s) = c" by (simp add: pre(5))
  show "length (tb_contexts r) = Suc c" using act(3) by (simp add: frame u)
  show "\<not> tc_released (ctx r c)" using act(4) [of c] pre(4) by (simp add: frame)
  show "tc_released (ctx r d) = tc_released (ctx s d)" if "d < c"
    using act(4) [of d] d(3,4) that by (simp add: frame pushed_def Let_def nth_append c_def)
qed

lemma unwind_le: "unwind p n \<le> n"
  by (induction n) (auto simp: le_Suc_eq)

lemma unwind_top: "unwind p n \<noteq> 0 \<Longrightarrow> \<not> p (unwind p n - 1)"
  by (induction n) auto

lemma unwind_above: "unwind p n \<le> i \<Longrightarrow> i < n \<Longrightarrow> p i"
  by (induction n) (auto simp: less_Suc_eq split: if_splits)

lemma unwind_stays: "\<not> p n \<Longrightarrow> unwind p (Suc n) = Suc n"
  by simp

definition unwound :: "tabbing \<Rightarrow> nat list" where
  "unwound s = take (unwind (\<lambda>i. tc_released (ctx s (tb_stack s ! i))) (length (tb_stack s))) (tb_stack s)"

lemma unwound_keeps:
  assumes "c \<in> set (tb_stack s)" and "\<not> tc_released (ctx s c)"
  shows "c \<in> set (unwound s)"
proof -
  let ?p = "\<lambda>i. tc_released (ctx s (tb_stack s ! i))"
  from assms(1) obtain i where i: "i < length (tb_stack s)" "tb_stack s ! i = c" by (auto simp: in_set_conv_nth)
  with assms(2) unwind_above [of ?p "length (tb_stack s)" i] have "i < unwind ?p (length (tb_stack s))" by force
  with i show ?thesis unfolding unwound_def by (auto simp: in_set_conv_nth intro: exI [of _ i])
qed

lemma last_take: "n \<noteq> 0 \<Longrightarrow> n \<le> length xs \<Longrightarrow> last (take n xs) = xs ! (n - 1)"
  by (subst last_conv_nth) (auto simp: min_def)

lemma unwound_top:
  assumes "unwound s \<noteq> []"
  shows "\<not> tc_released (ctx s (last (unwound s)))"
proof -
  let ?p = "\<lambda>i. tc_released (ctx s (tb_stack s ! i))"
  let ?n = "unwind ?p (length (tb_stack s))"
  have n: "?n \<noteq> 0" "?n \<le> length (tb_stack s)" using assms unwind_le [of ?p] by (auto simp: unwound_def)
  then have "last (unwound s) = tb_stack s ! (?n - 1)"
    by (simp add: unwound_def last_take)
  with unwind_top [OF n(1)] show ?thesis by simp
qed

lemma manager_release_conv:
  "manager_release lib s = (if unwound s = [] then s\<lparr>tb_stack := []\<rparr>
     else context_activate lib (last (unwound s)) (s\<lparr>tb_stack := unwound s\<rparr>))"
proof -
  let ?n = "unwind (\<lambda>i. tc_released (ctx s (tb_stack s ! i))) (length (tb_stack s))"
  have "?n \<le> length (tb_stack s)" by (rule unwind_le)
  then have "unwound s = [] \<longleftrightarrow> ?n = 0" "?n \<noteq> 0 \<Longrightarrow> last (unwound s) = tb_stack s ! (?n - 1)"
    by (auto simp: unwound_def last_take)
  then show ?thesis by (simp add: manager_release_def Let_def unwound_def)
qed

lemma unwound_rest:
  assumes rest: "at_rest a0 s"
  shows "at_rest a0 (s\<lparr>tb_stack := unwound s\<rparr>)"
proof -
  let ?u = "s\<lparr>tb_stack := unwound s\<rparr>"
  have "page_clean a0 ?u" using rest page_dom_part(1) [of ?u s] by (simp add: at_rest_def)
  moreover have "stack_wf ?u"
    using rest unwound_keeps [of _ s] by (auto simp: at_rest_def stack_wf_def) (auto simp: unwound_def)
  ultimately show ?thesis using rest by (simp add: at_rest_def)
qed

lemma manager_release_rest:
  assumes rest: "at_rest a0 s"
  shows "tabbing_inv a0 (manager_release lib s)" and "tb_stack (manager_release lib s) = unwound s"
    and "length (tb_contexts (manager_release lib s)) = length (tb_contexts s)"
    and "tc_released (ctx (manager_release lib s) d) = tc_released (ctx s d)"
proof -
  have u: "at_rest a0 (s\<lparr>tb_stack := unwound s\<rparr>)" by (rule unwound_rest [OF rest])
  show "tabbing_inv a0 (manager_release lib s)" "tb_stack (manager_release lib s) = unwound s"
    "length (tb_contexts (manager_release lib s)) = length (tb_contexts s)"
    "tc_released (ctx (manager_release lib s) d) = tc_released (ctx s d)"
    using context_activate_rest [OF u, of "last (unwound s)" lib] unwound_top [of s] u
    by (auto simp: manager_release_conv tabbing_inv_def at_rest_def)
qed

lemma tabbing_inv_mark_released:
  assumes inv: "tabbing_inv a0 s" and c: "c < length (tb_contexts s)" and other: "tb_stack s \<noteq> [] \<Longrightarrow> c \<noteq> last (tb_stack s)"
  shows "tabbing_inv a0 (update_ctx c (\<lambda>t. t\<lparr>tc_released := True\<rparr>) s)"
proof -
  let ?u = "update_ctx c (\<lambda>t. t\<lparr>tc_released := True\<rparr>) s"
  have wf: "stack_wf ?u" using inv c by (auto simp: tabbing_inv_def stack_wf_def ctx_update_ctx)
  have "dom_part ?u = dom_part s" by simp
  note same = page_dom_part [OF this]
  show ?thesis using inv c other wf by (auto simp: tabbing_inv_def same ctx_update_ctx)
qed

abbreviation mark_released :: "nat \<Rightarrow> tabbing \<Rightarrow> tabbing" where
  "mark_released c \<equiv> update_ctx c (\<lambda>t. t\<lparr>tc_released := True\<rparr>)"

lemma released_mark:
  "c < length (tb_contexts s) \<Longrightarrow> tc_released (ctx (mark_released c s) e) \<longleftrightarrow> tc_released (ctx s e) \<or> e = c"
  by (simp add: ctx_update_ctx)

text \<open>Releasing the top: the page is clean when the manager unwinds the stack.\<close>

lemma release_top:
  assumes inv: "tabbing_inv a0 s" and top: "tb_stack s \<noteq> []" "c = last (tb_stack s)"
  defines "u \<equiv> mark_released c (context_deactivate c s)"
  shows "at_rest a0 u" and "tb_stack u = tb_stack s" and "length (tb_contexts u) = length (tb_contexts s)"
    and "tc_released (ctx u e) \<longleftrightarrow> tc_released (ctx s e) \<or> e = c"
proof -
  have c: "c < length (tb_contexts s)" using inv top stack_wf_last by (auto simp: tabbing_inv_def)
  note d = context_deactivate_top [OF inv top(1), folded top(2)]
  have len: "length (tb_contexts (context_deactivate c s)) = length (tb_contexts s)" using d(3) by simp
  have "page_clean a0 u" using d(1) page_dom_part(1) [of u "context_deactivate c s"] by (simp add: at_rest_def u_def)
  moreover have "stack_wf u" using d(1) c len by (auto simp: at_rest_def stack_wf_def ctx_update_ctx u_def)
  ultimately show "at_rest a0 u" using d(1) c len by (auto simp: at_rest_def ctx_update_ctx u_def)
  show "tb_stack u = tb_stack s" using d(2) by (simp add: u_def)
  show "length (tb_contexts u) = length (tb_contexts s)" using len by (simp add: u_def)
  show "tc_released (ctx u e) \<longleftrightarrow> tc_released (ctx s e) \<or> e = c"
    using c d(3) by (cases "e = c") (simp_all add: u_def ctx_update_ctx)
qed

text \<open>Releasing a context below the top only marks it.\<close>

lemma release_lower:
  assumes inv: "tabbing_inv a0 s" and c: "c < length (tb_contexts s)"
    and lower: "\<not> tc_released (ctx s c)" "c \<noteq> last (tb_stack s)"
  shows "context_release lib c s = log_event (Released c) (mark_released c s)"
    and "tabbing_inv a0 (mark_released c s)"
proof -
  have stack: "tb_stack s \<noteq> []" using inv c lower(1) by (auto simp: tabbing_inv_def stack_wf_def)
  let ?u = "mark_released c s"
  have idle: "context_deactivate c s = s"
    using inv c lower by (intro context_deactivate_inactive) (simp add: tabbing_inv_def)
  show u: "tabbing_inv a0 ?u" using inv c lower by (intro tabbing_inv_mark_released)
  have "unwound ?u = tb_stack s"
    using stack u by (cases "length (tb_stack s)") (auto simp: unwound_def tabbing_inv_def last_conv_nth)
  moreover have "tc_active (ctx ?u (last (tb_stack ?u)))"
    using u stack stack_wf_last [of ?u] by (simp add: tabbing_inv_def)
  ultimately have "manager_release lib ?u = ?u"
    using stack by (simp add: manager_release_conv context_activate_def update_ctx_def)
  with lower idle show "context_release lib c s = log_event (Released c) ?u" by (simp add: context_release_def)
qed

lemma context_release_inv:
  assumes inv: "tabbing_inv a0 s" and c: "c < length (tb_contexts s)"
  shows "tabbing_inv a0 (context_release lib c s)"
    and "length (tb_contexts (context_release lib c s)) = length (tb_contexts s)"
    and "tc_released (ctx (context_release lib c s) e) \<longleftrightarrow> tc_released (ctx s e) \<or> e = c"
proof -
  let ?r = "context_release lib c s"
  have "tabbing_inv a0 ?r \<and> length (tb_contexts ?r) = length (tb_contexts s) \<and>
      (\<forall>e. tc_released (ctx ?r e) \<longleftrightarrow> tc_released (ctx s e) \<or> e = c)"
  proof (cases "tc_released (ctx s c)")
    case True
    with inv show ?thesis by (auto simp: context_release_def)
  next
    case False
    with inv c have stack: "tb_stack s \<noteq> []" by (auto simp: tabbing_inv_def stack_wf_def)
    show ?thesis
    proof (cases "c = last (tb_stack s)")
      case True
      note u = release_top [OF inv stack True]
      have r: "?r = log_event (Released c) (manager_release lib (mark_released c (context_deactivate c s)))"
        using False by (simp add: context_release_def)
      show ?thesis using manager_release_rest [OF u(1), of lib] u(3,4) by (simp add: r) (simp add: log_event_def)
    next
      case other: False
      note l = release_lower [OF inv c False other]
      show ?thesis using l(2) released_mark [OF c] by (simp add: l(1)) (simp add: log_event_def)
    qed
  qed
  then show "tabbing_inv a0 ?r" "length (tb_contexts ?r) = length (tb_contexts s)"
    "tc_released (ctx ?r e) \<longleftrightarrow> tc_released (ctx s e) \<or> e = c" by blast+
qed

lemma keydown_frame:
  "tb_stack (fst (trap_keydown x key sh s)) = tb_stack s" "tb_contexts (fst (trap_keydown x key sh s)) = tb_contexts s"
  "dom_part (fst (trap_keydown x key sh s)) = dom_part s"
proof -
  have "stack_part (fst (fold (trap_key sh) hs (s, b))) = stack_part s \<and> dom_part (fst (fold (trap_key sh) hs (s, b))) = dom_part s" for hs b s
    by (induction hs arbitrary: s b) (auto simp: trap_key_def split: focus_trap.splits)
  then show "tb_stack (fst (trap_keydown x key sh s)) = tb_stack s" "tb_contexts (fst (trap_keydown x key sh s)) = tb_contexts s"
    "dom_part (fst (trap_keydown x key sh s)) = dom_part s"
    by (simp_all add: trap_keydown_def stack_part_def)
qed

section \<open>Runs\<close>

text \<open>
  Modules constrain tabbing, release contexts they were given, in any order, and keys are pressed.
  \<open>Ls\<close> are the states of the library between the steps: with several of them the page may also change
  in other respects (elements appear or are hidden).
\<close>

inductive tabbing_run :: "tabbable_lib set \<Rightarrow> tab_attrs \<Rightarrow> tabbing \<Rightarrow> bool" for Ls a0 where
  run_start: "tabbing_run Ls a0 (TabbingManager a0)"
| run_constrain: "tabbing_run Ls a0 s \<Longrightarrow> lib \<in> Ls \<Longrightarrow> tabbing_run Ls a0 (fst (constrain lib roots trapFocus s))"
| run_release: "tabbing_run Ls a0 s \<Longrightarrow> lib \<in> Ls \<Longrightarrow> c < length (tb_contexts s) \<Longrightarrow>
    tabbing_run Ls a0 (context_release lib c s)"
| run_key: "tabbing_run Ls a0 s \<Longrightarrow> tabbing_run Ls a0 (fst (trap_keydown x key sh s))"

lemma run_inv: "tabbing_run Ls a0 s \<Longrightarrow> tabbing_inv a0 s"
proof (induction rule: tabbing_run.induct)
  case run_start
  show ?case
    by (simp add: TabbingManager_def tabbing_inv_def stack_wf_def page_clean_def untouched_def same_attrs_def)
next
  case (run_key s x key sh)
  then show ?case using page_dom_part [OF keydown_frame(3) [of x key sh s]]
    by (simp add: tabbing_inv_def stack_wf_def keydown_frame(1,2))
qed (simp_all add: constrain_inv context_release_inv)

text \<open>
  The documented behaviour of the library: an element whose \<open>tabindex\<close> is \<open>-1\<close> is not tabbable, and
  making an element untabbable makes no other element tabbable.
\<close>

definition untabbable_law :: "tabbable_lib \<Rightarrow> bool" where
  "untabbable_law lib \<longleftrightarrow>
     (\<forall>a xs. set (lib_tabbable lib (make_untabbable xs a) (lib_body lib)) \<subseteq> set (lib_tabbable lib a (lib_body lib)) - set xs)"

definition confined :: "tabbable_lib \<Rightarrow> tabbing \<Rightarrow> bool" where
  "confined lib s \<longleftrightarrow>
     (tb_stack s \<noteq> [] \<longrightarrow>
        set (lib_tabbable lib (tb_attrs s) (lib_body lib)) \<subseteq> set (tc_tabbableElements (ctx s (last (tb_stack s)))))"

lemma attrs_manager_activate:
  "tb_attrs (manager_activate lib c s) = make_untabbable (disabled_by lib (ctx s c) (tb_attrs s)) (tb_attrs s)"
  by (simp add: manager_activate_def disabled_by_def Let_def dom_add_trap fold_recordTabindex update_ctx_def split: option.splits)

lemma activate_confines:
  assumes law: "untabbable_law lib" and rest: "at_rest a0 s"
    and top: "tb_stack s \<noteq> []" "c = last (tb_stack s)" "\<not> tc_released (ctx s c)"
  shows "confined lib (context_activate lib c s)"
proof -
  let ?u = "update_ctx c (\<lambda>t. t\<lparr>tc_active := True\<rparr>) s"
  have c: "c < length (tb_contexts s)" using rest top stack_wf_last by (auto simp: at_rest_def)
  then have attrs: "tb_attrs (context_activate lib c s) = make_untabbable (disabled_by lib (ctx ?u c) (tb_attrs s)) (tb_attrs s)"
    using rest top by (simp add: context_activate_def at_rest_def log_event_def attrs_manager_activate) (simp add: update_ctx_def)
  have "set (lib_tabbable lib (tb_attrs (context_activate lib c s)) (lib_body lib)) \<subseteq> set (tc_tabbableElements (ctx s c))"
    using law c unfolding untabbable_law_def attrs
    by (force simp: disabled_by_def ctx_update_ctx)
  then show ?thesis
    using context_activate_rest(2,5) [OF rest top, of lib] top by (simp add: confined_def)
qed

lemma confined_frame:
  "tb_stack s' = tb_stack s \<Longrightarrow> tb_attrs s' = tb_attrs s \<Longrightarrow>
   (\<And>c. tc_tabbableElements (ctx s' c) = tc_tabbableElements (ctx s c)) \<Longrightarrow> confined lib s' = confined lib s"
  by (simp add: confined_def)

lemma run_confined:
  assumes law: "untabbable_law lib" and run: "tabbing_run {lib} a0 s"
  shows "confined lib s"
  using run
proof (induction rule: tabbing_run.induct)
  case run_start
  show ?case by (simp add: confined_def TabbingManager_def)
next
  case (run_constrain s l roots trap)
  then have l: "l = lib" by simp
  note pre = constrain_activates [OF run_inv [OF run_constrain.hyps(1)], where lib = lib and roots = roots and trapFocus = trap]
  show ?case
    using activate_confines [OF law pre(1-4)] by (simp add: l pre(5) confined_def log_event_def)
next
  case (run_release s l c)
  then have l: "l = lib" by simp
  note inv = run_inv [OF run_release.hyps(1)]
  show ?case
  proof (cases "tc_released (ctx s c)")
    case True
    with run_release.IH show ?thesis by (simp add: context_release_def)
  next
    case False
    with inv run_release.hyps have stack: "tb_stack s \<noteq> []" by (auto simp: tabbing_inv_def stack_wf_def)
    show ?thesis
    proof (cases "c = last (tb_stack s)")
      case True
      let ?u = "mark_released c (context_deactivate c s)"
      note u = release_top [OF inv stack True]
      show ?thesis
      proof (cases "unwound ?u = []")
        case True
        then show ?thesis using False by (simp add: context_release_def manager_release_conv confined_def log_event_def)
      next
        case top: False
        have rest: "at_rest a0 (?u\<lparr>tb_stack := unwound ?u\<rparr>)" by (rule unwound_rest [OF u(1)])
        have "confined lib (context_activate lib (last (unwound ?u)) (?u\<lparr>tb_stack := unwound ?u\<rparr>))"
          by (rule activate_confines [OF law rest]) (use top unwound_top [OF top] in simp_all)
        then show ?thesis
          using False top by (simp add: l context_release_def manager_release_conv confined_def log_event_def)
      qed
    next
      case other: False
      have r: "context_release l c s = log_event (Released c) (mark_released c s)"
        by (rule release_lower(1) [OF inv run_release.hyps(3) False other])
      have "confined lib (log_event (Released c) (mark_released c s)) = confined lib s"
        using run_release.hyps(3)
        by (intro confined_frame) (auto simp: log_event_def update_ctx_def nth_list_update)
      with run_release.IH r show ?thesis by simp
    qed
  qed
next
  case (run_key s x key sh)
  have "confined lib (fst (trap_keydown x key sh s)) = confined lib s"
    using keydown_frame [of x key sh s] by (intro confined_frame) (simp_all add: dom_part_def)
  with run_key.IH show ?case by simp
qed

section \<open>Properties\<close>

text \<open>A page for the witnesses: the body 0 holds the elements 1 to 4; element 2 has \<open>tabindex\<close> 5 and autofocus.\<close>

definition page4_lib :: tabbable_lib where
  "page4_lib =
     \<lparr>lib_tabbable = (\<lambda>a r. filter (\<lambda>x. ta_tabindex a x \<noteq> Some ''-1'') (if r = 0 then [1, 2, 3, 4] else if r = 1 then [3] else [])),
      lib_isTabbable = (\<lambda>a x. 0 < x \<and> x < 5 \<and> ta_tabindex a x \<noteq> Some ''-1''), lib_body = 0\<rparr>"

definition page4 :: tab_attrs where
  "page4 = \<lparr>ta_tabindex = (\<lambda>x. if x = 2 then Some ''5'' else None),
            ta_autofocus = (\<lambda>x. if x = 2 then Some ''autofocus'' else None)\<rparr>"

definition page4_constrained :: tabbing where
  "page4_constrained = fst (constrain page4_lib [1] True (TabbingManager page4))"

lemmas page4_eval = page4_constrained_def constrain_def TabbingManager_def page4_def page4_lib_def tabbable_in_roots_def
  new_TabbingContext_def context_activate_def manager_activate_def update_ctx_def log_event_def add_trap_def
  make_untabbable_def focus_target_def recordTabindex_def Let_def

lemma page4_run: "tabbing_run {page4_lib} page4 page4_constrained"
  unfolding page4_constrained_def by (rule run_constrain [OF run_start]) simp

lemma page4_law: "untabbable_law page4_lib"
  by (auto simp: untabbable_law_def page4_lib_def make_untabbable_def)

lemma page4_stack: "tb_stack page4_constrained = [0]" "length (tb_contexts page4_constrained) = 1"
  using constrain_inv(2,4) [OF run_inv [OF run_start], of page4_lib "[1]" True page4]
  by (simp_all add: page4_constrained_def TabbingManager_def)

text \<open>
  C6. Whatever contexts modules constrain and release, in any order, the stack is well formed (no context
  twice, each context at the position of its level, every context that is not released is on it), exactly
  the topmost context of the stack is active, and the page shows the tabbing attributes it had at the start, except that the
  elements this context disables have \<open>tabindex\<close> -1 and no \<open>autofocus\<close>: nested constraints never mix.
\<close>

theorem topmost_context_masks_page:
  assumes "tabbing_run Ls a0 s" and "c < length (tb_contexts s)"
  shows "stack_wf s \<and> (tc_active (ctx s c) \<longleftrightarrow> tb_stack s \<noteq> [] \<and> c = last (tb_stack s)) \<and>
    (if tb_stack s \<noteq> [] \<and> x \<in> set (tc_disabledElements (ctx s (last (tb_stack s))))
     then ta_tabindex (tb_attrs s) x = Some ''-1'' \<and> ta_autofocus (tb_attrs s) x = None
     else same_attrs (tb_attrs s) a0 x)"
  using run_inv [OF assms(1)] assms(2)
  by (auto simp: tabbing_inv_def page_clean_def page_shows_def untouched_def masked_def split: if_splits)

theorem topmost_context_masks_page_witness:
  "stack_wf page4_constrained \<and> (tc_active (ctx page4_constrained 0) \<longleftrightarrow> tb_stack page4_constrained \<noteq> [] \<and> 0 = last (tb_stack page4_constrained)) \<and>
    (if tb_stack page4_constrained \<noteq> [] \<and> 2 \<in> set (tc_disabledElements (ctx page4_constrained (last (tb_stack page4_constrained))))
     then ta_tabindex (tb_attrs page4_constrained) 2 = Some ''-1'' \<and> ta_autofocus (tb_attrs page4_constrained) 2 = None
     else same_attrs (tb_attrs page4_constrained) page4 2)"
  by (rule topmost_context_masks_page [OF page4_run]) (simp add: page4_stack)

text \<open>
  C27. When every context that was ever constrained has been released, in whatever order, the stack is
  empty, no focus trap is left, and every element has the \<open>tabindex\<close> and \<open>autofocus\<close> it had before.
\<close>

theorem releasing_all_restores_page:
  assumes "tabbing_run Ls a0 s" and "\<forall>c < length (tb_contexts s). tc_released (ctx s c)"
  shows "tb_stack s = [] \<and> same_attrs (tb_attrs s) a0 x \<and> tb_traps s x = []"
  using run_inv [OF assms(1)] assms(2) stack_wf_last [of s]
  by (auto simp: tabbing_inv_def page_clean_def untouched_def split: if_splits)

theorem releasing_all_restores_page_witness:
  "tb_stack (context_release page4_lib 0 page4_constrained) = [] \<and>
   same_attrs (tb_attrs (context_release page4_lib 0 page4_constrained)) page4 2 \<and>
   tb_traps (context_release page4_lib 0 page4_constrained) 2 = []"
proof (rule releasing_all_restores_page)
  show "tabbing_run {page4_lib} page4 (context_release page4_lib 0 page4_constrained)"
    by (rule run_release [OF page4_run]) (simp_all add: page4_stack)
  show "\<forall>c < length (tb_contexts (context_release page4_lib 0 page4_constrained)).
      tc_released (ctx (context_release page4_lib 0 page4_constrained) c)"
    using context_release_inv [OF run_inv [OF page4_run], of 0 page4_lib] by (simp add: page4_stack)
qed

text \<open>
  With a library that never lists an element of negative \<open>tabindex\<close> and for which disabling
  elements makes no other tabbable, an active context confines the tab key: every element of the body
  that is tabbable belongs to the set of the context.
\<close>

theorem active_context_confines_tabbing:
  assumes "untabbable_law lib" and "tabbing_run {lib} a0 s" and "tb_stack s \<noteq> []"
    and "x \<in> set (lib_tabbable lib (tb_attrs s) (lib_body lib))"
  shows "x \<in> set (tc_tabbableElements (ctx s (last (tb_stack s))))"
  using run_confined [OF assms(1,2)] assms(3,4) by (auto simp: confined_def)

theorem active_context_confines_tabbing_witness:
  "3 \<in> set (tc_tabbableElements (ctx page4_constrained (last (tb_stack page4_constrained))))"
proof (rule active_context_confines_tabbing [OF page4_law page4_run])
  show "tb_stack page4_constrained \<noteq> []" by (simp add: page4_stack)
  show "3 \<in> set (lib_tabbable page4_lib (tb_attrs page4_constrained) (lib_body page4_lib))"
    by (simp add: page4_eval)
qed

text \<open>
  While a context with \<open>trapFocus\<close> and at least one element is active, Tab on its last element
  moves the focus to its first one, Shift+Tab on its first element to its last one, both instead of the
  default action, and the keys of every other element are left to the browser.
\<close>

theorem focus_trap_cycles:
  assumes "tabbing_run Ls a0 s" and "tb_stack s \<noteq> []"
    and "elems = tc_tabbableElements (ctx s (last (tb_stack s)))" and "elems \<noteq> []"
    and "tc_trapFocus (ctx s (last (tb_stack s)))"
  shows "trap_keydown x ''Tab'' shiftKey s =
    (if x = last elems \<and> \<not> shiftKey then (s\<lparr>tb_focus := Some (hd elems)\<rparr>, True)
     else if x = hd elems \<and> shiftKey then (s\<lparr>tb_focus := Some (last elems)\<rparr>, True)
     else (s, False))"
proof -
  have "tb_traps s = traps_of (ctx s (last (tb_stack s)))"
    using run_inv [OF assms(1)] assms(2) by (simp add: tabbing_inv_def page_shows_def)
  then show ?thesis using assms(4,5) by (auto simp: trap_keydown_def traps_of_def assms(3) [symmetric] trap_key_def)
qed

theorem focus_trap_cycles_witness:
  "trap_keydown 1 ''Tab'' False page4_constrained = (page4_constrained\<lparr>tb_focus := Some 3\<rparr>, True)"
proof -
  have elems: "[3, 1] = tc_tabbableElements (ctx page4_constrained (last (tb_stack page4_constrained)))"
    "tc_trapFocus (ctx page4_constrained (last (tb_stack page4_constrained)))"
    by (simp_all add: page4_eval)
  have "tb_stack page4_constrained \<noteq> []" by (simp add: page4_stack)
  from focus_trap_cycles [OF page4_run this elems(1) _ elems(2), of 1 False] show ?thesis by simp
qed

end
