(* ===== verification/Announce.thy ===== *)
theory Announce
  imports Js_Prelude
begin

text \<open>
  \<open>Drupal.debounce\<close> of \<open>core/misc/debounce.es6.js\<close> and the announcements to screen readers of
  \<open>core/misc/announce.es6.js\<close>, with the time in milliseconds that the browser timers wait.

  A debounced function keeps one timer: setting it clears the previous one, so the state holds the time
  at which the timer is due with the arguments its closure will pass. \<open>Drupal.announce\<close> wraps its
  flush function anew at every call, so every announcement has a timer of its own.
\<close>

section \<open>debounce\<close>

text \<open>\<open>db_log\<close> records the invocations of the wrapped function: when, and with which arguments.\<close>

record 'a debounced =
  db_timeout :: "(nat \<times> 'a) option"
  db_log :: "(nat \<times> 'a) list"

definition debounce :: "'a debounced" where
  "debounce = \<lparr>db_timeout = None, db_log = []\<rparr>"

text \<open>The inner function \<open>later\<close>, run by the timer at time \<open>now\<close>.\<close>

definition debounce_later :: "bool \<Rightarrow> nat \<Rightarrow> 'a \<Rightarrow> 'a debounced \<Rightarrow> 'a debounced" where
  "debounce_later immediate now args d =
     (let d1 = d\<lparr>db_timeout := None\<rparr>
      in if \<not> immediate then d1\<lparr>db_log := db_log d1 @ [(now, args)]\<rparr> else d1)"

definition debounce_call :: "nat \<Rightarrow> bool \<Rightarrow> nat \<Rightarrow> 'a \<Rightarrow> 'a debounced \<Rightarrow> 'a debounced" where
  "debounce_call wait immediate now args d =
     (let callNow = (immediate \<and> db_timeout d = None);
          d1 = d\<lparr>db_timeout := Some (now + wait, args)\<rparr>
      in if callNow then d1\<lparr>db_log := db_log d1 @ [(now, args)]\<rparr> else d1)"

text \<open>The browser runs the timer when it is due.\<close>

definition debounce_until :: "bool \<Rightarrow> nat \<Rightarrow> 'a debounced \<Rightarrow> 'a debounced" where
  "debounce_until immediate now d =
     (case db_timeout d of
        None \<Rightarrow> d
      | Some (due, args) \<Rightarrow> if due \<le> now then debounce_later immediate due args d else d)"

fun debounce_calls :: "nat \<Rightarrow> bool \<Rightarrow> (nat \<times> 'a) list \<Rightarrow> 'a debounced \<Rightarrow> 'a debounced" where
  "debounce_calls wait immediate [] d = d"
| "debounce_calls wait immediate ((now, args) # cs) d =
     debounce_calls wait immediate cs (debounce_call wait immediate now args (debounce_until immediate now d))"

text \<open>What the wrapper promises, call by call: a burst is a list of calls less than \<open>wait\<close> apart.\<close>

fun burst :: "nat \<Rightarrow> nat \<Rightarrow> (nat \<times> 'a) list \<Rightarrow> bool" where
  "burst wait t [] = True"
| "burst wait t ((now, args) # cs) = (t \<le> now \<and> now < t + wait \<and> burst wait now cs)"

lemma burst_pending:
  "burst wait t cs \<Longrightarrow>
   debounce_calls wait immediate cs \<lparr>db_timeout = Some (t + wait, a), db_log = log\<rparr> =
     \<lparr>db_timeout = Some (fst (last ((t, a) # cs)) + wait, snd (last ((t, a) # cs))), db_log = log\<rparr>"
proof (induction cs arbitrary: t a)
  case (Cons c cs)
  obtain now args where c: "c = (now, args)" by (cases c)
  have "debounce_call wait immediate now args (debounce_until immediate now \<lparr>db_timeout = Some (t + wait, a), db_log = log\<rparr>) =
      \<lparr>db_timeout = Some (now + wait, args), db_log = log\<rparr>"
    using Cons.prems by (simp add: c debounce_until_def debounce_call_def)
  with Cons show ?case by (simp add: c)
qed simp

lemma burst_calls:
  "burst wait now cs \<Longrightarrow>
   debounce_calls wait immediate ((now, args) # cs) \<lparr>db_timeout = None, db_log = log\<rparr> =
     \<lparr>db_timeout = Some (fst (last ((now, args) # cs)) + wait, snd (last ((now, args) # cs))),
      db_log = (if immediate then log @ [(now, args)] else log)\<rparr>"
  by (simp add: debounce_until_def debounce_call_def burst_pending)

lemma burst_last: "burst wait t cs \<Longrightarrow> t \<le> fst (last ((t, a) # cs))"
proof (induction cs arbitrary: t a)
  case (Cons c cs)
  obtain now args where c: "c = (now, args)" by (cases c)
  with Cons show ?case by force
qed simp

text \<open>
  Bursts separated by at least \<open>wait\<close>: each burst is a first call with the later ones.
\<close>

type_synonym 'a call_burst = "(nat \<times> 'a) \<times> (nat \<times> 'a) list"

definition burst_calls_of :: "'a call_burst \<Rightarrow> (nat \<times> 'a) list" where
  "burst_calls_of b = fst b # snd b"

definition burst_end :: "'a call_burst \<Rightarrow> nat \<times> 'a" where
  "burst_end b = last (burst_calls_of b)"

fun separate :: "nat \<Rightarrow> nat \<Rightarrow> 'a call_burst list \<Rightarrow> bool" where
  "separate wait t [] = True"
| "separate wait t (b # bs) =
     (t \<le> fst (fst b) \<and> burst wait (fst (fst b)) (snd b) \<and> separate wait (fst (burst_end b) + wait) bs)"

definition burst_result :: "nat \<Rightarrow> bool \<Rightarrow> 'a call_burst \<Rightarrow> nat \<times> 'a" where
  "burst_result wait immediate b =
     (if immediate then fst b else (fst (burst_end b) + wait, snd (burst_end b)))"

lemma debounce_calls_append:
  "debounce_calls wait immediate (xs @ ys) d = debounce_calls wait immediate ys (debounce_calls wait immediate xs d)"
  by (induction xs arbitrary: d) auto

lemma debounce_until_due:
  "due \<le> now \<Longrightarrow> debounce_until immediate now \<lparr>db_timeout = Some (due, a), db_log = log\<rparr> =
     \<lparr>db_timeout = None, db_log = (if immediate then log else log @ [(due, a)])\<rparr>"
  by (simp add: debounce_until_def debounce_later_def)

lemma debounce_until_idle [simp]: "debounce_until immediate now \<lparr>db_timeout = None, db_log = log\<rparr> = \<lparr>db_timeout = None, db_log = log\<rparr>"
  by (simp add: debounce_until_def)

lemma separate_end: "separate wait t bs \<Longrightarrow> bs \<noteq> [] \<Longrightarrow> t \<le> fst (burst_end (last bs))"
proof (induction bs arbitrary: t)
  case (Cons b bs)
  obtain t0 a0 cs where b: "b = ((t0, a0), cs)" by (metis prod.collapse)
  with Cons.prems(1) have "t \<le> fst (burst_end b)"
    using burst_last [of wait t0 cs a0] by (auto simp: burst_end_def burst_calls_of_def)
  with Cons show ?case by (cases "bs = []") force+
qed simp

lemma separate_bursts:
  "separate wait t bs \<Longrightarrow> (bs \<noteq> [] \<Longrightarrow> fst (burst_end (last bs)) + wait \<le> now) \<Longrightarrow>
   debounce_until immediate now (debounce_calls wait immediate (concat (map burst_calls_of bs)) \<lparr>db_timeout = None, db_log = log\<rparr>) =
     \<lparr>db_timeout = None, db_log = log @ map (burst_result wait immediate) bs\<rparr>"
proof (induction bs arbitrary: t log)
  case (Cons b bs)
  obtain t0 a0 cs where b: "b = ((t0, a0), cs)" by (metis prod.collapse)
  let ?stop = "burst_end b"
  let ?log = "if immediate then log @ [(t0, a0)] else log"
  have first: "debounce_calls wait immediate (burst_calls_of b) \<lparr>db_timeout = None, db_log = log\<rparr> =
      \<lparr>db_timeout = Some (fst ?stop + wait, snd ?stop), db_log = ?log\<rparr>"
    using Cons.prems(1) burst_calls [of wait t0 cs immediate a0 log] by (simp add: b burst_calls_of_def burst_end_def)
  have result: "?log @ (if immediate then [] else [(fst ?stop + wait, snd ?stop)]) = log @ [burst_result wait immediate b]"
    by (simp add: burst_result_def b)
  show ?case
  proof (cases bs)
    case Nil
    with Cons.prems(2) first show ?thesis by (auto simp: debounce_until_due burst_result_def b)
  next
    case (Cons b' bs')
    obtain t1 a1 cs1 where b': "b' = ((t1, a1), cs1)" by (metis prod.collapse)
    let ?d1 = "\<lparr>db_timeout = Some (fst ?stop + wait, snd ?stop), db_log = ?log\<rparr>"
    let ?d2 = "\<lparr>db_timeout = None, db_log = log @ [burst_result wait immediate b]\<rparr>"
    have "fst ?stop + wait \<le> t1" using Cons.prems(1) Cons b' by simp
    then have "debounce_until immediate t1 ?d1 = debounce_until immediate t1 ?d2"
      using result by (auto simp: debounce_until_due split: if_splits)
    then have same: "debounce_calls wait immediate (concat (map burst_calls_of bs)) ?d1 =
        debounce_calls wait immediate (concat (map burst_calls_of bs)) ?d2"
      by (simp add: Cons b' burst_calls_of_def)
    with Cons.IH [of "fst ?stop + wait" "log @ [burst_result wait immediate b]"] Cons.prems Cons first same show ?thesis
      by (simp add: debounce_calls_append)
  qed
qed simp

section \<open>Announcements\<close>

record live_region =
  lr_innerHTML :: string
  lr_live :: string
  lr_busy :: bool

type_synonym announcement = "string \<times> string option"

text \<open>
  \<open>an_live\<close> is the element created by the behavior, \<open>an_timers\<close> the times at which flushes are due,
  oldest first, and \<open>an_read\<close> what the live region was given to read: when, the texts, the priority.
\<close>

record announcer =
  an_live :: "live_region option"
  an_announcements :: "announcement list"
  an_timers :: "nat list"
  an_read :: "(nat \<times> string list \<times> string) list"

definition announcer_init :: announcer where
  "announcer_init = \<lparr>an_live = None, an_announcements = [], an_timers = [], an_read = []\<rparr>"

definition drupalAnnounce_attach :: "announcer \<Rightarrow> announcer" where
  "drupalAnnounce_attach s =
     (if an_live s = None
      then s\<lparr>an_live := Some \<lparr>lr_innerHTML = '''', lr_live = ''polite'', lr_busy = False\<rparr>\<rparr> else s)"

text \<open>The loop of the flush: \<open>pop\<close> the announcements and \<open>unshift\<close> their texts.\<close>

fun announce_loop :: "nat \<Rightarrow> announcement list \<Rightarrow> string list \<Rightarrow> string \<Rightarrow> announcement list \<times> string list \<times> string" where
  "announce_loop 0 anns texts priority = (anns, texts, priority)"
| "announce_loop (Suc n) anns texts priority =
     (let a = last anns in
      announce_loop n (butlast anns) (fst a # texts) (if snd a = Some ''assertive'' then ''assertive'' else priority))"

text \<open>Without a live element the first assignment throws; the announcements are gone by then.\<close>

definition announce_flush :: "nat \<Rightarrow> announcer \<Rightarrow> announcer \<times> js_error option" where
  "announce_flush now s =
     (let (anns, texts, priority) = announce_loop (length (an_announcements s)) (an_announcements s) [] ''polite'';
          s1 = s\<lparr>an_announcements := anns\<rparr>
      in if texts = [] then (s1, None)
         else (case an_live s1 of
                 None \<Rightarrow> (s1, Some TypeError)
               | Some live \<Rightarrow>
                   (s1\<lparr>an_live := Some \<lparr>lr_innerHTML = js_join [CHR 0x0A] texts, lr_live = priority, lr_busy = False\<rparr>,
                       an_read := an_read s1 @ [(now, texts, priority)]\<rparr>, None)))"

definition Drupal_announce :: "nat \<Rightarrow> string \<Rightarrow> string option \<Rightarrow> announcer \<Rightarrow> announcer" where
  "Drupal_announce now msg priority s =
     s\<lparr>an_announcements := an_announcements s @ [(msg, priority)],
       an_timers := an_timers s @
         (case db_timeout (debounce_call 200 False now () debounce) of None \<Rightarrow> [] | Some (due, _) \<Rightarrow> [due])\<rparr>"

lemma announce_loop_all:
  "announce_loop (length anns) anns texts priority =
     ([], map fst anns @ texts,
      if \<exists>a \<in> set anns. snd a = Some ''assertive'' then ''assertive'' else priority)"
proof (induction "length anns" arbitrary: anns texts priority)
  case (Suc n)
  then obtain bs b where anns: "anns = bs @ [b]" by (metis length_0_conv nat.distinct(1) rev_exhaust)
  with Suc show ?case by auto
qed simp

definition group_priority :: "announcement list \<Rightarrow> string" where
  "group_priority anns = (if \<exists>a \<in> set anns. snd a = Some ''assertive'' then ''assertive'' else ''polite'')"

lemma announce_flush_conv:
  "announce_flush now s =
     (let s1 = s\<lparr>an_announcements := []\<rparr>; texts = map fst (an_announcements s); pr = group_priority (an_announcements s)
      in if texts = [] then (s1, None)
         else (case an_live s of
                 None \<Rightarrow> (s1, Some TypeError)
               | Some live \<Rightarrow>
                   (s1\<lparr>an_live := Some \<lparr>lr_innerHTML = js_join [CHR 0x0A] texts, lr_live = pr, lr_busy = False\<rparr>,
                       an_read := an_read s @ [(now, texts, pr)]\<rparr>, None)))"
  by (simp add: announce_flush_def announce_loop_all group_priority_def Let_def split: option.splits)

lemma announce_timer [simp]: "an_timers (Drupal_announce now msg p s) = an_timers s @ [now + 200]"
  by (simp add: Drupal_announce_def debounce_call_def debounce_def)

text \<open>
  Runs of the page once the live element exists: \<open>said\<close> lists the calls of \<open>Drupal.announce\<close>
  with their times. A timer that is due runs before time passes on.
\<close>

inductive announce_run :: "(nat \<times> announcement) list \<Rightarrow> nat \<Rightarrow> announcer \<Rightarrow> bool" where
  run_attach: "announce_run [] now (drupalAnnounce_attach announcer_init)"
| run_announce: "announce_run said now s \<Longrightarrow> announce_run (said @ [(now, msg, p)]) now (Drupal_announce now msg p s)"
| run_wait: "announce_run said now s \<Longrightarrow> \<forall>due \<in> set (an_timers s). now < due \<Longrightarrow> announce_run said (Suc now) s"
| run_timer: "announce_run said now s \<Longrightarrow> an_timers s = due # ds \<Longrightarrow> due \<le> now \<Longrightarrow>
    announce_run said now (fst (announce_flush now (s\<lparr>an_timers := ds\<rparr>)))"
| run_attach_again: "announce_run said now s \<Longrightarrow> announce_run said now (drupalAnnounce_attach s)"

definition pending_ok :: "(nat \<times> announcement) list \<Rightarrow> nat \<Rightarrow> announcer \<Rightarrow> (nat \<times> announcement) list \<Rightarrow> bool" where
  "pending_ok said now s pending \<longleftrightarrow>
     (\<exists>past. said = past @ pending \<and> map (fst \<circ> snd) past = concat (map (fst \<circ> snd) (an_read s))) \<and>
     map snd pending = an_announcements s \<and>
     (\<forall>a \<in> set pending. fst a + 200 \<in> set (an_timers s)) \<and> (\<forall>due \<in> set (an_timers s). now \<le> due) \<and>
     an_live s \<noteq> None"

lemma flush_pending:
  assumes "pending_ok said now s pending" and "set ds \<subseteq> set (an_timers s)"
  shows "pending_ok said now (fst (announce_flush now (s\<lparr>an_timers := ds\<rparr>))) []"
proof -
  from assms obtain past live where "said = past @ pending" "map (fst \<circ> snd) past = concat (map (fst \<circ> snd) (an_read s))"
    "an_live s = Some live" by (auto simp: pending_ok_def)
  moreover have "map fst (an_announcements s) = map (fst \<circ> snd) pending"
    using assms unfolding pending_ok_def by (metis map_map)
  ultimately show ?thesis
    using assms by (auto simp: pending_ok_def announce_flush_conv Let_def)
qed

lemma announce_run_pending: "announce_run said now s \<Longrightarrow> \<exists>pending. pending_ok said now s pending"
proof (induction rule: announce_run.induct)
  case (run_attach now)
  then show ?case by (intro exI [of _ "[]"]) (simp add: pending_ok_def drupalAnnounce_attach_def announcer_init_def)
next
  case (run_announce said now s msg p)
  then obtain pending where "pending_ok said now s pending" by blast
  then have "pending_ok (said @ [(now, msg, p)]) now (Drupal_announce now msg p s) (pending @ [(now, msg, p)])"
    by (auto simp: pending_ok_def) (simp_all add: Drupal_announce_def)
  then show ?case by blast
next
  case (run_wait said now s)
  then show ?case by (fastforce simp: pending_ok_def)
next
  case (run_timer said now s due ds)
  then show ?case using flush_pending [of said now s _ ds] by (metis set_subset_Cons)
next
  case (run_attach_again said now s)
  then obtain pending where p: "pending_ok said now s pending" by blast
  then have "drupalAnnounce_attach s = s" by (simp add: pending_ok_def drupalAnnounce_attach_def)
  with p show ?case by auto
qed

section \<open>Properties\<close>

text \<open>
  C21. A debounced function called in bursts (calls less than \<open>wait\<close> apart, bursts at least \<open>wait\<close> apart)
  runs exactly once for each burst: \<open>wait\<close> milliseconds after its last call, with the arguments of
  that call, or, with \<open>immediate\<close>, at its first call.
\<close>

theorem debounce_once_per_burst:
  assumes "separate wait t bs" and "bs \<noteq> [] \<Longrightarrow> fst (burst_end (last bs)) + wait \<le> now"
  shows "db_log (debounce_until immediate now (debounce_calls wait immediate (concat (map burst_calls_of bs)) debounce)) =
    map (\<lambda>b. if immediate then fst b else (fst (burst_end b) + wait, snd (burst_end b))) bs"
  using separate_bursts [OF assms, of immediate "[]"]
  by (simp add: debounce_def burst_result_def)

theorem debounce_once_per_burst_witness:
  "db_log (debounce_until False 900 (debounce_calls 200 False
     (concat (map burst_calls_of [((0, ''a''), [(150, ''b'')]), ((400, ''c''), [])])) debounce)) =
   map (\<lambda>b. if False then fst b else (fst (burst_end b) + 200, snd (burst_end b))) [((0, ''a''), [(150, ''b'')]), ((400, ''c''), [])]"
  by (rule debounce_once_per_burst [where t = 0]) (simp_all add: burst_end_def burst_calls_of_def)

text \<open>
  C28. Once the live element exists, announcements are read once each and in the order of the calls:
  what was read followed by what is queued is what was announced; a queued text is at most 200
  milliseconds old, and nothing is queued once no timer is left.
\<close>

theorem announcements_read_in_order:
  assumes "announce_run said now s"
  shows "\<exists>past pending. said = past @ pending \<and>
    concat (map (fst \<circ> snd) (an_read s)) = map (fst \<circ> snd) past \<and> an_announcements s = map snd pending \<and>
    (\<forall>a \<in> set pending. now \<le> fst a + 200) \<and> (an_timers s = [] \<longrightarrow> pending = [])"
proof -
  obtain pending where p: "pending_ok said now s pending" using announce_run_pending [OF assms] by blast
  then obtain past where "said = past @ pending" "map (fst \<circ> snd) past = concat (map (fst \<circ> snd) (an_read s))"
    by (auto simp: pending_ok_def)
  moreover have "pending = []" if "an_timers s = []" using p that by (cases pending) (auto simp: pending_ok_def)
  ultimately show ?thesis using p by (intro exI [of _ past] exI [of _ pending]) (auto simp: pending_ok_def)
qed

definition saved_announcer :: announcer where
  "saved_announcer = Drupal_announce 7 ''Saved'' None (drupalAnnounce_attach announcer_init)"

theorem announcements_read_in_order_witness:
  "concat (map (fst \<circ> snd) (an_read saved_announcer)) @ map fst (an_announcements saved_announcer) = [''Saved'']"
proof -
  let ?s = saved_announcer
  have "announce_run ([] @ [(7, (''Saved'', None))]) 7 ?s"
    unfolding saved_announcer_def by (rule run_announce) (rule run_attach)
  from announcements_read_in_order [OF this] obtain past pending where
    "[(7 :: nat, (''Saved'', None))] = past @ pending" "concat (map (fst \<circ> snd) (an_read ?s)) = map (fst \<circ> snd) past"
    "an_announcements ?s = map snd pending" by auto
  then have "concat (map (fst \<circ> snd) (an_read ?s)) @ map fst (an_announcements ?s) =
      map (fst \<circ> snd) [(7 :: nat, (''Saved'', None :: string option))]"
    by simp
  then show ?thesis by simp
qed

text \<open>
  Without the live element the texts of the group are lost: the flush throws after emptying the queue.
\<close>

lemma flush_without_live_element:
  "an_live s = None \<Longrightarrow> an_announcements s \<noteq> [] \<Longrightarrow>
   announce_flush now s = (s\<lparr>an_announcements := []\<rparr>, Some TypeError)"
  by (simp add: announce_flush_conv Let_def)

end
