(* ===== verification/Contextual_Toolbar.thy ===== *)
theory Contextual_Toolbar
  imports Contextual_Links Tabbing_Manager Announce
begin

text \<open>
  The edit mode of contextual links: the toolbar tab of \<open>contextual.toolbar.es6.js\<close> with its state model
  (\<open>toolbar/models/StateModel.es6.js\<close>) and its visual and aural views. In edit mode every trigger is
  locked visible and the aural view constrains tabbing to the contextual links; the mode survives a
  page load in the local storage.

  The aural view is a client of the tabbing manager and of the announcements. What it relies on in the
  manager is the locale \<open>tabbing_contract\<close>, interpreted at the end on the model of the manager, so
  that the properties speak about both scripts together. \<open>elements\<close> is the result of the query
  \<open>$('.contextual-toolbar-tab, .contextual')\<close> when the mode changes.
\<close>

section \<open>The manager as the aural view uses it\<close>

record 's tabbing_api =
  api_constrain :: "elem list \<Rightarrow> 's \<Rightarrow> 's \<times> nat"
  api_release :: "nat \<Rightarrow> 's \<Rightarrow> 's"
  api_active :: "'s \<Rightarrow> nat \<Rightarrow> bool"

locale tabbing_contract =
  fixes api :: "'s tabbing_api"
    and ok :: "'s \<Rightarrow> bool"
    and known :: "'s \<Rightarrow> nat \<Rightarrow> bool"
    and released :: "'s \<Rightarrow> nat \<Rightarrow> bool"
  assumes ok_constrain: "ok s \<Longrightarrow> ok (fst (api_constrain api els s))"
    and ok_release: "ok s \<Longrightarrow> known s c \<Longrightarrow> ok (api_release api c s)"
    and known_constrain: "ok s \<Longrightarrow> known (fst (api_constrain api els s)) d \<longleftrightarrow> known s d \<or> d = snd (api_constrain api els s)"
    and fresh_constrain: "ok s \<Longrightarrow> \<not> known s (snd (api_constrain api els s))"
    and released_constrain: "ok s \<Longrightarrow> known s d \<Longrightarrow> released (fst (api_constrain api els s)) d = released s d"
    and unreleased_constrain: "ok s \<Longrightarrow> \<not> released (fst (api_constrain api els s)) (snd (api_constrain api els s))"
    and known_release: "ok s \<Longrightarrow> known s c \<Longrightarrow> known (api_release api c s) d = known s d"
    and released_release: "ok s \<Longrightarrow> known s c \<Longrightarrow> released (api_release api c s) d \<longleftrightarrow> released s d \<or> d = c"

section \<open>State\<close>

record contextual_env =
  ce_themes :: themes
  ce_translations :: "translation_table option"
  ce_pluralDelimiter :: string

record 's ctoolbar =
  ct_isViewing :: bool
  ct_isVisible :: bool
  ct_contextualCount :: nat
  ct_tabbingContext :: "nat option"
  ct_announcedOnce :: bool
  ct_storage :: "string option"
  ct_links :: clinks
  ct_announcer :: announcer
  ct_tabbing :: 's

section \<open>Announcements\<close>

definition tabbingReleased :: "contextual_env \<Rightarrow> string" where
  "tabbingReleased env = t_lookup (ce_translations env) '''' ''Tabbing is no longer constrained by the Contextual module.''"

definition tabbingConstrained :: "contextual_env \<Rightarrow> string" where
  "tabbingConstrained env = t_lookup (ce_translations env) ''''
     ''Tabbing is constrained to a set of @contextualsCount and the edit mode toggle.''"

definition pressEsc :: "contextual_env \<Rightarrow> string" where
  "pressEsc env = t_lookup (ce_translations env) '''' ''Press the esc key to exit.''"

definition constraint_text :: "contextual_env \<Rightarrow> nat \<Rightarrow> string js" where
  "constraint_text env n =
     (case formatPlural (ce_themes env) (ce_translations env) (ce_pluralDelimiter env) (int n)
             ''@count contextual link'' ''@count contextual links'' None None of
        Inl e \<Rightarrow> Inl e
      | Inr count \<Rightarrow> formatString (ce_themes env) (tabbingConstrained env) (Some [(''@contextualsCount'', count)]))"

definition announceTabbingConstraint :: "contextual_env \<Rightarrow> nat \<Rightarrow> 's ctoolbar \<Rightarrow> 's ctoolbar js" where
  "announceTabbingConstraint env now s =
     (case constraint_text env (length (cs_links (ct_links s))) of
        Inl e \<Rightarrow> Inl e
      | Inr msg \<Rightarrow>
          Inr (s\<lparr>ct_announcer := Drupal_announce now (pressEsc env) None (Drupal_announce now msg None (ct_announcer s))\<rparr>))"

section \<open>Operations\<close>

definition manageTabbing :: "'s tabbing_api \<Rightarrow> contextual_env \<Rightarrow> nat \<Rightarrow> elem list \<Rightarrow> 's ctoolbar \<Rightarrow> 's ctoolbar js" where
  "manageTabbing api env now elements s =
     (let s1 = (case ct_tabbingContext s of
                  None \<Rightarrow> s
                | Some c \<Rightarrow>
                    (let s0 = (if api_active api (ct_tabbing s) c
                               then s\<lparr>ct_announcer := Drupal_announce now (tabbingReleased env) None (ct_announcer s)\<rparr>
                               else s)
                     in s0\<lparr>ct_tabbing := api_release api c (ct_tabbing s0)\<rparr>))
      in if \<not> ct_isViewing s1
         then (let r = api_constrain api elements (ct_tabbing s1);
                   s2 = s1\<lparr>ct_tabbing := fst r, ct_tabbingContext := Some (snd r)\<rparr>
               in case announceTabbingConstraint env now s2 of
                    Inl e \<Rightarrow> Inl e
                  | Inr s3 \<Rightarrow> Inr (s3\<lparr>ct_announcedOnce := True\<rparr>))
         else Inr s1)"

text \<open>The listeners of \<open>change:isViewing\<close> in the order of their registration: lock, persist, tabbing.\<close>

definition lock_links :: "bool \<Rightarrow> clinks \<Rightarrow> clinks" where
  "lock_links isViewing = on_links (map (\<lambda>l. l\<lparr>cl_isLocked := \<not> isViewing\<rparr>))"

definition persist :: "bool \<Rightarrow> string option" where
  "persist isViewing = (if \<not> isViewing then Some ''false'' else None)"

definition set_isViewing :: "'s tabbing_api \<Rightarrow> contextual_env \<Rightarrow> nat \<Rightarrow> elem list \<Rightarrow> bool \<Rightarrow> 's ctoolbar \<Rightarrow> 's ctoolbar js" where
  "set_isViewing api env now elements isViewing s =
     (if ct_isViewing s = isViewing then Inr s
      else manageTabbing api env now elements
        (s\<lparr>ct_isViewing := isViewing, ct_links := lock_links isViewing (ct_links s), ct_storage := persist isViewing\<rparr>))"

definition toolbar_click :: "'s tabbing_api \<Rightarrow> contextual_env \<Rightarrow> nat \<Rightarrow> elem list \<Rightarrow> 's ctoolbar \<Rightarrow> 's ctoolbar js" where
  "toolbar_click api env now elements s = set_isViewing api env now elements (\<not> ct_isViewing s) s"

definition onKeypress :: "'s tabbing_api \<Rightarrow> contextual_env \<Rightarrow> nat \<Rightarrow> elem list \<Rightarrow> int \<Rightarrow> 's ctoolbar \<Rightarrow> 's ctoolbar js" where
  "onKeypress api env now elements keyCode s =
     (case (if \<not> ct_announcedOnce s \<and> keyCode = 9 \<and> \<not> ct_isViewing s
            then map_sum id (\<lambda>s1. s1\<lparr>ct_announcedOnce := True\<rparr>) (announceTabbingConstraint env now s)
            else Inr s) of
        Inl e \<Rightarrow> Inl e
      | Inr s1 \<Rightarrow> if keyCode = 27 then set_isViewing api env now elements True s1 else Inr s1)"

text \<open>The listeners of \<open>add\<close>: count the links (which updates the visibility), then lock the new one.\<close>

definition countContextualLinks :: "'s ctoolbar \<Rightarrow> 's ctoolbar" where
  "countContextualLinks s =
     (let n = length (cs_links (ct_links s)) in
      if ct_contextualCount s = n then s
      else s\<lparr>ct_contextualCount := n, ct_isVisible := (0 < n)\<rparr>)"

definition lockNewContextualLinks :: "nat \<Rightarrow> 's ctoolbar \<Rightarrow> 's ctoolbar" where
  "lockNewContextualLinks i s =
     (if \<not> ct_isViewing s
      then s\<lparr>ct_links := on_links (upd_link i (\<lambda>l. l\<lparr>cl_isLocked := True\<rparr>)) (ct_links s)\<rparr> else s)"

definition collection_add :: "string \<Rightarrow> 's ctoolbar \<Rightarrow> 's ctoolbar" where
  "collection_add title s =
     (let s1 = s\<lparr>ct_links := add_link (new_link title) (ct_links s)\<rparr>
      in lockNewContextualLinks (length (cs_links (ct_links s))) (countContextualLinks s1))"

text \<open>\<open>initContextualToolbar\<close>: the model starts in the stored mode, the aural view manages tabbing at once.\<close>

definition initContextualToolbar ::
    "'s tabbing_api \<Rightarrow> contextual_env \<Rightarrow> nat \<Rightarrow> elem list \<Rightarrow> string option \<Rightarrow> clinks \<Rightarrow> announcer \<Rightarrow> 's \<Rightarrow> 's ctoolbar js" where
  "initContextualToolbar api env now elements storage links an tabs =
     manageTabbing api env now elements
       \<lparr>ct_isViewing = (storage \<noteq> Some ''false''), ct_isVisible = False, ct_contextualCount = 0,
        ct_tabbingContext = None, ct_announcedOnce = False, ct_storage = storage, ct_links = links,
        ct_announcer = an, ct_tabbing = tabs\<rparr>"

text \<open>
  Runs of a page on which the toolbar starts before any link is initialised (cached links wait for a
  timer, the others for an answer). Other modules may constrain tabbing as well and release the contexts
  they were given, which \<open>held\<close> lists.
\<close>

inductive toolbar_run :: "'s tabbing_api \<Rightarrow> contextual_env \<Rightarrow> 's \<Rightarrow> nat list \<Rightarrow> 's ctoolbar \<Rightarrow> bool"
  for api env tabs where
  toolbar_start: "storage = None \<or> storage = Some ''false'' \<Longrightarrow>
    initContextualToolbar api env now elements storage no_links an tabs = Inr s \<Longrightarrow> toolbar_run api env tabs [] s"
| toolbar_clicked: "toolbar_run api env tabs held s \<Longrightarrow> toolbar_click api env now elements s = Inr s' \<Longrightarrow>
    toolbar_run api env tabs held s'"
| toolbar_key: "toolbar_run api env tabs held s \<Longrightarrow> onKeypress api env now elements keyCode s = Inr s' \<Longrightarrow>
    toolbar_run api env tabs held s'"
| toolbar_add: "toolbar_run api env tabs held s \<Longrightarrow> toolbar_run api env tabs held (collection_add title s)"
| toolbar_link: "toolbar_run api env tabs held s \<Longrightarrow> (\<And>i. event_target e = Some i \<Longrightarrow> i < length (cs_links (ct_links s))) \<Longrightarrow>
    toolbar_run api env tabs held (s\<lparr>ct_links := handle_event e (ct_links s)\<rparr>)"
| toolbar_announcer: "toolbar_run api env tabs held s \<Longrightarrow> toolbar_run api env tabs held (s\<lparr>ct_announcer := an\<rparr>)"
| other_constrains: "toolbar_run api env tabs held s \<Longrightarrow>
    toolbar_run api env tabs (snd (api_constrain api els (ct_tabbing s)) # held)
      (s\<lparr>ct_tabbing := fst (api_constrain api els (ct_tabbing s))\<rparr>)"
| other_releases: "toolbar_run api env tabs held s \<Longrightarrow> c \<in> set held \<Longrightarrow>
    toolbar_run api env tabs held (s\<lparr>ct_tabbing := api_release api c (ct_tabbing s)\<rparr>)"

section \<open>The mode, the links and the storage agree\<close>

lemma announce_constraint_frame:
  assumes "announceTabbingConstraint env now s = Inr s'"
  obtains an where "s' = s\<lparr>ct_announcer := an\<rparr>"
  using assms by (auto simp: announceTabbingConstraint_def split: sum.splits)

text \<open>What a successful \<open>manageTabbing\<close> leaves alone, and the state of the manager it leaves.\<close>

definition manage_tabs :: "'s tabbing_api \<Rightarrow> elem list \<Rightarrow> bool \<Rightarrow> nat option \<Rightarrow> 's \<Rightarrow> 's \<times> nat option" where
  "manage_tabs api elements isViewing context t =
     (let t1 = (case context of None \<Rightarrow> t | Some c \<Rightarrow> api_release api c t)
      in if isViewing then (t1, context) else map_prod id Some (api_constrain api elements t1))"

lemma manageTabbing_frame:
  assumes "manageTabbing api env now elements s = Inr s'"
  shows "ct_isViewing s' = ct_isViewing s" "ct_isVisible s' = ct_isVisible s" "ct_contextualCount s' = ct_contextualCount s"
    "ct_storage s' = ct_storage s" "ct_links s' = ct_links s"
    "(ct_tabbing s', ct_tabbingContext s') = manage_tabs api elements (ct_isViewing s) (ct_tabbingContext s) (ct_tabbing s)"
  using assms
  by (auto simp: manageTabbing_def manage_tabs_def Let_def map_prod_def split: option.splits if_splits sum.splits prod.splits
      elim!: announce_constraint_frame)

definition page_agrees :: "'s ctoolbar \<Rightarrow> bool" where
  "page_agrees s \<longleftrightarrow>
     (\<forall>l \<in> set (cs_links (ct_links s)). cl_isLocked l = (\<not> ct_isViewing s)) \<and>
     ct_contextualCount s = length (cs_links (ct_links s)) \<and>
     (ct_isVisible s \<longleftrightarrow> 0 < length (cs_links (ct_links s))) \<and>
     (ct_storage s = (if ct_isViewing s then None else Some ''false''))"

lemma locked_upd:
  "(\<And>l. cl_isLocked (f l) = cl_isLocked l) \<Longrightarrow> map cl_isLocked (upd_link i f ls) = map cl_isLocked ls"
  by (cases "i < length ls") (auto simp: upd_link_def map_update list_eq_iff_nth_eq nth_list_update)

lemma locked_fold:
  "(\<And>j ls. map cl_isLocked (f j ls) = map cl_isLocked ls) \<Longrightarrow> map cl_isLocked (fold f js ls) = map cl_isLocked ls"
  by (induction js arbitrary: ls) simp_all

lemma locked_ops [simp]:
  "map cl_isLocked (link_close i ls) = map cl_isLocked ls"
  "map cl_isLocked (link_blur i ls) = map cl_isLocked ls"
  by (simp_all add: link_close_def link_blur_def locked_upd)

lemma locked_focus [simp]: "map cl_isLocked (link_focus i ls) = map cl_isLocked ls"
  unfolding link_focus_def by (subst locked_fold) (simp_all add: locked_upd)

lemma locked_toggle [simp]: "map cl_isLocked (link_toggleOpen i ls) = map cl_isLocked ls"
  by (simp add: link_toggleOpen_def Let_def locked_upd)

lemma locked_event [simp]: "map cl_isLocked (cs_links (handle_event e s)) = map cl_isLocked (cs_links s)"
  by (cases e) (simp_all add: event_defs locked_upd split: option.split)

lemma locked_all_map:
  "map cl_isLocked ls' = map cl_isLocked ls \<Longrightarrow> (\<forall>l \<in> set ls'. cl_isLocked l = b) \<longleftrightarrow> (\<forall>l \<in> set ls. cl_isLocked l = b)"
  by (metis in_set_conv_nth length_map nth_map)

lemma page_agrees_set:
  assumes "page_agrees s" and "set_isViewing api env now elements b s = Inr s'"
  shows "page_agrees s'"
proof (cases "ct_isViewing s = b")
  case True
  with assms show ?thesis by (simp add: set_isViewing_def)
next
  case False
  with assms(2) have "manageTabbing api env now elements
      (s\<lparr>ct_isViewing := b, ct_links := lock_links b (ct_links s), ct_storage := persist b\<rparr>) = Inr s'"
    by (simp add: set_isViewing_def)
  note frame = manageTabbing_frame(1-5) [OF this]
  show ?thesis using assms(1) by (auto simp: frame page_agrees_def lock_links_def persist_def)
qed

lemma page_agrees_frame:
  "ct_isViewing s' = ct_isViewing s \<Longrightarrow> ct_isVisible s' = ct_isVisible s \<Longrightarrow> ct_contextualCount s' = ct_contextualCount s \<Longrightarrow>
   ct_storage s' = ct_storage s \<Longrightarrow> ct_links s' = ct_links s \<Longrightarrow> page_agrees s' = page_agrees s"
  by (simp add: page_agrees_def)

lemma onKeypress_cases:
  assumes "onKeypress api env now elements keyCode s = Inr s'"
  obtains an b where
    "s' = s\<lparr>ct_announcer := an, ct_announcedOnce := b\<rparr> \<or>
     set_isViewing api env now elements True (s\<lparr>ct_announcer := an, ct_announcedOnce := b\<rparr>) = Inr s'"
proof -
  let ?r = "if \<not> ct_announcedOnce s \<and> keyCode = 9 \<and> \<not> ct_isViewing s
    then map_sum id (\<lambda>s1. s1\<lparr>ct_announcedOnce := True\<rparr>) (announceTabbingConstraint env now s) else Inr s"
  obtain s1 where s1: "?r = Inr s1" "(if keyCode = 27 then set_isViewing api env now elements True s1 else Inr s1) = Inr s'"
    using assms unfolding onKeypress_def by (cases ?r) simp_all
  obtain an b where "s1 = s\<lparr>ct_announcer := an, ct_announcedOnce := b\<rparr>"
  proof (cases "\<not> ct_announcedOnce s \<and> keyCode = 9 \<and> \<not> ct_isViewing s")
    case True
    with s1(1) that show ?thesis by (auto simp: announceTabbingConstraint_def split: sum.splits)
  next
    case False
    with s1(1) have "s1 = s\<lparr>ct_announcer := ct_announcer s, ct_announcedOnce := ct_announcedOnce s\<rparr>" by (simp split: if_splits)
    then show ?thesis by (rule that)
  qed
  with s1(2) that show ?thesis by (auto split: if_splits)
qed

lemma collection_add_agrees: "page_agrees s \<Longrightarrow> page_agrees (collection_add title s)"
  by (auto simp: page_agrees_def collection_add_def lockNewContextualLinks_def countContextualLinks_def add_link_def Let_def
      new_link_def upd_link_def)

lemma toolbar_run_agrees: "toolbar_run api env tabs held s \<Longrightarrow> page_agrees s"
proof (induction rule: toolbar_run.induct)
  case (toolbar_start storage now elements an s)
  note frame = manageTabbing_frame(1-5) [OF toolbar_start(2) [unfolded initContextualToolbar_def]]
  from toolbar_start(1) show ?case by (auto simp: frame page_agrees_def no_links_def)
next
  case (toolbar_clicked held s now elements s')
  then show ?case using page_agrees_set unfolding toolbar_click_def by blast
next
  case (toolbar_key held s now elements keyCode s')
  from toolbar_key.hyps(2) obtain an b where
    "s' = s\<lparr>ct_announcer := an, ct_announcedOnce := b\<rparr> \<or>
     set_isViewing api env now elements True (s\<lparr>ct_announcer := an, ct_announcedOnce := b\<rparr>) = Inr s'"
    by (rule onKeypress_cases)
  moreover have "page_agrees (s\<lparr>ct_announcer := an, ct_announcedOnce := b\<rparr>)"
    using toolbar_key.IH by (simp add: page_agrees_def)
  ultimately show ?case using page_agrees_set by blast
next
  case (toolbar_link held s e)
  then show ?case
    using locked_all_map [OF locked_event [of e "ct_links s"]] by (simp add: page_agrees_def)
qed (simp_all add: collection_add_agrees, simp_all add: page_agrees_def)

section \<open>The tabbing context of the edit mode\<close>

context tabbing_contract
begin

text \<open>
  Every context that is not released is the toolbar's, is held by another module or was there before.
\<close>

definition accounted :: "'s \<Rightarrow> nat list \<Rightarrow> nat option \<Rightarrow> 's \<Rightarrow> bool" where
  "accounted tabs held context t \<longleftrightarrow>
     ok t \<and> (\<forall>d. known tabs d \<longrightarrow> known t d) \<and>
     (\<forall>c. context = Some c \<longrightarrow> known t c \<and> c \<notin> set held \<and> \<not> known tabs c) \<and> (\<forall>h \<in> set held. known t h \<and> \<not> known tabs h) \<and>
     (\<forall>d. known t d \<and> \<not> released t d \<longrightarrow> context = Some d \<or> d \<in> set held \<or> known tabs d)"

definition in_mode :: "bool \<Rightarrow> nat option \<Rightarrow> 's \<Rightarrow> bool" where
  "in_mode isViewing context t \<longleftrightarrow>
     (if isViewing then (\<forall>c. context = Some c \<longrightarrow> released t c) else (\<exists>c. context = Some c \<and> \<not> released t c))"

lemma accounted_new:
  assumes acc: "accounted tabs held context t1"
    and t': "ok t'" "\<And>d. known t' d \<longleftrightarrow> known t1 d \<or> d = c" "\<not> known t1 c" "\<And>d. known t1 d \<Longrightarrow> released t' d = released t1 d"
  shows "accounted tabs (c # held) context t'"
    and "(\<And>d. context = Some d \<Longrightarrow> released t1 d) \<Longrightarrow> accounted tabs held (Some c) t'"
proof -
  note a = acc [unfolded accounted_def]
  show "accounted tabs (c # held) context t'"
    unfolding accounted_def
  proof (intro conjI allI impI ballI)
    show "context = Some d \<or> d \<in> set (c # held) \<or> known tabs d" if "known t' d \<and> \<not> released t' d" for d
      using that a t'(2,4) [of d] by (cases "d = c") auto
  qed (use a t' in auto)
  show "accounted tabs held (Some c) t'" if "\<And>d. context = Some d \<Longrightarrow> released t1 d"
    unfolding accounted_def
  proof (intro conjI allI impI ballI)
    show "Some c = Some d \<or> d \<in> set held \<or> known tabs d" if "known t' d \<and> \<not> released t' d" for d
      using that \<open>\<And>d. context = Some d \<Longrightarrow> released t1 d\<close> [of d] a t'(2,4) [of d] by (cases "d = c") auto
  qed (use a t' in auto)
qed

lemma manage_tabs_contract:
  assumes "accounted tabs held context t" and "manage_tabs api elements isViewing context t = (t', context')"
  shows "accounted tabs held context' t' \<and> in_mode isViewing context' t'"
proof -
  define t1 where "t1 = (case context of None \<Rightarrow> t | Some c \<Rightarrow> api_release api c t)"
  have t1: "accounted tabs held context t1" "\<And>c. context = Some c \<Longrightarrow> released t1 c"
    using assms(1) unfolding t1_def accounted_def
    by (auto simp: ok_release known_release released_release split: option.splits)
  show ?thesis
  proof (cases isViewing)
    case True
    with assms(2) t1 show ?thesis by (auto simp: manage_tabs_def t1_def [symmetric] in_mode_def)
  next
    case False
    define c where "c = snd (api_constrain api elements t1)"
    have ok: "ok t1" using t1(1) by (simp add: accounted_def)
    note laws = known_constrain [OF ok, of elements, folded c_def] fresh_constrain [OF ok, of elements, folded c_def]
      unreleased_constrain [OF ok, of elements, folded c_def]
    have r: "t' = fst (api_constrain api elements t1)" "context' = Some c"
      using assms(2) False by (simp_all add: manage_tabs_def t1_def [symmetric] c_def map_prod_def split_beta)
    have "accounted tabs held context' t'"
      unfolding r using t1(2)
      by (intro accounted_new(2) [OF t1(1) ok_constrain [OF ok] laws(1,2) released_constrain [OF ok]])
    with laws(3) r False show ?thesis by (simp add: in_mode_def)
  qed
qed

lemma set_isViewing_contract:
  assumes "accounted tabs held (ct_tabbingContext s) (ct_tabbing s)" and "in_mode (ct_isViewing s) (ct_tabbingContext s) (ct_tabbing s)"
    and "set_isViewing api env now elements b s = Inr s'"
  shows "accounted tabs held (ct_tabbingContext s') (ct_tabbing s') \<and> in_mode (ct_isViewing s') (ct_tabbingContext s') (ct_tabbing s')"
proof (cases "ct_isViewing s = b")
  case True
  with assms show ?thesis by (simp add: set_isViewing_def)
next
  case False
  with assms(3) have "manageTabbing api env now elements
      (s\<lparr>ct_isViewing := b, ct_links := lock_links b (ct_links s), ct_storage := persist b\<rparr>) = Inr s'"
    by (simp add: set_isViewing_def)
  note frame = manageTabbing_frame(1,6) [OF this]
  from manage_tabs_contract [OF assms(1), of elements b] frame show ?thesis by simp
qed

lemma toolbar_run_contract:
  assumes "toolbar_run api env tabs held s" and "ok tabs"
  shows "accounted tabs held (ct_tabbingContext s) (ct_tabbing s) \<and> in_mode (ct_isViewing s) (ct_tabbingContext s) (ct_tabbing s)"
  using assms(1)
proof (induction rule: toolbar_run.induct)
  case (toolbar_start storage now elements an s)
  note frame = manageTabbing_frame(1,6) [OF toolbar_start(2) [unfolded initContextualToolbar_def]]
  have "accounted tabs [] None tabs" using assms(2) by (simp add: accounted_def)
  from manage_tabs_contract [OF this, of elements "ct_isViewing s"] frame show ?case by simp
next
  case (toolbar_clicked held s now elements s')
  then show ?case using set_isViewing_contract unfolding toolbar_click_def by blast
next
  case (toolbar_key held s now elements keyCode s')
  from toolbar_key.hyps(2) obtain an b where
    "s' = s\<lparr>ct_announcer := an, ct_announcedOnce := b\<rparr> \<or>
     set_isViewing api env now elements True (s\<lparr>ct_announcer := an, ct_announcedOnce := b\<rparr>) = Inr s'"
    by (rule onKeypress_cases)
  with toolbar_key.IH show ?case
    using set_isViewing_contract [of tabs held "s\<lparr>ct_announcer := an, ct_announcedOnce := b\<rparr>"] by fastforce
next
  case (toolbar_add held s title)
  have "ct_tabbing (collection_add title s) = ct_tabbing s" "ct_tabbingContext (collection_add title s) = ct_tabbingContext s"
    "ct_isViewing (collection_add title s) = ct_isViewing s"
    by (simp_all add: collection_add_def lockNewContextualLinks_def countContextualLinks_def Let_def)
  with toolbar_add.IH show ?case by simp
next
  case (other_constrains held s els)
  let ?t = "ct_tabbing s" and ?r = "api_constrain api els (ct_tabbing s)"
  have ok: "ok ?t" using other_constrains.IH by (simp add: accounted_def)
  note laws = ok_constrain [OF ok, of els] known_constrain [OF ok, of els] fresh_constrain [OF ok, of els]
    released_constrain [OF ok, of _ els]
  have mode: "in_mode (ct_isViewing s) (ct_tabbingContext s) (fst ?r)"
    using other_constrains.IH laws(4) unfolding accounted_def in_mode_def by (auto split: if_splits)
  have "accounted tabs (snd ?r # held) (ct_tabbingContext s) (fst ?r)"
    using other_constrains.IH by (intro accounted_new(1) [OF _ laws]) blast
  with mode show ?case by simp
next
  case (other_releases held s c)
  then have c: "known (ct_tabbing s) c" "ok (ct_tabbing s)" "ct_tabbingContext s \<noteq> Some c"
    by (auto simp: accounted_def)
  with other_releases show ?case
    unfolding accounted_def in_mode_def by (auto simp: ok_release known_release released_release split: if_splits)
qed simp_all

text \<open>What the client gets: its context is unreleased exactly in edit mode, and no other is left over.\<close>

lemma edit_mode_context:
  assumes "toolbar_run api env tabs held s" and "ok tabs"
  shows "ct_isViewing s \<longleftrightarrow> (\<forall>c. ct_tabbingContext s = Some c \<longrightarrow> released (ct_tabbing s) c)"
  using toolbar_run_contract [OF assms] by (auto simp: in_mode_def split: if_splits)

lemma view_mode_all_released:
  assumes "toolbar_run api env tabs [] s" and "ok tabs" and "ct_isViewing s" and none: "\<forall>d. \<not> known tabs d"
    and c: "known (ct_tabbing s) c"
  shows "released (ct_tabbing s) c"
proof (rule ccontr)
  assume unreleased: "\<not> released (ct_tabbing s) c"
  note contract = toolbar_run_contract [OF assms(1,2)]
  have "ct_tabbingContext s = Some c \<or> c \<in> set [] \<or> known tabs c"
    using conjunct1 [OF contract] c unreleased unfolding accounted_def by blast
  with none have "ct_tabbingContext s = Some c" by auto
  with conjunct2 [OF contract] assms(3) unreleased show False unfolding in_mode_def by auto
qed

lemma edit_mode_only_context:
  assumes "toolbar_run api env tabs [] s" and "ok tabs" and edit: "\<not> ct_isViewing s" and none: "\<forall>d. \<not> known tabs d"
  shows "\<exists>c. ct_tabbingContext s = Some c \<and> known (ct_tabbing s) c \<and> \<not> released (ct_tabbing s) c \<and>
    (\<forall>d. known (ct_tabbing s) d \<and> \<not> released (ct_tabbing s) d \<longrightarrow> d = c)"
proof -
  note contract = toolbar_run_contract [OF assms(1,2)]
  obtain c where c: "ct_tabbingContext s = Some c" "\<not> released (ct_tabbing s) c"
    using conjunct2 [OF contract] edit unfolding in_mode_def by auto
  moreover have "known (ct_tabbing s) c" using conjunct1 [OF contract] c(1) unfolding accounted_def by blast
  moreover have "d = c" if "known (ct_tabbing s) d \<and> \<not> released (ct_tabbing s) d" for d
  proof -
    have "ct_tabbingContext s = Some d \<or> d \<in> set [] \<or> known tabs d"
      using conjunct1 [OF contract] that unfolding accounted_def by blast
    with none c(1) show "d = c" by auto
  qed
  ultimately show ?thesis by blast
qed

lemma toolbar_run_ok: "toolbar_run api env tabs held s \<Longrightarrow> ok tabs \<Longrightarrow> ok (ct_tabbing s)"
  using toolbar_run_contract by (simp add: accounted_def)

end

section \<open>The tabbing manager satisfies the contract\<close>

definition page_tabbing :: "tabbable_lib \<Rightarrow> tabbing tabbing_api" where
  "page_tabbing lib =
     \<lparr>api_constrain = (\<lambda>els. constrain lib els False), api_release = context_release lib,
      api_active = (\<lambda>s c. tc_active (ctx s c))\<rparr>"

interpretation tm: tabbing_contract "page_tabbing lib" "tabbing_inv a0"
    "\<lambda>s c. c < length (tb_contexts s)" "\<lambda>s c. tc_released (ctx s c)" for lib a0
proof
  fix s els c d
  assume inv: "tabbing_inv a0 s"
  note con = constrain_inv [OF inv, where lib = lib and roots = els and trapFocus = False] and rel = context_release_inv [OF inv, where lib = lib]
  show "tabbing_inv a0 (fst (api_constrain (page_tabbing lib) els s))"
    using con(1) by (simp add: page_tabbing_def)
  show "d < length (tb_contexts (fst (api_constrain (page_tabbing lib) els s))) \<longleftrightarrow>
      d < length (tb_contexts s) \<or> d = snd (api_constrain (page_tabbing lib) els s)"
    using con(3,4) by (auto simp: page_tabbing_def)
  show "\<not> snd (api_constrain (page_tabbing lib) els s) < length (tb_contexts s)"
    using con(3) by (simp add: page_tabbing_def)
  show "\<not> tc_released (ctx (fst (api_constrain (page_tabbing lib) els s)) (snd (api_constrain (page_tabbing lib) els s)))"
    using con(3,6) by (simp add: page_tabbing_def)
  show "d < length (tb_contexts s) \<Longrightarrow>
      tc_released (ctx (fst (api_constrain (page_tabbing lib) els s)) d) = tc_released (ctx s d)"
    using con(5) by (simp add: page_tabbing_def)
  assume c: "c < length (tb_contexts s)"
  show "tabbing_inv a0 (api_release (page_tabbing lib) c s)"
    using rel(1) [OF c] by (simp add: page_tabbing_def)
  show "(d < length (tb_contexts (api_release (page_tabbing lib) c s))) = (d < length (tb_contexts s))"
    using rel(2) [OF c] by (simp add: page_tabbing_def)
  show "tc_released (ctx (api_release (page_tabbing lib) c s) d) \<longleftrightarrow> tc_released (ctx s d) \<or> d = c"
    using rel(3) [OF c] by (simp add: page_tabbing_def)
qed

section \<open>The text of the announcement without translations\<close>

definition links_text :: "nat \<Rightarrow> string" where
  "links_text n = (if n = 1 then ''1 contextual link'' else int_str (int n) @ '' contextual links'')"

lemma format_count:
  assumes "0 \<le> n"
  shows "formatString T (''@count'' @ rest) (Some [(''@count'', VNum n)]) =
    Inr (js_join (int_str n) (js_split ''@count'' (''@count'' @ rest)))"
  using assms
  by (simp add: formatString_def process_arg_def checkPlain_defined check_plain_int stringReplace_def js_put_def js_has_def
      arg_val_def join_text_def)

lemma split_count: "js_split ''@count'' ''@count contextual links'' = [[], '' contextual links'']"
  "js_split ''@count'' ''@count contextual link'' = [[], '' contextual link'']"
  by code_simp+

lemma one_count: "int_str 1 = ''1''"
  by code_simp

lemma format_one: "formatString T ''@count contextual link'' (Some [(''@count'', VNum 1)]) = Inr ''1 contextual link''"
  using format_count [of 1 T "'' contextual link''"] by (simp add: split_count one_count)

lemma count_value: "formatPlural default_themes None [CHR 0x03] (int n) ''@count contextual link'' ''@count contextual links'' None None =
   Inr (VStr (links_text n))"
proof -
  have "formatPlural default_themes None [CHR 0x03] (int n) ''@count contextual link'' ''@count contextual links'' None None =
     formatPlural default_themes None [CHR 0x03] (int n) ''@count contextual link'' ''@count contextual links'' (Some []) None"
    by (simp add: formatPlural_def)
  also have "\<dots> = (case formatString default_themes (if int n = 1 then ''@count contextual link'' else ''@count contextual links'')
            (Some (js_put ''@count'' (VNum (int n)) [])) of Inl e \<Rightarrow> Inl e | Inr s \<Rightarrow> Inr (VStr s))"
    using int_str_digits [of "int n"] digit_plain
    by (intro formatPlural_split) (auto simp: js_put_def js_wf_def sanitized_def check_plain_int)
  also have "\<dots> = Inr (VStr (links_text n))"
    using format_count [of "int n" default_themes "'' contextual link''"] format_count [of "int n" default_themes "'' contextual links''"]
    by (cases "n = 1") (simp_all add: split_count links_text_def one_count format_one)
  finally show ?thesis .
qed

lemma links_plain: "check_plain_str ''1 contextual link'' = ''1 contextual link''"
  "check_plain_str '' contextual links'' = '' contextual links''"
  by code_simp+

lemma links_text_plain: "check_plain_str (links_text n) = links_text n"
  unfolding links_text_def if_distrib [of check_plain_str] check_plain_str_append links_plain
  by (subst check_plain_int) simp_all

definition constrained_text :: "nat \<Rightarrow> string" where
  "constrained_text n = ''Tabbing is constrained to a set of '' @ links_text n @ '' and the edit mode toggle.''"

definition untranslated_env :: contextual_env where
  "untranslated_env = \<lparr>ce_themes = default_themes, ce_translations = None, ce_pluralDelimiter = [CHR 0x03]\<rparr>"

lemma split_constrained:
  "js_split ''@contextualsCount'' ''Tabbing is constrained to a set of @contextualsCount and the edit mode toggle.'' =
     [''Tabbing is constrained to a set of '', '' and the edit mode toggle.'']"
  by code_simp

lemma constraint_text_untranslated: "constraint_text untranslated_env n = Inr (constrained_text n)"
  unfolding constraint_text_def untranslated_env_def contextual_env.simps count_value sum.case tabbingConstrained_def
    t_lookup_def option.case
  by (simp add: formatString_def process_arg_def checkPlain_defined links_text_plain stringReplace_def js_put_def js_has_def
      arg_val_def join_text_def split_constrained constrained_text_def)

section \<open>Properties\<close>

lemma all_released_clean:
  assumes "tabbing_inv a0 s" and "\<forall>c < length (tb_contexts s). tc_released (ctx s c)"
  shows "tb_stack s = [] \<and> page_clean a0 s"
proof (cases "tb_stack s = []")
  case False
  then have "last (tb_stack s) < length (tb_contexts s)" "\<not> tc_released (ctx s (last (tb_stack s)))"
    using assms(1) by (simp_all add: tabbing_inv_def stack_wf_last)
  with assms(2) show ?thesis by blast
qed (use assms(1) in \<open>simp add: tabbing_inv_def\<close>)

lemma unreleased_top:
  assumes "tabbing_inv a0 s" and "\<forall>d < length (tb_contexts s). \<not> tc_released (ctx s d) \<longrightarrow> d = c" and "c < length (tb_contexts s)"
    and "\<not> tc_released (ctx s c)"
  shows "tb_stack s \<noteq> [] \<and> last (tb_stack s) = c \<and> tc_active (ctx s c)"
proof -
  have "c \<in> set (tb_stack s)" using assms(1,3,4) unfolding tabbing_inv_def stack_wf_def by blast
  then have stack: "tb_stack s \<noteq> []" by auto
  then have "last (tb_stack s) < length (tb_contexts s)" "\<not> tc_released (ctx s (last (tb_stack s)))"
    using assms(1) by (simp_all add: tabbing_inv_def stack_wf_last)
  with assms(2) have "last (tb_stack s) = c" by blast
  with stack assms(1,3) show ?thesis by (simp add: tabbing_inv_def)
qed

text \<open>
  In every reachable state of the toolbar the triggers of all contextual links are locked exactly in
  edit mode, the counter is the number of links, the tab is visible exactly when there is a link, and
  the local storage holds the mode, whatever links are added and whatever happens to them.
\<close>

theorem toolbar_mode_agrees:
  assumes "toolbar_run api env tabs held s" and "l \<in> set (cs_links (ct_links s))"
  shows "cl_isLocked l = (\<not> ct_isViewing s) \<and> ct_isVisible s \<and>
    ct_contextualCount s = length (cs_links (ct_links s)) \<and>
    ct_storage s = (if ct_isViewing s then None else Some ''false'')"
  using toolbar_run_agrees [OF assms(1)] assms(2) by (auto simp: page_agrees_def)

definition page4_toolbar :: "tabbing ctoolbar" where
  "page4_toolbar = projr (initContextualToolbar (page_tabbing page4_lib) untranslated_env 0 [1] (Some ''false'') no_links
     (drupalAnnounce_attach announcer_init) (TabbingManager page4))"

lemma manageTabbing_total: "\<exists>s'. manageTabbing api untranslated_env now elements s = Inr s'"
  by (auto simp: manageTabbing_def Let_def announceTabbingConstraint_def constraint_text_untranslated split: option.splits)

lemma page4_toolbar_run: "toolbar_run (page_tabbing page4_lib) untranslated_env (TabbingManager page4) [] page4_toolbar"
proof (rule toolbar_start)
  show "Some ''false'' = None \<or> Some ''false'' = Some ''false''" by simp
  show "initContextualToolbar (page_tabbing page4_lib) untranslated_env 0 [1] (Some ''false'') no_links
      (drupalAnnounce_attach announcer_init) (TabbingManager page4) = Inr page4_toolbar"
    unfolding page4_toolbar_def initContextualToolbar_def using manageTabbing_total by (metis sum.sel(2))
qed

theorem toolbar_mode_agrees_witness:
  "cl_isLocked (cs_links (ct_links (collection_add ''Recent content'' page4_toolbar)) ! 0) =
     (\<not> ct_isViewing (collection_add ''Recent content'' page4_toolbar)) \<and>
   ct_isVisible (collection_add ''Recent content'' page4_toolbar)"
proof -
  have run: "toolbar_run (page_tabbing page4_lib) untranslated_env (TabbingManager page4) [] (collection_add ''Recent content'' page4_toolbar)"
    by (rule toolbar_add [OF page4_toolbar_run])
  have "cs_links (ct_links (collection_add ''Recent content'' page4_toolbar)) \<noteq> []"
    by (simp add: collection_add_def lockNewContextualLinks_def countContextualLinks_def add_link_def Let_def upd_link_def)
  then have "cs_links (ct_links (collection_add ''Recent content'' page4_toolbar)) ! 0 \<in>
      set (cs_links (ct_links (collection_add ''Recent content'' page4_toolbar)))" by simp
  from toolbar_mode_agrees [OF run this] show ?thesis by simp
qed

text \<open>
  C16. The tabbing manager and the toolbar together, when no other module constrains tabbing: in view mode
  every element of the page has its original tabbing attributes and the stack of the manager is empty;
  in edit mode the context of the toolbar is the active top of the stack.
\<close>

theorem edit_mode_owns_tabbing:
  assumes "toolbar_run (page_tabbing lib) env (TabbingManager a0) [] s"
  shows "if ct_isViewing s then tb_stack (ct_tabbing s) = [] \<and> same_attrs (tb_attrs (ct_tabbing s)) a0 x
    else \<exists>c. ct_tabbingContext s = Some c \<and> tb_stack (ct_tabbing s) \<noteq> [] \<and> last (tb_stack (ct_tabbing s)) = c \<and>
      tc_active (ctx (ct_tabbing s) c)"
proof -
  have start: "tabbing_inv a0 (TabbingManager a0)" by (rule run_inv [OF run_start [of UNIV]])
  note inv = tm.toolbar_run_ok [OF assms start]
  show ?thesis
  proof (cases "ct_isViewing s")
    case True
    have "tc_released (ctx (ct_tabbing s) c)" if "c < length (tb_contexts (ct_tabbing s))" for c
      by (rule tm.view_mode_all_released [OF assms start True _ that]) (simp add: TabbingManager_def)
    with all_released_clean [OF inv] True show ?thesis by (simp add: page_clean_def untouched_def)
  next
    case False
    have none: "\<forall>d. \<not> d < length (tb_contexts (TabbingManager a0))" by (simp add: TabbingManager_def)
    obtain c where c: "ct_tabbingContext s = Some c" "c < length (tb_contexts (ct_tabbing s))" "\<not> tc_released (ctx (ct_tabbing s) c)"
      "\<forall>d < length (tb_contexts (ct_tabbing s)). \<not> tc_released (ctx (ct_tabbing s) d) \<longrightarrow> d = c"
      using tm.edit_mode_only_context [OF assms start False none] by blast
    from unreleased_top [OF inv c(4,2,3)] c(1) False show ?thesis by simp
  qed
qed

theorem edit_mode_owns_tabbing_witness:
  "if ct_isViewing page4_toolbar then tb_stack (ct_tabbing page4_toolbar) = [] \<and> same_attrs (tb_attrs (ct_tabbing page4_toolbar)) page4 2
    else \<exists>c. ct_tabbingContext page4_toolbar = Some c \<and> tb_stack (ct_tabbing page4_toolbar) \<noteq> [] \<and>
      last (tb_stack (ct_tabbing page4_toolbar)) = c \<and> tc_active (ctx (ct_tabbing page4_toolbar) c)"
  by (rule edit_mode_owns_tabbing [OF page4_toolbar_run])

lemma manageTabbing_announces:
  assumes "\<not> ct_isViewing s"
  shows "\<exists>s' before. manageTabbing api untranslated_env now elements s = Inr s' \<and> \<not> ct_isViewing s' \<and>
    an_announcements (ct_announcer s') =
      before @ [(constrained_text (length (cs_links (ct_links s))), None), (pressEsc untranslated_env, None)]"
  using assms
  by (auto simp: manageTabbing_def Let_def announceTabbingConstraint_def constraint_text_untranslated Drupal_announce_def
      split: option.splits)

text \<open>
  On a page without translations a click in view mode always succeeds: it switches to edit mode and
  announces, last, how many contextual links tabbing is constrained to and how to leave.
\<close>

theorem click_announces_constraint:
  assumes "ct_isViewing s"
  shows "\<exists>s' before. toolbar_click api untranslated_env now elements s = Inr s' \<and> \<not> ct_isViewing s' \<and>
    an_announcements (ct_announcer s') = before @
      [(''Tabbing is constrained to a set of '' @ links_text (length (cs_links (ct_links s))) @ '' and the edit mode toggle.'', None),
       (''Press the esc key to exit.'', None)]"
proof -
  let ?s = "s\<lparr>ct_isViewing := False, ct_links := lock_links False (ct_links s), ct_storage := persist False\<rparr>"
  obtain s' before where s': "manageTabbing api untranslated_env now elements ?s = Inr s'" "\<not> ct_isViewing s'"
    "an_announcements (ct_announcer s') =
      before @ [(constrained_text (length (cs_links (ct_links ?s))), None), (pressEsc untranslated_env, None)]"
    using manageTabbing_announces [of ?s api now elements] by auto
  have click: "toolbar_click api untranslated_env now elements s = Inr s'"
    using assms s'(1) by (simp add: toolbar_click_def set_isViewing_def)
  have n: "length (cs_links (ct_links ?s)) = length (cs_links (ct_links s))" by (simp add: lock_links_def)
  have esc: "pressEsc untranslated_env = ''Press the esc key to exit.''" by (simp add: pressEsc_def untranslated_env_def t_lookup_def)
  show ?thesis
    by (intro exI [of _ s'] exI [of _ before] conjI) (rule click, rule s'(2), rule s'(3) [unfolded n esc constrained_text_def])
qed

definition viewing_page :: "tabbing ctoolbar" where
  "viewing_page =
     \<lparr>ct_isViewing = True, ct_isVisible = False, ct_contextualCount = 0, ct_tabbingContext = None, ct_announcedOnce = False,
      ct_storage = None, ct_links = no_links, ct_announcer = announcer_init, ct_tabbing = TabbingManager page4\<rparr>"

theorem click_announces_constraint_witness:
  "\<exists>s' before. toolbar_click (page_tabbing page4_lib) untranslated_env 0 [1] viewing_page = Inr s' \<and> \<not> ct_isViewing s' \<and>
    an_announcements (ct_announcer s') = before @
      [(''Tabbing is constrained to a set of '' @ links_text (length (cs_links (ct_links viewing_page))) @
        '' and the edit mode toggle.'', None), (''Press the esc key to exit.'', None)]"
  by (rule click_announces_constraint) (simp add: viewing_page_def)

end
