(* ===== verification/Ajax.thy ===== *)
theory Ajax
  imports Drupal_Api
begin

text \<open>
  The Ajax framework of \<open>core/misc/ajax.es6.js\<close>: the objects of \<open>Drupal.ajax.instances\<close>, their construction
  (addresses, trust), the events that start a request, the callbacks of jQuery while it runs, and the
  commands of the response.

  The page is the history of what scripts did to it: every call that changes the document is an
  \<open>action\<close> appended to \<open>xp_history\<close>, and what scripts read from the document is a question of the
  environment \<open>ajax_env\<close> that may depend on the history (jQuery and the browser are parameters).
  Elements are addresses.

  An operation that may throw returns the state it leaves with the error, if any.
\<close>

section \<open>Actions and environment\<close>

type_synonym element = nat

record ajax_page_state =
  ps_theme :: string
  ps_theme_token :: string
  ps_libraries :: string

text \<open>
  Settings that a response brings: the parts that this script reads (\<open>ajax\<close>, \<open>ajaxTrustedUrl\<close>,
  \<open>ajaxPageState\<close>) and the rest, which it passes on.
\<close>

record settings_value =
  sv_ajax :: "string jsobj option"
  sv_trusted :: "bool jsobj"
  sv_pageState :: "ajax_page_state option"
  sv_rest :: string

text \<open>\<open>None\<close> as a context of behaviors is the whole document, as settings the global ones.\<close>

datatype action =
    Attach_behaviors "element option" "settings_value option"
  | Detach_behaviors "element option" "settings_value option" string
  | Insert_content string string string
  | Attach_content "settings_value option"
  | Content_effect string string
  | Set_disabled element bool
  | Show_progress string
  | Remove_progress
  | Stop_monitoring
  | Show_wrapper string
  | Window_alert string
  | Set_focus element
  | Set_clicked element
  | Jquery_call string string string
  | Merge_settings settings_value
  | Redirect string
  | Set_build_id string string
  | Dom_command string string
  | Send_request string "string jsobj" "string jsobj option"
  | Restripe "(element \<times> string) list"

datatype root_kind = Element_root | Comment_root | Blank_text_root | Text_root

record ajax_env =
  ev_themes :: themes
  ev_translations :: "translation_table option"
  ev_decode :: "string \<Rightarrow> string option"
  ev_anchor :: "string \<Rightarrow> string"
  ev_location :: location
  ev_paths :: path_settings
  ev_contains :: "action list \<Rightarrow> element \<Rightarrow> bool"
  ev_select :: "action list \<Rightarrow> string \<Rightarrow> element list"
  ev_has_method :: "string \<Rightarrow> bool"
  ev_roots :: "string \<Rightarrow> root_kind list"
  ev_new_content :: "string \<Rightarrow> bool"
  ev_content_in_page :: "action list \<Rightarrow> bool"
  ev_parents :: "action list \<Rightarrow> element \<Rightarrow> string list"
  ev_disable_refocus :: "element \<Rightarrow> bool"
  ev_tabbable :: "action list \<Rightarrow> element \<Rightarrow> element list"
  ev_isFocusable :: "action list \<Rightarrow> element \<Rightarrow> bool"
  ev_fieldValue :: "element \<Rightarrow> string option"
  ev_name :: "element \<Rightarrow> string"
  ev_custom_throws :: "string \<Rightarrow> bool"

section \<open>State\<close>

text \<open>
  Objects are shared by their event handlers and by \<open>Drupal.ajax.instances\<close>, so they live in a heap; an
  instance is the address of an object or \<open>null\<close>. \<open>aj_pending\<close> counts the requests under way.
  \<open>pg_element\<close> and \<open>pg_object\<close> tell whether the indicator has put an element on the page and a
  progress bar in the object. \<open>aj_element\<close> is \<open>None\<close> for \<open>false\<close>.
\<close>

record progress =
  pg_type :: "string option"
  pg_element :: bool
  pg_object :: bool
  pg_url :: "string option"

record Ajax =
  aj_element :: "element option"
  aj_form :: "element option"
  aj_event :: "string option"
  aj_keypress :: bool
  aj_selector :: "string option"
  aj_effect :: string
  aj_speed :: string
  aj_method :: string
  aj_progress :: "progress option"
  aj_wrapper :: "string option"
  aj_setClick :: bool
  aj_url :: string
  aj_options_url :: string
  aj_options_data :: "string jsobj"
  aj_commands :: "string list"
  aj_settings :: "settings_value option"
  aj_ajaxing :: bool
  aj_instanceIndex :: nat
  aj_pending :: nat

record ajax_page =
  xp_heap :: "Ajax list"
  xp_instances :: "nat option list"
  xp_trusted :: "bool jsobj"
  xp_ajaxSettings :: "string jsobj option"
  xp_pageState :: "ajax_page_state option"
  xp_history :: "action list"

type_synonym ajax_result = "ajax_page \<times> js_error option"

definition act :: "action \<Rightarrow> ajax_page \<Rightarrow> ajax_page" where
  "act a p = p\<lparr>xp_history := xp_history p @ [a]\<rparr>"

abbreviation obj :: "ajax_page \<Rightarrow> nat \<Rightarrow> Ajax" where
  "obj p i \<equiv> xp_heap p ! i"

definition upd_obj :: "nat \<Rightarrow> (Ajax \<Rightarrow> Ajax) \<Rightarrow> ajax_page \<Rightarrow> ajax_page" where
  "upd_obj i f p = p\<lparr>xp_heap := (xp_heap p)[i := f (obj p i)]\<rparr>"

text \<open>\<open>drupalSettings.ajaxTrustedUrl[url]\<close>\<close>

definition trusted_url :: "ajax_page \<Rightarrow> string \<Rightarrow> bool" where
  "trusted_url p u \<longleftrightarrow> js_get (xp_trusted p) u = Some True"

section \<open>Construction\<close>

text \<open>\<open>url.replace(/\/nojs(\/|$|\?|#)/, '/ajax$1')\<close>: the first match only.\<close>

fun replace_nojs :: "string \<Rightarrow> string" where
  "replace_nojs [] = []"
| "replace_nojs (c # s) =
     (if prefix ''/nojs'' (c # s) \<and> (drop 5 (c # s) = [] \<or> hd (drop 5 (c # s)) \<in> set ''/?#'')
      then ''/ajax'' @ drop 5 (c # s) else c # replace_nojs s)"

record element_settings =
  es_base :: "string option"
  es_element :: "element option"
  es_url :: "string option"
  es_event :: "string option"
  es_keypress :: "bool option"
  es_selector :: "string option"
  es_effect :: "string option"
  es_speed :: "string option"
  es_method :: "string option"
  es_progress :: "progress option option"
  es_wrapper :: "string option"
  es_setClick :: bool
  es_submit :: "string jsobj option"
  es_dialog :: "string option"
  es_dialogType :: "string option"
  es_dialogRenderer :: "string option"

definition or_default :: "'a option \<Rightarrow> 'a \<Rightarrow> 'a" where
  "or_default v d = (case v of None \<Rightarrow> d | Some x \<Rightarrow> x)"

definition truthy_string :: "string option \<Rightarrow> bool" where
  "truthy_string v \<longleftrightarrow> v \<noteq> None \<and> v \<noteq> Some []"

text \<open>
  What the constructor reads from the element: its form, whether it is a link, its \<open>href\<close>, and the
  \<open>action\<close> of the form.
\<close>

record element_info =
  ei_form :: "element option"
  ei_is_link :: bool
  ei_href :: "string option"
  ei_action :: "string option"

definition wrapper_format :: "element_settings \<Rightarrow> string" where
  "wrapper_format es =
     (let w = ''drupal_'' @ (if truthy_string (es_dialogType es) then the (es_dialogType es) else ''ajax'')
      in if truthy_string (es_dialogRenderer es) then w @ ''.'' @ the (es_dialogRenderer es) else w)"

definition request_url :: "element_settings \<Rightarrow> string \<Rightarrow> string" where
  "request_url es u =
     u @ (if \<not> sublist ''?'' u then ''?'' else ''&'') @ ''_wrapper_format='' @ wrapper_format es"

definition given_url :: "element_settings \<Rightarrow> element_info \<Rightarrow> string option" where
  "given_url es info =
     (if truthy_string (es_url es) then es_url es
      else if ei_is_link info then ei_href info
      else if es_element es \<noteq> None \<and> ei_form info \<noteq> None then ei_action info
      else es_url es)"

definition default_progress :: "progress option" where
  "default_progress = Some \<lparr>pg_type = Some ''throbber'', pg_element = False, pg_object = False, pg_url = None\<rparr>"

text \<open>
  \<open>new Drupal.Ajax\<close>. The events are bound from the settings as given (\<open>elementSettings.event\<close> and
  \<open>elementSettings.keypress\<close>), so these two fields have no default. Without any address the
  constructor throws.
\<close>

definition new_Ajax :: "element_settings \<Rightarrow> element_info \<Rightarrow> ajax_page \<Rightarrow> (js_error + Ajax) \<times> ajax_page" where
  "new_Ajax es info p =
     (case given_url es info of
        None \<Rightarrow> (Inl TypeError, p)
      | Some originalUrl \<Rightarrow>
          (let u = replace_nojs originalUrl;
               p1 = (if trusted_url p originalUrl then p\<lparr>xp_trusted := js_put u True (xp_trusted p)\<rparr> else p);
               submit = or_default (es_submit es) [(''js'', ''true'')];
               data = (if truthy_string (es_dialog es) then js_put ''dialogOptions'' (the (es_dialog es)) submit else submit)
           in (Inr \<lparr>aj_element = es_element es, aj_form = (if es_element es \<noteq> None then ei_form info else None),
                    aj_event = es_event es, aj_keypress = (es_keypress es = Some True),
                    aj_selector = (if es_selector es \<noteq> None then es_selector es
                       else if truthy_string (es_base es) then Some (''#'' @ the (es_base es)) else None),
                    aj_effect = or_default (es_effect es) ''none'', aj_speed = or_default (es_speed es) ''none'',
                    aj_method = or_default (es_method es) ''replaceWith'',
                    aj_progress = or_default (es_progress es) default_progress,
                    aj_wrapper = (if truthy_string (es_wrapper es) then Some (''#'' @ the (es_wrapper es)) else es_wrapper es),
                    aj_setClick = es_setClick es, aj_url = u, aj_options_url = request_url es u, aj_options_data = data,
                    aj_commands = [], aj_settings = None, aj_ajaxing = False,
                    aj_instanceIndex = 0, aj_pending = 0\<rparr>, p1)))"

text \<open>\<open>Drupal.ajax(settings)\<close>: without an element no progress is shown unless asked for.\<close>

definition Drupal_ajax :: "element_settings \<Rightarrow> element_info \<Rightarrow> ajax_page \<Rightarrow> ajax_result" where
  "Drupal_ajax es info p =
     (let es1 = (if (case es_progress es of Some (Some _) \<Rightarrow> False | _ \<Rightarrow> True) \<and> es_element es = None
                 then es\<lparr>es_progress := Some None\<rparr> else es)
      in case new_Ajax es1 info p of
           (Inl e, p1) \<Rightarrow> (p1, Some e)
         | (Inr a, p1) \<Rightarrow>
             (p1\<lparr>xp_heap := xp_heap p1 @ [a\<lparr>aj_instanceIndex := length (xp_instances p1)\<rparr>],
                 xp_instances := xp_instances p1 @ [Some (length (xp_heap p1))]\<rparr>, None))"

definition is_expired :: "ajax_env \<Rightarrow> ajax_page \<Rightarrow> Ajax \<Rightarrow> bool" where
  "is_expired env p a \<longleftrightarrow> (case aj_element a of None \<Rightarrow> False | Some x \<Rightarrow> \<not> ev_contains env (xp_history p) x)"

definition expired :: "ajax_env \<Rightarrow> ajax_page \<Rightarrow> Ajax list" where
  "expired env p = filter (is_expired env p) (map (\<lambda>i. obj p i) (List.map_filter id (xp_instances p)))"

text \<open>\<open>Drupal.behaviors.AJAX.detach\<close>\<close>

definition AJAX_detach :: "ajax_env \<Rightarrow> string \<Rightarrow> ajax_page \<Rightarrow> ajax_page" where
  "AJAX_detach env trigger p =
     (if trigger = ''unload''
      then fold (\<lambda>a q. q\<lparr>xp_instances := (xp_instances q)[aj_instanceIndex a := None]\<rparr>) (expired env p) p
      else p)"

section \<open>Starting a request\<close>

text \<open>
  \<open>beforeSerialize(element, options)\<close> writes to the data of the options it is given: those of the
  object, or the copy that \<open>ajaxSubmit\<close> made of them.
\<close>

definition beforeSerialize ::
    "ajax_env \<Rightarrow> nat \<Rightarrow> string jsobj \<Rightarrow> ajax_page \<Rightarrow> string jsobj \<times> js_error option \<times> ajax_page" where
  "beforeSerialize env i data p =
     (let p1 = (case aj_form (obj p i) of
                  None \<Rightarrow> p
                | Some form \<Rightarrow>
                    if ev_contains env (xp_history p) form
                    then act (Detach_behaviors (Some form) (aj_settings (obj p i)) ''serialize'') p else p);
          data1 = js_put ''_drupal_ajax'' ''1'' data
      in case xp_pageState p1 of
           None \<Rightarrow> (data1, Some TypeError, p1)
         | Some st \<Rightarrow>
             (js_put ''ajax_page_state[libraries]'' (ps_libraries st)
                (js_put ''ajax_page_state[theme_token]'' (ps_theme_token st)
                  (js_put ''ajax_page_state[theme]'' (ps_theme st) data1)), None, p1))"

text \<open>\<open>setProgressIndicator\<close> followed by the capitalised type; an unknown type shows nothing.\<close>

definition ascii_upper :: "char \<Rightarrow> char" where
  "ascii_upper c = (let n = of_char c :: nat in if 97 \<le> n \<and> n \<le> 122 then char_of (n - 32) else c)"

definition ascii_lower :: "char \<Rightarrow> char" where
  "ascii_lower c = (let n = of_char c :: nat in if 65 \<le> n \<and> n \<le> 90 then char_of (n + 32) else c)"

definition indicator_name :: "string \<Rightarrow> string" where
  "indicator_name t = map ascii_upper (take 1 t) @ map ascii_lower (drop 1 t)"

definition show_progress :: "nat \<Rightarrow> progress \<Rightarrow> string \<Rightarrow> ajax_page \<Rightarrow> ajax_page" where
  "show_progress i pg kind p =
     act (Show_progress kind)
       (upd_obj i (\<lambda>a. a\<lparr>aj_progress := Some (pg\<lparr>pg_element := True, pg_object := (pg_object pg \<or> kind = ''Bar'')\<rparr>)\<rparr>) p)"

text \<open>
  \<open>beforeSend\<close>: the options it is given are a copy too; \<open>extraData\<close> is what it adds for a submission
  through a hidden frame.
\<close>

definition extra_data :: "ajax_env \<Rightarrow> Ajax \<Rightarrow> string jsobj option" where
  "extra_data env a =
     (if aj_form a = None then None
      else (let extra = [(''ajax_iframe_upload'', ''1'')] in
            case aj_element a of
              None \<Rightarrow> Some extra
            | Some x \<Rightarrow>
                (case ev_fieldValue env x of None \<Rightarrow> Some extra | Some v \<Rightarrow> Some (js_put (ev_name env x) v extra))))"

definition beforeSend :: "nat \<Rightarrow> ajax_page \<Rightarrow> ajax_page" where
  "beforeSend i p =
     (let p1 = (case aj_element (obj p i) of None \<Rightarrow> p | Some x \<Rightarrow> act (Set_disabled x True) p)
      in case aj_progress (obj p i) of
           None \<Rightarrow> p1
         | Some pg \<Rightarrow>
             if \<not> truthy_string (pg_type pg) then p1
             else (let kind = indicator_name (the (pg_type pg))
                   in if kind \<in> {''Bar'', ''Throbber'', ''Fullscreen''} then show_progress i pg kind p1 else p1))"

section \<open>Errors\<close>

record xhr =
  xh_status :: int
  xh_statusText :: "string option"
  xh_responseText :: "string option"
  xh_readyState :: int
  xh_token :: "string option"

text \<open>\<open>trim()\<close> and the two replacements that make a response readable.\<close>

definition is_space :: "char \<Rightarrow> bool" where
  "is_space c \<longleftrightarrow> of_char c \<in> {9, 10, 11, 12, 13, 32, 160 :: nat}"

definition js_trim :: "string \<Rightarrow> string" where
  "js_trim s = rev (dropWhile is_space (rev (dropWhile is_space s)))"

lemma length_dropWhile_Cons: "dropWhile P s = x # xs \<Longrightarrow> length xs < length s"
  by (metis length_Cons length_dropWhile_le Suc_le_lessD)

text \<open>
  The rest after a match of \<open><("[^"]*"|'[^']*'|[^'">])*>\<close> whose opening \<open><\<close> has been read: quoted parts
  are skipped, an unclosed quote makes the match fail.
\<close>

function tag_rest :: "string \<Rightarrow> string option" where
  "tag_rest [] = None"
| "tag_rest (c # s) =
     (if c = CHR ''>'' then Some s
      else if c = CHR 0x22 \<or> c = CHR 0x27
      then (case dropWhile (\<lambda>x. x \<noteq> c) s of [] \<Rightarrow> None | _ # rest \<Rightarrow> tag_rest rest)
      else tag_rest s)"
  by pat_completeness auto

termination
  by (relation "measure length") (auto dest: length_dropWhile_Cons simp: less_Suc_eq)

lemma tag_rest_shorter: "tag_rest s = Some r \<Longrightarrow> length r < length s"
proof (induction s rule: tag_rest.induct)
  case (2 c s)
  then show ?case
    by (auto split: if_splits list.splits dest!: length_dropWhile_Cons)
qed simp

function strip_tags :: "string \<Rightarrow> string" where
  "strip_tags [] = []"
| "strip_tags (c # s) =
     (case (if c = CHR ''<'' then tag_rest s else None) of
        Some rest \<Rightarrow> strip_tags rest
      | None \<Rightarrow> c # strip_tags s)"
  by pat_completeness auto

termination
  by (relation "measure length") (auto dest: tag_rest_shorter split: if_splits)

text \<open>\<open>replace(/[\n]+\s+/g, '\n')\<close>: line feeds followed by at least one more space character.\<close>

function squeeze_lines :: "string \<Rightarrow> string" where
  "squeeze_lines [] = []"
| "squeeze_lines (c # s) =
     (if c = CHR 0x0A \<and> s \<noteq> [] \<and> is_space (hd s) then CHR 0x0A # squeeze_lines (dropWhile is_space s)
      else c # squeeze_lines s)"
  by pat_completeness auto

termination
  by (relation "measure length") (auto simp: le_imp_less_Suc length_dropWhile_le)

definition t_text :: "ajax_env \<Rightarrow> string \<Rightarrow> jsval jsobj option \<Rightarrow> string js" where
  "t_text env str args = map_sum id (\<lambda>m. CHR 0x0A # m) (drupal_t (ev_themes env) (ev_translations env) str args None)"

text \<open>The \<open>try\<close> blocks: without the text, or when formatting it throws, the part is empty.\<close>

definition try_text :: "ajax_env \<Rightarrow> string \<Rightarrow> string \<Rightarrow> string option \<Rightarrow> string" where
  "try_text env str key v =
     (case v of
        None \<Rightarrow> []
      | Some x \<Rightarrow> (case t_text env str (Some [(key, VStr (js_trim x))]) of Inl _ \<Rightarrow> [] | Inr m \<Rightarrow> m))"

definition js_bind :: "'a js \<Rightarrow> ('a \<Rightarrow> 'b js) \<Rightarrow> 'b js" where
  "js_bind m f = (case m of Inl e \<Rightarrow> Inl e | Inr x \<Rightarrow> f x)"

definition status_text :: "ajax_env \<Rightarrow> xhr \<Rightarrow> string js" where
  "status_text env x =
     js_bind
       (if xh_status x \<noteq> 0
        then js_bind (t_text env ''An AJAX HTTP error occurred.'' None) (\<lambda>a.
          js_bind (t_text env ''HTTP Result Code: !status'' (Some [(''!status'', VNum (xh_status x))])) (\<lambda>b. Inr (a @ b)))
        else t_text env ''An AJAX HTTP request terminated abnormally.'' None)
       (\<lambda>a. js_bind (t_text env ''Debugging information follows.'' None) (\<lambda>b. Inr (a @ b)))"

definition AjaxError_message :: "ajax_env \<Rightarrow> xhr \<Rightarrow> string \<Rightarrow> string option \<Rightarrow> string js" where
  "AjaxError_message env x uri customMessage =
     js_bind (status_text env x) (\<lambda>statusCode.
     js_bind (t_text env ''Path: !uri'' (Some [(''!uri'', VStr uri)])) (\<lambda>pathText.
     let statusText = try_text env ''StatusText: !statusText'' ''!statusText'' (xh_statusText x);
         responseText = squeeze_lines (strip_tags (try_text env ''ResponseText: !responseText'' ''!responseText'' (xh_responseText x)))
     in js_bind (if xh_status x = 0
          then t_text env ''ReadyState: !readyState'' (Some [(''!readyState'', VNum (xh_readyState x))]) else Inr []) (\<lambda>readyStateText.
        js_bind (if truthy_string customMessage
          then t_text env ''CustomMessage: !customMessage'' (Some [(''!customMessage'', VStr (the customMessage))]) else Inr []) (\<lambda>custom.
        Inr (statusCode @ pathText @ statusText @ custom @ responseText @ readyStateText)))))"

definition AjaxError :: "ajax_env \<Rightarrow> xhr \<Rightarrow> string \<Rightarrow> string option \<Rightarrow> js_error" where
  "AjaxError env x uri customMessage =
     (case AjaxError_message env x uri customMessage of Inl e \<Rightarrow> e | Inr m \<Rightarrow> Thrown m)"

text \<open>What \<open>success\<close> and \<open>error\<close> share: the indicator is removed and the element enabled.\<close>

definition remove_progress :: "nat \<Rightarrow> ajax_page \<Rightarrow> ajax_page" where
  "remove_progress i p =
     (case aj_progress (obj p i) of
        None \<Rightarrow> p
      | Some pg \<Rightarrow>
          (let p1 = (if pg_element pg then act Remove_progress p else p)
           in if pg_object pg then act Stop_monitoring p1 else p1))"

definition enable_element :: "nat \<Rightarrow> ajax_page \<Rightarrow> ajax_page" where
  "enable_element i p = (case aj_element (obj p i) of None \<Rightarrow> p | Some x \<Rightarrow> act (Set_disabled x False) p)"

definition reattach_form :: "ajax_env \<Rightarrow> nat \<Rightarrow> ajax_page \<Rightarrow> ajax_page" where
  "reattach_form env i p =
     (case aj_form (obj p i) of
        None \<Rightarrow> p
      | Some form \<Rightarrow>
          if ev_contains env (xp_history p) form
          then act (Attach_behaviors (Some form) (aj_settings (obj p i))) p else p)"

definition ajax_error :: "ajax_env \<Rightarrow> nat \<Rightarrow> xhr \<Rightarrow> string option \<Rightarrow> ajax_page \<Rightarrow> ajax_result" where
  "ajax_error env i x customMessage p =
     (let p1 = remove_progress i p;
          p2 = (case aj_wrapper (obj p i) of None \<Rightarrow> p1 | Some w \<Rightarrow> act (Show_wrapper w) p1);
          p3 = reattach_form env i (enable_element i p2)
      in (p3, Some (AjaxError env x (aj_url (obj p i)) customMessage)))"

end
