(* ===== verification/Ajax_Request.thy ===== *)
theory Ajax_Request
  imports Ajax
begin

text \<open>
  The life of a request of the Ajax framework: the commands of a response (\<open>Drupal.AjaxCommands\<close>), the
  callbacks that jQuery runs while the request is under way, the events that start one, and the
  order in which \<open>jQuery.ajax\<close> runs the callbacks. jQuery runs success callbacks without catching what
  they throw, so that an error thrown there keeps the completion callback from running.
\<close>

section \<open>Commands\<close>

record command =
  cm_command :: "string option"
  cm_method :: "string option"
  cm_selector :: "string option"
  cm_data :: string
  cm_settings :: "settings_value option"
  cm_effect :: "string option"
  cm_speed :: "string option"
  cm_merge :: bool
  cm_old :: string
  cm_new :: string

record effect =
  ef_showEffect :: string
  ef_hideEffect :: string
  ef_showSpeed :: string

definition js_or_string :: "string option \<Rightarrow> string \<Rightarrow> string" where
  "js_or_string v d = (if truthy_string v then the v else d)"

definition getEffect :: "command \<Rightarrow> Ajax \<Rightarrow> effect" where
  "getEffect cm a =
     (let kind = js_or_string (cm_effect cm) (aj_effect a);
          speed = js_or_string (cm_speed cm) (aj_speed a)
      in if kind = ''none'' then \<lparr>ef_showEffect = ''show'', ef_hideEffect = ''hide'', ef_showSpeed = []\<rparr>
         else if kind = ''fade'' then \<lparr>ef_showEffect = ''fadeIn'', ef_hideEffect = ''fadeOut'', ef_showSpeed = speed\<rparr>
         else \<lparr>ef_showEffect = kind @ ''Toggle'', ef_hideEffect = kind @ ''Toggle'', ef_showSpeed = speed\<rparr>)"

text \<open>\<open>response.settings || ajax.settings || drupalSettings\<close>\<close>

definition used_settings :: "command \<Rightarrow> Ajax \<Rightarrow> settings_value option" where
  "used_settings cm a = (if cm_settings cm \<noteq> None then cm_settings cm else aj_settings a)"

text \<open>\<open>Drupal.theme('ajaxWrapperNewContent')\<close>: several roots that are shown with an effect get a wrapper.\<close>

definition visible_root :: "root_kind \<Rightarrow> bool" where
  "visible_root r \<longleftrightarrow> r \<noteq> Comment_root \<and> r \<noteq> Blank_text_root"

definition wraps_content :: "ajax_env \<Rightarrow> command \<Rightarrow> Ajax \<Rightarrow> bool" where
  "wraps_content env cm a \<longleftrightarrow>
     js_or_string (cm_effect cm) (aj_effect a) \<noteq> ''none'' \<and> 1 < length (filter visible_root (ev_roots env (cm_data cm)))"

definition element_roots :: "ajax_env \<Rightarrow> command \<Rightarrow> Ajax \<Rightarrow> nat" where
  "element_roots env cm a =
     (if wraps_content env cm a then 1 else length (filter (\<lambda>r. r = Element_root) (ev_roots env (cm_data cm))))"

definition replacing_method :: "string \<Rightarrow> bool" where
  "replacing_method m \<longleftrightarrow> m \<in> {''html'', ''replaceWith'', ''replaceAll'', ''empty'', ''remove''}"

definition first_element :: "element list \<Rightarrow> element option" where
  "first_element xs = (case xs of [] \<Rightarrow> None | x # _ \<Rightarrow> Some x)"

text \<open>
  The insert command. \<open>detachBehaviors($wrapper.get(0), settings)\<close> of an empty wrapper passes
  \<open>undefined\<close>, which stands for the whole document.
\<close>

definition insert_wrapper :: "command \<Rightarrow> Ajax \<Rightarrow> string option" where
  "insert_wrapper cm a = (if truthy_string (cm_selector cm) then cm_selector cm else aj_wrapper a)"

definition insert_detach :: "ajax_env \<Rightarrow> command \<Rightarrow> Ajax \<Rightarrow> ajax_page \<Rightarrow> ajax_page" where
  "insert_detach env cm a p =
     (let elems = (case insert_wrapper cm a of None \<Rightarrow> [] | Some w \<Rightarrow> ev_select env (xp_history p) w)
      in if replacing_method (js_or_string (cm_method cm) (aj_method a))
         then act (Detach_behaviors (first_element elems) (used_settings cm a) ''unload'') p else p)"

definition insert_effects :: "ajax_env \<Rightarrow> command \<Rightarrow> effect \<Rightarrow> ajax_page \<Rightarrow> ajax_result" where
  "insert_effects env cm ef p =
     (let p1 = (if ef_showEffect ef \<noteq> ''show'' then act (Content_effect ''hide'' []) p else p)
      in if ev_new_content env (cm_data cm)
         then (let p2 = act (Content_effect ''show'' []) (act (Content_effect ''hide .ajax-new-content'' []) p1)
               in if ev_has_method env (ef_showEffect ef)
                  then (act (Content_effect (ef_showEffect ef) (ef_showSpeed ef)) p2, None) else (p2, Some TypeError))
         else if ef_showEffect ef \<noteq> ''show''
         then (if ev_has_method env (ef_showEffect ef)
               then (act (Content_effect (ef_showEffect ef) (ef_showSpeed ef)) p1, None) else (p1, Some TypeError))
         else (p1, None))"

definition command_insert :: "ajax_env \<Rightarrow> nat \<Rightarrow> command \<Rightarrow> ajax_page \<Rightarrow> ajax_result" where
  "command_insert env i cm p =
     (let a = obj p i;
          meth = js_or_string (cm_method cm) (aj_method a);
          content = (if wraps_content env cm a then ''<div>'' @ cm_data cm @ ''</div>'' else cm_data cm);
          p1 = insert_detach env cm a p
      in if \<not> ev_has_method env meth then (p1, Some TypeError)
         else (let p2 = act (Insert_content (or_default (insert_wrapper cm a) []) meth content) p1
               in case insert_effects env cm (getEffect cm a) p2 of
                    (p3, Some e) \<Rightarrow> (p3, Some e)
                  | (p3, None) \<Rightarrow>
                      (if ev_content_in_page env (xp_history p3)
                       then (act (Attach_content (used_settings cm a)) ^^ element_roots env cm a) p3 else p3, None)))"

definition command_remove :: "ajax_env \<Rightarrow> nat \<Rightarrow> command \<Rightarrow> ajax_page \<Rightarrow> ajax_page" where
  "command_remove env i cm p =
     (let sel = or_default (cm_selector cm) [];
          p1 = fold (\<lambda>x. act (Detach_behaviors (Some x) (used_settings cm (obj p i)) ''unload''))
                 (ev_select env (xp_history p) sel) p
      in act (Jquery_call sel ''remove'' []) p1)"

text \<open>
  The settings command drops the settings of expired objects (the selector without its first \<open>#\<close> is the
  key) and merges the new settings or keeps them for the rest of the response.
\<close>

fun drop_hash :: "string \<Rightarrow> string" where
  "drop_hash [] = []"
| "drop_hash (c # s) = (if c = CHR ''#'' then s else c # drop_hash s)"

definition clean_settings :: "ajax_env \<Rightarrow> ajax_page \<Rightarrow> ajax_page" where
  "clean_settings env p =
     (case xp_ajaxSettings p of
        None \<Rightarrow> p
      | Some st \<Rightarrow>
          p\<lparr>xp_ajaxSettings := Some (fold (\<lambda>a st. if truthy_string (aj_selector a) then js_del (drop_hash (the (aj_selector a))) st else st)
             (expired env p) st)\<rparr>)"

definition merge_settings :: "settings_value \<Rightarrow> ajax_page \<Rightarrow> ajax_page" where
  "merge_settings v p =
     act (Merge_settings v)
       (p\<lparr>xp_ajaxSettings := (case sv_ajax v of
              None \<Rightarrow> xp_ajaxSettings p
            | Some new \<Rightarrow> Some (fold (\<lambda>(k, x). js_put k x) new (or_default (xp_ajaxSettings p) []))),
          xp_trusted := fold (\<lambda>(k, x). js_put k x) (sv_trusted v) (xp_trusted p),
          xp_pageState := (case sv_pageState v of None \<Rightarrow> xp_pageState p | Some st \<Rightarrow> Some st)\<rparr>)"

definition command_settings :: "ajax_env \<Rightarrow> nat \<Rightarrow> command \<Rightarrow> ajax_page \<Rightarrow> ajax_page" where
  "command_settings env i cm p =
     (let p1 = clean_settings env p
      in if cm_merge cm then (case cm_settings cm of None \<Rightarrow> p1 | Some v \<Rightarrow> merge_settings v p1)
         else upd_obj i (\<lambda>a. a\<lparr>aj_settings := cm_settings cm\<rparr>) p1)"

text \<open>
  The last fallback of \<open>focusFirst\<close> focuses \<open>ajax.element\<close>: every object has that property, with the value
  \<open>false\<close> when it was made without an element, and then the call throws.
\<close>

definition command_focusFirst :: "ajax_env \<Rightarrow> nat \<Rightarrow> command \<Rightarrow> ajax_page \<Rightarrow> ajax_result" where
  "command_focusFirst env i cm p =
     (let h = xp_history p;
          target = (case ev_select env h (or_default (cm_selector cm) []) of
                      [] \<Rightarrow> None
                    | c # _ \<Rightarrow>
                        (case ev_tabbable env h c of
                           x # _ \<Rightarrow> Some x
                         | [] \<Rightarrow> if ev_isFocusable env h c then Some c else None))
      in case target of
           Some x \<Rightarrow> (act (Set_focus x) p, None)
         | None \<Rightarrow> (case aj_element (obj p i) of Some x \<Rightarrow> (act (Set_focus x) p, None) | None \<Rightarrow> (p, Some TypeError)))"

definition command_invoke :: "ajax_env \<Rightarrow> command \<Rightarrow> ajax_page \<Rightarrow> ajax_result" where
  "command_invoke env cm p =
     (let m = or_default (cm_method cm) ''undefined''
      in if ev_has_method env m then (act (Jquery_call (or_default (cm_selector cm) []) m (cm_data cm)) p, None)
         else (p, Some TypeError))"

fun stripe :: "bool \<Rightarrow> element list \<Rightarrow> (element \<times> string) list" where
  "stripe at_even [] = []"
| "stripe at_even (x # xs) = (x, if at_even then ''odd'' else ''even'') # stripe (\<not> at_even) xs"

definition command_restripe :: "ajax_env \<Rightarrow> command \<Rightarrow> ajax_page \<Rightarrow> ajax_page" where
  "command_restripe env cm p =
     act (Restripe (stripe True (ev_select env (xp_history p)
       (or_default (cm_selector cm) [] @ '' > tbody > tr:visible, > tr:visible'')))) p"

text \<open>
  The commands that only call one function of the document. (Names inherited from \<open>Object.prototype\<close>,
  whose functions change nothing, are left out.)
\<close>

definition simple_commands :: "string list" where
  "simple_commands = [''changed'', ''announce'', ''css'', ''data'', ''add_css'', ''message'']"

definition run_command :: "ajax_env \<Rightarrow> nat \<Rightarrow> string \<Rightarrow> command \<Rightarrow> ajax_page \<Rightarrow> ajax_result" where
  "run_command env i name cm p =
     (if name \<in> set (aj_commands (obj p i))
      then (act (Dom_command name (cm_data cm)) p, if ev_custom_throws env name then Some (Thrown name) else None)
      else if name = ''insert'' then command_insert env i cm p
      else if name = ''remove'' then (command_remove env i cm p, None)
      else if name = ''settings'' then (command_settings env i cm p, None)
      else if name = ''focusFirst'' then command_focusFirst env i cm p
      else if name = ''invoke'' then command_invoke env cm p
      else if name = ''alert'' then (act (Window_alert (cm_data cm)) p, None)
      else if name = ''redirect'' then (act (Redirect (cm_data cm)) p, None)
      else if name = ''update_build_id'' then (act (Set_build_id (cm_old cm) (cm_new cm)) p, None)
      else if name = ''restripe'' then (command_restripe env cm p, None)
      else (act (Dom_command name (cm_data cm)) p, None))"

definition command_names :: "string list" where
  "command_names = simple_commands @
     [''insert'', ''remove'', ''settings'', ''focusFirst'', ''invoke'', ''alert'', ''redirect'', ''update_build_id'', ''restripe'']"

definition has_command :: "Ajax \<Rightarrow> string \<Rightarrow> bool" where
  "has_command a name \<longleftrightarrow> name \<in> set (aj_commands a) \<or> name \<in> set command_names"

text \<open>
  The loop over the response: an entry without a known command is skipped; it tells whether a command
  moved the focus, or stops with the error of a command.
\<close>

definition moves_focus :: "command \<Rightarrow> bool" where
  "moves_focus cm \<longleftrightarrow>
     cm_command cm = Some ''invoke'' \<and> cm_method cm = Some ''focus'' \<or> cm_command cm = Some ''focusFirst''"

fun run_commands :: "ajax_env \<Rightarrow> nat \<Rightarrow> command list \<Rightarrow> bool \<Rightarrow> ajax_page \<Rightarrow> ajax_page \<times> (js_error + bool)" where
  "run_commands env i [] focusChanged p = (p, Inr focusChanged)"
| "run_commands env i (cm # cms) focusChanged p =
     (if truthy_string (cm_command cm) \<and> has_command (obj p i) (the (cm_command cm))
      then (case run_command env i (the (cm_command cm)) cm p of
              (p1, Some e) \<Rightarrow> (p1, Inl e)
            | (p1, None) \<Rightarrow> run_commands env i cms (focusChanged \<or> moves_focus cm) p1)
      else run_commands env i cms focusChanged p)"

section \<open>The callbacks\<close>

text \<open>\<open>success(response, status)\<close> with the list of commands of the response.\<close>

fun refocus_target :: "ajax_env \<Rightarrow> action list \<Rightarrow> string list \<Rightarrow> element option" where
  "refocus_target env h [] = None"
| "refocus_target env h (sel # sels) =
     (case ev_select env h (''[data-drupal-selector=\"'' @ sel @ ''\"]'') of
        x # _ \<Rightarrow> Some x
      | [] \<Rightarrow> refocus_target env h sels)"

definition refocus :: "ajax_env \<Rightarrow> element option \<Rightarrow> string list \<Rightarrow> ajax_page \<Rightarrow> ajax_page" where
  "refocus env element elementParents p =
     (case element of
        None \<Rightarrow> p
      | Some x \<Rightarrow>
          if ev_disable_refocus env x then p
          else (case refocus_target env (xp_history p) (rev elementParents) of
                  None \<Rightarrow> p
                | Some y \<Rightarrow> act (Set_focus y) p))"

definition ajax_success :: "ajax_env \<Rightarrow> nat \<Rightarrow> command list \<Rightarrow> ajax_page \<Rightarrow> ajax_result" where
  "ajax_success env i response p =
     (let p1 = enable_element i (remove_progress i p);
          elementParents = (case aj_element (obj p i) of None \<Rightarrow> [] | Some x \<Rightarrow> ev_parents env (xp_history p1) x)
      in case run_commands env i response False p1 of
           (p2, Inl e) \<Rightarrow> (p2, Some e)
         | (p2, Inr focusChanged) \<Rightarrow>
             (let p3 = (if focusChanged then p2 else refocus env (aj_element (obj p i)) elementParents p2)
              in (upd_obj i (\<lambda>a. a\<lparr>aj_settings := None\<rparr>) (reattach_form env i p3), None)))"

text \<open>
  The response as the \<open>success\<close> option gets it: nothing (\<open>undefined\<close>, a status without content), \<open>null\<close>,
  commands, or a string that is still to be parsed.
\<close>

datatype response = No_content | Null_response | Commands "command list" | Unparsed "command list option option"

definition parse_response :: "response \<Rightarrow> js_error + response" where
  "parse_response r =
     (case r of
        Unparsed None \<Rightarrow> Inl SyntaxError
      | Unparsed (Some None) \<Rightarrow> Inr Null_response
      | Unparsed (Some (Some cms)) \<Rightarrow> Inr (Commands cms)
      | _ \<Rightarrow> Inr r)"

definition response_commands :: "response \<Rightarrow> command list" where
  "response_commands r = (case r of Commands cms \<Rightarrow> cms | _ \<Rightarrow> [])"

definition verification_message :: "ajax_env \<Rightarrow> string js" where
  "verification_message env = drupal_t (ev_themes env) (ev_translations env)
     ''The response failed verification so will not be processed.'' None None"

definition options_success :: "ajax_env \<Rightarrow> nat \<Rightarrow> response \<Rightarrow> xhr \<Rightarrow> ajax_page \<Rightarrow> ajax_result" where
  "options_success env i r x p =
     (case parse_response r of
        Inl e \<Rightarrow> (p, Some e)
      | Inr r1 \<Rightarrow>
          if r1 \<noteq> Null_response \<and> \<not> trusted_url p (aj_url (obj p i)) \<and> xh_token x \<noteq> Some ''1''
          then (case verification_message env of
                  Inl e \<Rightarrow> (p, Some e)
                | Inr customMessage \<Rightarrow> ajax_error env i x (Some customMessage) p)
          else ajax_success env i (response_commands r1) p)"

definition options_complete :: "ajax_env \<Rightarrow> nat \<Rightarrow> string \<Rightarrow> xhr \<Rightarrow> ajax_page \<Rightarrow> ajax_result" where
  "options_complete env i status x p =
     (let p1 = upd_obj i (\<lambda>a. a\<lparr>aj_ajaxing := False\<rparr>) p
      in if status = ''error'' \<or> status = ''parsererror'' then ajax_error env i x None p1 else (p1, None))"

section \<open>jQuery\<close>

text \<open>
  The end of a request in \<open>jQuery.ajax\<close>: the success callback, then the completion callback; an error
  thrown by the first passes through.
\<close>

datatype outcome = Succeeded response | Failed string

definition jquery_done :: "ajax_env \<Rightarrow> nat \<Rightarrow> outcome \<Rightarrow> xhr \<Rightarrow> ajax_page \<Rightarrow> ajax_result" where
  "jquery_done env i out x p =
     (let p0 = upd_obj i (\<lambda>a. a\<lparr>aj_pending := aj_pending a - 1\<rparr>) p
      in case out of
           Succeeded r \<Rightarrow>
             (case options_success env i r x p0 of
                (p1, Some e) \<Rightarrow> (p1, Some e)
              | (p1, None) \<Rightarrow> options_complete env i ''success'' x p1)
         | Failed status \<Rightarrow> options_complete env i status x p0)"

text \<open>
  The start: \<open>beforeSend\<close>, then the transport. A transport that throws (\<open>failure\<close>, with the state of
  the request object) ends the request at once with an error.
\<close>

definition jquery_ajax :: "ajax_env \<Rightarrow> nat \<Rightarrow> string jsobj \<Rightarrow> xhr option \<Rightarrow> ajax_page \<Rightarrow> ajax_result" where
  "jquery_ajax env i data failure p =
     (let p1 = beforeSend i (upd_obj i (\<lambda>a. a\<lparr>aj_ajaxing := True\<rparr>) p);
          p2 = upd_obj i (\<lambda>a. a\<lparr>aj_pending := aj_pending a + 1\<rparr>) p1
      in case failure of
           None \<Rightarrow> (act (Send_request (aj_options_url (obj p i)) data (extra_data env (obj p i))) p2, None)
         | Some x \<Rightarrow> jquery_done env i (Failed ''error'') x p2)"

section \<open>Events\<close>

definition err_text :: "js_error \<Rightarrow> string" where
  "err_text e = (case e of Thrown m \<Rightarrow> m | _ \<Rightarrow> [])"

text \<open>The \<open>catch\<close> blocks of \<open>execute\<close> and \<open>eventResponse\<close>.\<close>

definition caught :: "nat \<Rightarrow> ajax_result \<Rightarrow> ajax_page" where
  "caught i r =
     (case r of
        (p, None) \<Rightarrow> p
      | (p, Some e) \<Rightarrow>
          act (Window_alert (''An error occurred while attempting to process '' @ aj_options_url (obj p i) @ '': '' @ err_text e))
            (upd_obj i (\<lambda>a. a\<lparr>aj_ajaxing := False\<rparr>) p))"

definition send_plain :: "ajax_env \<Rightarrow> nat \<Rightarrow> xhr option \<Rightarrow> ajax_page \<Rightarrow> ajax_result" where
  "send_plain env i failure p =
     (case beforeSerialize env i (aj_options_data (obj p i)) p of
        (data, err, p1) \<Rightarrow>
          (let p2 = upd_obj i (\<lambda>a. a\<lparr>aj_options_data := data\<rparr>) p1
           in case err of Some e \<Rightarrow> (p2, Some e) | None \<Rightarrow> jquery_ajax env i data failure p2))"

text \<open>
  \<open>$form.ajaxSubmit(options)\<close> of the form plugin works on a copy of the options. The plugin adds the
  fields of the form to the data.
\<close>

definition send_form :: "ajax_env \<Rightarrow> nat \<Rightarrow> xhr option \<Rightarrow> ajax_page \<Rightarrow> ajax_result" where
  "send_form env i failure p =
     (let p0 = (case aj_element (obj p i) of Some x \<Rightarrow> if aj_setClick (obj p i) then act (Set_clicked x) p else p | None \<Rightarrow> p)
      in case beforeSerialize env i (aj_options_data (obj p i)) p0 of
           (data, Some e, p1) \<Rightarrow> (p1, Some e)
         | (data, None, p1) \<Rightarrow> jquery_ajax env i data failure (upd_obj i (\<lambda>a. a\<lparr>aj_ajaxing := True\<rparr>) p1))"

definition ajax_execute :: "ajax_env \<Rightarrow> nat \<Rightarrow> xhr option \<Rightarrow> ajax_page \<Rightarrow> ajax_page" where
  "ajax_execute env i failure p = (if aj_ajaxing (obj p i) then p else caught i (send_plain env i failure p))"

definition eventResponse :: "ajax_env \<Rightarrow> nat \<Rightarrow> xhr option \<Rightarrow> ajax_page \<Rightarrow> ajax_page" where
  "eventResponse env i failure p =
     (if aj_ajaxing (obj p i) then p
      else caught i (if aj_form (obj p i) \<noteq> None then send_form env i failure p else send_plain env i failure p))"

definition local_url :: "ajax_env \<Rightarrow> string \<Rightarrow> bool" where
  "local_url env u = url_isLocal (ev_decode env) (ev_anchor env) (ev_location env) (ev_paths env) u"

text \<open>The handler bound by the constructor.\<close>

definition ajax_handle_event :: "ajax_env \<Rightarrow> nat \<Rightarrow> xhr option \<Rightarrow> ajax_page \<Rightarrow> ajax_result" where
  "ajax_handle_event env i failure p =
     (let u = aj_url (obj p i)
      in if \<not> trusted_url p u \<and> \<not> local_url env u
         then (p, Some (case drupal_t (ev_themes env) (ev_translations env)
                     ''The callback URL is not local and not trusted: !url'' (Some [(''!url'', VStr u)]) None of
                   Inl e \<Rightarrow> e | Inr m \<Rightarrow> Thrown m))
         else (eventResponse env i failure p, None))"

text \<open>\<open>keypressResponse\<close>: whether the key triggers the event of the object.\<close>

definition key_triggers :: "string \<Rightarrow> int \<Rightarrow> bool" where
  "key_triggers element_type which \<longleftrightarrow>
     which = 13 \<or> which = 32 \<and> element_type \<notin> {''text'', ''textarea'', ''tel'', ''number''}"

definition keypressResponse :: "ajax_env \<Rightarrow> nat \<Rightarrow> string \<Rightarrow> int \<Rightarrow> xhr option \<Rightarrow> ajax_page \<Rightarrow> ajax_result" where
  "keypressResponse env i element_type which failure p =
     (if aj_keypress (obj p i) \<and> key_triggers element_type which \<and> aj_event (obj p i) \<noteq> None
      then ajax_handle_event env i failure p else (p, None))"

end
