(* ===== verification/Ajax_Invariant.thy ===== *)
theory Ajax_Invariant
  imports Ajax_Request
begin

text \<open>
  The bookkeeping of the Ajax framework over whole runs of the page: which fields of which objects an
  operation may change, at most one request under way for an object, and the agreement of
  \<open>Drupal.ajax.instances\<close> with the \<open>instanceIndex\<close> of its objects.
\<close>

section \<open>What an operation leaves alone\<close>

named_theorems page_simps

lemma act_fields [simp, page_simps]:
  "xp_heap (act a p) = xp_heap p" "xp_instances (act a p) = xp_instances p"
  "xp_trusted (act a p) = xp_trusted p" "xp_ajaxSettings (act a p) = xp_ajaxSettings p"
  "xp_pageState (act a p) = xp_pageState p" "xp_history (act a p) = xp_history p @ [a]"
  by (simp_all add: act_def)

lemma upd_obj_fields [simp, page_simps]:
  "length (xp_heap (upd_obj i f p)) = length (xp_heap p)" "xp_instances (upd_obj i f p) = xp_instances p"
  "xp_trusted (upd_obj i f p) = xp_trusted p" "xp_ajaxSettings (upd_obj i f p) = xp_ajaxSettings p"
  "xp_pageState (upd_obj i f p) = xp_pageState p" "xp_history (upd_obj i f p) = xp_history p"
  by (simp_all add: upd_obj_def)

lemma obj_upd_obj [simp]: "i < length (xp_heap p) \<Longrightarrow> obj (upd_obj i f p) j = (if j = i then f (obj p i) else obj p j)"
  by (simp add: upd_obj_def)

text \<open>The fields of an object that change only when a request starts or ends.\<close>

definition core :: "Ajax \<Rightarrow> Ajax" where
  "core a = a\<lparr>aj_settings := None, aj_progress := None, aj_options_data := []\<rparr>"

lemma core_fields [simp]:
  "aj_ajaxing (core a) = aj_ajaxing a" "aj_pending (core a) = aj_pending a" "aj_element (core a) = aj_element a"
  "aj_form (core a) = aj_form a" "aj_commands (core a) = aj_commands a" "aj_method (core a) = aj_method a"
  "aj_effect (core a) = aj_effect a" "aj_instanceIndex (core a) = aj_instanceIndex a" "aj_url (core a) = aj_url a"
  "aj_options_url (core a) = aj_options_url a" "aj_speed (core a) = aj_speed a"
  by (simp_all add: core_def)

lemma core_upd [simp]:
  "core (a\<lparr>aj_settings := s\<rparr>) = core a" "core (a\<lparr>aj_progress := g\<rparr>) = core a"
  "core (a\<lparr>aj_options_data := d\<rparr>) = core a"
  "core (a\<lparr>aj_ajaxing := b\<rparr>) = (core a)\<lparr>aj_ajaxing := b\<rparr>"
  "core (a\<lparr>aj_pending := n\<rparr>) = (core a)\<lparr>aj_pending := n\<rparr>"
  by (simp_all add: core_def)

definition quiet :: "action \<Rightarrow> bool" where
  "quiet a \<longleftrightarrow> (case a of Set_disabled _ _ \<Rightarrow> False | Send_request _ _ _ \<Rightarrow> False | _ \<Rightarrow> True)"

lemma quiet_simps [simp]: "quiet (Set_disabled x b) = False" "quiet (Send_request u d e) = False"
  by (simp_all add: quiet_def)

lemma quiet_others [simp]:
  "quiet (Attach_behaviors c s)" "quiet (Detach_behaviors c s tr)" "quiet (Insert_content w m d)" "quiet (Attach_content s)"
  "quiet (Content_effect e sp)" "quiet (Show_progress k)" "quiet Remove_progress" "quiet Stop_monitoring" "quiet (Show_wrapper w)"
  "quiet (Window_alert m)" "quiet (Set_focus x)" "quiet (Set_clicked x)" "quiet (Jquery_call w m d)" "quiet (Merge_settings v)"
  "quiet (Redirect d)" "quiet (Set_build_id d m)" "quiet (Dom_command m d)" "quiet (Restripe r)"
  by (simp_all add: quiet_def)

definition keeps :: "ajax_page \<Rightarrow> ajax_page \<Rightarrow> bool" where
  "keeps p q \<longleftrightarrow>
     map core (xp_heap q) = map core (xp_heap p) \<and> xp_instances q = xp_instances p \<and>
     (\<exists>acts. xp_history q = xp_history p @ acts \<and> list_all quiet acts)"

lemma keeps_refl [simp, intro!]: "keeps p p"
  by (simp add: keeps_def)

lemma keeps_trans: "keeps p q \<Longrightarrow> keeps q r \<Longrightarrow> keeps p r"
  by (fastforce simp: keeps_def)

lemma keeps_act: "quiet a \<Longrightarrow> keeps p q \<Longrightarrow> keeps p (act a q)"
  by (fastforce simp: keeps_def)

lemma map_core_upd:
  assumes "core (f (xs ! i)) = core (xs ! i)"
  shows "map core (xs[i := f (xs ! i)]) = map core xs"
proof (cases "i < length xs")
  case True
  then have "(map core xs)[i := core (xs ! i)] = map core xs" by (metis list_update_id nth_map)
  then show ?thesis by (simp add: map_update assms)
qed (simp add: list_update_beyond)

lemma keeps_upd:
  assumes "\<And>a. core (f a) = core a" and "keeps p q"
  shows "keeps p (upd_obj i f q)"
proof -
  have "map core (xp_heap (upd_obj i f q)) = map core (xp_heap q)"
    unfolding upd_obj_def using map_core_upd [of f "xp_heap q" i] assms(1) by simp
  with assms(2) show ?thesis by (simp add: keeps_def)
qed

lemma keeps_length: "keeps p q \<Longrightarrow> length (xp_heap q) = length (xp_heap p)"
  unfolding keeps_def by (metis length_map)

lemma keeps_core:
  assumes "keeps p q" and "i < length (xp_heap p)"
  shows "core (obj q i) = core (obj p i)"
proof -
  have "map core (xp_heap q) ! i = map core (xp_heap p) ! i"
    using assms(1) by (simp add: keeps_def)
  then show ?thesis using assms keeps_length [of p q] by simp
qed

lemma core_eqD:
  assumes "core a = core b"
  shows "aj_ajaxing a = aj_ajaxing b"
    "aj_pending a = aj_pending b"
    "aj_element a = aj_element b"
    "aj_commands a = aj_commands b"
    "aj_method a = aj_method b"
    "aj_effect a = aj_effect b"
    "aj_options_url a = aj_options_url b"
    "aj_form a = aj_form b"
    "aj_speed a = aj_speed b"
    "aj_url a = aj_url b"
    "aj_instanceIndex a = aj_instanceIndex b"
proof -
  note e = core_fields [of a, unfolded assms]
  show "aj_ajaxing a = aj_ajaxing b" by (rule trans [OF sym [OF e(1)]]) simp
  show "aj_pending a = aj_pending b" by (rule trans [OF sym [OF e(2)]]) simp
  show "aj_element a = aj_element b" by (rule trans [OF sym [OF e(3)]]) simp
  show "aj_commands a = aj_commands b" by (rule trans [OF sym [OF e(5)]]) simp
  show "aj_method a = aj_method b" by (rule trans [OF sym [OF e(6)]]) simp
  show "aj_effect a = aj_effect b" by (rule trans [OF sym [OF e(7)]]) simp
  show "aj_options_url a = aj_options_url b" by (rule trans [OF sym [OF e(10)]]) simp
  show "aj_form a = aj_form b" by (rule trans [OF sym [OF e(4)]]) simp
  show "aj_speed a = aj_speed b" by (rule trans [OF sym [OF e(11)]]) simp
  show "aj_url a = aj_url b" by (rule trans [OF sym [OF e(9)]]) simp
  show "aj_instanceIndex a = aj_instanceIndex b" by (rule trans [OF sym [OF e(8)]]) simp
qed

lemmas keeps_obj = keeps_core [THEN core_eqD(1)] keeps_core [THEN core_eqD(2)] keeps_core [THEN core_eqD(3)]
  keeps_core [THEN core_eqD(4)] keeps_core [THEN core_eqD(5)] keeps_core [THEN core_eqD(6)]
  keeps_core [THEN core_eqD(7)] keeps_core [THEN core_eqD(8)] keeps_core [THEN core_eqD(9)]

section \<open>Commands and callbacks keep the bookkeeping\<close>

lemma keeps_remove_progress: "keeps p (remove_progress i p)"
  by (auto simp: remove_progress_def Let_def intro!: keeps_act split: option.split)

lemma keeps_reattach_form: "keeps p (reattach_form env i p)"
  by (auto simp: reattach_form_def intro!: keeps_act split: option.split)

lemma keeps_settings_fields:
  "keeps p (q\<lparr>xp_ajaxSettings := s\<rparr>) = keeps p q" "keeps p (q\<lparr>xp_trusted := u\<rparr>) = keeps p q"
  "keeps p (q\<lparr>xp_pageState := st\<rparr>) = keeps p q"
  by (simp_all add: keeps_def)

lemma keeps_fold_act: "(\<And>x. quiet (f x)) \<Longrightarrow> keeps p q \<Longrightarrow> keeps p (fold (\<lambda>x. act (f x)) xs q)"
  by (induction xs arbitrary: q) (auto intro: keeps_act)

lemma keeps_funpow_act: "quiet a \<Longrightarrow> keeps p q \<Longrightarrow> keeps p ((act a ^^ n) q)"
  by (induction n) (auto intro: keeps_act)

lemma keeps_insert_detach: "keeps p q \<Longrightarrow> keeps p (insert_detach env cm a q)"
  by (auto simp: insert_detach_def Let_def intro!: keeps_act)

lemma keeps_insert_effects: "keeps p q \<Longrightarrow> keeps p (fst (insert_effects env cm ef q))"
  by (auto simp: insert_effects_def Let_def intro!: keeps_act)

lemma keeps_if:
  "(b \<Longrightarrow> keeps p (fst x)) \<Longrightarrow> (\<not> b \<Longrightarrow> keeps p (fst y)) \<Longrightarrow> keeps p (fst (if b then x else y))"
  by simp

lemma keeps_result:
  "keeps p (fst r) \<Longrightarrow> (\<And>q. keeps p q \<Longrightarrow> keeps p (g q)) \<Longrightarrow>
   keeps p (fst (case r of (q, Some e) \<Rightarrow> (q, Some e) | (q, None) \<Rightarrow> (g q, None)))"
  by (cases r) (auto split: option.split)

lemma keeps_command_insert: "keeps p q \<Longrightarrow> keeps p (fst (command_insert env i cm q))"
  unfolding command_insert_def Let_def
  by (intro keeps_if keeps_result keeps_insert_effects keeps_act keeps_insert_detach)
    (simp_all add: keeps_insert_detach keeps_funpow_act)

lemma keeps_command_settings: "keeps p q \<Longrightarrow> keeps p (command_settings env i cm q)"
  by (auto simp: command_settings_def clean_settings_def merge_settings_def Let_def keeps_settings_fields
      intro!: keeps_act keeps_upd split: option.split)

lemma keeps_command_focusFirst: "keeps p q \<Longrightarrow> keeps p (fst (command_focusFirst env i cm q))"
  by (auto simp: command_focusFirst_def Let_def intro!: keeps_act split: option.split)

lemma keeps_run_command: "keeps p q \<Longrightarrow> keeps p (fst (run_command env i name cm q))"
  unfolding run_command_def
  by (intro keeps_if)
    (simp_all add: command_invoke_def command_remove_def command_restripe_def Let_def keeps_act keeps_fold_act
      keeps_command_insert keeps_command_settings keeps_command_focusFirst)

lemma keeps_run_commands: "keeps p q \<Longrightarrow> keeps p (fst (run_commands env i cms fc q))"
proof (induction cms arbitrary: fc q)
  case (Cons cm cms)
  show ?case
    using Cons.IH Cons.prems keeps_run_command [OF Cons.prems, of env i "the (cm_command cm)" cm]
    by (auto split: prod.split option.split)
qed simp

lemma keeps_refocus: "keeps p q \<Longrightarrow> keeps p (refocus env x ps q)"
  by (auto simp: refocus_def intro!: keeps_act split: option.split)

lemma keeps_show_progress: "keeps p q \<Longrightarrow> keeps p (show_progress i pg kind q)"
  unfolding show_progress_def by (intro keeps_act keeps_upd) simp_all

lemma keeps_beforeSerialize: "keeps p q \<Longrightarrow> keeps p (snd (snd (beforeSerialize env i data q)))"
  by (auto simp: beforeSerialize_def Let_def intro!: keeps_act split: option.split)

lemma keeps_beforeSend: "keeps p q \<Longrightarrow> aj_element (obj q i) = None \<Longrightarrow> keeps p (beforeSend i q)"
  by (auto simp: beforeSend_def Let_def intro!: keeps_show_progress split: option.split)

section \<open>Operations that start or end a request\<close>

text \<open>\<open>changes i b n p q\<close>: from \<open>p\<close> to \<open>q\<close> only object \<open>i\<close> changed, its flag to \<open>b\<close>, its requests to \<open>n\<close>.\<close>

definition changes :: "nat \<Rightarrow> bool \<Rightarrow> nat \<Rightarrow> ajax_page \<Rightarrow> ajax_page \<Rightarrow> bool" where
  "changes i b n p q \<longleftrightarrow>
     map core (xp_heap q) = (map core (xp_heap p))[i := (core (obj p i))\<lparr>aj_ajaxing := b, aj_pending := n\<rparr>] \<and>
     xp_instances q = xp_instances p"

lemma changes_same_core: "changes i b n p q \<Longrightarrow> map core (xp_heap r) = map core (xp_heap q) \<Longrightarrow>
    xp_instances r = xp_instances q \<Longrightarrow> changes i b n p r"
  by (simp add: changes_def)

lemma changes_keeps: "changes i b n p q \<Longrightarrow> keeps q r \<Longrightarrow> changes i b n p r"
  by (rule changes_same_core) (simp_all add: keeps_def)

lemma changes_act: "changes i b n p q \<Longrightarrow> changes i b n p (act a q)"
  by (simp add: changes_def)

lemma changes_refl:
  "i < length (xp_heap p) \<Longrightarrow> aj_ajaxing (obj p i) = b \<Longrightarrow> aj_pending (obj p i) = n \<Longrightarrow> changes i b n p p"
proof -
  assume i: "i < length (xp_heap p)" and "aj_ajaxing (obj p i) = b" "aj_pending (obj p i) = n"
  then have "(core (obj p i))\<lparr>aj_ajaxing := b, aj_pending := n\<rparr> = core (obj p i)"
    by (cases "obj p i") (simp add: core_def)
  with i show ?thesis unfolding changes_def by (metis list_update_id nth_map)
qed

lemma changes_upd_heap:
  assumes i: "i < length (xp_heap p)" and c: "changes i b n p q"
    and f: "core (f (obj q i)) = (core (obj q i))\<lparr>aj_ajaxing := b', aj_pending := n'\<rparr>"
  shows "changes i b' n' p (upd_obj i f q)"
proof -
  have len: "length (xp_heap q) = length (xp_heap p)" using c unfolding changes_def by (metis length_list_update length_map)
  have "map core (xp_heap q) ! i = (core (obj p i))\<lparr>aj_ajaxing := b, aj_pending := n\<rparr>"
    using c i by (simp add: changes_def)
  then have "core (obj q i) = (core (obj p i))\<lparr>aj_ajaxing := b, aj_pending := n\<rparr>" using i len by simp
  with f have "core (f (obj q i)) = (core (obj p i))\<lparr>aj_ajaxing := b', aj_pending := n'\<rparr>" by simp
  then show ?thesis using c i by (simp add: changes_def upd_obj_def map_update)
qed

lemma changes_length: "changes i b n p q \<Longrightarrow> length (xp_heap q) = length (xp_heap p)"
  unfolding changes_def by (metis length_list_update length_map)

lemma changes_core:
  assumes "changes i b n p q" and "i < length (xp_heap p)"
  shows "core (obj q i) = (core (obj p i))\<lparr>aj_ajaxing := b, aj_pending := n\<rparr>"
proof -
  have "map core (xp_heap q) ! i = (core (obj p i))\<lparr>aj_ajaxing := b, aj_pending := n\<rparr>"
    using assms by (simp add: changes_def)
  then show ?thesis using assms changes_length [OF assms(1)] by simp
qed

lemma changes_obj:
  assumes "changes i b n p q" and "i < length (xp_heap p)"
  shows "aj_ajaxing (obj q i) = b" "aj_pending (obj q i) = n" "aj_element (obj q i) = aj_element (obj p i)"
    "aj_url (obj q i) = aj_url (obj p i)" "aj_options_url (obj q i) = aj_options_url (obj p i)"
    "aj_instanceIndex (obj q i) = aj_instanceIndex (obj p i)"
proof -
  note c = changes_core [OF assms]
  show "aj_ajaxing (obj q i) = b" using arg_cong [OF c, of aj_ajaxing] by simp
  show "aj_pending (obj q i) = n" using arg_cong [OF c, of aj_pending] by simp
  show "aj_element (obj q i) = aj_element (obj p i)" using arg_cong [OF c, of aj_element] by simp
  show "aj_url (obj q i) = aj_url (obj p i)" using arg_cong [OF c, of aj_url] by simp
  show "aj_options_url (obj q i) = aj_options_url (obj p i)" using arg_cong [OF c, of aj_options_url] by simp
  show "aj_instanceIndex (obj q i) = aj_instanceIndex (obj p i)" using arg_cong [OF c, of aj_instanceIndex] by simp
qed

lemma changes_other:
  assumes "changes i b n p q" and "j < length (xp_heap p)" and "j \<noteq> i"
  shows "core (obj q j) = core (obj p j)"
proof -
  have "map core (xp_heap q) ! j = map core (xp_heap p) ! j" using assms by (simp add: changes_def)
  then show ?thesis using assms changes_length [OF assms(1)] by simp
qed

lemma changes_ajaxing:
  "i < length (xp_heap p) \<Longrightarrow> changes i b n p q \<Longrightarrow> changes i b' n p (upd_obj i (\<lambda>a. a\<lparr>aj_ajaxing := b'\<rparr>) q)"
  by (rule changes_upd_heap) (simp_all add: changes_core)

lemma changes_pending:
  "i < length (xp_heap p) \<Longrightarrow> changes i b n p q \<Longrightarrow> m = k n \<Longrightarrow>
   changes i b m p (upd_obj i (\<lambda>a. a\<lparr>aj_pending := k (aj_pending a)\<rparr>) q)"
  by (rule changes_upd_heap) (simp_all add: changes_core changes_obj)

lemma changes_beforeSend: "changes i b n p q \<Longrightarrow> changes i b n p (beforeSend i q)"
  unfolding beforeSend_def Let_def
  by (auto split: option.split intro: changes_act changes_keeps [OF _ keeps_show_progress]
      changes_keeps [OF changes_act keeps_show_progress])

lemma changes_ajax_error: "changes i b n p q \<Longrightarrow> changes i b n p (fst (ajax_error env i x m q))"
  unfolding ajax_error_def Let_def enable_element_def
  by (auto split: option.split intro!: changes_keeps [OF _ keeps_reattach_form] changes_act changes_keeps [OF _ keeps_remove_progress])

lemma changes_ajax_success: "changes i b n p q \<Longrightarrow> changes i b n p (fst (ajax_success env i cms q))"
proof -
  assume c: "changes i b n p q"
  define r where "r = enable_element i (remove_progress i q)"
  have c1: "changes i b n p r"
    unfolding r_def enable_element_def
    by (auto split: option.split intro!: changes_act changes_keeps [OF c keeps_remove_progress])
  have "keeps r (fst (ajax_success env i cms q))"
    using keeps_run_commands [OF keeps_refl, of r env i cms False]
    by (auto simp: ajax_success_def Let_def r_def [symmetric] split: prod.split sum.split
        intro!: keeps_upd keeps_trans [OF _ keeps_reattach_form] keeps_refocus)
  with c1 show ?thesis by (rule changes_keeps)
qed

lemma changes_options_success: "changes i b n p q \<Longrightarrow> changes i b n p (fst (options_success env i r x q))"
  by (simp add: options_success_def changes_ajax_error changes_ajax_success split: sum.split)

lemma changes_options_complete:
  "i < length (xp_heap p) \<Longrightarrow> changes i b n p q \<Longrightarrow> changes i False n p (fst (options_complete env i st x q))"
  by (simp add: options_complete_def Let_def changes_ajax_error changes_ajaxing)

lemma changes_jquery_done:
  assumes i: "i < length (xp_heap p)" and c: "changes i b n p q"
  shows "\<exists>b'. changes i b' (n - 1) p (fst (jquery_done env i out x q)) \<and> (b' \<longrightarrow> b)"
proof -
  define q0 where "q0 = upd_obj i (\<lambda>a. a\<lparr>aj_pending := aj_pending a - 1\<rparr>) q"
  have c0: "changes i b (n - 1) p q0"
    unfolding q0_def by (rule changes_pending [OF i c, where k = "\<lambda>m. m - 1"]) simp
  show ?thesis
  proof (cases out)
    case (Succeeded r)
    obtain p1 e where s: "options_success env i r x q0 = (p1, e)" by fastforce
    have c1: "changes i b (n - 1) p p1" using changes_options_success [OF c0, of env r x] s by simp
    have "jquery_done env i out x q =
        (case e of Some e' \<Rightarrow> (p1, Some e') | None \<Rightarrow> options_complete env i ''success'' x p1)"
      unfolding jquery_done_def Succeeded Let_def q0_def [symmetric] by (simp add: s)
    then show ?thesis using c1 changes_options_complete [OF i c1, of env "''success''" x] by (cases e) auto
  next
    case (Failed st)
    have "jquery_done env i out x q = options_complete env i st x q0"
      unfolding jquery_done_def Failed Let_def q0_def [symmetric] by simp
    then show ?thesis using changes_options_complete [OF i c0, of env st x] by auto
  qed
qed

text \<open>An object is idle, has its request under way, or is blocked by a flag that no request will clear.\<close>

definition one_request :: "bool \<Rightarrow> nat \<Rightarrow> bool" where
  "one_request b n \<longleftrightarrow> n = 0 \<or> n = 1 \<and> b"

definition requests :: "nat \<Rightarrow> ajax_page \<Rightarrow> ajax_page \<Rightarrow> bool" where
  "requests i p q \<longleftrightarrow> (\<exists>b n. changes i b n p q \<and> one_request b n)"

lemma requestsI: "changes i b n p q \<Longrightarrow> one_request b n \<Longrightarrow> requests i p q"
  by (auto simp: requests_def)

lemma requests_jquery_ajax:
  assumes i: "i < length (xp_heap p)" and c: "changes i b 0 p q"
  shows "requests i p (fst (jquery_ajax env i data failure q))"
proof -
  define q1 where "q1 = beforeSend i (upd_obj i (\<lambda>a. a\<lparr>aj_ajaxing := True\<rparr>) q)"
  define q2 where "q2 = upd_obj i (\<lambda>a. a\<lparr>aj_pending := aj_pending a + 1\<rparr>) q1"
  have c1: "changes i True 0 p q1"
    unfolding q1_def by (rule changes_beforeSend [OF changes_ajaxing [OF i c]])
  have c2: "changes i True 1 p q2"
    unfolding q2_def by (rule changes_pending [OF i c1, where k = "\<lambda>m. m + 1"]) simp
  have eq: "jquery_ajax env i data failure q =
      (case failure of
         None \<Rightarrow> (act (Send_request (aj_options_url (obj q i)) data (extra_data env (obj q i))) q2, None)
       | Some x \<Rightarrow> jquery_done env i (Failed ''error'') x q2)"
    unfolding jquery_ajax_def Let_def q2_def q1_def by (rule refl)
  show ?thesis
  proof (cases failure)
    case None
    have "fst (jquery_ajax env i data failure q) =
        act (Send_request (aj_options_url (obj q i)) data (extra_data env (obj q i))) q2"
      using eq None by simp
    then have "changes i True 1 p (fst (jquery_ajax env i data failure q))"
      using changes_act [OF c2] by simp
    then show ?thesis by (rule requestsI) (simp add: one_request_def)
  next
    case (Some x)
    obtain b' where "changes i b' 0 p (fst (jquery_done env i (Failed ''error'') x q2))"
      using changes_jquery_done [OF i c2, of env "Failed ''error''" x] by auto
    then have "changes i b' 0 p (fst (jquery_ajax env i data failure q))" by (simp add: eq [unfolded Some option.case] Some)
    then show ?thesis by (rule requestsI) (simp add: one_request_def)
  qed
qed

text \<open>The \<open>catch\<close> block clears the flag: a request that is under way then has no error to catch.\<close>

lemma jquery_ajax_error_ends:
  assumes i: "i < length (xp_heap p)" and c: "changes i b 0 p q"
    and r: "jquery_ajax env i data failure q = (q', Some e)"
  shows "changes i False 0 p q'"
proof (cases failure)
  case None
  then show ?thesis using r by (simp add: jquery_ajax_def Let_def)
next
  case (Some x)
  define q2 where "q2 = upd_obj i (\<lambda>a. a\<lparr>aj_pending := aj_pending a + 1\<rparr>) (beforeSend i (upd_obj i (\<lambda>a. a\<lparr>aj_ajaxing := True\<rparr>) q))"
  define q3 where "q3 = upd_obj i (\<lambda>a. a\<lparr>aj_pending := aj_pending a - 1\<rparr>) q2"
  have c2: "changes i True 1 p q2"
    unfolding q2_def by (rule changes_pending [OF i changes_beforeSend [OF changes_ajaxing [OF i c]], where k = "\<lambda>m. m + 1"]) simp
  have c3: "changes i True 0 p q3"
    unfolding q3_def by (rule changes_pending [OF i c2, where k = "\<lambda>m. m - 1"]) simp
  have "jquery_ajax env i data failure q = options_complete env i ''error'' x q3"
    unfolding jquery_ajax_def jquery_done_def Let_def q2_def q3_def Some by simp
  then have "fst (options_complete env i ''error'' x q3) = q'" using r by (metis fst_conv)
  then show ?thesis using changes_options_complete [OF i c3, of env "''error''" x] by simp
qed

lemma caught_ends: "i < length (xp_heap p) \<Longrightarrow> changes i b 0 p q \<Longrightarrow> requests i p (caught i (q, Some e))"
  unfolding caught_def by (auto intro!: requestsI [of i False 0] changes_act changes_ajaxing simp: one_request_def)

lemma requests_caught:
  assumes i: "i < length (xp_heap p)" and r: "requests i p (fst r)"
    and e: "\<And>e. snd r = Some e \<Longrightarrow> \<exists>b. changes i b 0 p (fst r)"
  shows "requests i p (caught i r)"
proof (cases r)
  case (Pair q err)
  show ?thesis
  proof (cases err)
    case None
    then show ?thesis using r Pair by (simp add: caught_def)
  next
    case (Some e')
    then obtain b where "changes i b 0 p q" using e [of e'] Pair by auto
    then show ?thesis unfolding Pair Some by (rule caught_ends [OF i])
  qed
qed

lemma starts_request:
  assumes i: "i < length (xp_heap p)" and c: "changes i b 0 p q"
    and r: "r = (q, Some e) \<or> r = jquery_ajax env i data failure q"
  shows "requests i p (caught i r)"
proof (rule requests_caught [OF i])
  show "requests i p (fst r)"
    using r requests_jquery_ajax [OF i c] requestsI [OF c] by (auto simp: one_request_def)
  show "\<exists>b. changes i b 0 p (fst r)" if "snd r = Some e'" for e'
    using r that c jquery_ajax_error_ends [OF i c, of env data failure]
    by (cases "jquery_ajax env i data failure q") auto
qed

lemma requests_send_plain:
  assumes i: "i < length (xp_heap p)" and c: "changes i b 0 p p"
  shows "requests i p (caught i (send_plain env i failure p))"
proof -
  obtain data err q1 where s: "beforeSerialize env i (aj_options_data (obj p i)) p = (data, err, q1)"
    by (cases "beforeSerialize env i (aj_options_data (obj p i)) p") auto
  have "keeps p q1" using keeps_beforeSerialize [OF keeps_refl, of p env i "aj_options_data (obj p i)"] s by simp
  then have "keeps p (upd_obj i (\<lambda>a. a\<lparr>aj_options_data := data\<rparr>) q1)" by (rule keeps_upd [rotated]) simp
  then have "changes i b 0 p (upd_obj i (\<lambda>a. a\<lparr>aj_options_data := data\<rparr>) q1)" by (rule changes_keeps [OF c])
  then show ?thesis
    by (rule starts_request [OF i, of _ _ _ "the err" env data failure]) (cases err; simp add: send_plain_def s)
qed

lemma requests_send_form:
  assumes i: "i < length (xp_heap p)" and c: "changes i b 0 p p"
  shows "requests i p (caught i (send_form env i failure p))"
proof -
  define q0 where "q0 = (case aj_element (obj p i) of Some x \<Rightarrow> if aj_setClick (obj p i) then act (Set_clicked x) p else p | None \<Rightarrow> p)"
  have k0: "keeps p q0" unfolding q0_def by (auto intro!: keeps_act split: option.split)
  obtain data err q1 where s: "beforeSerialize env i (aj_options_data (obj p i)) q0 = (data, err, q1)"
    by (cases "beforeSerialize env i (aj_options_data (obj p i)) q0") auto
  have "keeps p q1" using keeps_beforeSerialize [OF k0, of env i "aj_options_data (obj p i)"] s by simp
  then have c1: "changes i b 0 p q1" by (rule changes_keeps [OF c])
  have eq: "send_form env i failure p =
      (case err of Some e \<Rightarrow> (q1, Some e) | None \<Rightarrow> jquery_ajax env i data failure (upd_obj i (\<lambda>a. a\<lparr>aj_ajaxing := True\<rparr>) q1))"
    unfolding send_form_def Let_def q0_def [symmetric] s by (cases err) simp_all
  show ?thesis
  proof (cases err)
    case None
    then show ?thesis
      using starts_request [OF i changes_ajaxing [OF i c1, of True] disjI2 [OF refl], of env data failure] eq by simp
  next
    case (Some e)
    then show ?thesis using starts_request [OF i c1, of _ e env data failure] eq by simp
  qed
qed

section \<open>Runs of a page\<close>

text \<open>
  What can happen on a page with Ajax objects: an event or a key of an element, a script that calls
  \<open>execute\<close> or makes an object, the end of a request, behaviors detached, other changes of the
  document. Errors that nothing catches end the script that runs, not the page.
\<close>

datatype ajax_op =
    Create element_settings element_info
  | Trigger nat "xhr option"
  | Press nat string int "xhr option"
  | Execute nat "xhr option"
  | Finish nat outcome xhr
  | Detach string
  | Change_page action

definition ajax_step :: "ajax_env \<Rightarrow> ajax_op \<Rightarrow> ajax_page \<Rightarrow> ajax_page" where
  "ajax_step env op p =
     (case op of
        Create es info \<Rightarrow> fst (Drupal_ajax es info p)
      | Trigger i failure \<Rightarrow> if i < length (xp_heap p) then fst (ajax_handle_event env i failure p) else p
      | Press i kind which failure \<Rightarrow>
          if i < length (xp_heap p) then fst (keypressResponse env i kind which failure p) else p
      | Execute i failure \<Rightarrow> if i < length (xp_heap p) then ajax_execute env i failure p else p
      | Finish i out x \<Rightarrow>
          if i < length (xp_heap p) \<and> 0 < aj_pending (obj p i) then fst (jquery_done env i out x p) else p
      | Detach trigger \<Rightarrow> AJAX_detach env trigger p
      | Change_page a \<Rightarrow> act a p)"

abbreviation ajax_run :: "ajax_env \<Rightarrow> ajax_op list \<Rightarrow> ajax_page \<Rightarrow> ajax_page" where
  "ajax_run env \<equiv> fold (ajax_step env)"

definition instances_agree :: "ajax_page \<Rightarrow> bool" where
  "instances_agree p \<longleftrightarrow>
     (\<forall>k j. k < length (xp_instances p) \<longrightarrow> xp_instances p ! k = Some j \<longrightarrow>
        j < length (xp_heap p) \<and> aj_instanceIndex (obj p j) = k)"

definition one_request_each :: "ajax_page \<Rightarrow> bool" where
  "one_request_each p \<longleftrightarrow> list_all (\<lambda>a. one_request (aj_ajaxing a) (aj_pending a)) (xp_heap p)"

definition ajax_inv :: "ajax_page \<Rightarrow> bool" where
  "ajax_inv p \<longleftrightarrow> one_request_each p \<and> instances_agree p"

lemma one_request_eachD:
  "one_request_each p \<Longrightarrow> i < length (xp_heap p) \<Longrightarrow> one_request (aj_ajaxing (obj p i)) (aj_pending (obj p i))"
  by (simp add: one_request_each_def list_all_length)

lemma one_request_core:
  "one_request_each p \<longleftrightarrow> list_all (\<lambda>a. one_request (aj_ajaxing a) (aj_pending a)) (map core (xp_heap p))"
  by (simp add: one_request_each_def list.pred_map comp_def)

lemma list_all_list_update: "list_all P xs \<Longrightarrow> P y \<Longrightarrow> list_all P (xs[i := y])"
  by (auto simp: list_all_iff dest: set_update_subset_insert [THEN subsetD])

lemma one_request_changes:
  assumes "changes i b n p q" and "one_request b n" and "one_request_each p"
  shows "one_request_each q"
  using assms unfolding one_request_core changes_def by (simp add: list_all_list_update)

lemma instances_agree_changes:
  assumes i: "i < length (xp_heap p)" and c: "changes i b n p q" and a: "instances_agree p"
  shows "instances_agree q"
proof -
  have "aj_instanceIndex (obj q j) = aj_instanceIndex (obj p j)" if "j < length (xp_heap p)" for j
  proof (cases "j = i")
    case True
    then show ?thesis using changes_obj(6) [OF c i] by simp
  next
    case False
    then show ?thesis using arg_cong [OF changes_other [OF c that], of aj_instanceIndex] by simp
  qed
  then show ?thesis using a c changes_length [OF c] by (simp add: instances_agree_def changes_def)
qed

lemma ajax_inv_requests:
  "i < length (xp_heap p) \<Longrightarrow> requests i p q \<Longrightarrow> ajax_inv p \<Longrightarrow> ajax_inv q"
  by (auto simp: requests_def ajax_inv_def intro: one_request_changes instances_agree_changes)

lemma idle_changes:
  assumes "one_request_each p" and "i < length (xp_heap p)" and "\<not> aj_ajaxing (obj p i)"
  shows "changes i False 0 p p"
  using assms one_request_eachD [OF assms(1,2)] by (intro changes_refl) (auto simp: one_request_def)

lemma requests_eventResponse:
  assumes "one_request_each p" and "i < length (xp_heap p)" and "\<not> aj_ajaxing (obj p i)"
  shows "requests i p (eventResponse env i failure p)" "requests i p (ajax_execute env i failure p)"
  using assms requests_send_plain [OF assms(2) idle_changes [OF assms], of env failure]
    requests_send_form [OF assms(2) idle_changes [OF assms], of env failure]
  by (simp_all add: eventResponse_def ajax_execute_def)

lemma ajax_inv_eventResponse: "ajax_inv p \<Longrightarrow> i < length (xp_heap p) \<Longrightarrow> ajax_inv (eventResponse env i failure p)"
  using requests_eventResponse(1) [of p i env failure] ajax_inv_requests [of i p "eventResponse env i failure p"]
  by (cases "aj_ajaxing (obj p i)") (auto simp: eventResponse_def ajax_inv_def)

lemma ajax_inv_execute: "ajax_inv p \<Longrightarrow> i < length (xp_heap p) \<Longrightarrow> ajax_inv (ajax_execute env i failure p)"
  using requests_eventResponse(2) [of p i env failure] ajax_inv_requests [of i p "ajax_execute env i failure p"]
  by (cases "aj_ajaxing (obj p i)") (auto simp: ajax_execute_def ajax_inv_def)

lemma ajax_inv_handle_event:
  "ajax_inv p \<Longrightarrow> i < length (xp_heap p) \<Longrightarrow> ajax_inv (fst (ajax_handle_event env i failure p))"
  by (simp add: ajax_handle_event_def Let_def ajax_inv_eventResponse)

lemma ajax_inv_done:
  assumes p: "ajax_inv p" and i: "i < length (xp_heap p)" and pending: "0 < aj_pending (obj p i)"
  shows "ajax_inv (fst (jquery_done env i out x p))"
proof -
  have "one_request (aj_ajaxing (obj p i)) (aj_pending (obj p i))"
    using p i by (simp add: ajax_inv_def one_request_eachD)
  with pending have one: "aj_pending (obj p i) = 1" by (simp add: one_request_def)
  obtain b' where "changes i b' (1 - 1) p (fst (jquery_done env i out x p))"
    using changes_jquery_done [OF i changes_refl [OF i refl one]] by blast
  then have "requests i p (fst (jquery_done env i out x p))" by (intro requestsI) (auto simp: one_request_def)
  then show ?thesis by (rule ajax_inv_requests [OF i _ p])
qed

text \<open>Creation and detaching.\<close>

lemma new_Ajax_fields:
  assumes "new_Ajax es info p = (Inr a, p1)"
  shows "aj_ajaxing a = False" "aj_pending a = 0" "xp_heap p1 = xp_heap p" "xp_instances p1 = xp_instances p"
    "xp_history p1 = xp_history p"
  using assms by (auto simp: new_Ajax_def Let_def split: option.splits if_splits)

lemma new_Ajax_page:
  assumes "new_Ajax es info p = (Inl e, p1)"
  shows "p1 = p"
  using assms by (auto simp: new_Ajax_def Let_def split: option.splits)

lemma Drupal_ajax_cases:
  obtains "Drupal_ajax es info p = (p, snd (Drupal_ajax es info p))"
  | a p1 where "Drupal_ajax es info p =
       (p1\<lparr>xp_heap := xp_heap p @ [a], xp_instances := xp_instances p @ [Some (length (xp_heap p))]\<rparr>, None)"
     "aj_ajaxing a = False" "aj_pending a = 0" "aj_instanceIndex a = length (xp_instances p)"
     "xp_history p1 = xp_history p"
proof -
  obtain es1 where e: "Drupal_ajax es info p = (case new_Ajax es1 info p of
           (Inl e, p1) \<Rightarrow> (p1, Some e)
         | (Inr a, p1) \<Rightarrow>
             (p1\<lparr>xp_heap := xp_heap p1 @ [a\<lparr>aj_instanceIndex := length (xp_instances p1)\<rparr>],
                 xp_instances := xp_instances p1 @ [Some (length (xp_heap p1))]\<rparr>, None))"
    unfolding Drupal_ajax_def Let_def by blast
  obtain r p1 where n: "new_Ajax es1 info p = (r, p1)" by fastforce
  show ?thesis
  proof (cases r)
    case (Inl e')
    then show ?thesis using that(1) e n new_Ajax_page [of es1 info p e' p1] by simp
  next
    case (Inr a)
    note f = new_Ajax_fields [OF n [unfolded Inr]]
    show ?thesis
      by (rule that(2) [of "a\<lparr>aj_instanceIndex := length (xp_instances p)\<rparr>" p1]) (simp_all add: e n Inr f)
  qed
qed

lemma ajax_inv_Drupal_ajax: "ajax_inv p \<Longrightarrow> ajax_inv (fst (Drupal_ajax es info p))"
proof (rule Drupal_ajax_cases [of es info p])
  assume p: "ajax_inv p" and "Drupal_ajax es info p = (p, snd (Drupal_ajax es info p))"
  then show ?thesis by (metis fst_conv)
next
  fix a p1
  assume p: "ajax_inv p" and e: "Drupal_ajax es info p =
       (p1\<lparr>xp_heap := xp_heap p @ [a], xp_instances := xp_instances p @ [Some (length (xp_heap p))]\<rparr>, None)"
     and a: "aj_ajaxing a = False" "aj_pending a = 0" "aj_instanceIndex a = length (xp_instances p)"
  show ?thesis
    using p a unfolding e
    by (auto simp: ajax_inv_def one_request_each_def instances_agree_def one_request_def nth_append less_Suc_eq)
qed

lemma fold_drop_fields:
  "xp_heap (fold (\<lambda>a q. q\<lparr>xp_instances := (xp_instances q)[aj_instanceIndex a := None]\<rparr>) as q) = xp_heap q"
  "xp_history (fold (\<lambda>a q. q\<lparr>xp_instances := (xp_instances q)[aj_instanceIndex a := None]\<rparr>) as q) = xp_history q"
  "length (xp_instances (fold (\<lambda>a q. q\<lparr>xp_instances := (xp_instances q)[aj_instanceIndex a := None]\<rparr>) as q)) =
   length (xp_instances q)"
  by (induction as arbitrary: q) simp_all

lemma AJAX_detach_fields:
  "xp_heap (AJAX_detach env tr p) = xp_heap p" "xp_history (AJAX_detach env tr p) = xp_history p"
  "length (xp_instances (AJAX_detach env tr p)) = length (xp_instances p)"
  by (simp_all add: AJAX_detach_def fold_drop_fields)

lemma fold_drop_instances:
  "k < length (xp_instances q) \<Longrightarrow>
   xp_instances (fold (\<lambda>a q. q\<lparr>xp_instances := (xp_instances q)[aj_instanceIndex a := None]\<rparr>) as q) ! k =
   (if k \<in> aj_instanceIndex ` set as then None else xp_instances q ! k)"
  by (induction as arbitrary: q) (auto simp: nth_list_update)

lemma AJAX_detach_nth:
  "k < length (xp_instances p) \<Longrightarrow> xp_instances (AJAX_detach env tr p) ! k =
     (if tr = ''unload'' \<and> k \<in> aj_instanceIndex ` set (expired env p) then None else xp_instances p ! k)"
  by (simp add: AJAX_detach_def fold_drop_instances)

lemma ajax_inv_detach: "ajax_inv p \<Longrightarrow> ajax_inv (AJAX_detach env tr p)"
  by (auto simp: ajax_inv_def one_request_each_def instances_agree_def AJAX_detach_fields AJAX_detach_nth split: if_splits)

lemma ajax_inv_act: "ajax_inv (act a p) = ajax_inv p"
  by (simp add: ajax_inv_def one_request_each_def instances_agree_def)

lemma ajax_inv_step: "ajax_inv p \<Longrightarrow> ajax_inv (ajax_step env op p)"
  by (cases op) (simp_all add: ajax_step_def ajax_inv_Drupal_ajax ajax_inv_handle_event ajax_inv_execute ajax_inv_done
      ajax_inv_detach ajax_inv_act keypressResponse_def)

lemma ajax_inv_run: "ajax_inv p \<Longrightarrow> ajax_inv (ajax_run env ops p)"
  by (induction ops arbitrary: p) (simp_all add: ajax_inv_step)

end
