(* ===== verification/Ajax_Properties.thy ===== *)
theory Ajax_Properties
  imports Ajax_Invariant
begin

text \<open>
  Correctness of the Ajax framework: which responses run commands, what an event sends, how a request
  leaves its element, and how objects of elements that left the page are dropped.
\<close>

section \<open>A concrete page\<close>

text \<open>
  A site at \<open>http://s\<close> without translations, whose elements never move, and where no jQuery function is missing.
\<close>

definition plain_env :: ajax_env where
  "plain_env =
     \<lparr>ev_themes = default_themes, ev_translations = None, ev_decode = Some, ev_anchor = (\<lambda>u. u),
      ev_location = \<lparr>loc_protocol = ''http:'', loc_host = ''s''\<rparr>, ev_paths = \<lparr>baseUrl = ''/'', pathPrefix = []\<rparr>,
      ev_contains = (\<lambda>h x. x \<noteq> 9), ev_select = (\<lambda>h sel. []), ev_has_method = (\<lambda>m. True), ev_roots = (\<lambda>c. []),
      ev_new_content = (\<lambda>c. False), ev_content_in_page = (\<lambda>h. False), ev_parents = (\<lambda>h x. []),
      ev_disable_refocus = (\<lambda>x. False), ev_tabbable = (\<lambda>h x. []), ev_isFocusable = (\<lambda>h x. False),
      ev_fieldValue = (\<lambda>x. None), ev_name = (\<lambda>x. []), ev_custom_throws = (\<lambda>n. False)\<rparr>"

definition plain_object :: "element \<Rightarrow> nat \<Rightarrow> Ajax" where
  "plain_object x k =
     \<lparr>aj_element = Some x, aj_form = None, aj_event = Some ''click'', aj_keypress = False, aj_selector = None,
      aj_effect = ''none'', aj_speed = ''none'', aj_method = ''replaceWith'', aj_progress = None, aj_wrapper = None,
      aj_setClick = False, aj_url = ''/a'', aj_options_url = ''/a?_wrapper_format=drupal_ajax'', aj_options_data = [],
      aj_commands = [], aj_settings = None, aj_ajaxing = False, aj_instanceIndex = k, aj_pending = 0\<rparr>"

definition blank_page :: ajax_page where
  "blank_page = \<lparr>xp_heap = [], xp_instances = [], xp_trusted = [], xp_ajaxSettings = None,
     xp_pageState = Some \<lparr>ps_theme = ''t'', ps_theme_token = ''k'', ps_libraries = ''l''\<rparr>, xp_history = []\<rparr>"

definition plain_page :: ajax_page where
  "plain_page = \<lparr>xp_heap = [plain_object 7 0, plain_object 9 1], xp_instances = [Some 0, Some 1], xp_trusted = [],
     xp_ajaxSettings = None, xp_pageState = Some \<lparr>ps_theme = ''t'', ps_theme_token = ''k'', ps_libraries = ''l''\<rparr>, xp_history = []\<rparr>"

definition busy_page :: ajax_page where
  "busy_page = upd_obj 0 (\<lambda>a. a\<lparr>aj_ajaxing := True, aj_pending := 1\<rparr>) plain_page"

definition ok_xhr :: xhr where
  "ok_xhr = \<lparr>xh_status = 200, xh_statusText = Some ''OK'', xh_responseText = Some ''[]'', xh_readyState = 4, xh_token = None\<rparr>"

lemma ajax_inv_blank: "xp_heap p = [] \<Longrightarrow> xp_instances p = [] \<Longrightarrow> ajax_inv p"
  by (simp add: ajax_inv_def one_request_each_def instances_agree_def)

lemma busy_page_fields:
  "length (xp_heap busy_page) = 2" "aj_ajaxing (obj busy_page 0)" "aj_pending (obj busy_page 0) = 1"
  "aj_url (obj busy_page 0) = ''/a''" "xp_trusted busy_page = []" "aj_element (obj busy_page 0) = Some 7"
  "xp_history busy_page = []"
  by (simp_all add: busy_page_def plain_page_def plain_object_def upd_obj_def)

lemma ajax_inv_busy_page: "ajax_inv busy_page"
  by (auto simp: ajax_inv_def one_request_each_def instances_agree_def one_request_def busy_page_def plain_page_def
      plain_object_def upd_obj_def less_Suc_eq)

section \<open>One request at a time\<close>

text \<open>
  C17. Whatever events, keys, scripts and responses come, from a page without Ajax objects on, at most one request
  of an object is under way at any time, and while one is, the object takes no other.
\<close>

theorem at_most_one_request:
  assumes "xp_heap p = []" and "xp_instances p = []" and "i < length (xp_heap (ajax_run env ops p))"
  shows "aj_pending (obj (ajax_run env ops p) i) \<le> 1 \<and>
    (aj_pending (obj (ajax_run env ops p) i) = 1 \<longrightarrow>
       eventResponse env i failure (ajax_run env ops p) = ajax_run env ops p \<and>
       ajax_execute env i failure (ajax_run env ops p) = ajax_run env ops p)"
proof -
  have "ajax_inv (ajax_run env ops p)" by (rule ajax_inv_run [OF ajax_inv_blank [OF assms(1,2)]])
  then have "one_request (aj_ajaxing (obj (ajax_run env ops p) i)) (aj_pending (obj (ajax_run env ops p) i))"
    using assms(3) by (simp add: ajax_inv_def one_request_eachD)
  then show ?thesis by (auto simp: one_request_def eventResponse_def ajax_execute_def)
qed

definition script_settings :: element_settings where
  "script_settings =
     \<lparr>es_base = None, es_element = None, es_url = Some ''/a'', es_event = None, es_keypress = None, es_selector = None,
      es_effect = None, es_speed = None, es_method = None, es_progress = None, es_wrapper = None, es_setClick = False,
      es_submit = None, es_dialog = None, es_dialogType = None, es_dialogRenderer = None\<rparr>"

definition no_info :: element_info where
  "no_info = \<lparr>ei_form = None, ei_is_link = False, ei_href = None, ei_action = None\<rparr>"

definition started_page :: ajax_page where
  "started_page = ajax_run plain_env [Create script_settings no_info, Execute 0 None] blank_page"

lemma started_page_pending: "length (xp_heap started_page) = 1" "aj_pending (obj started_page 0) = 1"
proof -
  have p1: "ajax_step plain_env (Create script_settings no_info) blank_page =
      blank_page\<lparr>xp_heap := [projr (fst (new_Ajax (script_settings\<lparr>es_progress := Some None\<rparr>) no_info blank_page))], xp_instances := [Some 0]\<rparr>"
    by (simp add: ajax_step_def Drupal_ajax_def script_settings_def new_Ajax_def given_url_def truthy_string_def blank_page_def
      trusted_url_def js_get_def Let_def)
  show "length (xp_heap started_page) = 1" "aj_pending (obj started_page 0) = 1"
    by (simp_all add: started_page_def p1)
      (simp_all add: ajax_step_def ajax_execute_def caught_def send_plain_def jquery_ajax_def beforeSend_def beforeSerialize_def
        script_settings_def new_Ajax_def given_url_def truthy_string_def blank_page_def
        trusted_url_def js_get_def Let_def upd_obj_def act_def or_default_def no_info_def)
qed

theorem at_most_one_request_witness:
  "aj_pending (obj started_page 0) = 1 \<and> ajax_execute plain_env 0 None started_page = started_page"
proof -
  have "xp_heap blank_page = []" "xp_instances blank_page = []" by (simp_all add: blank_page_def)
  then show ?thesis
    using at_most_one_request [of blank_page 0 plain_env "[Create script_settings no_info, Execute 0 None]" None]
    unfolding started_page_def [symmetric] by (simp add: started_page_pending)
qed

section \<open>Responses that fail verification\<close>

text \<open>The actions that only undo the preparation of a request.\<close>

definition undoes_request :: "Ajax \<Rightarrow> action \<Rightarrow> bool" where
  "undoes_request a c \<longleftrightarrow>
     c \<in> {Remove_progress, Stop_monitoring} \<or> (\<exists>w. c = Show_wrapper w \<and> aj_wrapper a = Some w) \<or>
     (\<exists>x. c = Set_disabled x False \<and> aj_element a = Some x) \<or>
     (\<exists>f. c = Attach_behaviors (Some f) (aj_settings a) \<and> aj_form a = Some f)"

definition adds :: "(action \<Rightarrow> bool) \<Rightarrow> ajax_page \<Rightarrow> ajax_page \<Rightarrow> bool" where
  "adds P p q \<longleftrightarrow> (\<exists>acts. q = p\<lparr>xp_history := xp_history p @ acts\<rparr> \<and> list_all P acts)"

lemma adds_refl [intro!]: "adds P p p"
  by (auto simp: adds_def intro: exI [of _ "[]"])

lemma adds_act: "adds P p q \<Longrightarrow> P a \<Longrightarrow> adds P p (act a q)"
  by (auto simp: adds_def act_def)

lemma adds_obj: "adds P p q \<Longrightarrow> obj q i = obj p i"
  by (auto simp: adds_def)

lemma adds_heap: "adds P p q \<Longrightarrow> xp_heap q = xp_heap p"
  by (auto simp: adds_def)

lemma adds_remove_progress: "adds P p q \<Longrightarrow> P Remove_progress \<Longrightarrow> P Stop_monitoring \<Longrightarrow> adds P p (remove_progress i q)"
  by (auto simp: remove_progress_def Let_def intro!: adds_act split: option.split)

lemma adds_enable_element:
  "adds P p q \<Longrightarrow> (\<And>x. aj_element (obj p i) = Some x \<Longrightarrow> P (Set_disabled x False)) \<Longrightarrow> adds P p (enable_element i q)"
  by (auto simp: enable_element_def adds_heap intro!: adds_act split: option.split)

lemma adds_reattach_form:
  "adds P p q \<Longrightarrow> (\<And>f. aj_form (obj p i) = Some f \<Longrightarrow> P (Attach_behaviors (Some f) (aj_settings (obj p i)))) \<Longrightarrow>
   adds P p (reattach_form env i q)"
  by (auto simp: reattach_form_def adds_heap intro!: adds_act split: option.split)

lemma adds_ajax_error: "adds (undoes_request (obj p i)) p (fst (ajax_error env i x m p))"
  unfolding ajax_error_def Let_def fst_conv
  by (intro adds_reattach_form adds_enable_element)
    (auto simp: undoes_request_def intro!: adds_act adds_remove_progress split: option.split)

lemma ajax_error_throws: "\<exists>e. snd (ajax_error env i x m p) = Some e"
  by (simp add: ajax_error_def Let_def)

lemma untrusted_success:
  assumes "parse_response r \<noteq> Inr Null_response" and "\<not> trusted_url p (aj_url (obj p i))" and "xh_token x \<noteq> Some ''1''"
  shows "adds (undoes_request (obj p i)) p (fst (options_success env i r x p)) \<and>
    (\<exists>e. snd (options_success env i r x p) = Some e)"
proof (cases "parse_response r")
  case (Inl e)
  then show ?thesis by (auto simp: options_success_def)
next
  case (Inr r1)
  then have "options_success env i r x p =
      (case verification_message env of Inl e \<Rightarrow> (p, Some e) | Inr m \<Rightarrow> ajax_error env i x (Some m) p)"
    using assms by (simp add: options_success_def)
  then show ?thesis by (auto simp: adds_ajax_error ajax_error_throws split: sum.split)
qed

text \<open>
  C4. A response that is not \<open>null\<close>, whose address is not trusted and that lacks the token of a Drupal response runs
  none of its commands: the callback throws, and all that it does to the page is to undo the preparation of the
  request (indicator, wrapper, disabled element, behaviors of the form). No object and no setting changes.
\<close>

theorem untrusted_response_runs_no_command:
  assumes "parse_response r \<noteq> Inr Null_response" and "\<not> trusted_url p (aj_url (obj p i))" and "xh_token x \<noteq> Some ''1''"
  shows "\<exists>acts e. options_success env i r x p = (p\<lparr>xp_history := xp_history p @ acts\<rparr>, Some e) \<and>
    (\<forall>c \<in> set acts. undoes_request (obj p i) c)"
  using untrusted_success [OF assms, of env] unfolding adds_def list_all_iff by (metis prod.collapse)

theorem untrusted_response_runs_no_command_witness:
  "\<exists>acts e. options_success plain_env 0
      (Commands [\<lparr>cm_command = Some ''redirect'', cm_method = None, cm_selector = None, cm_data = ''http://evil'', cm_settings = None,
         cm_effect = None, cm_speed = None, cm_merge = False, cm_old = [], cm_new = []\<rparr>]) ok_xhr busy_page =
      (busy_page\<lparr>xp_history := xp_history busy_page @ acts\<rparr>, Some e) \<and> (\<forall>c \<in> set acts. undoes_request (obj busy_page 0) c)"
  by (rule untrusted_response_runs_no_command)
    (simp_all add: parse_response_def trusted_url_def js_get_def busy_page_fields ok_xhr_def)

section \<open>An object whose flag is never cleared\<close>

definition blocked :: "nat \<Rightarrow> ajax_page \<Rightarrow> bool" where
  "blocked i p \<longleftrightarrow> i < length (xp_heap p) \<and> aj_ajaxing (obj p i) \<and> aj_pending (obj p i) = 0"

lemma blocked_core:
  "blocked i p \<Longrightarrow> length (xp_heap q) = length (xp_heap p) \<Longrightarrow> core (obj q i) = core (obj p i) \<Longrightarrow> blocked i q"
  using core_eqD(1,2) [of "obj q i" "obj p i"] by (simp add: blocked_def)

lemma blocked_changes: "blocked i p \<Longrightarrow> changes j b n p q \<Longrightarrow> j \<noteq> i \<Longrightarrow> blocked i q"
  using blocked_core [of i p q] changes_length [of j b n p q] changes_other [of j b n p q i] by (auto simp: blocked_def)

lemma blocked_requests: "blocked i p \<Longrightarrow> requests j p q \<Longrightarrow> j \<noteq> i \<Longrightarrow> blocked i q"
  by (auto simp: requests_def intro: blocked_changes)

lemma blocked_start:
  assumes "blocked i p" and "ajax_inv p" and "j < length (xp_heap p)"
  shows "blocked i (eventResponse env j failure p)" "blocked i (ajax_execute env j failure p)"
  using assms requests_eventResponse [of p j env failure] blocked_requests [OF assms(1), of j]
  by (cases "aj_ajaxing (obj p j)"; cases "j = i"; auto simp: eventResponse_def ajax_execute_def ajax_inv_def blocked_def)+

lemma blocked_done:
  assumes b: "blocked i p" and j: "j < length (xp_heap p)" "0 < aj_pending (obj p j)"
  shows "blocked i (fst (jquery_done env j out x p))"
proof -
  have ne: "j \<noteq> i" using b j by (auto simp: blocked_def)
  obtain b' where c: "changes j b' (aj_pending (obj p j) - 1) p (fst (jquery_done env j out x p))"
    using changes_jquery_done [OF j(1) changes_refl [OF j(1) refl refl]] by blast
  show ?thesis by (rule blocked_changes [OF b c ne])
qed

lemma blocked_Drupal_ajax: "blocked i p \<Longrightarrow> blocked i (fst (Drupal_ajax es info p))"
proof (rule Drupal_ajax_cases [of es info p])
  assume "blocked i p" and "Drupal_ajax es info p = (p, snd (Drupal_ajax es info p))"
  then show ?thesis by (metis fst_conv)
qed (simp add: blocked_def nth_append)

lemma blocked_step:
  assumes "blocked i p" and "ajax_inv p"
  shows "blocked i (ajax_step env op p)"
proof (cases op)
  case (Finish j out x)
  then show ?thesis using assms(1) blocked_done [OF assms(1)] by (simp add: ajax_step_def)
qed (use assms in \<open>simp_all add: ajax_step_def ajax_handle_event_def keypressResponse_def Let_def blocked_start
      blocked_Drupal_ajax AJAX_detach_fields blocked_def [of i "AJAX_detach _ _ _"] blocked_def [of i "act _ _"]\<close>,
    simp_all add: blocked_def)

lemma blocked_run: "blocked i p \<Longrightarrow> ajax_inv p \<Longrightarrow> blocked i (ajax_run env ops p)"
  by (induction ops arbitrary: p) (simp_all add: blocked_step ajax_inv_step)

lemma jquery_done_throws:
  assumes "snd (options_success env i r x (upd_obj i (\<lambda>a. a\<lparr>aj_pending := aj_pending a - 1\<rparr>) p)) = Some e"
  shows "jquery_done env i (Succeeded r) x p =
    (fst (options_success env i r x (upd_obj i (\<lambda>a. a\<lparr>aj_pending := aj_pending a - 1\<rparr>) p)), Some e)"
  using assms unfolding jquery_done_def Let_def
  by (cases "options_success env i r x (upd_obj i (\<lambda>a. a\<lparr>aj_pending := aj_pending a - 1\<rparr>) p)") simp

text \<open>
  C22. A response that fails verification leaves its object blocked for ever: the success callback throws, so jQuery
  never calls the completion callback that would clear the flag \<open>ajaxing\<close>, and whatever happens later, every event
  and every \<open>execute\<close> of the object is ignored (until the page is loaded again).
\<close>

theorem rejected_response_blocks_object:
  assumes "ajax_inv p" and "i < length (xp_heap p)" and "aj_pending (obj p i) = 1"
    and "parse_response r \<noteq> Inr Null_response" and "\<not> trusted_url p (aj_url (obj p i))" and "xh_token x \<noteq> Some ''1''"
    and "q = ajax_run env ops (fst (jquery_done env i (Succeeded r) x p))"
  shows "aj_ajaxing (obj q i) \<and> aj_pending (obj q i) = 0 \<and>
    eventResponse env i failure q = q \<and> ajax_execute env i failure q = q"
proof -
  let ?p = "upd_obj i (\<lambda>a. a\<lparr>aj_pending := aj_pending a - 1\<rparr>) p"
  have flag: "aj_ajaxing (obj p i)"
    using one_request_eachD [of p i] assms(1-3) by (simp add: ajax_inv_def one_request_def)
  have u: "adds (undoes_request (obj ?p i)) ?p (fst (options_success env i r x ?p))"
    "\<exists>e. snd (options_success env i r x ?p) = Some e"
    using untrusted_success [of r ?p i x env] assms(2,4-6) by (simp_all add: trusted_url_def)
  have d: "fst (jquery_done env i (Succeeded r) x p) = fst (options_success env i r x ?p)"
    using jquery_done_throws [of env i r x p] u(2) by auto
  have "blocked i (fst (jquery_done env i (Succeeded r) x p))"
    unfolding blocked_def d adds_heap [OF u(1)] using assms(2,3) flag by simp
  moreover have "ajax_inv (fst (jquery_done env i (Succeeded r) x p))"
    using ajax_inv_done [OF assms(1,2)] assms(3) by simp
  ultimately have "blocked i q" unfolding assms(7) by (rule blocked_run)
  then show ?thesis by (simp add: blocked_def eventResponse_def ajax_execute_def)
qed

theorem rejected_response_blocks_object_witness:
  "aj_ajaxing (obj (ajax_run plain_env [Execute 0 None, Trigger 0 None]
     (fst (jquery_done plain_env 0 (Succeeded No_content) ok_xhr busy_page))) 0)"
  using rejected_response_blocks_object [of busy_page 0 No_content ok_xhr _ plain_env "[Execute 0 None, Trigger 0 None]", OF ajax_inv_busy_page]
  by (simp add: busy_page_fields parse_response_def trusted_url_def js_get_def ok_xhr_def)

section \<open>Completed requests\<close>

text \<open>Whether a script left the element disabled, after the history \<open>h\<close>.\<close>

definition disabled_in :: "action list \<Rightarrow> element \<Rightarrow> bool" where
  "disabled_in h x = fold (\<lambda>a b. case a of Set_disabled y v \<Rightarrow> if y = x then v else b | _ \<Rightarrow> b) h False"

lemma fold_quiet:
  "list_all quiet acts \<Longrightarrow> fold (\<lambda>a b. case a of Set_disabled y v \<Rightarrow> if y = x then v else b | _ \<Rightarrow> b) acts b = b"
proof (induction acts)
  case (Cons a acts)
  then show ?case by (cases a) simp_all
qed simp

lemma disabled_in_quiet: "list_all quiet acts \<Longrightarrow> disabled_in (h @ acts) x = disabled_in h x"
  by (simp add: disabled_in_def fold_quiet)

lemma disabled_in_snoc: "disabled_in (h @ [Set_disabled x b]) x = b"
  by (simp add: disabled_in_def)

lemma disabled_in_keeps: "keeps p q \<Longrightarrow> disabled_in (xp_history q) x = disabled_in (xp_history p) x"
  by (auto simp: keeps_def disabled_in_quiet)

definition element_free :: "nat \<Rightarrow> ajax_page \<Rightarrow> bool" where
  "element_free i p \<longleftrightarrow> (\<forall>x. aj_element (obj p i) = Some x \<longrightarrow> \<not> disabled_in (xp_history p) x)"

lemma element_free_enable: "element_free i (enable_element i p)"
  by (auto simp: element_free_def enable_element_def disabled_in_snoc split: option.split)

lemma element_free_keeps: "element_free i p \<Longrightarrow> keeps p q \<Longrightarrow> i < length (xp_heap p) \<Longrightarrow> element_free i q"
  using keeps_core [of p q i] core_eqD(3) [of "obj q i" "obj p i"] by (simp add: element_free_def disabled_in_keeps)

lemma enable_element_heap [simp]: "xp_heap (enable_element i p) = xp_heap p"
  by (simp add: enable_element_def split: option.split)

lemma element_free_ajax_error:
  assumes "i < length (xp_heap p)"
  shows "element_free i (fst (ajax_error env i x m p))"
proof -
  define q where "q = enable_element i (case aj_wrapper (obj p i) of None \<Rightarrow> remove_progress i p | Some w \<Rightarrow> act (Show_wrapper w) (remove_progress i p))"
  have "length (xp_heap q) = length (xp_heap p)"
    using keeps_length [OF keeps_remove_progress [of p i]] by (simp add: q_def split: option.split)
  then have "element_free i (reattach_form env i q)"
    using element_free_keeps [OF _ keeps_reattach_form [of q env i]] assms by (simp add: q_def element_free_enable)
  then show ?thesis by (simp add: ajax_error_def Let_def q_def)
qed

text \<open>
  A request that fails always clears the flag of its object. After an error or a response that cannot be parsed
  the element is enabled and an error is thrown; after any other status (a timeout, an aborted request) nothing
  else happens, so an element that was disabled stays disabled and the indicator stays on the page.
\<close>

theorem failed_request_releases_object:
  assumes "i < length (xp_heap p)" and "jquery_done env i (Failed status) x p = (q, err)"
  shows "\<not> aj_ajaxing (obj q i) \<and> aj_pending (obj q i) = aj_pending (obj p i) - 1 \<and>
    (if status \<in> {''error'', ''parsererror''} then err = Some (AjaxError env x (aj_url (obj p i)) None) \<and> element_free i q
     else err = None \<and> xp_history q = xp_history p)"
proof -
  let ?p = "upd_obj i (\<lambda>a. a\<lparr>aj_ajaxing := False\<rparr>) (upd_obj i (\<lambda>a. a\<lparr>aj_pending := aj_pending a - 1\<rparr>) p)"
  have d: "jquery_done env i (Failed status) x p =
      (if status = ''error'' \<or> status = ''parsererror'' then ajax_error env i x None ?p else (?p, None))"
    by (simp add: jquery_done_def options_complete_def Let_def)
  have c: "changes i False (aj_pending (obj p i) - 1) p ?p"
    by (rule changes_ajaxing [OF assms(1) changes_pending [OF assms(1) changes_refl [OF assms(1) refl refl], where k = "\<lambda>m. m - 1"]]) simp
  have e: "snd (ajax_error env i x None ?p) = Some (AjaxError env x (aj_url (obj p i)) None)"
    using assms(1) by (simp add: ajax_error_def Let_def)
  show ?thesis
  proof (cases "status = ''error'' \<or> status = ''parsererror''")
    case True
    then have q: "ajax_error env i x None ?p = (q, err)" using assms(2) d by simp
    have "changes i False (aj_pending (obj p i) - 1) p q" using changes_ajax_error [OF c, of env x None] q by simp
    moreover have "element_free i q" using element_free_ajax_error [of i ?p env x None] q assms(1) by simp
    moreover have "err = Some (AjaxError env x (aj_url (obj p i)) None)" using e q by simp
    ultimately show ?thesis using True changes_obj(1,2) [OF _ assms(1)] by simp
  next
    case False
    then have "q = ?p" "err = None" using assms(2) d by simp_all
    with False show ?thesis using changes_obj(1,2) [OF c assms(1)] by simp
  qed
qed

theorem failed_request_releases_object_witness:
  "\<not> aj_ajaxing (obj (fst (jquery_done plain_env 0 (Failed ''timeout'') ok_xhr busy_page)) 0) \<and>
   xp_history (fst (jquery_done plain_env 0 (Failed ''timeout'') ok_xhr busy_page)) = []"
  using failed_request_releases_object [of 0 busy_page plain_env "''timeout''" ok_xhr
      "fst (jquery_done plain_env 0 (Failed ''timeout'') ok_xhr busy_page)"
      "snd (jquery_done plain_env 0 (Failed ''timeout'') ok_xhr busy_page)"]
  by (simp add: busy_page_fields)

text \<open>
  A command that does not throw: not one that a script added, its jQuery functions exist, and \<open>focusFirst\<close> has an
  element to fall back on.
\<close>

definition command_ok :: "ajax_env \<Rightarrow> Ajax \<Rightarrow> command \<Rightarrow> bool" where
  "command_ok env a cm \<longleftrightarrow>
     (case cm_command cm of
        None \<Rightarrow> True
      | Some name \<Rightarrow>
          name \<notin> set (aj_commands a) \<and>
          (name = ''insert'' \<longrightarrow> ev_has_method env (js_or_string (cm_method cm) (aj_method a)) \<and>
             ev_has_method env (ef_showEffect (getEffect cm a))) \<and>
          (name = ''invoke'' \<longrightarrow> ev_has_method env (or_default (cm_method cm) ''undefined'')) \<and>
          (name = ''focusFirst'' \<longrightarrow> aj_element a \<noteq> None))"

lemma command_insert_ok:
  assumes "ev_has_method env (js_or_string (cm_method cm) (aj_method (obj p i)))"
    and "ev_has_method env (ef_showEffect (getEffect cm (obj p i)))"
  shows "snd (command_insert env i cm p) = None"
proof -
  have "snd (insert_effects env cm (getEffect cm (obj p i)) q) = None" for q
    using assms(2) by (simp add: insert_effects_def Let_def)
  then show ?thesis using assms(1) by (auto simp: command_insert_def Let_def split: prod.split option.split) (metis option.distinct(1) snd_conv)+
qed

lemma command_focusFirst_ok: "aj_element (obj p i) \<noteq> None \<Longrightarrow> snd (command_focusFirst env i cm p) = None"
  by (auto simp: command_focusFirst_def Let_def split: option.split)

lemma snd_if_None: "(b \<Longrightarrow> snd x = None) \<Longrightarrow> (\<not> b \<Longrightarrow> snd y = None) \<Longrightarrow> snd (if b then x else y) = None"
  by simp

lemma run_command_ok:
  assumes "command_ok env (obj p i) cm" and "cm_command cm = Some name"
  shows "snd (run_command env i name cm p) = None"
  unfolding run_command_def
  by (intro snd_if_None)
    (use assms in \<open>simp_all add: command_ok_def command_insert_ok command_focusFirst_ok command_invoke_def\<close>)

lemma command_ok_core: "core a = core b \<Longrightarrow> command_ok env a cm = command_ok env b cm"
  using core_eqD [of a b] by (simp add: command_ok_def getEffect_def Let_def split: option.split)

lemma command_ok_pending [simp]: "command_ok env (a\<lparr>aj_pending := n\<rparr>) cm = command_ok env a cm"
  by (simp add: command_ok_def getEffect_def Let_def split: option.split)

lemma run_commands_ok:
  assumes "i < length (xp_heap p)" and "list_all (command_ok env (obj p i)) cms" and "keeps p q"
  shows "\<exists>fc'. snd (run_commands env i cms fc q) = Inr fc'"
  using assms(2,3)
proof (induction cms arbitrary: q fc)
  case (Cons cm cms)
  show ?case
  proof (cases "truthy_string (cm_command cm) \<and> has_command (obj q i) (the (cm_command cm))")
    case True
    then obtain name where name: "cm_command cm = Some name" by (auto simp: truthy_string_def)
    have "command_ok env (obj q i) cm"
      using Cons.prems command_ok_core [OF keeps_core [OF Cons.prems(2) assms(1)], of env cm] by simp
    then obtain q1 where q1: "run_command env i name cm q = (q1, None)"
      using run_command_ok [of env q i cm name] name by (metis prod.collapse)
    have "keeps p q1" using keeps_run_command [OF Cons.prems(2), of env i name cm] q1 by simp
    then show ?thesis using Cons.IH [of q1] Cons.prems(1) True name q1 by simp
  next
    case False
    then show ?thesis using Cons by auto
  qed
qed simp

lemma ajax_success_ok:
  assumes i: "i < length (xp_heap p)" and ok: "list_all (command_ok env (obj p i)) cms"
  shows "\<exists>q. ajax_success env i cms p = (q, None) \<and> element_free i q \<and> aj_settings (obj q i) = None"
proof -
  define p1 where "p1 = enable_element i (remove_progress i p)"
  have len: "length (xp_heap p1) = length (xp_heap p)"
    using keeps_length [OF keeps_remove_progress [of p i]] by (simp add: p1_def)
  have obj: "obj p1 i = obj p i"
    by (simp add: p1_def remove_progress_def Let_def split: option.split)
  obtain q2 fc where run: "run_commands env i cms False p1 = (q2, Inr fc)"
    using run_commands_ok [of i p1 env cms p1 False] i len ok obj by (metis keeps_refl prod.collapse)
  define q3 where "q3 = reattach_form env i (if fc then q2 else refocus env (aj_element (obj p i))
      (case aj_element (obj p i) of None \<Rightarrow> [] | Some x \<Rightarrow> ev_parents env (xp_history p1) x) q2)"
  have k: "keeps p1 q3"
    using keeps_run_commands [OF keeps_refl, of p1 env i cms False] run
    by (auto simp: q3_def intro: keeps_trans [OF _ keeps_reattach_form] keeps_refocus)
  have eq: "ajax_success env i cms p = (upd_obj i (\<lambda>a. a\<lparr>aj_settings := None\<rparr>) q3, None)"
    by (simp add: ajax_success_def Let_def p1_def [symmetric] run q3_def)
  have "element_free i p1" by (simp add: p1_def element_free_enable)
  then have "element_free i (upd_obj i (\<lambda>a. a\<lparr>aj_settings := None\<rparr>) q3)"
    using element_free_keeps [OF _ keeps_upd [OF _ k]] i len by simp
  then show ?thesis using eq i len keeps_length [OF k] by simp
qed

text \<open>
  C23. A response that is trusted, carries the token or is \<open>null\<close>, and whose commands do not throw, completes: no error
  is thrown, the flag is cleared, the element of the object is enabled again and the settings kept for the response are gone.
\<close>

theorem completed_response_frees_element:
  assumes "i < length (xp_heap p)" and "parse_response r = Inr parsed"
    and "parsed = Null_response \<or> trusted_url p (aj_url (obj p i)) \<or> xh_token x = Some ''1''"
    and "list_all (command_ok env (obj p i)) (response_commands parsed)"
  shows "\<exists>q. jquery_done env i (Succeeded r) x p = (q, None) \<and> \<not> aj_ajaxing (obj q i) \<and>
    aj_pending (obj q i) = aj_pending (obj p i) - 1 \<and> aj_settings (obj q i) = None \<and> element_free i q"
proof -
  let ?p = "upd_obj i (\<lambda>a. a\<lparr>aj_pending := aj_pending a - 1\<rparr>) p"
  have c: "changes i (aj_ajaxing (obj p i)) (aj_pending (obj p i) - 1) p ?p"
    by (rule changes_pending [OF assms(1) changes_refl [OF assms(1) refl refl], where k = "\<lambda>m. m - 1"]) simp
  have cmds: "list_all (command_ok env (obj ?p i)) (response_commands parsed)"
    using assms(1,4) by (simp add: list_all_iff)
  obtain q where q: "ajax_success env i (response_commands parsed) ?p = (q, None)" "element_free i q" "aj_settings (obj q i) = None"
    using ajax_success_ok [of i ?p env "response_commands parsed"] cmds assms(1) by auto
  have "options_success env i r x ?p = (q, None)"
    using assms(1-3) q(1) by (auto simp: options_success_def trusted_url_def)
  then have fin: "jquery_done env i (Succeeded r) x p = (upd_obj i (\<lambda>a. a\<lparr>aj_ajaxing := False\<rparr>) q, None)"
    by (simp add: jquery_done_def options_complete_def Let_def)
  have cq: "changes i (aj_ajaxing (obj p i)) (aj_pending (obj p i) - 1) p q"
    using changes_ajax_success [OF c, of env "response_commands parsed"] q(1) by simp
  note len = changes_length [OF cq]
  show ?thesis
    by (rule exI [of _ "upd_obj i (\<lambda>a. a\<lparr>aj_ajaxing := False\<rparr>) q"], rule conjI [OF fin])
      (use assms(1) len q(2,3) changes_obj(2) [OF cq assms(1)] in \<open>simp add: element_free_def\<close>)
qed

definition one_command :: "string \<Rightarrow> command" where
  "one_command name = \<lparr>cm_command = Some name, cm_method = None, cm_selector = Some ''#x'', cm_data = ''d'', cm_settings = None,
     cm_effect = None, cm_speed = None, cm_merge = False, cm_old = [], cm_new = []\<rparr>"

theorem completed_response_frees_element_witness:
  "\<exists>q. jquery_done plain_env 0 (Succeeded (Commands [one_command ''insert'', one_command ''focusFirst'']))
      (ok_xhr\<lparr>xh_token := Some ''1''\<rparr>) busy_page = (q, None) \<and> \<not> aj_ajaxing (obj q 0) \<and>
    aj_pending (obj q 0) = aj_pending (obj busy_page 0) - 1 \<and> aj_settings (obj q 0) = None \<and> element_free 0 q"
  by (rule completed_response_frees_element [where parsed = "Commands [one_command ''insert'', one_command ''focusFirst'']"])
    (simp_all add: busy_page_fields parse_response_def response_commands_def command_ok_def one_command_def plain_env_def
      busy_page_def plain_page_def plain_object_def upd_obj_def)

section \<open>Events\<close>

lemma js_get_put: "js_get (js_put k v ob) l = (if l = k then Some v else js_get ob l)"
  by (rule jsobj.get_put)

definition request_marks :: "ajax_page_state \<Rightarrow> string jsobj \<Rightarrow> bool" where
  "request_marks st data \<longleftrightarrow>
     js_get data ''_drupal_ajax'' = Some ''1'' \<and> js_get data ''ajax_page_state[theme]'' = Some (ps_theme st) \<and>
     js_get data ''ajax_page_state[theme_token]'' = Some (ps_theme_token st) \<and>
     js_get data ''ajax_page_state[libraries]'' = Some (ps_libraries st)"

lemma marks_put:
  "request_marks st (js_put ''ajax_page_state[libraries]'' (ps_libraries st)
     (js_put ''ajax_page_state[theme_token]'' (ps_theme_token st)
       (js_put ''ajax_page_state[theme]'' (ps_theme st) (js_put ''_drupal_ajax'' ''1'' data))))"
  unfolding request_marks_def js_get_put by simp

lemma beforeSerialize_ok:
  assumes "xp_pageState p = Some st" and "i < length (xp_heap p)"
  shows "\<exists>data' p1. beforeSerialize env i data p = (data', None, p1) \<and> request_marks st data' \<and> keeps p p1"
proof -
  define p1 where "p1 = (case aj_form (obj p i) of None \<Rightarrow> p
     | Some form \<Rightarrow> if ev_contains env (xp_history p) form
         then act (Detach_behaviors (Some form) (aj_settings (obj p i)) ''serialize'') p else p)"
  have st: "xp_pageState p1 = Some st" and k: "keeps p p1"
    using assms(1) by (auto simp: p1_def intro: keeps_act split: option.split)
  show ?thesis
    unfolding beforeSerialize_def Let_def p1_def [symmetric] using st k marks_put by simp
qed

lemma beforeSend_history:
  assumes "i < length (xp_heap p)"
  shows "\<exists>acts. xp_history (beforeSend i p) =
      xp_history p @ (case aj_element (obj p i) of None \<Rightarrow> [] | Some x \<Rightarrow> [Set_disabled x True]) @ acts \<and> list_all quiet acts"
  using assms by (auto simp: beforeSend_def Let_def show_progress_def split: option.split)

lemma jquery_ajax_sends:
  assumes i: "i < length (xp_heap p)" and k: "keeps p q"
    and r: "jquery_ajax env i data None (upd_obj i f q) = r" and f: "\<And>a. core (f a) = (core a)\<lparr>aj_ajaxing := b a\<rparr>"
  shows "snd r = None \<and> (\<exists>before extra. xp_history (fst r) = xp_history p @ before @ [Send_request (aj_options_url (obj p i)) data extra] \<and>
    (\<forall>u d e. Send_request u d e \<notin> set before)) \<and> aj_ajaxing (obj (fst r) i) \<and>
    (\<forall>x. aj_element (obj p i) = Some x \<longrightarrow> disabled_in (xp_history (fst r)) x)"
proof -
  define q0 where "q0 = upd_obj i f q"
  define q1 where "q1 = upd_obj i (\<lambda>a. a\<lparr>aj_ajaxing := True\<rparr>) q0"
  have len: "length (xp_heap q) = length (xp_heap p)" "length (xp_heap q1) = length (xp_heap p)"
    using keeps_length [OF k] by (simp_all add: q0_def q1_def)
  have o: "obj q0 i = f (obj q i)" using i len by (simp add: q0_def)
  have c: "core (obj q1 i) = (core (obj p i))\<lparr>aj_ajaxing := True\<rparr>"
    using i len o f keeps_core [OF k i] by (simp add: q1_def q0_def)
  have el: "aj_element (obj q1 i) = aj_element (obj p i)" "aj_options_url (obj q0 i) = aj_options_url (obj p i)" "aj_ajaxing (obj q1 i)"
    using arg_cong [OF c, of aj_element] arg_cong [OF c, of aj_ajaxing] arg_cong [OF c, of aj_options_url] i len
    by (simp_all add: q1_def q0_def)
  obtain pre where pre: "xp_history q1 = xp_history p @ pre" "list_all quiet pre"
    using k by (auto simp: keeps_def q1_def q0_def)
  obtain acts where acts: "xp_history (beforeSend i q1) =
      xp_history q1 @ (case aj_element (obj q1 i) of None \<Rightarrow> [] | Some x \<Rightarrow> [Set_disabled x True]) @ acts" "list_all quiet acts"
    using beforeSend_history [of i q1] i len by auto
  have cb: "changes i True (aj_pending (obj q1 i)) q1 (beforeSend i q1)"
    using changes_beforeSend [OF changes_refl [of i q1 True]] el(3) i len by simp
  have res: "r = (act (Send_request (aj_options_url (obj q0 i)) data (extra_data env (obj q0 i)))
      (upd_obj i (\<lambda>a. a\<lparr>aj_pending := aj_pending a + 1\<rparr>) (beforeSend i q1)), None)"
    using r by (simp add: jquery_ajax_def Let_def q0_def [symmetric] q1_def [symmetric])
  define before where "before = pre @ (case aj_element (obj p i) of None \<Rightarrow> [] | Some x \<Rightarrow> [Set_disabled x True]) @ acts"
  have h: "xp_history (fst r) = xp_history p @ before @ [Send_request (aj_options_url (obj p i)) data (extra_data env (obj q0 i))]"
    using pre(1) acts(1) el(1,2) by (simp add: res before_def)
  have none: "Send_request u d e \<notin> set before" for u d e
    using pre(2) acts(2) unfolding before_def list_all_iff by (auto split: option.splits dest: bspec)
  have flag: "aj_ajaxing (obj (fst r) i)"
    using changes_obj(1) [OF cb] changes_length [OF cb] i len by (simp add: res)
  have dis: "disabled_in (xp_history (fst r)) x" if "aj_element (obj p i) = Some x" for x
    using that acts(2) unfolding h before_def disabled_in_def by (simp add: fold_quiet)
  show ?thesis using h none flag dis by (auto simp: res)
qed

text \<open>
  C20. The handler bound to an element either throws, when the address is neither trusted nor local, and changes
  nothing; or ignores the event, while a request is under way; or starts exactly one request, for the address of the
  object, whose data mark it as an Ajax request and name the theme and the libraries of the page, with the object
  marked as busy and its element disabled.
\<close>

theorem event_sends_one_marked_request:
  assumes "i < length (xp_heap p)" and "xp_pageState p = Some st" and "ajax_handle_event env i None p = (q, err)"
  shows "if \<not> trusted_url p (aj_url (obj p i)) \<and> \<not> local_url env (aj_url (obj p i)) then q = p \<and> err \<noteq> None
    else if aj_ajaxing (obj p i) then q = p \<and> err = None
    else err = None \<and> aj_ajaxing (obj q i) \<and> (\<forall>x. aj_element (obj p i) = Some x \<longrightarrow> disabled_in (xp_history q) x) \<and>
      (\<exists>before data extra. xp_history q = xp_history p @ before @ [Send_request (aj_options_url (obj p i)) data extra] \<and>
         request_marks st data \<and> (\<forall>u d e. Send_request u d e \<notin> set before))"
proof (cases "\<not> trusted_url p (aj_url (obj p i)) \<and> \<not> local_url env (aj_url (obj p i)) \<or> aj_ajaxing (obj p i)")
  case True
  then show ?thesis using assms(3) by (auto simp: ajax_handle_event_def eventResponse_def Let_def split: sum.splits if_splits)
next
  case False
  then have q: "q = caught i (if aj_form (obj p i) \<noteq> None then send_form env i None p else send_plain env i None p)" "err = None"
    using assms(3) by (auto simp: ajax_handle_event_def eventResponse_def Let_def)
  have "\<exists>data p1 f b. (if aj_form (obj p i) \<noteq> None then send_form env i None p else send_plain env i None p) =
      jquery_ajax env i data None (upd_obj i f p1) \<and> keeps p p1 \<and> request_marks st data \<and>
      (\<forall>a. core (f a) = (core a)\<lparr>aj_ajaxing := b a\<rparr>)"
  proof (cases "aj_form (obj p i)")
    case None
    obtain data p1 where b: "beforeSerialize env i (aj_options_data (obj p i)) p = (data, None, p1)" "request_marks st data" "keeps p p1"
      using beforeSerialize_ok [OF assms(2,1)] by blast
    have "core (a\<lparr>aj_options_data := data\<rparr>) = (core a)\<lparr>aj_ajaxing := aj_ajaxing a\<rparr>" for a
      by (cases a) (simp add: core_def)
    then show ?thesis using b None
      by (intro exI [of _ data] exI [of _ p1] exI [of _ "\<lambda>a. a\<lparr>aj_options_data := data\<rparr>"] exI [of _ aj_ajaxing])
        (simp add: send_plain_def)
  next
    case (Some form)
    define p0 where "p0 = (case aj_element (obj p i) of Some x \<Rightarrow> if aj_setClick (obj p i) then act (Set_clicked x) p else p | None \<Rightarrow> p)"
    have p0: "keeps p p0" "xp_pageState p0 = Some st" "xp_heap p0 = xp_heap p"
      using assms(2) by (auto simp: p0_def intro: keeps_act split: option.split)
    obtain data p1 where b: "beforeSerialize env i (aj_options_data (obj p i)) p0 = (data, None, p1)" "request_marks st data" "keeps p0 p1"
      using beforeSerialize_ok [OF p0(2)] assms(1) p0(3) by metis
    have "send_form env i None p = jquery_ajax env i data None (upd_obj i (\<lambda>a. a\<lparr>aj_ajaxing := True\<rparr>) p1)"
      unfolding send_form_def Let_def p0_def [symmetric] b(1) by simp
    then show ?thesis using b(2) keeps_trans [OF p0(1) b(3)] Some
      by (intro exI [of _ data] exI [of _ p1] exI [of _ "\<lambda>a. a\<lparr>aj_ajaxing := True\<rparr>"] exI [of _ "\<lambda>a. True"]) simp
  qed
  then obtain data p1 f b where r: "(if aj_form (obj p i) \<noteq> None then send_form env i None p else send_plain env i None p) =
      jquery_ajax env i data None (upd_obj i f p1)" "keeps p p1" "request_marks st data"
      "\<And>a. core (f a) = (core a)\<lparr>aj_ajaxing := b a\<rparr>" by blast
  note sends = jquery_ajax_sends [OF assms(1) r(2) refl r(4), of env data]
  have "q = fst (jquery_ajax env i data None (upd_obj i f p1))"
    using sends unfolding q(1) r(1) by (cases "jquery_ajax env i data None (upd_obj i f p1)") (simp add: caught_def)
  then show ?thesis using sends r(3) False q(2) by auto
qed

definition trusting_page :: ajax_page where
  "trusting_page = plain_page\<lparr>xp_trusted := [(''/a'', True)]\<rparr>"

lemma trusting_page_fields:
  "length (xp_heap trusting_page) = 2" "aj_url (obj trusting_page 0) = ''/a''" "trusted_url trusting_page ''/a''"
  "\<not> aj_ajaxing (obj trusting_page 0)" "aj_element (obj trusting_page 0) = Some 7"
  "xp_pageState trusting_page = Some \<lparr>ps_theme = ''t'', ps_theme_token = ''k'', ps_libraries = ''l''\<rparr>"
  by (simp_all add: trusting_page_def plain_page_def plain_object_def trusted_url_def js_get_def)

theorem event_sends_one_marked_request_witness:
  "snd (ajax_handle_event plain_env 0 None trusting_page) = None \<and>
   aj_ajaxing (obj (fst (ajax_handle_event plain_env 0 None trusting_page)) 0) \<and>
   disabled_in (xp_history (fst (ajax_handle_event plain_env 0 None trusting_page))) 7"
proof -
  have "0 < length (xp_heap trusting_page)" by (simp add: trusting_page_fields)
  from event_sends_one_marked_request [OF this trusting_page_fields(6) prod.collapse [symmetric]]
  show ?thesis by (simp add: trusting_page_fields)
qed

section \<open>Inserting content\<close>

lemma insert_effects_adds:
  "snd (insert_effects env cm ef p) = None \<Longrightarrow>
   adds (\<lambda>c. \<exists>e s. c = Content_effect e s) p (fst (insert_effects env cm ef p))"
  by (auto simp: insert_effects_def Let_def intro!: adds_act split: if_splits)

lemma attach_each:
  "(act c ^^ n) p = p\<lparr>xp_history := xp_history p @ replicate n c\<rparr>"
  by (induction n) (simp_all add: act_def replicate_append_same)

text \<open>
  The insert command, when the jQuery functions it needs exist, takes these steps and no others: it detaches the
  behaviors of the wrapper if the method replaces content; inserts the content; applies effects to it; and attaches
  behaviors to each new element if the content has reached the page. Detaching comes before the old content goes and
  attaching after the new has come.
\<close>

theorem insert_detaches_then_attaches:
  assumes "ev_has_method env (js_or_string (cm_method cm) (aj_method (obj p i)))"
    and "ev_has_method env (ef_showEffect (getEffect cm (obj p i)))"
  shows "\<exists>detach insert effects attach.
    command_insert env i cm p = (p\<lparr>xp_history := xp_history p @ detach @ [insert] @ effects @ attach\<rparr>, None) \<and>
    (if replacing_method (js_or_string (cm_method cm) (aj_method (obj p i)))
     then \<exists>w. detach = [Detach_behaviors w (used_settings cm (obj p i)) ''unload''] else detach = []) \<and>
    (\<exists>content. insert = Insert_content (or_default (insert_wrapper cm (obj p i)) [])
       (js_or_string (cm_method cm) (aj_method (obj p i))) content) \<and>
    (\<forall>c \<in> set effects. \<exists>e s. c = Content_effect e s) \<and>
    attach = (if ev_content_in_page env (xp_history p @ detach @ [insert] @ effects)
      then replicate (element_roots env cm (obj p i)) (Attach_content (used_settings cm (obj p i))) else [])"
proof -
  define detach where "detach = (if replacing_method (js_or_string (cm_method cm) (aj_method (obj p i)))
    then [Detach_behaviors (first_element (case insert_wrapper cm (obj p i) of None \<Rightarrow> [] | Some w \<Rightarrow> ev_select env (xp_history p) w))
      (used_settings cm (obj p i)) ''unload''] else [])"
  define content where "content = (if wraps_content env cm (obj p i) then ''<div>'' @ cm_data cm @ ''</div>'' else cm_data cm)"
  define insert where "insert = Insert_content (or_default (insert_wrapper cm (obj p i)) [])
    (js_or_string (cm_method cm) (aj_method (obj p i))) content"
  define p2 where "p2 = p\<lparr>xp_history := xp_history p @ detach @ [insert]\<rparr>"
  have d: "insert_detach env cm (obj p i) p = p\<lparr>xp_history := xp_history p @ detach\<rparr>"
    by (simp add: insert_detach_def Let_def detach_def act_def)
  have p2: "act insert (p\<lparr>xp_history := xp_history p @ detach\<rparr>) = p2" by (simp add: act_def p2_def)
  have none: "snd (insert_effects env cm (getEffect cm (obj p i)) p2) = None"
    using assms(2) by (simp add: insert_effects_def Let_def)
  obtain effects where e: "insert_effects env cm (getEffect cm (obj p i)) p2 = (p2\<lparr>xp_history := xp_history p2 @ effects\<rparr>, None)"
    "list_all (\<lambda>c. \<exists>e s. c = Content_effect e s) effects"
    using insert_effects_adds [OF none] none unfolding adds_def by (metis prod.collapse)
  define attach where "attach = (if ev_content_in_page env (xp_history p @ detach @ [insert] @ effects)
    then replicate (element_roots env cm (obj p i)) (Attach_content (used_settings cm (obj p i))) else [])"
  have "command_insert env i cm p = (p\<lparr>xp_history := xp_history p @ detach @ [insert] @ effects @ attach\<rparr>, None)"
    unfolding command_insert_def Let_def d content_def [symmetric] insert_def [symmetric] p2 e(1)
    using assms(1) by (simp add: attach_each attach_def p2_def)
  moreover have "\<exists>content. insert = Insert_content (or_default (insert_wrapper cm (obj p i)) [])
       (js_or_string (cm_method cm) (aj_method (obj p i))) content" by (auto simp: insert_def)
  ultimately show ?thesis
    using e(2) by (intro exI [of _ detach] exI [of _ insert] exI [of _ effects] exI [of _ attach] conjI)
      (simp_all add: detach_def attach_def list_all_iff)
qed

theorem insert_detaches_then_attaches_witness:
  "\<exists>w content rest. command_insert plain_env 0 (one_command ''insert'') plain_page =
    (plain_page\<lparr>xp_history := [Detach_behaviors w None ''unload'', Insert_content ''#x'' ''replaceWith'' content] @ rest\<rparr>, None)"
proof -
  have f: "js_or_string (cm_method (one_command ''insert'')) (aj_method (obj plain_page 0)) = ''replaceWith''"
    "used_settings (one_command ''insert'') (obj plain_page 0) = None" "xp_history plain_page = []"
    "or_default (insert_wrapper (one_command ''insert'') (obj plain_page 0)) [] = ''#x''"
    "replacing_method ''replaceWith''" "\<And>m. ev_has_method plain_env m"
    by (simp_all add: one_command_def js_or_string_def truthy_string_def plain_page_def plain_object_def used_settings_def
        insert_wrapper_def or_default_def replacing_method_def plain_env_def)
  obtain detach insert effects attach content where
    c: "command_insert plain_env 0 (one_command ''insert'') plain_page =
      (plain_page\<lparr>xp_history := [] @ detach @ [insert] @ effects @ attach\<rparr>, None)"
    and w: "if replacing_method ''replaceWith'' then \<exists>w. detach = [Detach_behaviors w None ''unload''] else detach = []"
    and k: "insert = Insert_content ''#x'' ''replaceWith'' content"
    using insert_detaches_then_attaches [of plain_env "one_command ''insert''" plain_page 0, OF f(6) f(6)]
    unfolding f(1-4) by (elim exE conjE) (rule that; assumption)
  from w obtain w where d: "detach = [Detach_behaviors w None ''unload'']" using f(5) by auto
  show ?thesis
    by (intro exI [of _ w] exI [of _ content] exI [of _ "effects @ attach"]) (simp add: c d k)
qed

section \<open>Objects of elements that are gone\<close>

text \<open>
  When behaviors are detached because content is unloaded, an instance becomes \<open>null\<close> exactly if it has an element
  that is no longer in the document; the other instances stay as they are, and no instance moves to another index.
  This holds in every state that a page reaches.
\<close>

theorem unload_drops_expired_instances:
  assumes "xp_heap p0 = []" and "xp_instances p0 = []" and "p = ajax_run env ops p0" and "k < length (xp_instances p)"
  shows "length (xp_instances (AJAX_detach env ''unload'' p)) = length (xp_instances p) \<and>
    xp_instances (AJAX_detach env ''unload'' p) ! k =
     (case xp_instances p ! k of
        None \<Rightarrow> None
      | Some j \<Rightarrow> if is_expired env p (obj p j) then None else Some j)"
proof -
  have agree: "instances_agree p"
    using ajax_inv_run [OF ajax_inv_blank [OF assms(1,2)], of env ops] assms(3) by (simp add: ajax_inv_def)
  have "k \<in> aj_instanceIndex ` set (expired env p) \<longleftrightarrow> (\<exists>j. xp_instances p ! k = Some j \<and> is_expired env p (obj p j))"
  proof
    assume "k \<in> aj_instanceIndex ` set (expired env p)"
    then obtain j where j: "Some j \<in> set (xp_instances p)" "is_expired env p (obj p j)" "aj_instanceIndex (obj p j) = k"
      by (auto simp: expired_def map_filter_def)
    then obtain l where l: "l < length (xp_instances p)" "xp_instances p ! l = Some j" by (metis in_set_conv_nth)
    with agree j(3) have "l = k" by (auto simp: instances_agree_def)
    with l j(2) show "\<exists>j. xp_instances p ! k = Some j \<and> is_expired env p (obj p j)" by auto
  next
    assume "\<exists>j. xp_instances p ! k = Some j \<and> is_expired env p (obj p j)"
    then obtain j where j: "xp_instances p ! k = Some j" "is_expired env p (obj p j)" by blast
    then have "aj_instanceIndex (obj p j) = k" using agree assms(4) by (auto simp: instances_agree_def)
    moreover have "obj p j \<in> set (expired env p)"
      using j assms(4) nth_mem [OF assms(4)] by (auto simp: expired_def map_filter_def intro!: image_eqI)
    ultimately show "k \<in> aj_instanceIndex ` set (expired env p)" by blast
  qed
  then show ?thesis
    using AJAX_detach_nth [OF assms(4), of env "''unload''"] by (auto simp: AJAX_detach_fields split: option.split)
qed

theorem unload_drops_expired_instances_witness:
  "xp_instances (AJAX_detach plain_env ''unload'' (ajax_run plain_env [Create (script_settings\<lparr>es_element := Some 9\<rparr>) no_info] blank_page)) ! 0 = None"
proof -
  let ?p = "ajax_run plain_env [Create (script_settings\<lparr>es_element := Some 9\<rparr>) no_info] blank_page"
  have p: "xp_instances ?p = [Some 0]" "aj_element (obj ?p 0) = Some 9"
    by (simp_all add: ajax_step_def Drupal_ajax_def script_settings_def new_Ajax_def given_url_def truthy_string_def blank_page_def
      trusted_url_def js_get_def Let_def)
  have b: "xp_heap blank_page = []" "xp_instances blank_page = []" by (simp_all add: blank_page_def)
  have "is_expired plain_env ?p (obj ?p 0)" unfolding is_expired_def p(2) by (simp add: plain_env_def)
  then show ?thesis using unload_drops_expired_instances [OF b refl, of 0 plain_env "[Create (script_settings\<lparr>es_element := Some 9\<rparr>) no_info]"] p
    by simp
qed

end
