(* ===== verification/Ckeditor_Toolbar.thy ===== *)
theory Ckeditor_Toolbar
  imports Filter_Html "HOL-Library.Multiset"
begin

text \<open>
  The toolbar configuration of CKEditor (\<open>core/modules/ckeditor/js\<close>): the rows and groups of buttons that the user
  arranges with the keyboard (\<open>views/KeyboardView.es6.js\<close>) or by dragging (\<open>views/VisualView.es6.js\<close>), the
  configuration read from them and the features that are announced to the filters (\<open>views/ControllerView.es6.js\<close>,
  \<open>ckeditor.admin.es6.js\<close>).

  The document is the state: a row is the list of the children of its \<open>ckeditor-toolbar-groups\<close> element, which are
  groups and the button that adds a group. The textarea holds the JSON text of a configuration and is modelled by
  the configuration. The listeners of \<open>change:isDirty\<close> run as soon as the flag is set and leave it cleared, so the
  flag is not part of the state. Names that objects inherit from \<open>Object.prototype\<close> are not names of buttons.
\<close>

section \<open>State\<close>

text \<open>Elements \<open>li.ckeditor-button\<close>, \<open>li.ckeditor-multiple-button\<close>, and those of the latter that are separators.\<close>

datatype button_kind = Single | Multiple | Separator

record ck_button =
  bt_name :: string
  bt_kind :: button_kind

record tb_group =
  gp_placeholder :: bool
  gp_name :: "string option"
  gp_buttons :: "ck_button list"

datatype toolbar_item = Group_item tb_group | Add_item

record tb_row =
  tr_placeholder :: bool
  tr_items :: "toolbar_item list"

type_synonym ck_config = "(string option \<times> string list) list list"

datatype feature_event = Feature_added feature | Feature_removed feature | Feature_modified feature

record ck_toolbar =
  kt_rows :: "tb_row list"
  kt_available :: "ck_button list"
  kt_dividers :: "ck_button list"
  kt_config :: ck_config
  kt_textarea :: ck_config
  kt_features :: "feature jsobj"
  kt_buttonsToFeatures :: "string jsobj"
  kt_log :: "feature_event list"

fun item_group :: "toolbar_item \<Rightarrow> tb_group option" where
  "item_group (Group_item g) = Some g"
| "item_group Add_item = None"

definition groups_of :: "tb_row \<Rightarrow> tb_group list" where
  "groups_of row = List.map_filter item_group (tr_items row)"

section \<open>Reading the configuration\<close>

definition config_group :: "tb_group \<Rightarrow> (string option \<times> string list) option" where
  "config_group g =
     (if list_ex (\<lambda>b. bt_kind b = Single) (gp_buttons g) then Some (gp_name g, map bt_name (gp_buttons g)) else None)"

definition config_of :: "tb_row list \<Rightarrow> ck_config" where
  "config_of rows = filter (\<lambda>groups. groups \<noteq> []) (map (\<lambda>row. List.map_filter config_group (groups_of row)) rows)"

definition getButtonList :: "ck_config \<Rightarrow> string list" where
  "getButtonList config = filter (\<lambda>b. b \<noteq> ''-'') (concat (map snd (concat config)))"

text \<open>\<open>_.difference(_.union(prev, next), _.intersection(prev, next))[0]\<close>\<close>

definition changed_button :: "string list \<Rightarrow> string list \<Rightarrow> string option" where
  "changed_button prev next =
     (case filter (\<lambda>b. \<not> (b \<in> set prev \<and> b \<in> set next)) (first_of_each (prev @ next)) of [] \<Rightarrow> None | b # _ \<Rightarrow> Some b)"

section \<open>The features of the editor\<close>

text \<open>
  Rules of the content filter of a hidden editor, which has all features enabled. The keys of a property that is not
  an object are \<open>None\<close>.
\<close>

record cke_rule =
  cr_featureName :: "string option"
  cr_propertiesOnly :: bool
  cr_elements :: "string list option"
  cr_requiredAttributes :: "string list option"
  cr_attributes :: "string list option"
  cr_requiredStyles :: "string list option"
  cr_styles :: "string list option"
  cr_requiredClasses :: "string list option"
  cr_classes :: "string list option"

definition getProperties :: "string list option \<Rightarrow> string list" where
  "getProperties ps = (case ps of None \<Rightarrow> [] | Some ks \<Rightarrow> ks)"

definition convert_rule :: "cke_rule \<Rightarrow> feature_rule" where
  "convert_rule r =
     \<lparr>required = \<lparr>attributes = getProperties (cr_requiredAttributes r), styles = getProperties (cr_requiredStyles r),
        classes = getProperties (cr_requiredClasses r), tags = (if cr_propertiesOnly r then [] else getProperties (cr_elements r))\<rparr>,
      allowed = \<lparr>attributes = getProperties (cr_attributes r), styles = getProperties (cr_styles r),
        classes = getProperties (cr_classes r), tags = getProperties (cr_elements r)\<rparr>\<rparr>"

definition convertCKERulesToEditorFeature :: "feature \<Rightarrow> cke_rule list \<Rightarrow> feature" where
  "convertCKERulesToEditorFeature f rs = fold (\<lambda>r. EditorFeature_addHTMLRule (convert_rule r)) rs f"

definition rule_feature :: "cke_rule \<Rightarrow> string" where
  "rule_feature r = (case cr_featureName r of None \<Rightarrow> '':('' | Some n \<Rightarrow> if n = [] then '':('' else n)"

definition feature_rules_map :: "cke_rule list \<Rightarrow> cke_rule list jsobj" where
  "feature_rules_map rs =
     fold (\<lambda>r m. js_put (rule_feature r) ((case js_get m (rule_feature r) of None \<Rightarrow> [] | Some rs \<Rightarrow> rs) @ [r]) m) rs []"

text \<open>The second argument gives the names of the user interface items of a command, if there is one.\<close>

fun collect_features ::
    "(string \<Rightarrow> string list option) \<Rightarrow> cke_rule list jsobj \<Rightarrow> feature jsobj \<Rightarrow> string jsobj \<Rightarrow> (feature jsobj \<times> string jsobj) js" where
  "collect_features command [] features b2f = Inr (features, b2f)"
| "collect_features command ((n, rs) # m) features b2f =
     (let features1 = js_put n (convertCKERulesToEditorFeature (EditorFeature n) rs) features
      in case command n of
           None \<Rightarrow> collect_features command m features1 b2f
         | Some [] \<Rightarrow> Inl TypeError
         | Some (u # us) \<Rightarrow> collect_features command m features1 (js_put u n b2f))"

definition getCKEditorFeatures :: "(string \<Rightarrow> string list option) \<Rightarrow> cke_rule list \<Rightarrow> (feature jsobj \<times> string jsobj) js" where
  "getCKEditorFeatures command rs = collect_features command (feature_rules_map rs) [] []"

section \<open>Features of buttons\<close>

text \<open>An index that is missing or empty in \<open>buttonsToFeatures\<close> gives the lower-case name of the button.\<close>

definition featureName :: "string jsobj \<Rightarrow> string \<Rightarrow> string" where
  "featureName b2f button =
     (case js_get b2f (toLowerCase button) of
        None \<Rightarrow> toLowerCase button
      | Some n \<Rightarrow> if n = [] then toLowerCase button else n)"

text \<open>\<open>None\<close> as an argument is \<open>undefined\<close>, as a result \<open>false\<close>.\<close>

definition getFeatureForButton :: "string option \<Rightarrow> ck_toolbar \<Rightarrow> (feature option \<times> ck_toolbar) js" where
  "getFeatureForButton button s =
     (case button of
        None \<Rightarrow> Inl TypeError
      | Some b \<Rightarrow>
          if b = ''-'' then Inr (None, s)
          else (let n = featureName (kt_buttonsToFeatures s) b
                in case js_get (kt_features s) n of
                     Some f \<Rightarrow> Inr (Some f, s)
                   | None \<Rightarrow> Inr (Some (EditorFeature n), s\<lparr>kt_features := js_put n (EditorFeature n) (kt_features s)\<rparr>)))"

text \<open>The handler of \<open>CKEditorToolbarChanged\<close>; the events of the document are logged.\<close>

definition toolbar_changed :: "bool \<Rightarrow> string option \<Rightarrow> ck_toolbar \<Rightarrow> ck_toolbar js" where
  "toolbar_changed added button s =
     (case getFeatureForButton button s of
        Inl e \<Rightarrow> Inl e
      | Inr (None, s1) \<Rightarrow> Inr s1
      | Inr (Some f, s1) \<Rightarrow> Inr (s1\<lparr>kt_log := kt_log s1 @ [if added then Feature_added f else Feature_removed f]\<rparr>))"

section \<open>Drawing\<close>

definition open_groups :: "tb_row \<Rightarrow> tb_group list" where
  "open_groups row = filter (\<lambda>g. \<not> gp_placeholder g) (groups_of row)"

definition ckeditorRow :: tb_row where
  "ckeditorRow = \<lparr>tr_placeholder = True, tr_items = []\<rparr>"

definition insertPlaceholderRow :: "tb_row list \<Rightarrow> tb_row list" where
  "insertPlaceholderRow rows =
     (let rows1 = (if rows \<noteq> [] \<and> tr_placeholder (last rows) then rows else rows @ [ckeditorRow])
      in filter (\<lambda>row. open_groups row \<noteq> []) (butlast rows1) @ [last rows1])"

definition insertNewGroupButtons :: "tb_row list \<Rightarrow> tb_row list" where
  "insertNewGroupButtons = map (\<lambda>row. row\<lparr>tr_items := filter (\<lambda>it. it \<noteq> Add_item) (tr_items row) @ [Add_item]\<rparr>)"

definition insertPlaceholders :: "tb_row list \<Rightarrow> tb_row list" where
  "insertPlaceholders rows = insertNewGroupButtons (insertPlaceholderRow rows)"

section \<open>The flag isDirty\<close>

text \<open>
  \<open>model.set('isDirty', true)\<close>: the configuration is read from the document and written to the textarea if it is a
  new one, the views are drawn, and the button that came or went is announced.
\<close>

definition set_isDirty :: "bool \<Rightarrow> ck_toolbar \<Rightarrow> ck_toolbar js" where
  "set_isDirty broadcast s =
     (let prev = getButtonList (kt_config s);
          rows = config_of (kt_rows s);
          nxt = getButtonList rows;
          s1 = s\<lparr>kt_config := rows, kt_textarea := (if rows \<noteq> kt_config s then rows else kt_textarea s),
                 kt_rows := insertPlaceholders (kt_rows s)\<rparr>
      in if broadcast \<and> length prev \<noteq> length nxt
         then toolbar_changed (length prev < length nxt) (changed_button prev nxt) s1
         else Inr s1)"

section \<open>Starting\<close>

text \<open>
  \<open>disableFeaturesDisallowedByFilters\<close>: the decision of the filters is an argument. Buttons of a disallowed feature
  move to the available ones.
\<close>

definition with_buttons :: "(ck_button list \<Rightarrow> ck_button list) \<Rightarrow> tb_row list \<Rightarrow> tb_row list" where
  "with_buttons f = map (\<lambda>row. row\<lparr>tr_items := map (\<lambda>it. case it of Group_item g \<Rightarrow> Group_item (g\<lparr>gp_buttons := f (gp_buttons g)\<rparr>) | Add_item \<Rightarrow> Add_item) (tr_items row)\<rparr>)"

definition all_buttons :: "tb_row list \<Rightarrow> ck_button list" where
  "all_buttons rows = concat (map gp_buttons (concat (map groups_of rows)))"

definition disable_button :: "string \<Rightarrow> ck_toolbar \<Rightarrow> ck_toolbar" where
  "disable_button b s =
     s\<lparr>kt_rows := with_buttons (filter (\<lambda>x. bt_name x \<noteq> b)) (kt_rows s),
       kt_available := kt_available s @ filter (\<lambda>x. bt_name x = b) (all_buttons (kt_rows s))\<rparr>"

fun check_buttons :: "(feature \<Rightarrow> bool js) \<Rightarrow> string list \<Rightarrow> ck_toolbar \<Rightarrow> ck_toolbar js" where
  "check_buttons is_allowed [] s = Inr s"
| "check_buttons is_allowed (b # bs) s =
     (case getFeatureForButton (Some b) s of
        Inl e \<Rightarrow> Inl e
      | Inr (None, s1) \<Rightarrow> check_buttons is_allowed bs s1
      | Inr (Some f, s1) \<Rightarrow>
          (case is_allowed f of
             Inl e \<Rightarrow> Inl e
           | Inr ok \<Rightarrow>
               (case (if ok then toolbar_changed True (Some b) s1 else set_isDirty False (disable_button b s1)) of
                  Inl e \<Rightarrow> Inl e
                | Inr s2 \<Rightarrow> check_buttons is_allowed bs s2)))"

definition disableFeaturesDisallowedByFilters ::
    "(feature \<Rightarrow> bool js) \<Rightarrow> feature jsobj \<Rightarrow> string jsobj \<Rightarrow> ck_toolbar \<Rightarrow> ck_toolbar js" where
  "disableFeaturesDisallowedByFilters is_allowed features b2f s =
     (let s1 = s\<lparr>kt_features := features, kt_buttonsToFeatures := b2f\<rparr>
      in check_buttons is_allowed (first_of_each (concat (map snd (concat (kt_config s1))))) s1)"

definition ckeditor_start ::
    "(feature \<Rightarrow> bool js) \<Rightarrow> (string \<Rightarrow> string list option) \<Rightarrow> cke_rule list \<Rightarrow> ck_toolbar \<Rightarrow> ck_toolbar js" where
  "ckeditor_start is_allowed command rs s =
     (case getCKEditorFeatures command rs of
        Inl e \<Rightarrow> Inl e
      | Inr (features, b2f) \<Rightarrow> disableFeaturesDisallowedByFilters is_allowed features b2f s)"

text \<open>
  Settings of a plugin changed: features with other rules are announced as modified, \<open>raw_changed\<close> says which differ
  in the raw data of their rules, which the model leaves out.
\<close>

definition settings_changed :: "(string \<Rightarrow> bool) \<Rightarrow> feature jsobj \<Rightarrow> ck_toolbar \<Rightarrow> ck_toolbar" where
  "settings_changed raw_changed features s =
     s\<lparr>kt_log := kt_log s @ map (\<lambda>(n, f). Feature_modified f)
         (filter (\<lambda>(n, f). js_get (kt_features s) n \<noteq> None \<and> (js_get (kt_features s) n \<noteq> Some f \<or> raw_changed n)) features),
       kt_features := features\<rparr>"

text \<open>The editor is turned off: every button counts as removed.\<close>

fun remove_all :: "string list \<Rightarrow> ck_toolbar \<Rightarrow> ck_toolbar js" where
  "remove_all [] s = Inr s"
| "remove_all (b # bs) s = (case toolbar_changed False (Some b) s of Inl e \<Rightarrow> Inl e | Inr s1 \<Rightarrow> remove_all bs s1)"

definition ckeditorAdmin_detach :: "string \<Rightarrow> ck_toolbar \<Rightarrow> ck_toolbar js" where
  "ckeditorAdmin_detach trigger s = (if trigger \<noteq> ''unload'' then Inr s else remove_all (getButtonList (kt_config s)) s)"

section \<open>Moving buttons\<close>

datatype button_place = In_group nat nat nat | In_available nat | In_dividers nat

definition upd_group :: "nat \<Rightarrow> nat \<Rightarrow> (tb_group \<Rightarrow> tb_group) \<Rightarrow> tb_row list \<Rightarrow> tb_row list" where
  "upd_group r k f rows =
     rows[r := (rows ! r)\<lparr>tr_items := (tr_items (rows ! r))
       [k := (case tr_items (rows ! r) ! k of Group_item g \<Rightarrow> Group_item (f g) | Add_item \<Rightarrow> Add_item)]\<rparr>]"

abbreviation on_buttons :: "(ck_button list \<Rightarrow> ck_button list) \<Rightarrow> tb_group \<Rightarrow> tb_group" where
  "on_buttons f g \<equiv> g\<lparr>gp_buttons := f (gp_buttons g)\<rparr>"

definition group_buttons :: "nat \<Rightarrow> nat \<Rightarrow> tb_row list \<Rightarrow> ck_button list" where
  "group_buttons r k rows = (case tr_items (rows ! r) ! k of Group_item g \<Rightarrow> gp_buttons g | Add_item \<Rightarrow> [])"

definition remove_nth :: "nat \<Rightarrow> 'a list \<Rightarrow> 'a list" where
  "remove_nth i xs = take i xs @ drop (Suc i) xs"

definition insert_nth :: "nat \<Rightarrow> 'a \<Rightarrow> 'a list \<Rightarrow> 'a list" where
  "insert_nth i x xs = take i xs @ x # drop i xs"

definition swap_nth :: "nat \<Rightarrow> nat \<Rightarrow> 'a list \<Rightarrow> 'a list" where
  "swap_nth i j xs = xs[i := xs ! j, j := xs ! i]"

text \<open>The positions of the groups of a row, and the first group of the toolbar.\<close>

definition group_positions :: "(tb_group \<Rightarrow> bool) \<Rightarrow> tb_row \<Rightarrow> nat list" where
  "group_positions P row =
     filter (\<lambda>k. case tr_items row ! k of Group_item g \<Rightarrow> P g | Add_item \<Rightarrow> False) [0..<length (tr_items row)]"

definition first_position :: "nat list \<Rightarrow> nat option" where
  "first_position ks = (case ks of [] \<Rightarrow> None | k # _ \<Rightarrow> Some k)"

fun first_group :: "nat \<Rightarrow> tb_row list \<Rightarrow> (nat \<times> nat) option" where
  "first_group r [] = None"
| "first_group r (row # rows) =
     (case first_position (group_positions (\<lambda>g. True) row) of Some k \<Rightarrow> Some (r, k) | None \<Rightarrow> first_group (Suc r) rows)"

definition left_keys :: "nat list" where "left_keys = [37, 63234]"
definition right_keys :: "nat list" where "right_keys = [39, 63235]"
definition up_keys :: "nat list" where "up_keys = [38, 63232]"
definition down_keys :: "nat list" where "down_keys = [40, 63233]"

text \<open>Where a key takes button \<open>i\<close> of group \<open>k\<close> of row \<open>r\<close>.\<close>

datatype drop_place = Front nat nat | Back nat nat | Swap_with nat | To_available | Destroyed | Stay

definition into_front :: "nat \<Rightarrow> nat option \<Rightarrow> drop_place" where
  "into_front r k = (case k of None \<Rightarrow> Stay | Some k \<Rightarrow> Front r k)"

definition button_drop :: "nat \<Rightarrow> nat \<Rightarrow> nat \<Rightarrow> nat \<Rightarrow> tb_row list \<Rightarrow> drop_place" where
  "button_drop key r k i rows =
     (let its = tr_items (rows ! r); bs = group_buttons r k rows
      in if key \<in> set left_keys
         then (if 0 < i then Swap_with (i - 1)
               else if 0 < k then (if its ! (k - 1) = Add_item then Stay else Back r (k - 1))
               else if 0 < r
               then (case group_positions (\<lambda>g. \<not> gp_placeholder g) (rows ! (r - 1)) of [] \<Rightarrow> Stay | ks \<Rightarrow> Back (r - 1) (last ks))
               else Stay)
         else if key \<in> set right_keys
         then (if Suc i < length bs then Swap_with (Suc i)
               else if Suc k < length its then (if its ! Suc k = Add_item then Stay else Front r (Suc k))
               else Stay)
         else if key \<in> set up_keys
         then (if r = 0 then (if bt_kind (bs ! i) = Separator then Destroyed else To_available)
               else into_front (r - 1) (first_position (group_positions (\<lambda>g. True) (rows ! (r - 1)))))
         else if Suc r < length rows then into_front (Suc r) (first_position (group_positions (\<lambda>g. True) (rows ! Suc r)))
         else Stay)"

text \<open>
  \<open>registerButtonMove\<close>: a button in a placeholder group waits for the name of the group; otherwise the document has
  changed.
\<close>

definition registerButtonMove :: "(nat \<times> nat) option \<Rightarrow> ck_toolbar \<Rightarrow> ck_toolbar js" where
  "registerButtonMove grp s =
     (case grp of
        Some (r, k) \<Rightarrow>
          (case tr_items (kt_rows s ! r) ! k of
             Group_item g \<Rightarrow> if gp_placeholder g then Inr s else set_isDirty True s
           | Add_item \<Rightarrow> set_isDirty True s)
      | None \<Rightarrow> set_isDirty True s)"

definition press_in_group :: "nat \<Rightarrow> nat \<Rightarrow> nat \<Rightarrow> nat \<Rightarrow> ck_toolbar \<Rightarrow> ck_toolbar js" where
  "press_in_group key r k i s =
     (let rows = kt_rows s; b = group_buttons r k rows ! i;
          taken = upd_group r k (on_buttons (remove_nth i)) rows
      in case button_drop key r k i rows of
           Front r' k' \<Rightarrow> registerButtonMove (Some (r', k')) (s\<lparr>kt_rows := upd_group r' k' (on_buttons (Cons b)) taken\<rparr>)
         | Back r' k' \<Rightarrow> registerButtonMove (Some (r', k')) (s\<lparr>kt_rows := upd_group r' k' (on_buttons (\<lambda>bs. bs @ [b])) taken\<rparr>)
         | Swap_with j \<Rightarrow> registerButtonMove (Some (r, k)) (s\<lparr>kt_rows := upd_group r k (on_buttons (swap_nth i j)) rows\<rparr>)
         | To_available \<Rightarrow> registerButtonMove None (s\<lparr>kt_rows := taken, kt_available := b # kt_available s\<rparr>)
         | Destroyed \<Rightarrow> registerButtonMove None (s\<lparr>kt_rows := taken\<rparr>)
         | Stay \<Rightarrow> registerButtonMove (Some (r, k)) s)"

definition onPressButton :: "nat \<Rightarrow> button_place \<Rightarrow> ck_toolbar \<Rightarrow> ck_toolbar js" where
  "onPressButton key place s =
     (if key \<notin> set (up_keys @ down_keys @ left_keys @ right_keys) then Inr s
      else case place of
        In_group r k i \<Rightarrow> press_in_group key r k i s
      | In_available i \<Rightarrow>
          (case (if key \<in> set down_keys then first_group 0 (kt_rows s) else None) of
             None \<Rightarrow> registerButtonMove None s
           | Some (r, k) \<Rightarrow>
               registerButtonMove (Some (r, k))
                 (s\<lparr>kt_rows := upd_group r k (on_buttons (Cons (kt_available s ! i))) (kt_rows s),
                    kt_available := remove_nth i (kt_available s)\<rparr>))
      | In_dividers i \<Rightarrow>
          (case (if key \<in> set down_keys then first_group 0 (kt_rows s) else None) of
             None \<Rightarrow> registerButtonMove None s
           | Some (r, k) \<Rightarrow>
               registerButtonMove (Some (r, k))
                 (s\<lparr>kt_rows := upd_group r k (on_buttons (Cons (kt_dividers s ! i))) (kt_rows s)\<rparr>)))"

text \<open>
  Dragging: the library moves the element to a position of another list of the same group name or of its own list,
  and \<open>endButtonDrag\<close> registers the move. What leaves the list of dividers is a clone; within that list the element
  itself moves.
\<close>

definition take_from :: "button_place \<Rightarrow> button_place \<Rightarrow> ck_toolbar \<Rightarrow> ck_button \<times> ck_toolbar" where
  "take_from place to_place s =
     (case place of
        In_group r k i \<Rightarrow> (group_buttons r k (kt_rows s) ! i, s\<lparr>kt_rows := upd_group r k (on_buttons (remove_nth i)) (kt_rows s)\<rparr>)
      | In_available i \<Rightarrow> (kt_available s ! i, s\<lparr>kt_available := remove_nth i (kt_available s)\<rparr>)
      | In_dividers i \<Rightarrow>
          (kt_dividers s ! i, case to_place of In_dividers j \<Rightarrow> s\<lparr>kt_dividers := remove_nth i (kt_dividers s)\<rparr> | _ \<Rightarrow> s))"

definition put_into :: "button_place \<Rightarrow> ck_button \<Rightarrow> ck_toolbar \<Rightarrow> ck_toolbar" where
  "put_into place b s =
     (case place of
        In_group r k i \<Rightarrow> s\<lparr>kt_rows := upd_group r k (on_buttons (insert_nth i b)) (kt_rows s)\<rparr>
      | In_available i \<Rightarrow> s\<lparr>kt_available := insert_nth i b (kt_available s)\<rparr>
      | In_dividers i \<Rightarrow> s\<lparr>kt_dividers := insert_nth i b (kt_dividers s)\<rparr>)"

definition place_group :: "button_place \<Rightarrow> (nat \<times> nat) option" where
  "place_group place = (case place of In_group r k i \<Rightarrow> Some (r, k) | _ \<Rightarrow> None)"

definition endButtonDrag :: "button_place \<Rightarrow> button_place \<Rightarrow> ck_toolbar \<Rightarrow> ck_toolbar js" where
  "endButtonDrag from_place to_place s =
     (case take_from from_place to_place s of (b, s1) \<Rightarrow> registerButtonMove (place_group to_place) (put_into to_place b s1))"

section \<open>Moving and naming groups\<close>

definition registerGroupMove :: "nat \<Rightarrow> ck_toolbar \<Rightarrow> ck_toolbar js" where
  "registerGroupMove r s =
     (let rows1 = (kt_rows s)[r := (kt_rows s ! r)\<lparr>tr_placeholder := False\<rparr>]
      in set_isDirty True
           (s\<lparr>kt_rows := map (\<lambda>row. if open_groups row = [] then row\<lparr>tr_placeholder := True\<rparr> else row) rows1\<rparr>))"

abbreviation on_items :: "(toolbar_item list \<Rightarrow> toolbar_item list) \<Rightarrow> tb_row \<Rightarrow> tb_row" where
  "on_items f row \<equiv> row\<lparr>tr_items := f (tr_items row)\<rparr>"

definition upd_row :: "nat \<Rightarrow> (tb_row \<Rightarrow> tb_row) \<Rightarrow> tb_row list \<Rightarrow> tb_row list" where
  "upd_row r f rows = rows[r := f (rows ! r)]"

text \<open>Move item \<open>k\<close> of row \<open>r\<close> to position \<open>k'\<close> of row \<open>r'\<close>.\<close>

definition move_item :: "nat \<Rightarrow> nat \<Rightarrow> nat \<Rightarrow> nat \<Rightarrow> tb_row list \<Rightarrow> tb_row list" where
  "move_item r k r' k' rows =
     upd_row r' (on_items (insert_nth k' (tr_items (rows ! r) ! k))) (upd_row r (on_items (remove_nth k)) rows)"

definition is_placeholder_item :: "toolbar_item \<Rightarrow> bool" where
  "is_placeholder_item it = (case it of Group_item g \<Rightarrow> gp_placeholder g | Add_item \<Rightarrow> False)"

definition group_drop :: "nat \<Rightarrow> nat \<Rightarrow> nat \<Rightarrow> tb_row list \<Rightarrow> nat \<times> nat" where
  "group_drop key r k rows =
     (let its = tr_items (rows ! r)
      in if key \<in> set left_keys
         then (if 0 < k then (r, k - 1)
               else if 0 < r \<and> tr_items (rows ! (r - 1)) \<noteq> [] then (r - 1, length (tr_items (rows ! (r - 1))) - 1)
               else (r, k))
         else if key \<in> set right_keys
         then (if \<not> (Suc k < length its \<and> is_placeholder_item (its ! Suc k))
               then (if Suc k < length its then (r, Suc k) else (r, k))
               else if Suc r < length rows then (Suc r, 0) else (r, k))
         else if key \<in> set up_keys then (if 0 < r then (r - 1, 0) else (r, k))
         else (if Suc r < length rows then (Suc r, 0) else (r, k)))"

definition onPressGroup :: "nat \<Rightarrow> nat \<Rightarrow> nat \<Rightarrow> ck_toolbar \<Rightarrow> ck_toolbar js" where
  "onPressGroup key r k s =
     (if key \<notin> set (up_keys @ down_keys @ left_keys @ right_keys) then Inr s
      else case group_drop key r k (kt_rows s) of
        (r', k') \<Rightarrow> registerGroupMove r' (s\<lparr>kt_rows := move_item r k r' k' (kt_rows s)\<rparr>))"

definition endGroupDrag :: "nat \<Rightarrow> nat \<Rightarrow> nat \<Rightarrow> ck_toolbar \<Rightarrow> ck_toolbar js" where
  "endGroupDrag r k k' s = registerGroupMove r (s\<lparr>kt_rows := move_item r k r k' (kt_rows s)\<rparr>)"

text \<open>
  The dialog applied with a name: the name of an existing group, or of a new one that is appended to the row of the
  button that adds groups. Without a name the dialog stays open.
\<close>

definition group_named :: "string \<Rightarrow> tb_group \<Rightarrow> tb_group" where
  "group_named name g = g\<lparr>gp_name := Some (check_plain_str name), gp_placeholder := False\<rparr>"

definition rename_group :: "nat \<Rightarrow> nat \<Rightarrow> string \<Rightarrow> ck_toolbar \<Rightarrow> ck_toolbar js" where
  "rename_group r k name s =
     (if name = [] then Inr s
      else set_isDirty True
        (s\<lparr>kt_rows := upd_row r (\<lambda>row. row\<lparr>tr_placeholder := False\<rparr>) (upd_group r k (group_named name) (kt_rows s))\<rparr>))"

definition ckeditorToolbarGroup :: tb_group where
  "ckeditorToolbarGroup = \<lparr>gp_placeholder = True, gp_name = None, gp_buttons = []\<rparr>"

definition add_group :: "nat \<Rightarrow> string \<Rightarrow> ck_toolbar \<Rightarrow> ck_toolbar js" where
  "add_group r name s =
     (if name = [] then Inr s
      else set_isDirty True
        (s\<lparr>kt_rows := upd_row r (on_items (\<lambda>its. its @ [Group_item (group_named name ckeditorToolbarGroup)])) (kt_rows s)\<rparr>))"

end
