(* ===== verification/Ckeditor_Tracking.thy ===== *)
theory Ckeditor_Tracking
  imports Ckeditor_Toolbar
begin

text \<open>
  Whatever the user does with the toolbar of CKEditor, no button is lost, the configuration and the textarea
  describe the toolbar on the page, and the features announced to the filters are those of the buttons in it.
\<close>

section \<open>The buttons of the toolbar\<close>

definition item_buttons :: "toolbar_item \<Rightarrow> ck_button list" where
  "item_buttons it = (case it of Group_item g \<Rightarrow> gp_buttons g | Add_item \<Rightarrow> [])"

definition row_buttons :: "tb_row \<Rightarrow> ck_button list" where
  "row_buttons row = concat (map item_buttons (tr_items row))"

lemma item_buttons_simps [simp]: "item_buttons (Group_item g) = gp_buttons g" "item_buttons Add_item = []"
  by (simp_all add: item_buttons_def)

lemma map_filter_Cons: "List.map_filter f (x # xs) = (case f x of None \<Rightarrow> List.map_filter f xs | Some y \<Rightarrow> y # List.map_filter f xs)"
  by (cases "f x") (simp_all add: List.map_filter_def)

lemma map_filter_Nil [simp]: "List.map_filter f [] = []"
  by (simp add: List.map_filter_def)

lemma map_filter_append: "List.map_filter f (xs @ ys) = List.map_filter f xs @ List.map_filter f ys"
  by (simp add: List.map_filter_def)

lemma groups_buttons: "concat (map gp_buttons (groups_of row)) = row_buttons row"
proof -
  have "concat (map gp_buttons (List.map_filter item_group its)) = concat (map item_buttons its)" for its
  proof (induction its)
    case (Cons it its)
    then show ?case by (cases it) (simp_all add: map_filter_Cons)
  qed simp
  then show ?thesis by (simp add: groups_of_def row_buttons_def)
qed

lemma all_buttons_rows: "all_buttons rows = concat (map row_buttons rows)"
  by (induction rows) (simp_all add: all_buttons_def groups_buttons)

lemma all_buttons_Cons [simp]: "all_buttons (row # rows) = row_buttons row @ all_buttons rows"
  and all_buttons_Nil [simp]: "all_buttons [] = []"
  and all_buttons_append [simp]: "all_buttons (rows @ rows') = all_buttons rows @ all_buttons rows'"
  by (simp_all add: all_buttons_rows)

lemma mset_concat_update:
  assumes "i < length xs"
  shows "mset (concat (map f (xs[i := x]))) + mset (f (xs ! i)) = mset (concat (map f xs)) + mset (f x)"
proof -
  have "concat (map f xs) = concat (map f (take i xs)) @ f (xs ! i) @ concat (map f (drop (Suc i) xs))"
    by (subst id_take_nth_drop [OF assms]) simp
  then show ?thesis using assms by (simp add: upd_conv_take_nth_drop)
qed

definition no_placeholders :: "tb_row list \<Rightarrow> bool" where
  "no_placeholders rows \<longleftrightarrow> (\<forall>row \<in> set rows. \<forall>it \<in> set (tr_items row). \<not> is_placeholder_item it)"

definition group_place :: "nat \<Rightarrow> nat \<Rightarrow> tb_row list \<Rightarrow> bool" where
  "group_place r k rows \<longleftrightarrow> r < length rows \<and> k < length (tr_items (rows ! r)) \<and> tr_items (rows ! r) ! k \<noteq> Add_item"

lemma group_placeE:
  assumes "group_place r k rows"
  obtains g where "r < length rows" "k < length (tr_items (rows ! r))" "tr_items (rows ! r) ! k = Group_item g"
  using assms by (cases "tr_items (rows ! r) ! k") (auto simp: group_place_def)

lemma exchange:
  fixes a :: "'a multiset"
  assumes "a + x = b + y" and "y + u = x + v"
  shows "a + u = b + v"
proof -
  have "(a + u) + x = (a + x) + u" by (simp only: ac_simps)
  also have "\<dots> = b + (y + u)" by (simp only: assms(1) ac_simps)
  also have "\<dots> = b + (x + v)" by (simp only: assms(2))
  also have "\<dots> = (b + v) + x" by (simp only: ac_simps)
  finally show ?thesis by simp
qed

lemma upd_group_mset:
  assumes "group_place r k rows"
  shows "mset (all_buttons (upd_group r k (on_buttons f) rows)) + mset (group_buttons r k rows) =
    mset (all_buttons rows) + mset (f (group_buttons r k rows))"
proof -
  obtain g where g: "r < length rows" "k < length (tr_items (rows ! r))" "tr_items (rows ! r) ! k = Group_item g"
    using assms by (rule group_placeE)
  let ?row = "(rows ! r)\<lparr>tr_items := (tr_items (rows ! r))[k := Group_item (on_buttons f g)]\<rparr>"
  have row: "mset (row_buttons ?row) + mset (gp_buttons g) = mset (row_buttons (rows ! r)) + mset (f (gp_buttons g))"
    using mset_concat_update [OF g(2), of item_buttons "Group_item (on_buttons f g)"] g(3) by (simp add: row_buttons_def)
  have "mset (all_buttons (rows[r := ?row])) + mset (row_buttons (rows ! r)) = mset (all_buttons rows) + mset (row_buttons ?row)"
    using mset_concat_update [OF g(1), of row_buttons ?row] by (simp only: all_buttons_rows)
  from exchange [OF this row]
  have "mset (all_buttons (rows[r := ?row])) + mset (gp_buttons g) = mset (all_buttons rows) + mset (f (gp_buttons g))" .
  then show ?thesis using g by (simp add: upd_group_def group_buttons_def)
qed

lemma upd_group_place [simp]: "group_place r' k' (upd_group r k f rows) = group_place r' k' rows"
proof (cases "r < length rows")
  case True
  show ?thesis
  proof (cases "r' = r \<and> k' = k \<and> k < length (tr_items (rows ! r))")
    case t: True
    with True show ?thesis by (cases "tr_items (rows ! r) ! k") (auto simp: group_place_def upd_group_def)
  next
    case False
    with True show ?thesis by (auto simp: group_place_def upd_group_def nth_list_update)
  qed
qed (simp add: group_place_def upd_group_def list_update_beyond)

lemma no_placeholders_upd:
  assumes "no_placeholders rows" and "\<And>g. \<not> gp_placeholder g \<Longrightarrow> \<not> gp_placeholder (f g)" and "group_place r k rows"
  shows "no_placeholders (upd_group r k f rows)"
proof -
  obtain g where g: "r < length rows" "k < length (tr_items (rows ! r))" "tr_items (rows ! r) ! k = Group_item g"
    using assms(3) by (rule group_placeE)
  have row: "rows ! r \<in> set rows" "Group_item g \<in> set (tr_items (rows ! r))" using g nth_mem [OF g(2)] by simp_all
  then have "\<not> is_placeholder_item (Group_item g)" using assms(1) unfolding no_placeholders_def by blast
  then have new: "\<not> is_placeholder_item (Group_item (f g))" using assms(2) by (simp add: is_placeholder_item_def)
  have "\<not> is_placeholder_item it" if "it \<in> set ((tr_items (rows ! r))[k := Group_item (f g)])" for it
    using set_update_subset_insert [THEN subsetD, OF that] new assms(1) row(1) unfolding no_placeholders_def by auto
  then show ?thesis
    using assms(1) set_update_subset_insert [of rows r] g unfolding no_placeholders_def upd_group_def by fastforce
qed

section \<open>Drawing changes no button\<close>

lemma closed_row: "no_placeholders [row] \<Longrightarrow> open_groups row = [] \<Longrightarrow> groups_of row = []"
proof -
  assume n: "no_placeholders [row]" and o: "open_groups row = []"
  have "\<not> gp_placeholder g" if g: "g \<in> set (groups_of row)" for g
  proof -
    have "Group_item g \<in> set (tr_items row)"
      using g by (auto simp: groups_of_def List.map_filter_def elim!: item_group.elims)
    then have "\<not> is_placeholder_item (Group_item g)" using n by (simp add: no_placeholders_def)
    then show ?thesis by (simp add: is_placeholder_item_def)
  qed
  with o show "groups_of row = []" unfolding open_groups_def by (metis filter_True)
qed

lemma no_placeholders_Cons: "no_placeholders (row # rows) \<longleftrightarrow> no_placeholders [row] \<and> no_placeholders rows"
  and no_placeholders_append: "no_placeholders (rows @ rows') \<longleftrightarrow> no_placeholders rows \<and> no_placeholders rows'"
  by (auto simp: no_placeholders_def)

definition row_config :: "tb_row \<Rightarrow> (string option \<times> string list) list" where
  "row_config row = List.map_filter config_group (groups_of row)"

lemma config_of_rows: "config_of rows = filter (\<lambda>groups. groups \<noteq> []) (map row_config rows)"
  by (simp add: config_of_def row_config_def [abs_def])

lemma empty_row: "groups_of row = [] \<Longrightarrow> row_buttons row = [] \<and> row_config row = []"
  using groups_buttons [of row] by (simp add: row_config_def)

lemma drop_closed_rows:
  "no_placeholders rows \<Longrightarrow>
   all_buttons (filter (\<lambda>row. open_groups row \<noteq> []) rows) = all_buttons rows \<and>
   config_of (filter (\<lambda>row. open_groups row \<noteq> []) rows) = config_of rows"
proof (induction rows)
  case (Cons row rows)
  then have "no_placeholders [row]" "no_placeholders rows" by (simp_all add: no_placeholders_Cons [of row rows])
  with Cons.IH show ?case
    using closed_row [of row] empty_row [of row] by (auto simp: config_of_rows)
qed simp

lemma insertPlaceholderRow_keeps:
  assumes "no_placeholders rows"
  shows "all_buttons (insertPlaceholderRow rows) = all_buttons rows \<and> config_of (insertPlaceholderRow rows) = config_of rows \<and>
    no_placeholders (insertPlaceholderRow rows)"
proof -
  define rows1 where "rows1 = (if rows \<noteq> [] \<and> tr_placeholder (last rows) then rows else rows @ [ckeditorRow])"
  have new: "groups_of ckeditorRow = []" "no_placeholders [ckeditorRow]"
    by (simp_all add: ckeditorRow_def groups_of_def no_placeholders_def)
  have r1: "all_buttons rows1 = all_buttons rows" "config_of rows1 = config_of rows" "no_placeholders rows1" "rows1 \<noteq> []"
    using assms new empty_row [OF new(1)] by (auto simp: rows1_def config_of_rows no_placeholders_append)
  then have split: "butlast rows1 @ [last rows1] = rows1" by simp
  have nb: "no_placeholders (butlast rows1)" "no_placeholders [last rows1]"
    using r1(3) by (metis split no_placeholders_append)+
  note d = drop_closed_rows [OF nb(1)]
  have "all_buttons (filter (\<lambda>row. open_groups row \<noteq> []) (butlast rows1) @ [last rows1]) = all_buttons (butlast rows1 @ [last rows1])"
    using d by simp
  moreover have "config_of (filter (\<lambda>row. open_groups row \<noteq> []) (butlast rows1) @ [last rows1]) = config_of (butlast rows1 @ [last rows1])"
    using d by (simp add: config_of_rows)
  moreover have "no_placeholders (filter (\<lambda>row. open_groups row \<noteq> []) (butlast rows1) @ [last rows1])"
    using nb by (auto simp: no_placeholders_def)
  ultimately show ?thesis using r1 split by (simp add: insertPlaceholderRow_def Let_def rows1_def [symmetric])
qed

lemma groups_of_add_last: "groups_of (row\<lparr>tr_items := filter (\<lambda>it. it \<noteq> Add_item) (tr_items row) @ [Add_item]\<rparr>) = groups_of row"
proof -
  have "List.map_filter item_group (filter (\<lambda>it. it \<noteq> Add_item) its) = List.map_filter item_group its" for its
  proof (induction its)
    case (Cons it its)
    then show ?case by (cases it) (simp_all add: map_filter_Cons)
  qed simp
  then show ?thesis by (simp add: groups_of_def map_filter_append map_filter_Cons)
qed

lemma insertNewGroupButtons_keeps:
  "all_buttons (insertNewGroupButtons rows) = all_buttons rows \<and> config_of (insertNewGroupButtons rows) = config_of rows \<and>
   (no_placeholders rows \<longrightarrow> no_placeholders (insertNewGroupButtons rows))"
proof -
  have "all_buttons (insertNewGroupButtons rows) = all_buttons rows"
    by (induction rows) (simp_all add: insertNewGroupButtons_def groups_of_add_last groups_buttons [symmetric])
  moreover have "config_of (insertNewGroupButtons rows) = config_of rows"
    by (simp add: insertNewGroupButtons_def config_of_rows row_config_def [abs_def] groups_of_add_last comp_def)
  moreover have "no_placeholders rows \<longrightarrow> no_placeholders (insertNewGroupButtons rows)"
    by (auto simp: insertNewGroupButtons_def no_placeholders_def is_placeholder_item_def)
  ultimately show ?thesis by blast
qed

lemma insertPlaceholders_keeps:
  assumes "no_placeholders rows"
  shows "all_buttons (insertPlaceholders rows) = all_buttons rows" "config_of (insertPlaceholders rows) = config_of rows"
    "no_placeholders (insertPlaceholders rows)"
  using insertPlaceholderRow_keeps [OF assms] insertNewGroupButtons_keeps [of "insertPlaceholderRow rows"]
  by (simp_all add: insertPlaceholders_def)

section \<open>The configuration lists the buttons\<close>

text \<open>On a page whose only multiple buttons are dividers, the kind of a button shows in its name.\<close>

definition kind_ok :: "ck_button \<Rightarrow> bool" where
  "kind_ok b \<longleftrightarrow> (bt_kind b \<noteq> Single \<longleftrightarrow> bt_name b = ''-'')"

definition button_names :: "ck_button list \<Rightarrow> string list" where
  "button_names bs = filter (\<lambda>n. n \<noteq> ''-'') (map bt_name bs)"

lemma button_names_append: "button_names (xs @ ys) = button_names xs @ button_names ys"
  by (simp add: button_names_def)

lemma button_names_Nil: "button_names [] = []"
  by (simp add: button_names_def)

lemma dividers_no_names:
  assumes "list_all kind_ok bs" and "\<not> list_ex (\<lambda>b. bt_kind b = Single) bs"
  shows "button_names bs = []"
  using assms by (induction bs) (auto simp: button_names_def kind_ok_def)

lemma groups_config_names:
  "list_all kind_ok (concat (map gp_buttons gs)) \<Longrightarrow>
   filter (\<lambda>b. b \<noteq> ''-'') (concat (map snd (List.map_filter config_group gs))) = button_names (concat (map gp_buttons gs))"
proof (induction gs)
  case (Cons g gs)
  then have k: "list_all kind_ok (gp_buttons g)" "list_all kind_ok (concat (map gp_buttons gs))" by simp_all
  show ?case
  proof (cases "list_ex (\<lambda>b. bt_kind b = Single) (gp_buttons g)")
    case True
    then have "config_group g = Some (gp_name g, map bt_name (gp_buttons g))" by (simp add: config_group_def)
    then show ?thesis using Cons.IH [OF k(2)] by (simp add: map_filter_Cons button_names_append) (simp add: button_names_def)
  next
    case False
    then have "config_group g = None" by (simp add: config_group_def)
    then show ?thesis using Cons.IH [OF k(2)] dividers_no_names [OF k(1) False] by (simp add: map_filter_Cons button_names_append)
  qed
qed (simp add: button_names_Nil)

lemma concat_nonempty: "concat (filter (\<lambda>xs. xs \<noteq> []) xss) = concat xss"
  by (induction xss) auto

lemma getButtonList_config:
  assumes "list_all kind_ok (all_buttons rows)"
  shows "getButtonList (config_of rows) = button_names (all_buttons rows)"
proof -
  have "filter (\<lambda>b. b \<noteq> ''-'') (concat (map snd (concat (map row_config rows)))) = button_names (all_buttons rows)"
    using assms
  proof (induction rows)
    case (Cons row rows)
    then have "list_all kind_ok (concat (map gp_buttons (groups_of row)))" by (simp add: groups_buttons)
    from groups_config_names [OF this] Cons show ?case
      by (simp add: row_config_def groups_buttons button_names_append)
  qed (simp add: button_names_Nil)
  then show ?thesis by (simp add: getButtonList_def config_of_rows concat_nonempty)
qed

lemma set_filter_single: "set xs = {b} \<Longrightarrow> (case xs of [] \<Rightarrow> None | y # _ \<Rightarrow> Some y) = Some b"
  by (cases xs) auto

lemma changed_button_added:
  assumes "mset nxt = add_mset b (mset prev)" and "distinct nxt"
  shows "changed_button prev nxt = Some b" "length prev < length nxt"
proof -
  have "distinct prev" "b \<notin> set prev"
    using assms by (metis distinct.simps(2) mset.simps(2) mset_eq_imp_distinct_iff)+
  moreover have "set nxt = insert b (set prev)" using assms(1) by (metis set_mset_add_mset_insert set_mset_mset)
  ultimately have "set (filter (\<lambda>b. \<not> (b \<in> set prev \<and> b \<in> set nxt)) (first_of_each (prev @ nxt))) = {b}" by auto
  then show "changed_button prev nxt = Some b" unfolding changed_button_def by (rule set_filter_single)
  show "length prev < length nxt" using arg_cong [OF assms(1), of size] by simp
qed

lemma changed_button_removed:
  assumes "mset prev = add_mset b (mset nxt)" and "distinct prev"
  shows "changed_button prev nxt = Some b" "length nxt < length prev"
proof -
  have "distinct nxt" "b \<notin> set nxt"
    using assms by (metis distinct.simps(2) mset.simps(2) mset_eq_imp_distinct_iff)+
  moreover have "set prev = insert b (set nxt)" using assms(1) by (metis set_mset_add_mset_insert set_mset_mset)
  ultimately have "set (filter (\<lambda>b. \<not> (b \<in> set prev \<and> b \<in> set nxt)) (first_of_each (prev @ nxt))) = {b}" by auto
  then show "changed_button prev nxt = Some b" unfolding changed_button_def by (rule set_filter_single)
  show "length nxt < length prev" using arg_cong [OF assms(1), of size] by simp
qed

section \<open>What is announced\<close>

definition tracked_step :: "feature_event \<Rightarrow> string set \<Rightarrow> string set" where
  "tracked_step e T =
     (case e of Feature_added f \<Rightarrow> insert (f_name f) T | Feature_removed f \<Rightarrow> T - {f_name f} | Feature_modified f \<Rightarrow> T)"

definition tracked_features :: "feature_event list \<Rightarrow> string set" where
  "tracked_features log = fold tracked_step log {}"

lemma tracked_snoc [simp]: "tracked_features (log @ [e]) = tracked_step e (tracked_features log)"
  by (simp add: tracked_features_def)

lemma tracked_modified [simp]: "tracked_features (log @ map Feature_modified fs) = tracked_features log"
proof -
  have "fold tracked_step (map Feature_modified fs) T = T" for T
    by (induction fs arbitrary: T) (simp_all add: tracked_step_def)
  then show ?thesis by (simp add: tracked_features_def)
qed

text \<open>
  The page: \<open>N\<close> are the names of the buttons, \<open>b2f\<close> the names of their features.
\<close>

definition features_named :: "feature jsobj \<Rightarrow> bool" where
  "features_named features \<longleftrightarrow> (\<forall>n f. js_get features n = Some f \<longrightarrow> f_name f = n)"

definition movable_buttons :: "ck_toolbar \<Rightarrow> ck_button list" where
  "movable_buttons s = all_buttons (kt_rows s) @ kt_available s"

definition page_ok :: "string list \<Rightarrow> string jsobj \<Rightarrow> ck_toolbar \<Rightarrow> bool" where
  "page_ok N b2f s \<longleftrightarrow>
     no_placeholders (kt_rows s) \<and> list_all kind_ok (movable_buttons s) \<and>
     list_all (\<lambda>b. kind_ok b \<and> bt_name b = ''-'') (kt_dividers s) \<and>
     mset (button_names (movable_buttons s)) = mset N \<and> distinct N \<and>
     kt_buttonsToFeatures s = b2f \<and> features_named (kt_features s)"

definition active_names :: "ck_toolbar \<Rightarrow> string list" where
  "active_names s = button_names (all_buttons (kt_rows s))"

definition toolbar_inv :: "string list \<Rightarrow> string jsobj \<Rightarrow> ck_toolbar \<Rightarrow> bool" where
  "toolbar_inv N b2f s \<longleftrightarrow>
     page_ok N b2f s \<and> kt_config s = config_of (kt_rows s) \<and> kt_textarea s = kt_config s \<and>
     tracked_features (kt_log s) = featureName b2f ` set (active_names s)"

lemma page_ok_names:
  assumes "page_ok N b2f s"
  shows "distinct (active_names s)" "set (active_names s) \<subseteq> set N" "getButtonList (config_of (kt_rows s)) = active_names s"
proof -
  have m: "mset (active_names s) + mset (button_names (kt_available s)) = mset N"
    using assms by (simp add: page_ok_def movable_buttons_def active_names_def button_names_append)
  then have "mset (active_names s @ button_names (kt_available s)) = mset N" by simp
  then have "distinct (active_names s @ button_names (kt_available s))"
    using assms unfolding page_ok_def by (metis mset_eq_imp_distinct_iff)
  then show "distinct (active_names s)" by simp
  show "set (active_names s) \<subseteq> set N" using m by (metis mset_subset_eq_add_left set_mset_mono set_mset_mset)
  show "getButtonList (config_of (kt_rows s)) = active_names s"
    using assms by (simp add: page_ok_def movable_buttons_def active_names_def getButtonList_config)
qed

lemma feature_known:
  assumes "features_named (kt_features s)" and "b \<noteq> ''-''"
  shows "\<exists>f features. getFeatureForButton (Some b) s = Inr (Some f, s\<lparr>kt_features := features\<rparr>) \<and>
    f_name f = featureName (kt_buttonsToFeatures s) b \<and> features_named features"
proof (cases "js_get (kt_features s) (featureName (kt_buttonsToFeatures s) b)")
  case None
  have "features_named (js_put (featureName (kt_buttonsToFeatures s) b) (EditorFeature (featureName (kt_buttonsToFeatures s) b)) (kt_features s))"
    using assms(1) by (simp add: features_named_def jsobj.get_put EditorFeature_def)
  with None assms(2) show ?thesis
    by (intro exI [of _ "EditorFeature (featureName (kt_buttonsToFeatures s) b)"] exI [of _ "js_put _ _ _"] conjI)
      (simp_all add: getFeatureForButton_def Let_def EditorFeature_def)
next
  case (Some f)
  with assms show ?thesis
    by (intro exI [of _ f] exI [of _ "kt_features s"] conjI)
      (simp_all add: getFeatureForButton_def Let_def features_named_def)
qed

lemma toolbar_changed_logs:
  assumes "features_named (kt_features s)" and "b \<noteq> ''-''"
  shows "\<exists>f features. toolbar_changed added (Some b) s =
      Inr (s\<lparr>kt_features := features, kt_log := kt_log s @ [if added then Feature_added f else Feature_removed f]\<rparr>) \<and>
    f_name f = featureName (kt_buttonsToFeatures s) b \<and> features_named features"
proof -
  obtain f features where "getFeatureForButton (Some b) s = Inr (Some f, s\<lparr>kt_features := features\<rparr>)"
    "f_name f = featureName (kt_buttonsToFeatures s) b" "features_named features"
    using feature_known [OF assms] by blast
  then show ?thesis by (auto simp: toolbar_changed_def)
qed

lemma page_ok_cong:
  "page_ok N b2f s \<Longrightarrow> no_placeholders (kt_rows s') \<Longrightarrow> all_buttons (kt_rows s') = all_buttons (kt_rows s) \<Longrightarrow>
   kt_available s' = kt_available s \<Longrightarrow> kt_dividers s' = kt_dividers s \<Longrightarrow> kt_buttonsToFeatures s' = kt_buttonsToFeatures s \<Longrightarrow>
   features_named (kt_features s') \<Longrightarrow> page_ok N b2f s'"
  by (simp add: page_ok_def movable_buttons_def)

section \<open>One move at a time\<close>

definition names_of :: "ck_button multiset \<Rightarrow> string multiset" where
  "names_of M = filter_mset (\<lambda>n. n \<noteq> ''-'') (image_mset bt_name M)"

lemma names_of_simps [simp]:
  "names_of (A + B) = names_of A + names_of B"
  "names_of (add_mset b M) = (if bt_name b = ''-'' then names_of M else add_mset (bt_name b) (names_of M))"
  "names_of {#} = {#}"
  by (simp_all add: names_of_def)

lemma mset_button_names: "mset (button_names bs) = names_of (mset bs)"
  by (simp add: button_names_def names_of_def)

text \<open>\<open>s\<close> comes from \<open>s0\<close> by moving at most one button, which has yet to be registered.\<close>

definition moved :: "string list \<Rightarrow> string jsobj \<Rightarrow> ck_toolbar \<Rightarrow> ck_toolbar \<Rightarrow> bool" where
  "moved N b2f s0 s \<longleftrightarrow>
     page_ok N b2f s \<and> kt_config s = kt_config s0 \<and> kt_textarea s = kt_textarea s0 \<and> kt_log s = kt_log s0 \<and>
     (mset (active_names s) = mset (active_names s0) \<or>
      (\<exists>b. mset (active_names s) = add_mset b (mset (active_names s0))) \<or>
      (\<exists>b. mset (active_names s0) = add_mset b (mset (active_names s))))"

lemma movedI:
  assumes inv: "toolbar_inv N b2f s0"
    and rows: "no_placeholders (kt_rows s)"
    and same: "kt_dividers s = kt_dividers s0" "kt_config s = kt_config s0" "kt_textarea s = kt_textarea s0" "kt_log s = kt_log s0"
      "kt_features s = kt_features s0" "kt_buttonsToFeatures s = kt_buttonsToFeatures s0"
    and parts: "set (movable_buttons s) \<subseteq> set (movable_buttons s0) \<union> set (kt_dividers s0)"
    and names: "names_of (mset (movable_buttons s)) = names_of (mset (movable_buttons s0))"
    and change: "names_of (mset (all_buttons (kt_rows s))) = names_of (mset (all_buttons (kt_rows s0))) \<or>
      (\<exists>b. names_of (mset (all_buttons (kt_rows s))) = add_mset b (names_of (mset (all_buttons (kt_rows s0))))) \<or>
      (\<exists>b. names_of (mset (all_buttons (kt_rows s0))) = add_mset b (names_of (mset (all_buttons (kt_rows s)))))"
  shows "moved N b2f s0 s"
proof -
  have p: "page_ok N b2f s0" using inv by (simp add: toolbar_inv_def)
  have "list_all kind_ok (movable_buttons s)"
    using p parts by (auto simp: page_ok_def list_all_iff)
  then have "page_ok N b2f s"
    using p rows same names by (simp add: page_ok_def mset_button_names)
  then show ?thesis using same change by (simp add: moved_def active_names_def mset_button_names)
qed

lemma moved_registers:
  assumes inj: "inj_on (featureName b2f) (set N)" and inv: "toolbar_inv N b2f s0" and mv: "moved N b2f s0 s"
  shows "\<exists>s'. set_isDirty True s = Inr s' \<and> toolbar_inv N b2f s'"
proof -
  define P where "P = active_names s0"
  define A where "A = active_names s"
  have p: "page_ok N b2f s" using mv by (simp add: moved_def)
  note pn = page_ok_names [OF p]
  have p0: "page_ok N b2f s0" using inv by (simp add: toolbar_inv_def)
  note pn0 = page_ok_names [OF p0]
  have rows: "no_placeholders (kt_rows s)" and named: "features_named (kt_features s)" and b2f: "kt_buttonsToFeatures s = b2f"
    using p by (simp_all add: page_ok_def)
  note keeps = insertPlaceholders_keeps [OF rows]
  define s1 where "s1 = s\<lparr>kt_config := config_of (kt_rows s), kt_textarea := (if config_of (kt_rows s) \<noteq> kt_config s then config_of (kt_rows s) else kt_textarea s),
    kt_rows := insertPlaceholders (kt_rows s)\<rparr>"
  have prev: "getButtonList (kt_config s) = P"
    using mv inv pn0(3) by (simp add: moved_def toolbar_inv_def P_def)
  have eq: "set_isDirty True s = (if length P \<noteq> length A then toolbar_changed (length P < length A) (changed_button P A) s1 else Inr s1)"
    by (simp add: set_isDirty_def Let_def prev pn(3) A_def s1_def)
  have s1_ok: "page_ok N b2f s1"
    by (rule page_ok_cong [OF p]) (simp_all add: s1_def keeps named)
  have act1: "active_names s1 = A" by (simp add: active_names_def s1_def keeps A_def)
  have log1: "tracked_features (kt_log s1) = featureName b2f ` set P"
    using mv inv by (simp add: moved_def toolbar_inv_def s1_def P_def)
  have conf1: "kt_config s1 = config_of (kt_rows s1)" "kt_textarea s1 = kt_config s1"
    using mv inv by (auto simp: s1_def keeps moved_def toolbar_inv_def)
  have dist: "distinct P" "distinct A" "set P \<subseteq> set N" "set A \<subseteq> set N"
    using pn pn0 by (simp_all add: P_def A_def)
  have no_dash: "b \<noteq> ''-''" if "b \<in> set A \<or> b \<in> set P" for b
    using that by (auto simp: A_def P_def active_names_def button_names_def)
  have change: "mset A = mset P \<or> (\<exists>b. mset A = add_mset b (mset P)) \<or> (\<exists>b. mset P = add_mset b (mset A))"
    using mv by (simp add: moved_def A_def P_def)
  have finish: "toolbar_inv N b2f (s1\<lparr>kt_features := features, kt_log := kt_log s1 @ [e]\<rparr>)"
    if "features_named features" "tracked_step e (featureName b2f ` set P) = featureName b2f ` set A" for features e
    using that s1_ok conf1 log1 act1
    by (simp add: toolbar_inv_def page_ok_def movable_buttons_def active_names_def)
  consider (same) "mset A = mset P" | (more) b where "mset A = add_mset b (mset P)" | (less) b where "mset P = add_mset b (mset A)"
    using change by blast
  then show ?thesis
  proof cases
    case same
    then have "length P = length A" "set A = set P" by (metis size_mset, metis set_mset_mset)
    then show ?thesis using eq s1_ok conf1 log1 act1 by (simp add: toolbar_inv_def)
  next
    case (more b)
    note cb = changed_button_added [OF more dist(2)]
    have A: "set A = insert b (set P)" using more by (metis set_mset_add_mset_insert set_mset_mset)
    have "b \<noteq> ''-''" using A no_dash by blast
    from toolbar_changed_logs [of s1 b True, OF _ this] obtain f features where
      f: "toolbar_changed True (Some b) s1 = Inr (s1\<lparr>kt_features := features, kt_log := kt_log s1 @ [Feature_added f]\<rparr>)"
      "f_name f = featureName b2f b" "features_named features"
      using named b2f by (auto simp: s1_def)
    have "tracked_step (Feature_added f) (featureName b2f ` set P) = featureName b2f ` set A"
      by (simp add: tracked_step_def f(2) A)
    from finish [OF f(3) this] show ?thesis using eq cb f(1) by auto
  next
    case (less b)
    note cb = changed_button_removed [OF less dist(1)]
    have P: "set P = insert b (set A)" using less by (metis set_mset_add_mset_insert set_mset_mset)
    have "b \<notin> set A" using less dist(1) by (metis distinct.simps(2) mset.simps(2) mset_eq_imp_distinct_iff)
    then have "featureName b2f b \<notin> featureName b2f ` set A"
      using inj dist(3,4) P by (auto dest!: inj_onD)
    then have img: "featureName b2f ` set P - {featureName b2f b} = featureName b2f ` set A" by (auto simp: P)
    have "b \<noteq> ''-''" using P no_dash by blast
    from toolbar_changed_logs [of s1 b False, OF _ this] obtain f features where
      f: "toolbar_changed False (Some b) s1 = Inr (s1\<lparr>kt_features := features, kt_log := kt_log s1 @ [Feature_removed f]\<rparr>)"
      "f_name f = featureName b2f b" "features_named features"
      using named b2f by (auto simp: s1_def)
    have "tracked_step (Feature_removed f) (featureName b2f ` set P) = featureName b2f ` set A"
      by (simp add: tracked_step_def f(2) img)
    from finish [OF f(3) this] show ?thesis using eq cb f(1) by auto
  qed
qed

lemma registerButtonMove_dirty:
  assumes "no_placeholders (kt_rows s)" and "\<And>r k. place = Some (r, k) \<Longrightarrow> group_place r k (kt_rows s)"
  shows "registerButtonMove place s = set_isDirty True s"
proof (cases place)
  case (Some rk)
  obtain r k where rk: "rk = (r, k)" by (cases rk)
  obtain g where g: "r < length (kt_rows s)" "k < length (tr_items (kt_rows s ! r))" "tr_items (kt_rows s ! r) ! k = Group_item g"
    using assms(2) Some rk by (auto elim: group_placeE)
  then have "\<not> is_placeholder_item (Group_item g)"
    using assms(1) nth_mem [OF g(2)] unfolding no_placeholders_def by (metis nth_mem)
  then show ?thesis using g Some rk by (simp add: registerButtonMove_def is_placeholder_item_def)
qed (simp add: registerButtonMove_def)

section \<open>Moving buttons\<close>

lemma mset_remove_nth: "i < length xs \<Longrightarrow> add_mset (xs ! i) (mset (remove_nth i xs)) = mset xs"
  by (subst (3) id_take_nth_drop) (simp_all add: remove_nth_def)

lemma mset_insert_nth [simp]: "mset (insert_nth i x xs) = add_mset x (mset xs)"
proof -
  have "mset (take i xs) + mset (drop i xs) = mset xs" by (metis append_take_drop_id mset_append)
  then show ?thesis by (simp add: insert_nth_def)
qed

lemma mset_swap_nth: "i < length xs \<Longrightarrow> j < length xs \<Longrightarrow> mset (swap_nth i j xs) = mset xs"
  by (simp add: swap_nth_def mset_swap)

lemma take_group:
  assumes "group_place r k rows" and "i < length (group_buttons r k rows)"
  shows "add_mset (group_buttons r k rows ! i) (mset (all_buttons (upd_group r k (on_buttons (remove_nth i)) rows))) = mset (all_buttons rows)"
proof -
  let ?bs = "group_buttons r k rows" and ?new = "mset (all_buttons (upd_group r k (on_buttons (remove_nth i)) rows))"
  have "?new + mset ?bs = mset (all_buttons rows) + mset (remove_nth i ?bs)" by (rule upd_group_mset [OF assms(1)])
  then have "?new + add_mset (?bs ! i) (mset (remove_nth i ?bs)) = mset (all_buttons rows) + mset (remove_nth i ?bs)"
    by (simp only: mset_remove_nth [OF assms(2)])
  then show ?thesis by simp
qed

lemma put_group:
  assumes "group_place r k rows" and "\<And>bs. mset (f bs) = add_mset b (mset bs)"
  shows "mset (all_buttons (upd_group r k (on_buttons f) rows)) = add_mset b (mset (all_buttons rows))"
  using upd_group_mset [OF assms(1), of f] assms(2) by simp

lemma same_group:
  assumes "group_place r k rows" and "mset (f (group_buttons r k rows)) = mset (group_buttons r k rows)"
  shows "mset (all_buttons (upd_group r k (on_buttons f) rows)) = mset (all_buttons rows)"
  using upd_group_mset [OF assms(1), of f] assms(2) by simp

lemma group_positions_place:
  assumes "k \<in> set (group_positions P (rows ! r))" and "r < length rows"
  shows "group_place r k rows"
  using assms by (auto simp: group_positions_def group_place_def split: toolbar_item.splits)

lemma first_position_place:
  assumes "first_position (group_positions P (rows ! r)) = Some k" and "r < length rows"
  shows "group_place r k rows"
proof -
  have "k \<in> set (group_positions P (rows ! r))" using assms(1) by (cases "group_positions P (rows ! r)") (simp_all add: first_position_def)
  then show ?thesis using assms(2) by (rule group_positions_place)
qed

lemma first_group_place:
  "first_group n rows = Some (r, k) \<Longrightarrow> n \<le> r \<and> group_place (r - n) k rows"
proof (induction n rows rule: first_group.induct)
  case (2 n row rows)
  show ?case
  proof (cases "first_position (group_positions (\<lambda>g. True) row)")
    case None
    with 2 have "Suc n \<le> r" "group_place (r - Suc n) k rows" by auto
    moreover from this have "r - n = Suc (r - Suc n)" by simp
    ultimately show ?thesis by (simp add: group_place_def)
  next
    case (Some j)
    with 2(2) first_position_place [of "\<lambda>g. True" "row # rows" 0 j] show ?thesis by simp
  qed
qed simp

definition drop_ok :: "nat \<Rightarrow> nat \<Rightarrow> nat \<Rightarrow> tb_row list \<Rightarrow> drop_place \<Rightarrow> bool" where
  "drop_ok r k i rows d \<longleftrightarrow>
     (case d of Front r' k' \<Rightarrow> group_place r' k' rows | Back r' k' \<Rightarrow> group_place r' k' rows
      | Swap_with j \<Rightarrow> j < length (group_buttons r k rows) | Destroyed \<Rightarrow> bt_kind (group_buttons r k rows ! i) = Separator
      | To_available \<Rightarrow> True | Stay \<Rightarrow> True)"

lemma into_front_ok: "r' < length rows \<Longrightarrow> drop_ok r k i rows (into_front r' (first_position (group_positions P (rows ! r'))))"
  using first_position_place [of P rows r']
  by (auto simp: into_front_def drop_ok_def split: option.split)

lemma button_drop_ok:
  assumes p: "group_place r k rows" and i: "i < length (group_buttons r k rows)"
  shows "drop_ok r k i rows (button_drop key r k i rows)"
proof -
  have r: "r < length rows" "k < length (tr_items (rows ! r))" using p by (simp_all add: group_place_def)
  have previous: "drop_ok r k i rows (case group_positions P (rows ! (r - 1)) of [] \<Rightarrow> Stay | ks \<Rightarrow> Back (r - 1) (last ks))" for P
  proof (cases "group_positions P (rows ! (r - 1))")
    case (Cons a ks)
    then have "last (a # ks) \<in> set (group_positions P (rows ! (r - 1)))" by (metis last_in_set list.discI)
    then have "group_place (r - 1) (last (a # ks)) rows" using group_positions_place r by fastforce
    then show ?thesis using Cons by (simp add: drop_ok_def)
  qed (simp add: drop_ok_def)
  have split: "drop_ok r k i rows (if c then x else y)" if "c \<Longrightarrow> drop_ok r k i rows x" "\<not> c \<Longrightarrow> drop_ok r k i rows y" for c x y
    using that by simp
  have next_to: "tr_items (rows ! r) ! j \<noteq> Add_item \<Longrightarrow> j < length (tr_items (rows ! r)) \<Longrightarrow> group_place r j rows" for j
    using r by (simp add: group_place_def)
  show ?thesis
    unfolding button_drop_def Let_def
    apply (intro split previous into_front_ok)
    using r i by (simp_all add: drop_ok_def next_to)
qed

end
