(* ===== verification/Ckeditor_Operations.thy ===== *)
theory Ckeditor_Operations
  imports Ckeditor_Tracking
begin

text \<open>
  The operations on the toolbar of CKEditor keep the invariant \<open>toolbar_inv\<close>, except for a button dropped on the list of
  dividers (\<open>stays_on_page\<close>), which is lost.
\<close>

section \<open>Operations on buttons\<close>

lemma set_insert_nth [simp]: "set (insert_nth k x xs) = insert x (set xs)"
  using mset_insert_nth [of k x xs] by (metis set_mset_add_mset_insert set_mset_mset)

lemma set_remove_nth: "set (remove_nth k xs) \<subseteq> set xs"
  by (auto simp: remove_nth_def dest: in_set_takeD in_set_dropD)

definition place_exists :: "button_place \<Rightarrow> ck_toolbar \<Rightarrow> bool" where
  "place_exists place s \<longleftrightarrow>
     (case place of In_group r k i \<Rightarrow> group_place r k (kt_rows s) \<and> i < length (group_buttons r k (kt_rows s))
      | In_available i \<Rightarrow> i < length (kt_available s) | In_dividers i \<Rightarrow> i < length (kt_dividers s))"

lemma register_inv:
  assumes "inj_on (featureName b2f) (set N)" and "toolbar_inv N b2f s" and "moved N b2f s s1"
    and "\<And>r k. place = Some (r, k) \<Longrightarrow> group_place r k (kt_rows s1)"
  shows "\<exists>s'. registerButtonMove place s1 = Inr s' \<and> toolbar_inv N b2f s'"
proof -
  have "no_placeholders (kt_rows s1)" using assms(3) by (simp add: moved_def page_ok_def)
  from registerButtonMove_dirty [OF this assms(4)] moved_registers [OF assms(1-3)] show ?thesis by simp
qed

text \<open>A move changes the rows, the available buttons, or both.\<close>

lemma moved_rows:
  assumes inv: "toolbar_inv N b2f s" and rows: "no_placeholders rows"
    and all: "mset (all_buttons rows) + mset av = mset (all_buttons (kt_rows s)) + mset (kt_available s) \<or>
      (\<exists>b. bt_name b = ''-'' \<and> kind_ok b \<and> (mset (all_buttons rows) + mset av = add_mset b (mset (all_buttons (kt_rows s)) + mset (kt_available s)) \<or>
        add_mset b (mset (all_buttons rows) + mset av) = mset (all_buttons (kt_rows s)) + mset (kt_available s)))"
    and change: "mset (all_buttons rows) = mset (all_buttons (kt_rows s)) \<or>
      (\<exists>b. mset (all_buttons rows) = add_mset b (mset (all_buttons (kt_rows s))) \<or>
        add_mset b (mset (all_buttons rows)) = mset (all_buttons (kt_rows s)))"
  shows "moved N b2f s (s\<lparr>kt_rows := rows, kt_available := av\<rparr>)"
proof -
  let ?new = "mset (all_buttons rows) + mset av" and ?old = "mset (all_buttons (kt_rows s)) + mset (kt_available s)"
  have p: "page_ok N b2f s" using inv by (simp add: toolbar_inv_def)
  have names: "names_of ?new = names_of ?old"
    using all by (metis names_of_simps(2))
  have ok: "\<forall>b \<in># ?old. kind_ok b" using p by (auto simp: page_ok_def movable_buttons_def list_all_iff)
  then have new_ok: "\<forall>b \<in># ?new. kind_ok b" using all by (metis insert_iff set_mset_add_mset_insert)
  have "list_all kind_ok (all_buttons rows @ av)" using new_ok by (auto simp: list_all_iff)
  then have "page_ok N b2f (s\<lparr>kt_rows := rows, kt_available := av\<rparr>)"
    using p rows names by (simp add: page_ok_def movable_buttons_def mset_button_names)
  moreover have "mset (button_names (all_buttons rows)) = mset (active_names s) \<or>
      (\<exists>b. mset (button_names (all_buttons rows)) = add_mset b (mset (active_names s))) \<or>
      (\<exists>b. mset (active_names s) = add_mset b (mset (button_names (all_buttons rows))))"
    unfolding active_names_def mset_button_names using change by (metis names_of_simps(2))
  ultimately show ?thesis by (simp add: moved_def active_names_def)
qed

lemma divider_ok:
  "toolbar_inv N b2f s \<Longrightarrow> i < length (kt_dividers s) \<Longrightarrow> bt_name (kt_dividers s ! i) = ''-'' \<and> kind_ok (kt_dividers s ! i)"
  by (simp add: toolbar_inv_def page_ok_def list_all_length)

lemma inv_no_placeholders: "toolbar_inv N b2f s \<Longrightarrow> no_placeholders (kt_rows s)"
  by (simp add: toolbar_inv_def page_ok_def)

lemma inv_separator:
  assumes "toolbar_inv N b2f s" and "add_mset b M = mset (all_buttons (kt_rows s))" and "bt_kind b = Separator"
  shows "bt_name b = ''-'' \<and> kind_ok b"
proof -
  have "b \<in> set (all_buttons (kt_rows s))" using assms(2) by (metis set_mset_mset union_single_eq_member)
  then have "kind_ok b" using assms(1) by (simp add: toolbar_inv_def page_ok_def movable_buttons_def list_all_iff)
  then show ?thesis using assms(3) by (simp add: kind_ok_def)
qed

lemma group_buttons_upd:
  assumes "group_place r k rows" and "group_place r' k' rows"
  shows "group_buttons r' k' (upd_group r k (on_buttons f) rows) =
    (if r = r' \<and> k = k' then f (group_buttons r k rows) else group_buttons r' k' rows)"
  using assms by (elim group_placeE) (auto simp: upd_group_def group_buttons_def nth_list_update)

lemma moved_only_rows:
  assumes "toolbar_inv N b2f s" and "no_placeholders rows"
    and "mset (all_buttons rows) = mset (all_buttons (kt_rows s)) \<or>
      (\<exists>b. bt_name b = ''-'' \<and> kind_ok b \<and> (mset (all_buttons rows) = add_mset b (mset (all_buttons (kt_rows s))) \<or>
        add_mset b (mset (all_buttons rows)) = mset (all_buttons (kt_rows s))))"
  shows "moved N b2f s (s\<lparr>kt_rows := rows\<rparr>)"
proof -
  have "mset (all_buttons rows) + mset (kt_available s) = mset (all_buttons (kt_rows s)) + mset (kt_available s) \<or>
      (\<exists>b. bt_name b = ''-'' \<and> kind_ok b \<and>
        (mset (all_buttons rows) + mset (kt_available s) = add_mset b (mset (all_buttons (kt_rows s)) + mset (kt_available s)) \<or>
        add_mset b (mset (all_buttons rows) + mset (kt_available s)) = mset (all_buttons (kt_rows s)) + mset (kt_available s)))"
    using assms(3) by (metis union_mset_add_mset_left)
  moreover have "mset (all_buttons rows) = mset (all_buttons (kt_rows s)) \<or>
      (\<exists>b. mset (all_buttons rows) = add_mset b (mset (all_buttons (kt_rows s))) \<or>
        add_mset b (mset (all_buttons rows)) = mset (all_buttons (kt_rows s)))"
    using assms(3) by blast
  ultimately have "moved N b2f s (s\<lparr>kt_rows := rows, kt_available := kt_available s\<rparr>)"
    by (rule moved_rows [OF assms(1,2)])
  then show ?thesis by simp
qed

lemma no_placeholders_buttons [simp]:
  "no_placeholders rows \<Longrightarrow> group_place r k rows \<Longrightarrow> no_placeholders (upd_group r k (on_buttons f) rows)"
  by (rule no_placeholders_upd) simp_all

lemma put_taken:
  assumes "group_place r k rows" and "i < length (group_buttons r k rows)" and "group_place r' k' rows"
    and "\<And>bs. mset (f bs) = add_mset (group_buttons r k rows ! i) (mset bs)"
  shows "mset (all_buttons (upd_group r' k' (on_buttons f) (upd_group r k (on_buttons (remove_nth i)) rows))) = mset (all_buttons rows)"
  using put_group [of r' k' "upd_group r k (on_buttons (remove_nth i)) rows" f, OF _ assms(4)] assms(3) take_group [OF assms(1,2)] by simp

lemma press_in_group_inv:
  assumes inj: "inj_on (featureName b2f) (set N)" and inv: "toolbar_inv N b2f s"
    and p: "group_place r k (kt_rows s)" and i: "i < length (group_buttons r k (kt_rows s))"
  shows "\<exists>s'. press_in_group key r k i s = Inr s' \<and> toolbar_inv N b2f s'"
proof -
  let ?b = "group_buttons r k (kt_rows s) ! i" and ?taken = "upd_group r k (on_buttons (remove_nth i)) (kt_rows s)"
  note reg = register_inv [OF inj inv] and np = inv_no_placeholders [OF inv]
  have ok: "drop_ok r k i (kt_rows s) (button_drop key r k i (kt_rows s))" by (rule button_drop_ok [OF p i])
  note taken = take_group [OF p i]
  show ?thesis
  proof (cases "button_drop key r k i (kt_rows s)")
    case (Front r' k')
    with ok have p': "group_place r' k' (kt_rows s)" by (simp add: drop_ok_def)
    have "moved N b2f s (s\<lparr>kt_rows := upd_group r' k' (on_buttons (Cons ?b)) ?taken\<rparr>)"
      by (rule moved_only_rows [OF inv]) (simp_all add: np p p' put_taken [OF p i p'])
    from reg [OF this, of "Some (r', k')"] show ?thesis using Front p' by (simp add: press_in_group_def Let_def)
  next
    case (Back r' k')
    with ok have p': "group_place r' k' (kt_rows s)" by (simp add: drop_ok_def)
    have "moved N b2f s (s\<lparr>kt_rows := upd_group r' k' (on_buttons (\<lambda>bs. bs @ [?b])) ?taken\<rparr>)"
      by (rule moved_only_rows [OF inv])
        (simp_all add: np p p' put_taken [OF p i p', of "\<lambda>bs. bs @ [?b]"] no_placeholders_buttons [of ?taken r' k' "\<lambda>bs. bs @ [?b]"])
    from reg [OF this, of "Some (r', k')"] show ?thesis using Back p' by (simp add: press_in_group_def Let_def)
  next
    case (Swap_with j)
    with ok have j: "j < length (group_buttons r k (kt_rows s))" by (simp add: drop_ok_def)
    have "moved N b2f s (s\<lparr>kt_rows := upd_group r k (on_buttons (swap_nth i j)) (kt_rows s)\<rparr>)"
      by (rule moved_only_rows [OF inv]) (simp_all add: np p same_group [OF p] mset_swap_nth [OF i j])
    from reg [OF this, of "Some (r, k)"] show ?thesis using Swap_with p by (simp add: press_in_group_def Let_def)
  next
    case To_available
    have "moved N b2f s (s\<lparr>kt_rows := ?taken, kt_available := ?b # kt_available s\<rparr>)"
      by (rule moved_rows [OF inv]) (simp_all add: np p taken [symmetric])
    from reg [OF this, of None] show ?thesis using To_available by (simp add: press_in_group_def Let_def)
  next
    case Destroyed
    with ok have "bt_kind ?b = Separator" by (simp add: drop_ok_def)
    from inv_separator [OF inv taken this]
    have "moved N b2f s (s\<lparr>kt_rows := ?taken\<rparr>)"
      by (intro moved_only_rows [OF inv] disjI2 exI [of _ ?b]) (simp_all add: np p taken)
    from reg [OF this, of None] show ?thesis using Destroyed by (simp add: press_in_group_def Let_def)
  next
    case Stay
    have "moved N b2f s (s\<lparr>kt_rows := kt_rows s\<rparr>)" by (rule moved_only_rows [OF inv np]) simp
    from reg [OF this, of "Some (r, k)"] show ?thesis using Stay p by (simp add: press_in_group_def Let_def)
  qed
qed

lemma onPressButton_inv:
  assumes inj: "inj_on (featureName b2f) (set N)" and inv: "toolbar_inv N b2f s" and p: "place_exists place s"
  shows "\<exists>s'. onPressButton key place s = Inr s' \<and> toolbar_inv N b2f s'"
proof (cases "key \<in> set (up_keys @ down_keys @ left_keys @ right_keys)")
  case True
  note reg = register_inv [OF inj inv] and np = inv_no_placeholders [OF inv]
  have "moved N b2f s (s\<lparr>kt_rows := kt_rows s\<rparr>)" by (rule moved_only_rows [OF inv np]) simp
  from reg [OF this, of None] have stay: "\<exists>s'. registerButtonMove None s = Inr s' \<and> toolbar_inv N b2f s'" by simp
  let ?target = "if key \<in> set down_keys then first_group 0 (kt_rows s) else None"
  have target: "group_place r k (kt_rows s)" if "?target = Some (r, k)" for r k
    using that first_group_place [of 0 "kt_rows s" r k] by (simp split: if_splits)
  show ?thesis
  proof (cases place)
    case (In_group r k i)
    with p have "group_place r k (kt_rows s)" "i < length (group_buttons r k (kt_rows s))" by (simp_all add: place_exists_def)
    from press_in_group_inv [OF inj inv this] show ?thesis using True In_group by (auto simp: onPressButton_def)
  next
    case (In_available i)
    with p have i: "i < length (kt_available s)" by (simp add: place_exists_def)
    have "moved N b2f s (s\<lparr>kt_rows := upd_group r k (on_buttons (Cons (kt_available s ! i))) (kt_rows s),
        kt_available := remove_nth i (kt_available s)\<rparr>)" if rk: "?target = Some (r, k)" for r k
    proof (rule moved_rows [OF inv])
      have eq: "mset (all_buttons (upd_group r k (on_buttons (Cons (kt_available s ! i))) (kt_rows s))) =
          add_mset (kt_available s ! i) (mset (all_buttons (kt_rows s)))"
        by (rule put_group [OF target [OF rk]]) simp
      show "mset (all_buttons (upd_group r k (on_buttons (Cons (kt_available s ! i))) (kt_rows s))) + mset (remove_nth i (kt_available s)) =
          mset (all_buttons (kt_rows s)) + mset (kt_available s) \<or> P" for P
        by (simp add: eq mset_remove_nth [OF i, symmetric])
    qed (use np target [OF rk] put_group [OF target [OF rk], of "Cons (kt_available s ! i)"] in auto)
    with reg target stay show ?thesis
      using True In_available by (auto simp: onPressButton_def split: option.split)
  next
    case (In_dividers i)
    with p have i: "i < length (kt_dividers s)" by (simp add: place_exists_def)
    have "moved N b2f s (s\<lparr>kt_rows := upd_group r k (on_buttons (Cons (kt_dividers s ! i))) (kt_rows s)\<rparr>)"
      if rk: "?target = Some (r, k)" for r k
      using divider_ok [OF inv i] put_group [OF target [OF rk], of "Cons (kt_dividers s ! i)"] target [OF rk] np
      by (intro moved_only_rows [OF inv] disjI2 exI [of _ "kt_dividers s ! i"]) simp_all
    with reg target stay show ?thesis
      using True In_dividers by (auto simp: onPressButton_def split: option.split)
  qed
qed (use inv in \<open>simp add: onPressButton_def\<close>)

text \<open>
  Where a dragged button can be dropped: a group, the available buttons or, as the list has the same group name and no
  option \<open>put\<close>, the list of dividers.
\<close>

definition drop_target :: "button_place \<Rightarrow> ck_toolbar \<Rightarrow> bool" where
  "drop_target place s \<longleftrightarrow>
     (case place of In_group r k i \<Rightarrow> group_place r k (kt_rows s) | In_available i \<Rightarrow> True | In_dividers i \<Rightarrow> True)"

text \<open>
  A drop on the list of dividers from elsewhere takes the button out of the toolbar and of the available buttons; only
  dividers are moved within that list without loss.
\<close>

fun stays_on_page :: "button_place \<Rightarrow> button_place \<Rightarrow> bool" where
  "stays_on_page (In_dividers i) to_place = True"
| "stays_on_page from_place (In_dividers j) = False"
| "stays_on_page from_place to_place = True"

lemma taken_and_put:
  assumes inv: "toolbar_inv N b2f s" and p: "place_exists from_place s" and q: "drop_target to_place s"
    and stays: "stays_on_page from_place to_place" and t: "take_from from_place to_place s = (b, s1)"
  shows "moved N b2f s (put_into to_place b s1)"
proof -
  note np = inv_no_placeholders [OF inv]
  show ?thesis
  proof (cases from_place)
    case (In_group r k i)
    with p have g: "group_place r k (kt_rows s)" "i < length (group_buttons r k (kt_rows s))" by (simp_all add: place_exists_def)
    have s1: "s1 = s\<lparr>kt_rows := upd_group r k (on_buttons (remove_nth i)) (kt_rows s)\<rparr>" "b = group_buttons r k (kt_rows s) ! i"
      using t In_group by (simp_all add: take_from_def)
    show ?thesis
    proof (cases to_place)
      case to: (In_group r' k' j)
      with q have p': "group_place r' k' (kt_rows s)" by (simp add: drop_target_def)
      have "moved N b2f s (s\<lparr>kt_rows := upd_group r' k' (on_buttons (insert_nth j b)) (kt_rows s1)\<rparr>)"
        by (rule moved_only_rows [OF inv]) (simp_all add: np g p' s1 put_taken [OF g p'])
      then show ?thesis by (simp add: put_into_def to s1(1))
    next
      case to: (In_available j)
      have "moved N b2f s (s\<lparr>kt_rows := kt_rows s1, kt_available := insert_nth j b (kt_available s)\<rparr>)"
        by (rule moved_rows [OF inv]) (simp_all add: np g s1 take_group [OF g, symmetric])
      then show ?thesis by (simp add: put_into_def to s1(1))
    qed (use stays In_group in simp)
  next
    case (In_available i)
    with p have i: "i < length (kt_available s)" by (simp add: place_exists_def)
    have s1: "s1 = s\<lparr>kt_available := remove_nth i (kt_available s)\<rparr>" "b = kt_available s ! i"
      using t In_available by (simp_all add: take_from_def)
    show ?thesis
    proof (cases to_place)
      case to: (In_group r k j)
      with q have g: "group_place r k (kt_rows s)" by (simp add: drop_target_def)
      have put: "mset (all_buttons (upd_group r k (on_buttons (insert_nth j b)) (kt_rows s))) = add_mset b (mset (all_buttons (kt_rows s)))"
        by (rule put_group [OF g]) simp
      have "moved N b2f s (s\<lparr>kt_rows := upd_group r k (on_buttons (insert_nth j b)) (kt_rows s), kt_available := remove_nth i (kt_available s)\<rparr>)"
        by (rule moved_rows [OF inv]) (simp_all add: np g put [unfolded s1(2)] s1(2) mset_remove_nth [OF i, symmetric])
      moreover have "put_into to_place b s1 =
          s\<lparr>kt_rows := upd_group r k (on_buttons (insert_nth j b)) (kt_rows s), kt_available := remove_nth i (kt_available s)\<rparr>"
        by (cases s) (simp add: put_into_def to s1(1))
      ultimately show ?thesis by simp
    next
      case to: (In_available j)
      have "moved N b2f s (s\<lparr>kt_rows := kt_rows s, kt_available := insert_nth j b (kt_available s1)\<rparr>)"
        by (rule moved_rows [OF inv]) (simp_all add: np s1 mset_remove_nth [OF i])
      then show ?thesis by (simp add: put_into_def to s1(1))
    qed (use stays In_available in simp)
  next
    case (In_dividers i)
    with p have i: "i < length (kt_dividers s)" by (simp add: place_exists_def)
    have b0: "b = kt_dividers s ! i" using t In_dividers by (auto simp: take_from_def)
    have b: "bt_name b = ''-''" "kind_ok b" using divider_ok [OF inv i] b0 by simp_all
    show ?thesis
    proof (cases to_place)
      case to: (In_group r k j)
      then have s1: "s1 = s" using t In_dividers by (simp add: take_from_def)
      from to q have g: "group_place r k (kt_rows s)" by (simp add: drop_target_def)
      have "mset (all_buttons (upd_group r k (on_buttons (insert_nth j b)) (kt_rows s))) = add_mset b (mset (all_buttons (kt_rows s)))"
        by (rule put_group [OF g]) simp
      then have "moved N b2f s (s\<lparr>kt_rows := upd_group r k (on_buttons (insert_nth j b)) (kt_rows s)\<rparr>)"
        using b np g by (intro moved_only_rows [OF inv] disjI2 exI [of _ b]) simp_all
      then show ?thesis by (simp add: put_into_def to s1(1))
    next
      case to: (In_available j)
      then have s1: "s1 = s" using t In_dividers by (simp add: take_from_def)
      have "moved N b2f s (s\<lparr>kt_rows := kt_rows s, kt_available := insert_nth j b (kt_available s)\<rparr>)"
        using b np by (intro moved_rows [OF inv] disjI2 [of _ "\<exists>c. bt_name c = ''-'' \<and> _ c"] exI [of _ b]) simp_all
      then show ?thesis by (simp add: put_into_def to s1(1))
    next
      case to: (In_dividers j)
      then have s1: "s1 = s\<lparr>kt_dividers := remove_nth i (kt_dividers s)\<rparr>" using t In_dividers by (auto simp: take_from_def)
      have "list_all (\<lambda>b. kind_ok b \<and> bt_name b = ''-'') (insert_nth j b (remove_nth i (kt_dividers s)))"
        using inv b set_remove_nth [of i "kt_dividers s"] by (auto simp: toolbar_inv_def page_ok_def list_all_iff)
      then have "moved N b2f s (s\<lparr>kt_dividers := insert_nth j b (remove_nth i (kt_dividers s))\<rparr>)"
        using inv by (simp add: moved_def toolbar_inv_def page_ok_def movable_buttons_def active_names_def)
      then show ?thesis by (simp add: put_into_def to s1)
    qed
  qed
qed

lemma endButtonDrag_inv:
  assumes inj: "inj_on (featureName b2f) (set N)" and inv: "toolbar_inv N b2f s"
    and p: "place_exists from_place s" and q: "drop_target to_place s" and stays: "stays_on_page from_place to_place"
  shows "\<exists>s'. endButtonDrag from_place to_place s = Inr s' \<and> toolbar_inv N b2f s'"
proof -
  obtain b s1 where t: "take_from from_place to_place s = (b, s1)" by fastforce
  have same: "group_place r k (kt_rows s1) = group_place r k (kt_rows s)" for r k
    using t by (auto simp: take_from_def split: button_place.splits)
  have "group_place r k (kt_rows (put_into to_place b s1))" if "place_group to_place = Some (r, k)" for r k
    using that q by (auto simp: place_group_def put_into_def drop_target_def same split: button_place.splits)
  from register_inv [OF inj inv taken_and_put [OF inv p q stays t] this] show ?thesis
    by (simp add: endButtonDrag_def t)
qed

section \<open>Operations on groups\<close>

lemma upd_row_mset:
  assumes "r < length rows"
  shows "mset (all_buttons (upd_row r f rows)) + mset (row_buttons (rows ! r)) = mset (all_buttons rows) + mset (row_buttons (f (rows ! r)))"
  using mset_concat_update [OF assms, of row_buttons "f (rows ! r)"] by (simp add: upd_row_def all_buttons_rows)

lemma remove_item_mset:
  assumes "k < length its"
  shows "mset (item_buttons (its ! k)) + mset (concat (map item_buttons (remove_nth k its))) = mset (concat (map item_buttons its))"
proof -
  have "mset (concat (map item_buttons (remove_nth k its))) + mset (item_buttons (its ! k)) =
      mset (concat (map item_buttons (take k its @ its ! k # drop (Suc k) its)))"
    by (simp add: remove_nth_def)
  then show ?thesis by (simp only: id_take_nth_drop [OF assms, symmetric] add.commute)
qed

lemma insert_item_mset:
  "mset (concat (map item_buttons (insert_nth k it its))) = mset (item_buttons it) + mset (concat (map item_buttons its))"
proof -
  have "mset (concat (map item_buttons its)) = mset (concat (map item_buttons (take k its))) + mset (concat (map item_buttons (drop k its)))"
    by (metis append_take_drop_id concat_append map_append mset_append)
  then show ?thesis by (simp add: insert_nth_def)
qed

lemma move_item_mset:
  assumes r: "r < length rows" and k: "k < length (tr_items (rows ! r))" and r': "r' < length rows"
  shows "mset (all_buttons (move_item r k r' k' rows)) = mset (all_buttons rows)"
proof -
  let ?it = "tr_items (rows ! r) ! k" and ?taken = "upd_row r (on_items (remove_nth k)) rows"
  let ?rest = "mset (concat (map item_buttons (remove_nth k (tr_items (rows ! r)))))"
  have "mset (all_buttons ?taken) + (mset (item_buttons ?it) + ?rest) = mset (all_buttons rows) + ?rest"
    using upd_row_mset [OF r, of "on_items (remove_nth k)"] by (simp add: row_buttons_def remove_item_mset [OF k])
  then have taken: "mset (all_buttons ?taken) + mset (item_buttons ?it) = mset (all_buttons rows)" by simp
  have "mset (all_buttons (move_item r k r' k' rows)) = mset (all_buttons ?taken) + mset (item_buttons ?it)"
    using upd_row_mset [of r' ?taken "on_items (insert_nth k' ?it)"] r'
    by (simp add: move_item_def row_buttons_def insert_item_mset upd_row_def)
  then show ?thesis using taken by simp
qed

lemma no_placeholders_rows:
  assumes "no_placeholders rows" and "\<And>it. it \<in> set (f (tr_items (rows ! r))) \<Longrightarrow> \<not> is_placeholder_item it"
    and "r < length rows"
  shows "no_placeholders (upd_row r (on_items f) rows)"
  using assms set_update_subset_insert [of rows r "on_items f (rows ! r)"]
  unfolding no_placeholders_def upd_row_def by fastforce

lemma move_item_no_placeholders:
  assumes np: "no_placeholders rows" and r: "r < length rows" and k: "k < length (tr_items (rows ! r))" and r': "r' < length rows"
  shows "no_placeholders (move_item r k r' k' rows)"
proof -
  have items: "\<not> is_placeholder_item it" if "it \<in> set (tr_items (rs ! n))" "n < length rs" "no_placeholders rs" for it n rs
    using that nth_mem [of n rs] by (auto simp: no_placeholders_def)
  have taken: "no_placeholders (upd_row r (on_items (remove_nth k)) rows)"
    using items [OF _ r np] set_remove_nth [of k "tr_items (rows ! r)"] by (intro no_placeholders_rows [OF np _ r]) blast
  have it: "\<not> is_placeholder_item (tr_items (rows ! r) ! k)" using items [OF _ r np] k by simp
  show ?thesis
    unfolding move_item_def
    using items [OF _ _ taken] it r' by (intro no_placeholders_rows [OF taken]) (auto simp: upd_row_def)
qed

lemma dirty_inv:
  assumes inj: "inj_on (featureName b2f) (set N)" and inv: "toolbar_inv N b2f s"
    and rows: "no_placeholders rows" "mset (all_buttons rows) = mset (all_buttons (kt_rows s))"
  shows "\<exists>s'. set_isDirty True (s\<lparr>kt_rows := rows\<rparr>) = Inr s' \<and> toolbar_inv N b2f s'"
  using rows by (intro moved_registers [OF inj inv] moved_only_rows [OF inv]) simp_all

lemma map_rows_buttons:
  assumes "\<And>row. tr_items (f row) = tr_items row"
  shows "all_buttons (map f rows) = all_buttons rows" "no_placeholders (map f rows) = no_placeholders rows"
proof -
  show "all_buttons (map f rows) = all_buttons rows"
    using assms by (induction rows) (simp_all add: row_buttons_def)
qed (use assms in \<open>simp add: no_placeholders_def\<close>)

lemma row_class_buttons:
  assumes "\<And>row. tr_items (f row) = tr_items row" and "r < length rows"
  shows "mset (all_buttons (upd_row r f rows)) = mset (all_buttons rows)" "no_placeholders (upd_row r f rows) = no_placeholders rows"
proof -
  have same: "row_buttons (f (rows ! r)) = row_buttons (rows ! r)" using assms(1) by (simp add: row_buttons_def)
  then show "mset (all_buttons (upd_row r f rows)) = mset (all_buttons rows)"
    using upd_row_mset [OF assms(2), of f] by simp
  have "list_all (\<lambda>row. list_all (\<lambda>it. \<not> is_placeholder_item it) (tr_items row)) (rows[r := f (rows ! r)]) =
      list_all (\<lambda>row. list_all (\<lambda>it. \<not> is_placeholder_item it) (tr_items row)) rows"
    using assms by (auto simp: list_all_length nth_list_update split: if_splits)
  then show "no_placeholders (upd_row r f rows) = no_placeholders rows"
    by (simp add: no_placeholders_def list_all_iff upd_row_def)
qed

lemma registerGroupMove_inv:
  assumes inj: "inj_on (featureName b2f) (set N)" and inv: "toolbar_inv N b2f s"
    and rows: "no_placeholders rows" "mset (all_buttons rows) = mset (all_buttons (kt_rows s))" and r: "r < length rows"
  shows "\<exists>s'. registerGroupMove r (s\<lparr>kt_rows := rows\<rparr>) = Inr s' \<and> toolbar_inv N b2f s'"
proof -
  let ?f = "\<lambda>row. if open_groups row = [] then row\<lparr>tr_placeholder := True\<rparr> else row"
  define rows1 where "rows1 = upd_row r (\<lambda>row. row\<lparr>tr_placeholder := False\<rparr>) rows"
  have "mset (all_buttons rows1) = mset (all_buttons rows)" "no_placeholders rows1"
    unfolding rows1_def using row_class_buttons [OF _ r, of "\<lambda>row. row\<lparr>tr_placeholder := False\<rparr>"] rows(1) by simp_all
  with map_rows_buttons [of ?f rows1] rows(2)
  have "mset (all_buttons (map ?f rows1)) = mset (all_buttons (kt_rows s))" "no_placeholders (map ?f rows1)" by simp_all
  from dirty_inv [OF inj inv this(2,1)] show ?thesis by (simp add: registerGroupMove_def Let_def rows1_def upd_row_def)
qed

lemma group_drop_row: "r < length rows \<Longrightarrow> group_drop key r k rows = (r', k') \<Longrightarrow> r' < length rows"
  by (auto simp: group_drop_def Let_def split: if_splits)

lemma moved_group_inv:
  assumes "inj_on (featureName b2f) (set N)" and inv: "toolbar_inv N b2f s"
    and "r < length (kt_rows s)" and "k < length (tr_items (kt_rows s ! r))" and "r' < length (kt_rows s)"
  shows "\<exists>s'. registerGroupMove r' (s\<lparr>kt_rows := move_item r k r' k' (kt_rows s)\<rparr>) = Inr s' \<and> toolbar_inv N b2f s'"
  using assms inv_no_placeholders [OF inv]
  by (intro registerGroupMove_inv [OF assms(1) inv]) (simp_all add: move_item_no_placeholders move_item_mset, simp add: move_item_def upd_row_def)

lemma rename_group_inv:
  assumes inj: "inj_on (featureName b2f) (set N)" and inv: "toolbar_inv N b2f s" and p: "group_place r k (kt_rows s)"
  shows "\<exists>s'. rename_group r k name s = Inr s' \<and> toolbar_inv N b2f s'"
proof (cases "name = []")
  case False
  have eq: "upd_group r k (group_named name) (kt_rows s) =
      upd_row r (on_items (\<lambda>its. its[k := (case its ! k of Group_item g \<Rightarrow> Group_item (group_named name g) | Add_item \<Rightarrow> Add_item)])) (kt_rows s)"
    by (simp add: upd_group_def upd_row_def)
  have r: "r < length (kt_rows s)" using p by (simp add: group_place_def)
  have np: "no_placeholders (upd_group r k (group_named name) (kt_rows s))"
    using inv_no_placeholders [OF inv] by (rule no_placeholders_upd) (simp_all add: group_named_def p)
  obtain g where g: "k < length (tr_items (kt_rows s ! r))" "tr_items (kt_rows s ! r) ! k = Group_item g" using p by (rule group_placeE)
  have "mset (concat (map item_buttons ((tr_items (kt_rows s ! r))[k := Group_item (group_named name g)]))) =
      mset (concat (map item_buttons (tr_items (kt_rows s ! r))))"
    using mset_concat_update [OF g(1), of item_buttons "Group_item (group_named name g)"] g(2) by (simp add: group_named_def)
  then have same: "mset (all_buttons (upd_group r k (group_named name) (kt_rows s))) = mset (all_buttons (kt_rows s))"
    using upd_row_mset [OF r, of "on_items (\<lambda>its. its[k := Group_item (group_named name g)])"] g(2)
    by (simp add: upd_group_def upd_row_def row_buttons_def)
  show ?thesis
    using False row_class_buttons [of "\<lambda>row. row\<lparr>tr_placeholder := False\<rparr>" r "upd_group r k (group_named name) (kt_rows s)"] np same r
    by (simp add: rename_group_def, intro dirty_inv [OF inj inv]) (simp_all add: upd_group_def)
qed (use inv in \<open>simp add: rename_group_def\<close>)

lemma add_group_inv:
  assumes inj: "inj_on (featureName b2f) (set N)" and inv: "toolbar_inv N b2f s" and r: "r < length (kt_rows s)"
  shows "\<exists>s'. add_group r name s = Inr s' \<and> toolbar_inv N b2f s'"
proof (cases "name = []")
  case False
  let ?new = "\<lambda>its. its @ [Group_item (group_named name ckeditorToolbarGroup)]"
  note np = inv_no_placeholders [OF inv]
  have "no_placeholders (upd_row r (on_items ?new) (kt_rows s))"
    using np r nth_mem [OF r]
    by (intro no_placeholders_rows [OF np]) (auto simp: no_placeholders_def is_placeholder_item_def group_named_def)
  moreover have "mset (all_buttons (upd_row r (on_items ?new) (kt_rows s))) = mset (all_buttons (kt_rows s))"
    using upd_row_mset [OF r, of "on_items ?new"] by (simp add: row_buttons_def group_named_def ckeditorToolbarGroup_def)
  ultimately show ?thesis using False dirty_inv [OF inj inv] by (simp add: add_group_def)
qed (use inv in \<open>simp add: add_group_def\<close>)

lemma settings_changed_inv:
  assumes "toolbar_inv N b2f s" and "features_named features"
  shows "toolbar_inv N b2f (settings_changed raw features s)"
proof -
  have eq: "map (\<lambda>(n, f). Feature_modified f) xs = map Feature_modified (map snd xs)" for xs :: "(string \<times> feature) list"
    by (induction xs) auto
  show ?thesis
    using assms unfolding settings_changed_def eq
    by (simp add: toolbar_inv_def page_ok_def movable_buttons_def active_names_def del: map_map)
qed

end
