(* ===== verification/Ckeditor_Run.thy ===== *)
theory Ckeditor_Run
  imports Ckeditor_Operations
begin

text \<open>
  The toolbar of CKEditor from the start of the editor to its end: reading the features, disabling what the filters
  do not allow, any sequence of operations, and removing the editor. Runs keep the invariant as long as nothing is dropped on the
  list of dividers and the rules of changed settings can be read (\<open>orderly\<close>); other operations are part of runs too.
\<close>

section \<open>The features of the editor are found under their names\<close>

lemma convert_rules_name [simp]: "f_name (convertCKERulesToEditorFeature f rs) = f_name f"
  unfolding convertCKERulesToEditorFeature_def
  by (induction rs arbitrary: f) (simp_all add: EditorFeature_addHTMLRule_def)

lemma convert_rules: "convertCKERulesToEditorFeature f rs = f\<lparr>f_rules := f_rules f @ map convert_rule rs\<rparr>"
  unfolding convertCKERulesToEditorFeature_def
  by (induction rs arbitrary: f) (simp_all add: EditorFeature_addHTMLRule_def)

lemma feature_rules_map_get:
  "js_get (feature_rules_map rs) n = (case filter (\<lambda>r. rule_feature r = n) rs of [] \<Rightarrow> None | rs' \<Rightarrow> Some rs')"
proof (induction rs rule: rev_induct)
  case (snoc r rs)
  then show ?case by (auto simp: feature_rules_map_def split: list.splits)
qed (simp add: feature_rules_map_def)

lemma feature_rules_map_wf: "js_wf (feature_rules_map rs)"
  unfolding feature_rules_map_def by (induction rs rule: rev_induct) (simp_all add: jsobj.wf_put)

lemma collect_features_get:
  "collect_features command m features b2f = Inr (features', b2f') \<Longrightarrow> distinct (js_keys m) \<Longrightarrow>
   js_get features' n =
     (case js_get m n of None \<Rightarrow> js_get features n | Some rs \<Rightarrow> Some (convertCKERulesToEditorFeature (EditorFeature n) rs))"
proof (induction command m features b2f rule: collect_features.induct)
  case (2 command l rs m features b2f)
  let ?f1 = "js_put l (convertCKERulesToEditorFeature (EditorFeature l) rs) features"
  obtain b1 where "collect_features command m ?f1 b1 = Inr (features', b2f')" and
    "js_get features' n =
     (case js_get m n of None \<Rightarrow> js_get ?f1 n | Some rs \<Rightarrow> Some (convertCKERulesToEditorFeature (EditorFeature n) rs))"
    using 2 by (auto simp: Let_def split: option.splits list.splits)
  moreover have "js_get m l = None" using 2(4) by (simp add: js_get_def map_of_eq_None_iff)
  ultimately show ?case by (auto split: option.splits)
qed simp

lemma getCKEditorFeatures_get:
  assumes "getCKEditorFeatures command rs = Inr (features, b2f)"
  shows "js_get features n = (case filter (\<lambda>r. rule_feature r = n) rs of [] \<Rightarrow> None
    | rs' \<Rightarrow> Some \<lparr>f_name = n, f_rules = map convert_rule rs'\<rparr>)"
  using collect_features_get [OF assms [unfolded getCKEditorFeatures_def]] feature_rules_map_wf [of rs, THEN jsobj.wf_distinct]
  by (auto simp: feature_rules_map_get convert_rules EditorFeature_def split: option.splits list.splits)

lemma getCKEditorFeatures_named: "getCKEditorFeatures command rs = Inr (features, b2f) \<Longrightarrow> features_named features"
  by (auto simp: features_named_def getCKEditorFeatures_get split: list.splits)

section \<open>Starting\<close>

definition starting :: "string list \<Rightarrow> string jsobj \<Rightarrow> string list \<Rightarrow> ck_toolbar \<Rightarrow> bool" where
  "starting N b2f bs s \<longleftrightarrow>
     page_ok N b2f s \<and> kt_config s = config_of (kt_rows s) \<and> kt_textarea s = kt_config s \<and>
     distinct bs \<and> set bs - {''-''} \<subseteq> set (active_names s) \<and>
     tracked_features (kt_log s) = featureName b2f ` (set (active_names s) - set bs)"

lemma with_buttons_filter:
  "all_buttons (with_buttons (filter P) rows) = filter P (all_buttons rows)"
  "no_placeholders (with_buttons (filter P) rows) = no_placeholders rows"
proof -
  let ?f = "\<lambda>it. case it of Group_item g \<Rightarrow> Group_item (g\<lparr>gp_buttons := filter P (gp_buttons g)\<rparr>) | Add_item \<Rightarrow> Add_item"
  have item: "item_buttons (?f it) = filter P (item_buttons it)" "is_placeholder_item (?f it) = is_placeholder_item it" for it
    by (cases it; simp add: is_placeholder_item_def)+
  have "concat (map item_buttons (map ?f its)) = filter P (concat (map item_buttons its))" for its
    by (induction its) (simp_all add: item)
  then have "row_buttons (row\<lparr>tr_items := map ?f (tr_items row)\<rparr>) = filter P (row_buttons row)" for row
    by (simp add: row_buttons_def)
  then show "all_buttons (with_buttons (filter P) rows) = filter P (all_buttons rows)"
    by (induction rows) (simp_all add: with_buttons_def)
  show "no_placeholders (with_buttons (filter P) rows) = no_placeholders rows"
    by (simp add: no_placeholders_def with_buttons_def item)
qed

lemma disable_button_page:
  assumes "page_ok N b2f s"
  shows "page_ok N b2f (disable_button b s)" "active_names (disable_button b s) = filter (\<lambda>n. n \<noteq> b) (active_names s)"
proof -
  let ?A = "all_buttons (kt_rows s)"
  have "mset (filter (\<lambda>x. bt_name x \<noteq> b) ?A) + mset (filter (\<lambda>x. bt_name x = b) ?A) = mset ?A"
    using multiset_partition [of "mset ?A" "\<lambda>x. bt_name x \<noteq> b"] by simp
  then have "mset (movable_buttons (disable_button b s)) = mset (movable_buttons s)"
    by (simp add: movable_buttons_def disable_button_def with_buttons_filter ac_simps)
  then have "names_of (mset (movable_buttons (disable_button b s))) = names_of (mset (movable_buttons s))"
    "set (movable_buttons (disable_button b s)) = set (movable_buttons s)"
    by (rule arg_cong, rule mset_eq_setD)
  then show "page_ok N b2f (disable_button b s)"
    using assms by (simp add: page_ok_def mset_button_names list_all_iff) (simp add: disable_button_def with_buttons_filter)
  show "active_names (disable_button b s) = filter (\<lambda>n. n \<noteq> b) (active_names s)"
    by (simp add: active_names_def disable_button_def with_buttons_filter button_names_def filter_map comp_def conj_commute)
qed

lemma quiet_dirty:
  assumes "page_ok N b2f s"
  shows "\<exists>s'. set_isDirty False s = Inr s' \<and> page_ok N b2f s' \<and> active_names s' = active_names s \<and>
    kt_config s' = config_of (kt_rows s') \<and> (kt_textarea s = kt_config s \<longrightarrow> kt_textarea s' = kt_config s') \<and>
    kt_log s' = kt_log s \<and> kt_features s' = kt_features s"
proof -
  have np: "no_placeholders (kt_rows s)" and fn: "features_named (kt_features s)" using assms by (simp_all add: page_ok_def)
  note keeps = insertPlaceholders_keeps [OF np]
  define s' where "s' = s\<lparr>kt_config := config_of (kt_rows s),
    kt_textarea := (if config_of (kt_rows s) \<noteq> kt_config s then config_of (kt_rows s) else kt_textarea s),
    kt_rows := insertPlaceholders (kt_rows s)\<rparr>"
  have "set_isDirty False s = Inr s'" by (simp add: set_isDirty_def Let_def s'_def)
  moreover have "page_ok N b2f s'" by (rule page_ok_cong [OF assms]) (simp_all add: s'_def keeps fn)
  ultimately show ?thesis by (simp add: s'_def active_names_def keeps)
qed

lemma check_button:
  assumes inj: "inj_on (featureName b2f) (set N)" and st: "starting N b2f (b # bs) s"
    and total: "\<forall>f. \<exists>ok. is_allowed f = Inr ok"
  shows "\<exists>s'. starting N b2f bs s' \<and> check_buttons is_allowed (b # bs) s = check_buttons is_allowed bs s'"
proof (cases "b = ''-''")
  case True
  then have "''-'' \<notin> set (active_names s)" by (simp add: active_names_def button_names_def)
  then have "starting N b2f bs s" using st True by (auto simp: starting_def)
  moreover have "check_buttons is_allowed (b # bs) s = check_buttons is_allowed bs s" by (simp add: getFeatureForButton_def True)
  ultimately show ?thesis by blast
next
  case b: False
  have p: "page_ok N b2f s" and b_active: "b \<in> set (active_names s)" and b_bs: "b \<notin> set bs"
    and conf: "kt_config s = config_of (kt_rows s)" "kt_textarea s = kt_config s"
    and rest: "set bs - {''-''} \<subseteq> set (active_names s)" "distinct bs"
    and tr: "tracked_features (kt_log s) = featureName b2f ` (set (active_names s) - set (b # bs))"
    using st b by (auto simp: starting_def)
  have fn: "features_named (kt_features s)" "kt_buttonsToFeatures s = b2f" using p by (simp_all add: page_ok_def)
  obtain f features where f: "getFeatureForButton (Some b) s = Inr (Some f, s\<lparr>kt_features := features\<rparr>)" "features_named features"
    using feature_known [OF fn(1) b] by blast
  define s1 where "s1 = s\<lparr>kt_features := features\<rparr>"
  have p1: "page_ok N b2f s1" and act1: "active_names s1 = active_names s" using p f(2) by (simp_all add: s1_def page_ok_def movable_buttons_def active_names_def)
  obtain ok where ok: "is_allowed f = Inr ok" using total by blast
  show ?thesis
  proof (cases ok)
    case True
    obtain f' features' where log: "toolbar_changed True (Some b) s1 = Inr (s1\<lparr>kt_features := features', kt_log := kt_log s1 @ [Feature_added f']\<rparr>)"
      "f_name f' = featureName b2f b" "features_named features'"
      using toolbar_changed_logs [of s1 b True] f(2) b fn(2) by (auto simp: s1_def)
    define s2 where "s2 = s1\<lparr>kt_features := features', kt_log := kt_log s1 @ [Feature_added f']\<rparr>"
    have act2: "active_names s2 = active_names s" by (simp add: s2_def s1_def active_names_def)
    have "set (active_names s) - set bs = insert b (set (active_names s) - set (b # bs))" using b_active b_bs by auto
    then have "tracked_features (kt_log s2) = featureName b2f ` (set (active_names s2) - set bs)"
      unfolding act2 using tr by (simp add: s2_def s1_def tracked_step_def log(2))
    moreover have "page_ok N b2f s2" using p1 log(3) by (simp add: s2_def page_ok_def movable_buttons_def)
    ultimately have "starting N b2f bs s2"
      using conf rest by (simp add: starting_def act2) (simp add: s2_def s1_def)
    moreover have "check_buttons is_allowed (b # bs) s = check_buttons is_allowed bs s2"
      using f(1) ok True log(1) by (simp add: s1_def s2_def)
    ultimately show ?thesis by blast
  next
    case False
    obtain s2 where s2: "set_isDirty False (disable_button b s1) = Inr s2" "page_ok N b2f s2"
        "active_names s2 = filter (\<lambda>n. n \<noteq> b) (active_names s)"
      "kt_config s2 = config_of (kt_rows s2)" "kt_textarea s2 = kt_config s2" "kt_log s2 = kt_log s"
      using quiet_dirty [OF disable_button_page(1) [OF p1, of b]] disable_button_page(2) [OF p1, of b] conf
      by (auto simp: act1) (auto simp: disable_button_def s1_def)
    have "set (active_names s2) - set bs = set (active_names s) - set (b # bs)" by (auto simp: s2(3))
    then have "starting N b2f bs s2"
      using s2 rest b_bs tr by (auto simp: starting_def)
    moreover have "check_buttons is_allowed (b # bs) s = check_buttons is_allowed bs s2"
      using f(1) ok False s2(1) by (simp add: s1_def)
    ultimately show ?thesis by blast
  qed
qed

lemma check_all_buttons:
  assumes "inj_on (featureName b2f) (set N)" and "\<forall>f. \<exists>ok. is_allowed f = Inr ok"
  shows "starting N b2f bs s \<Longrightarrow> \<exists>s'. check_buttons is_allowed bs s = Inr s' \<and> toolbar_inv N b2f s'"
proof (induction bs arbitrary: s)
  case Nil
  then show ?case by (simp add: starting_def toolbar_inv_def)
next
  case (Cons b bs)
  obtain s' where s': "starting N b2f bs s' \<and> check_buttons is_allowed (b # bs) s = check_buttons is_allowed bs s'"
    using check_button [OF assms(1) Cons.prems assms(2)] by (rule exE)
  from Cons.IH [OF conjunct1 [OF s']] show ?case by (simp only: conjunct2 [OF s'])
qed

text \<open>
  The page the server sends: every button but the separators is there once, the textarea describes the toolbar, and
  nothing has been announced.
\<close>

definition fresh_page :: "string list \<Rightarrow> ck_toolbar \<Rightarrow> bool" where
  "fresh_page N s \<longleftrightarrow>
     no_placeholders (kt_rows s) \<and> list_all kind_ok (movable_buttons s) \<and>
     list_all (\<lambda>b. kind_ok b \<and> bt_name b = ''-'') (kt_dividers s) \<and>
     mset (button_names (movable_buttons s)) = mset N \<and> distinct N \<and>
     kt_config s = config_of (kt_rows s) \<and> kt_textarea s = kt_config s \<and> kt_log s = []"

lemma first_of_each_elems [simp]: "set (first_of_each xs) = set xs" "distinct (first_of_each xs)"
  by (simp_all add: first_of_each_def)

lemma start_inv:
  assumes "fresh_page N s" and features: "getCKEditorFeatures command rs = Inr (features, b2f)"
    and "inj_on (featureName b2f) (set N)" and "\<forall>f. \<exists>ok. is_allowed f = Inr ok"
  shows "\<exists>s'. ckeditor_start is_allowed command rs s = Inr s' \<and> toolbar_inv N b2f s'"
proof -
  let ?s = "s\<lparr>kt_features := features, kt_buttonsToFeatures := b2f\<rparr>"
  let ?bs = "first_of_each (concat (map snd (concat (kt_config ?s))))"
  have p: "page_ok N b2f ?s"
    using assms(1) getCKEditorFeatures_named [OF features] by (simp add: page_ok_def fresh_page_def movable_buttons_def)
  have names: "getButtonList (kt_config ?s) = active_names ?s"
    using page_ok_names(3) [OF p] assms(1) by (simp add: fresh_page_def)
  then have "set (active_names ?s) = set ?bs - {''-''}" by (auto simp: getButtonList_def simp flip: names)
  then have "starting N b2f ?bs ?s" using p assms(1) by (auto simp: starting_def fresh_page_def tracked_features_def)
  from check_all_buttons [OF assms(3,4) this] show ?thesis
    by (simp add: ckeditor_start_def features disableFeaturesDisallowedByFilters_def Let_def)
qed

section \<open>Runs\<close>

definition change_settings :: "(string \<Rightarrow> bool) \<Rightarrow> (string \<Rightarrow> string list option) \<Rightarrow> cke_rule list \<Rightarrow> ck_toolbar \<Rightarrow> ck_toolbar js" where
  "change_settings raw_changed command rs s =
     (case getCKEditorFeatures command rs of Inl e \<Rightarrow> Inl e | Inr (features, b2f) \<Rightarrow> Inr (settings_changed raw_changed features s))"

datatype toolbar_op =
    Press_button nat button_place
  | Drag_button button_place button_place
  | Press_group nat nat nat
  | Drag_group nat nat nat
  | Rename_group nat nat string
  | Add_group nat string
  | Change_settings "string \<Rightarrow> bool" "string \<Rightarrow> string list option" "cke_rule list"

fun apply_op :: "toolbar_op \<Rightarrow> ck_toolbar \<Rightarrow> ck_toolbar js" where
  "apply_op (Press_button key place) s = onPressButton key place s"
| "apply_op (Drag_button from_place to_place) s = endButtonDrag from_place to_place s"
| "apply_op (Press_group key r k) s = onPressGroup key r k s"
| "apply_op (Drag_group r k k') s = endGroupDrag r k k' s"
| "apply_op (Rename_group r k name) s = rename_group r k name s"
| "apply_op (Add_group r name) s = add_group r name s"
| "apply_op (Change_settings raw_changed command rs) s = change_settings raw_changed command rs s"

text \<open>An operation is possible when the elements it is about are on the page.\<close>

fun op_possible :: "toolbar_op \<Rightarrow> ck_toolbar \<Rightarrow> bool" where
  "op_possible (Press_button key place) s = place_exists place s"
| "op_possible (Drag_button from_place to_place) s = (place_exists from_place s \<and> drop_target to_place s)"
| "op_possible (Press_group key r k) s = group_place r k (kt_rows s)"
| "op_possible (Drag_group r k k') s = (r < length (kt_rows s) \<and> k < length (tr_items (kt_rows s ! r)))"
| "op_possible (Rename_group r k name) s = group_place r k (kt_rows s)"
| "op_possible (Add_group r name) s = (r < length (kt_rows s))"
| "op_possible (Change_settings raw_changed command rs) s = True"

text \<open>
  The operations after which the toolbar still has all its buttons: nothing is dropped on the list of dividers, and the
  rules of changed settings can be read.
\<close>

fun orderly :: "toolbar_op \<Rightarrow> bool" where
  "orderly (Drag_button from_place to_place) = stays_on_page from_place to_place"
| "orderly (Change_settings raw_changed command rs) = (case getCKEditorFeatures command rs of Inl e \<Rightarrow> False | Inr fs \<Rightarrow> True)"
| "orderly _ = True"

fun run_ops :: "toolbar_op list \<Rightarrow> ck_toolbar \<Rightarrow> ck_toolbar js" where
  "run_ops [] s = Inr s"
| "run_ops (x # xs) s =
     (if op_possible x s then (case apply_op x s of Inl e \<Rightarrow> Inl e | Inr s1 \<Rightarrow> run_ops xs s1) else run_ops xs s)"

lemma apply_op_inv:
  assumes inj: "inj_on (featureName b2f) (set N)" and inv: "toolbar_inv N b2f s" and "op_possible x s" and "orderly x"
  shows "\<exists>s'. apply_op x s = Inr s' \<and> toolbar_inv N b2f s'"
  using assms(3,4)
proof (cases x)
  case (Press_group key r k)
  with assms(3) have r: "r < length (kt_rows s)" "k < length (tr_items (kt_rows s ! r))" by (simp_all add: group_place_def)
  obtain r' k' where d: "group_drop key r k (kt_rows s) = (r', k')" by fastforce
  from moved_group_inv [OF inj inv r group_drop_row [OF r(1) d]] show ?thesis
    using inv Press_group d by (auto simp: onPressGroup_def)
next
  case (Drag_group r k k')
  with assms(3) moved_group_inv [OF inj inv, of r k r k'] show ?thesis by (simp add: endGroupDrag_def)
next
  case (Change_settings raw command rs)
  with assms(4) settings_changed_inv [OF inv] getCKEditorFeatures_named show ?thesis
    by (auto simp: change_settings_def split: sum.splits)
qed (use onPressButton_inv [OF inj inv] endButtonDrag_inv [OF inj inv] rename_group_inv [OF inj inv] add_group_inv [OF inj inv] in auto)

lemma run_ops_inv:
  assumes "inj_on (featureName b2f) (set N)"
  shows "list_all orderly xs \<Longrightarrow> toolbar_inv N b2f s \<Longrightarrow> \<exists>s'. run_ops xs s = Inr s' \<and> toolbar_inv N b2f s'"
proof (induction xs arbitrary: s)
  case (Cons x xs)
  show ?case
  proof (cases "op_possible x s")
    case True
    from apply_op_inv [OF assms Cons.prems(2) this] Cons.prems(1) obtain s1 where "apply_op x s = Inr s1" "toolbar_inv N b2f s1" by auto
    with Cons.IH [of s1] Cons.prems(1) True show ?thesis by simp
  qed (use Cons in simp)
qed simp

section \<open>Turning the editor off\<close>

lemma remove_all_tracked:
  "features_named (kt_features s) \<Longrightarrow> ''-'' \<notin> set bs \<Longrightarrow>
   \<exists>s'. remove_all bs s = Inr s' \<and> tracked_features (kt_log s') = tracked_features (kt_log s) - featureName (kt_buttonsToFeatures s) ` set bs \<and>
     kt_config s' = kt_config s \<and> kt_rows s' = kt_rows s"
proof (induction bs arbitrary: s)
  case (Cons b bs)
  obtain f features where f: "toolbar_changed False (Some b) s = Inr (s\<lparr>kt_features := features, kt_log := kt_log s @ [Feature_removed f]\<rparr>)"
    "f_name f = featureName (kt_buttonsToFeatures s) b" "features_named features"
    using toolbar_changed_logs [of s b False] Cons.prems by auto
  with Cons.IH [of "s\<lparr>kt_features := features, kt_log := kt_log s @ [Feature_removed f]\<rparr>"] Cons.prems(2)
  show ?case by (auto simp: tracked_step_def)
qed simp

end
