(* ===== verification/Ckeditor_Filter.thy ===== *)
theory Ckeditor_Filter
  imports Ckeditor_Run
begin

text \<open>
  The rules that listeners of the toolbar of CKEditor know: \<open>known log\<close> is what the events of \<open>log\<close> leave in the
  object \<open>newFeatures\<close> of the filter \<open>filter_html\<close>. The invariant \<open>rules_known\<close> says that these are the current rules.
\<close>

section \<open>What listeners know\<close>

definition note_event :: "feature_event \<Rightarrow> (string \<rightharpoonup> feature_rule list) \<Rightarrow> string \<rightharpoonup> feature_rule list" where
  "note_event e m =
     (case e of Feature_added f \<Rightarrow> m(f_name f \<mapsto> f_rules f) | Feature_removed f \<Rightarrow> m(f_name f := None)
      | Feature_modified f \<Rightarrow> (if m (f_name f) = None then m else m(f_name f \<mapsto> f_rules f)))"

definition known :: "feature_event list \<Rightarrow> string \<rightharpoonup> feature_rule list" where
  "known log = fold note_event log Map.empty"

lemma known_snoc [simp]: "known (log @ [e]) = note_event e (known log)"
  by (simp add: known_def)

lemma known_append: "known (log @ es) = fold note_event es (known log)"
  by (simp add: known_def)

lemma dom_known: "dom (known log) = tracked_features log"
proof (induction log rule: rev_induct)
  case (snoc e log)
  then show ?case by (cases e) (auto simp: note_event_def tracked_step_def simp flip: snoc.IH split: if_splits)
qed (simp add: known_def tracked_features_def)

definition feature_of :: "ck_toolbar \<Rightarrow> string \<Rightarrow> feature" where
  "feature_of s n = (case js_get (kt_features s) n of Some f \<Rightarrow> f | None \<Rightarrow> EditorFeature n)"

text \<open>\<open>F\<close> are the names of the features for which the editor has rules.\<close>

definition rules_known :: "string set \<Rightarrow> ck_toolbar \<Rightarrow> bool" where
  "rules_known F s \<longleftrightarrow>
     features_named (kt_features s) \<and>
     (\<forall>n. if n \<in> F then js_get (kt_features s) n \<noteq> None else feature_of s n = EditorFeature n) \<and>
     (\<forall>n r. known (kt_log s) n = Some r \<longrightarrow> r = f_rules (feature_of s n))"

lemma rules_known_upd [simp]:
  "rules_known F (s\<lparr>kt_rows := x1\<rparr>) = rules_known F s"
  "rules_known F (s\<lparr>kt_available := x2\<rparr>) = rules_known F s"
  "rules_known F (s\<lparr>kt_dividers := x3\<rparr>) = rules_known F s"
  "rules_known F (s\<lparr>kt_config := x4\<rparr>) = rules_known F s"
  "rules_known F (s\<lparr>kt_textarea := x5\<rparr>) = rules_known F s"
  by (simp_all add: rules_known_def feature_of_def)

lemma feature_rules_known:
  assumes "getFeatureForButton b s = Inr (r, s')" and "rules_known F s"
  shows "rules_known F s' \<and> kt_log s' = kt_log s \<and> (\<forall>f. r = Some f \<longrightarrow> f = feature_of s' (f_name f))"
proof -
  have cases: "s' = s \<and> (r = None \<or> (\<exists>n. r = js_get (kt_features s) n)) \<or>
      (\<exists>n. js_get (kt_features s) n = None \<and> r = Some (EditorFeature n) \<and> s' = s\<lparr>kt_features := js_put n (EditorFeature n) (kt_features s)\<rparr>)"
    using assms(1) by (auto simp: getFeatureForButton_def Let_def split: option.splits if_splits)
  then show ?thesis
  proof (elim disjE exE conjE)
    fix n assume "s' = s" "r = js_get (kt_features s) n"
    moreover have "f = feature_of s' (f_name f)" if f: "r = Some f" for f
    proof -
      have "js_get (kt_features s) n = Some f" using calculation f by simp
      moreover from this have "f_name f = n" using assms(2) by (simp add: rules_known_def features_named_def)
      ultimately show ?thesis using \<open>s' = s\<close> by (simp add: feature_of_def)
    qed
    ultimately show ?thesis using assms(2) by simp
  next
    fix n assume new: "js_get (kt_features s) n = None" "r = Some (EditorFeature n)" "s' = s\<lparr>kt_features := js_put n (EditorFeature n) (kt_features s)\<rparr>"
    have same: "feature_of s' = feature_of s" "kt_log s' = kt_log s" using new by (auto simp: feature_of_def)
    have named: "features_named (kt_features s')"
      using assms(2) new by (auto simp: rules_known_def features_named_def EditorFeature_def)
    have keep: "js_get (kt_features s') m \<noteq> None" if "js_get (kt_features s) m \<noteq> None" for m using that new by simp
    have "if n \<in> F then js_get (kt_features s') n \<noteq> None else feature_of s n = EditorFeature n" for n
    proof (cases "n \<in> F")
      case True
      then have "js_get (kt_features s) n \<noteq> None" using assms(2) unfolding rules_known_def by metis
      with keep True show ?thesis by simp
    qed (use assms(2) in \<open>unfold rules_known_def, metis\<close>)
    then have "rules_known F s'" using assms(2) named unfolding rules_known_def same by blast
    then show ?thesis using new by (simp add: feature_of_def EditorFeature_def)
  qed (use assms(2) in auto)
qed

lemma event_rules_known:
  assumes "rules_known F s" and "f = feature_of s (f_name f)"
  shows "rules_known F (s\<lparr>kt_log := kt_log s @ [if added then Feature_added f else Feature_removed f]\<rparr>)"
proof -
  have same: "feature_of (s\<lparr>kt_log := es\<rparr>) n = feature_of s n" for es n by (simp add: feature_of_def)
  have "f_rules f = f_rules (feature_of s (f_name f))" using assms(2) by simp
  then show ?thesis
    using assms(1) by (auto simp: rules_known_def same note_event_def split: if_splits)
qed

lemma toolbar_changed_rules:
  assumes "toolbar_changed added b s = Inr s'" and "rules_known F s"
  shows "rules_known F s'"
proof -
  obtain r s1 where g: "getFeatureForButton b s = Inr (r, s1)"
    using assms(1) by (auto simp: toolbar_changed_def split: sum.splits)
  note k = feature_rules_known [OF g assms(2)]
  show ?thesis
  proof (cases r)
    case None
    then show ?thesis using assms(1) g k by (simp add: toolbar_changed_def)
  next
    case (Some f)
    then have "s' = s1\<lparr>kt_log := kt_log s1 @ [if added then Feature_added f else Feature_removed f]\<rparr>"
      using assms(1) g by (simp add: toolbar_changed_def)
    with event_rules_known [of F s1 f added] k Some show ?thesis by simp
  qed
qed

lemma set_isDirty_rules: "set_isDirty broadcast s = Inr s' \<Longrightarrow> rules_known F s \<Longrightarrow> rules_known F s'"
  by (auto simp: set_isDirty_def Let_def split: if_splits elim!: toolbar_changed_rules)

lemma registerButtonMove_rules: "registerButtonMove place s = Inr s' \<Longrightarrow> rules_known F s \<Longrightarrow> rules_known F s'"
  by (auto simp: registerButtonMove_def split: option.splits prod.splits toolbar_item.splits if_splits elim: set_isDirty_rules)

lemma registerGroupMove_rules: "registerGroupMove r s = Inr s' \<Longrightarrow> rules_known F s \<Longrightarrow> rules_known F s'"
  unfolding registerGroupMove_def Let_def by (erule set_isDirty_rules) simp

lemma press_in_group_rules: "press_in_group key r k i s = Inr s' \<Longrightarrow> rules_known F s \<Longrightarrow> rules_known F s'"
  by (auto simp: press_in_group_def Let_def split: drop_place.splits elim!: registerButtonMove_rules)

lemma onPressButton_rules: "onPressButton key place s = Inr s' \<Longrightarrow> rules_known F s \<Longrightarrow> rules_known F s'"
  by (auto simp: onPressButton_def split: button_place.splits option.splits if_splits elim!: registerButtonMove_rules press_in_group_rules)

lemma endButtonDrag_rules: "endButtonDrag from_place to_place s = Inr s' \<Longrightarrow> rules_known F s \<Longrightarrow> rules_known F s'"
  unfolding endButtonDrag_def
  by (auto simp: take_from_def put_into_def split: button_place.splits elim!: registerButtonMove_rules)

lemma group_ops_rules:
  "onPressGroup key r k s = Inr s' \<Longrightarrow> rules_known F s \<Longrightarrow> rules_known F s'"
  "endGroupDrag r k k' s = Inr s' \<Longrightarrow> rules_known F s \<Longrightarrow> rules_known F s'"
  "rename_group r k name s = Inr s' \<Longrightarrow> rules_known F s \<Longrightarrow> rules_known F s'"
  "add_group r name s = Inr s' \<Longrightarrow> rules_known F s \<Longrightarrow> rules_known F s'"
  by (auto simp: onPressGroup_def endGroupDrag_def rename_group_def add_group_def split: prod.splits if_splits
      elim!: registerGroupMove_rules set_isDirty_rules)

section \<open>Changed settings\<close>

lemma collect_features_wf:
  "collect_features command m features b2f = Inr (features', b2f') \<Longrightarrow> js_wf features \<Longrightarrow> js_wf features'"
  by (induction command m features b2f rule: collect_features.induct)
    (auto simp: Let_def jsobj.wf_put split: option.splits list.splits)

lemma getCKEditorFeatures_wf: "getCKEditorFeatures command rs = Inr (features, b2f) \<Longrightarrow> js_wf features"
  unfolding getCKEditorFeatures_def by (erule collect_features_wf) simp

lemma getCKEditorFeatures_names:
  "getCKEditorFeatures command rs = Inr (features, b2f) \<Longrightarrow> js_get features n \<noteq> None \<longleftrightarrow> n \<in> rule_feature ` set rs"
proof -
  assume "getCKEditorFeatures command rs = Inr (features, b2f)"
  then have "js_get features n \<noteq> None \<longleftrightarrow> filter (\<lambda>r. rule_feature r = n) rs \<noteq> []"
    by (simp add: getCKEditorFeatures_get split: list.split)
  then show ?thesis by (auto simp: filter_empty_conv)
qed

lemma fold_modified:
  "distinct (map f_name fs) \<Longrightarrow>
   fold note_event (map Feature_modified fs) m n =
     (case find (\<lambda>f. f_name f = n) fs of None \<Rightarrow> m n | Some f \<Rightarrow> if m n = None then None else Some (f_rules f))"
proof (induction fs arbitrary: m)
  case (Cons f fs)
  have "find (\<lambda>g. f_name g = f_name f) fs = None" using Cons.prems by (auto simp: find_None_iff intro: rev_image_eqI)
  with Cons show ?case by (auto simp: note_event_def split: option.splits)
qed simp

lemma unmodified:
  "(\<And>m f. (m, f) \<in> set fs \<Longrightarrow> f_name f \<noteq> n) \<Longrightarrow> fold note_event (map (\<lambda>(m, f). Feature_modified f) fs) k n = k n"
proof (induction fs arbitrary: k)
  case (Cons x fs)
  obtain m f where x: "x = (m, f)" by (cases x)
  have "f_name f \<noteq> n" using Cons.prems [of m f] x by simp
  then have "note_event (Feature_modified f) k n = k n" by (simp add: note_event_def)
  moreover have "fold note_event (map (\<lambda>(m, f). Feature_modified f) fs) k' n = k' n" for k'
  proof (rule Cons.IH)
    fix m f assume "(m, f) \<in> set fs"
    then show "f_name f \<noteq> n" by (intro Cons.prems [of m f]) simp
  qed
  ultimately show ?case using x by simp
qed simp

lemma settings_rules:
  assumes known: "rules_known F s" and features: "getCKEditorFeatures command rs = Inr (features, b2f)"
    and F: "rule_feature ` set rs = F"
  shows "rules_known F (settings_changed raw features s)"
proof -
  let ?P = "\<lambda>(n, f). js_get (kt_features s) n \<noteq> None \<and> (js_get (kt_features s) n \<noteq> Some f \<or> raw n)"
  let ?fs = "map snd (filter ?P features)"
  have wf: "js_wf features" and named: "features_named features"
    using getCKEditorFeatures_wf [OF features] getCKEditorFeatures_named [OF features] by simp_all
  have name: "f_name f = n" if "(n, f) \<in> set features" for n f
    using that named js_get_in [OF wf] by (simp add: features_named_def)
  have names: "map f_name ?fs = map fst (filter ?P features)"
    using name by (auto simp: comp_def)
  have dist: "distinct (map f_name ?fs)"
    unfolding names using jsobj.wf_distinct [OF wf] by (simp add: distinct_map_filter)
  have log: "kt_log (settings_changed raw features s) = kt_log s @ map Feature_modified ?fs"
    unfolding settings_changed_def by (simp add: case_prod_beta' comp_def)
  have after: "known (kt_log (settings_changed raw features s)) n =
      (case find (\<lambda>f. f_name f = n) ?fs of None \<Rightarrow> known (kt_log s) n | Some f \<Rightarrow> if known (kt_log s) n = None then None else Some (f_rules f))" for n
    by (simp only: log known_append fold_modified [OF dist])
  have in_fs: "f \<in> set ?fs \<longleftrightarrow> js_get features (f_name f) = Some f \<and> ?P (f_name f, f)" for f
  proof
    assume "f \<in> set ?fs"
    then obtain n where n: "(n, f) \<in> set features" "?P (n, f)" by auto
    then show "js_get features (f_name f) = Some f \<and> ?P (f_name f, f)" using name [OF n(1)] js_get_in [OF wf] by simp
  next
    assume "js_get features (f_name f) = Some f \<and> ?P (f_name f, f)"
    then have "(f_name f, f) \<in> set (filter ?P features)" using js_get_in [OF wf] by simp
    then have "snd (f_name f, f) \<in> set ?fs" unfolding set_map by (rule imageI)
    then show "f \<in> set ?fs" by simp
  qed
  have "r = f_rules (feature_of (settings_changed raw features s) n)" if r: "known (kt_log (settings_changed raw features s)) n = Some r" for n r
  proof (cases "js_get features n")
    case None
    then have "n \<notin> F" using getCKEditorFeatures_names [OF features, of n] F by simp
    moreover have "find (\<lambda>f. f_name f = n) ?fs = None" using None in_fs by (fastforce simp: find_None_iff)
    then have "known (kt_log s) n = Some r" using r by (simp only: after option.case)
    ultimately have "r = f_rules (EditorFeature n)" using known unfolding rules_known_def by metis
    then show ?thesis using None by (simp add: feature_of_def settings_changed_def)
  next
    case (Some f)
    then have new: "feature_of (settings_changed raw features s) n = f" "f_name f = n"
      using named by (simp_all add: feature_of_def settings_changed_def features_named_def)
    show ?thesis
    proof (cases "find (\<lambda>f. f_name f = n) ?fs")
      case None
      then have same: "known (kt_log s) n = Some r" using r by (simp only: after option.case)
      have "n \<in> F" using getCKEditorFeatures_names [OF features, of n] F Some by simp
      then have old: "js_get (kt_features s) n \<noteq> None" using known by (auto simp: rules_known_def)
      have "\<forall>g \<in> set ?fs. f_name g \<noteq> n" using None unfolding find_None_iff by blast
      then have "f \<notin> set ?fs" using new(2) by blast
      then have "js_get (kt_features s) n = Some f" using in_fs [of f] Some new(2) old by simp
      then have "feature_of s n = f" by (simp add: feature_of_def)
      moreover have "r = f_rules (feature_of s n)" using same known unfolding rules_known_def by blast
      ultimately show ?thesis using new(1) by simp
    next
      case found: (Some g)
      from find_Some_member [OF this] have "g \<in> set ?fs" "f_name g = n" by blast+
      then have "g = f" using in_fs [of g] Some by simp
      then show ?thesis using r found new unfolding after by (auto split: if_splits)
    qed
  qed
  moreover have "if n \<in> F then js_get features n \<noteq> None else feature_of (settings_changed raw features s) n = EditorFeature n" for n
    using getCKEditorFeatures_names [OF features, of n] F by (auto simp: feature_of_def settings_changed_def split: option.split)
  moreover have "kt_features (settings_changed raw features s) = features" by (simp add: settings_changed_def)
  ultimately show ?thesis using named unfolding rules_known_def by simp
qed

text \<open>In a run for the features \<open>F\<close>, every change of the settings leaves the editor with rules for these features.\<close>

fun settings_for :: "string set \<Rightarrow> toolbar_op \<Rightarrow> bool" where
  "settings_for F (Change_settings raw command rs) = (rule_feature ` set rs = F)"
| "settings_for F _ = True"

lemma apply_op_rules: "apply_op x s = Inr s' \<Longrightarrow> settings_for F x \<Longrightarrow> rules_known F s \<Longrightarrow> rules_known F s'"
  by (cases x) (auto simp: change_settings_def settings_rules split: sum.splits
      elim: onPressButton_rules endButtonDrag_rules group_ops_rules)

lemma run_ops_rules:
  "run_ops xs s = Inr s' \<Longrightarrow> list_all (settings_for F) xs \<Longrightarrow> rules_known F s \<Longrightarrow> rules_known F s'"
proof (induction xs arbitrary: s)
  case (Cons x xs)
  show ?case
  proof (cases "op_possible x s")
    case True
    then obtain s1 where s1: "apply_op x s = Inr s1" "run_ops xs s1 = Inr s'"
      using Cons.prems(1) by (auto split: sum.splits)
    have "rules_known F s1" using apply_op_rules [OF s1(1)] Cons.prems(2,3) by simp
    with Cons.IH [OF s1(2)] Cons.prems(2) show ?thesis by simp
  qed (use Cons in simp)
qed simp

lemma check_buttons_rules: "check_buttons is_allowed bs s = Inr s' \<Longrightarrow> rules_known F s \<Longrightarrow> rules_known F s'"
proof (induction bs arbitrary: s)
  case (Cons b bs)
  obtain r s1 where g: "getFeatureForButton (Some b) s = Inr (r, s1)"
    using Cons.prems(1) by (auto split: sum.splits)
  have s1: "rules_known F s1" using feature_rules_known [OF g Cons.prems(2)] by simp
  show ?case
  proof (cases r)
    case None
    then show ?thesis using Cons.prems(1) Cons.IH [OF _ s1] g by simp
  next
    case (Some f)
    then obtain ok s2 where "(if ok then toolbar_changed True (Some b) s1 else set_isDirty False (disable_button b s1)) = Inr s2"
      "check_buttons is_allowed bs s2 = Inr s'"
      using Cons.prems(1) g by (auto split: sum.splits)
    moreover from this(1) have "rules_known F s2"
      using s1 by (auto simp: disable_button_def split: if_splits elim: toolbar_changed_rules set_isDirty_rules)
    ultimately show ?thesis using Cons.IH by blast
  qed
qed simp

lemma start_rules:
  assumes "getCKEditorFeatures command rs = Inr (features, b2f)" and "ckeditor_start is_allowed command rs s = Inr s'" and "kt_log s = []"
  shows "rules_known (rule_feature ` set rs) s'"
proof -
  have "rules_known (rule_feature ` set rs) (s\<lparr>kt_features := features, kt_buttonsToFeatures := b2f\<rparr>)"
    using getCKEditorFeatures_named [OF assms(1)] getCKEditorFeatures_names [OF assms(1)] assms(3)
    by (auto simp: rules_known_def feature_of_def known_def split: option.split)
  then show ?thesis
    using assms(2) check_buttons_rules by (auto simp: ckeditor_start_def assms(1) disableFeaturesDisallowedByFilters_def Let_def)
qed

section \<open>The filter \<open>filter_html\<close> as a listener\<close>

fun filter_listens :: "themes \<Rightarrow> translation_table option \<Rightarrow> feature_event list \<Rightarrow> filter_html_state \<Rightarrow> filter_html_state js" where
  "filter_listens T tr [] st = Inr st"
| "filter_listens T tr (e # es) st =
     (case (case e of Feature_added f \<Rightarrow> on_featureAdded T tr f st | Feature_removed f \<Rightarrow> on_featureRemoved T tr f st
        | Feature_modified f \<Rightarrow> on_featureModified T tr f st) of
        Inl x \<Rightarrow> Inl x
      | Inr st1 \<Rightarrow> filter_listens T tr es st1)"

lemma filter_listens_known:
  "\<exists>st'. filter_listens T tr es st = Inr st' \<and> userTags st' = userTags st \<and> js_get (newFeatures st') = fold note_event es (js_get (newFeatures st))"
proof (induction es arbitrary: st)
  case (Cons e es)
  have upd: "\<exists>st1. updateAllowedTags T tr st0 = Inr st1 \<and> userTags st1 = userTags st0 \<and> newFeatures st1 = newFeatures st0" for st0
    using updateAllowedTags_total [of T tr st0] updateAllowedTags_keeps by blast
  have "\<exists>st1. (case e of Feature_added f \<Rightarrow> on_featureAdded T tr f st | Feature_removed f \<Rightarrow> on_featureRemoved T tr f st
        | Feature_modified f \<Rightarrow> on_featureModified T tr f st) = Inr st1 \<and>
      userTags st1 = userTags st \<and> js_get (newFeatures st1) = note_event e (js_get (newFeatures st))"
  proof (cases e)
    case (Feature_added f)
    then show ?thesis
      using upd [of "st\<lparr>newFeatures := js_put (f_name f) (f_rules f) (newFeatures st)\<rparr>"]
      by (auto simp: on_featureAdded_def note_event_def fun_eq_iff jsobj.get_put)
  next
    case (Feature_removed f)
    then show ?thesis
      using upd [of "st\<lparr>newFeatures := js_del (f_name f) (newFeatures st)\<rparr>"]
      by (auto simp: on_featureRemoved_def note_event_def fun_eq_iff jsobj.get_del js_has_get)
  next
    case (Feature_modified f)
    then show ?thesis
      using upd [of "st\<lparr>newFeatures := js_put (f_name f) (f_rules f) (newFeatures st)\<rparr>"]
      by (auto simp: on_featureModified_def note_event_def fun_eq_iff jsobj.get_put js_has_get)
  qed
  then show ?case using Cons.IH by (metis filter_listens.simps(2) fold_simps(2) sum.simps(6))
qed simp

section \<open>Properties\<close>

definition sample_button :: "string \<Rightarrow> ck_button" where
  "sample_button n = \<lparr>bt_name = n, bt_kind = Single\<rparr>"

definition sample_rule :: "string \<Rightarrow> cke_rule" where
  "sample_rule n = \<lparr>cr_featureName = Some n, cr_propertiesOnly = False, cr_elements = Some [n], cr_requiredAttributes = None,
     cr_attributes = None, cr_requiredStyles = None, cr_styles = None, cr_requiredClasses = None, cr_classes = None\<rparr>"

definition sample_toolbar :: ck_toolbar where
  "sample_toolbar = \<lparr>kt_rows = [\<lparr>tr_placeholder = False, tr_items = [Group_item \<lparr>gp_placeholder = False, gp_name = Some ''g'', gp_buttons = [sample_button ''b'']\<rparr>]\<rparr>],
     kt_available = [sample_button ''i''], kt_dividers = [], kt_config = [[(Some ''g'', [''b''])]], kt_textarea = [[(Some ''g'', [''b''])]],
     kt_features = [], kt_buttonsToFeatures = [], kt_log = []\<rparr>"

definition sample_ops :: "toolbar_op list" where
  "sample_ops = [Drag_button (In_available 0) (In_group 0 0 1), Press_button 38 (In_group 0 0 0)]"

text \<open>The button of the sample is dropped on the list of dividers and dragged back twice.\<close>

definition losing_ops :: "toolbar_op list" where
  "losing_ops = [Drag_button (In_group 0 0 0) (In_dividers 0), Drag_button (In_dividers 0) (In_group 0 0 0),
     Drag_button (In_dividers 0) (In_group 0 0 0)]"

lemma sample_start:
  "fresh_page [''b'', ''i''] sample_toolbar"
  "getCKEditorFeatures (\<lambda>_. None) [sample_rule ''i''] = Inr ([(''i'', \<lparr>f_name = ''i'', f_rules = [convert_rule (sample_rule ''i'')]\<rparr>)], [])"
  "inj_on (featureName []) (set [''b'', ''i''])"
  by (simp_all add: fresh_page_def sample_toolbar_def no_placeholders_def is_placeholder_item_def movable_buttons_def kind_ok_def sample_button_def
      button_names_def row_buttons_def config_of_def groups_of_def List.map_filter_def config_group_def getCKEditorFeatures_def feature_rules_map_def
      rule_feature_def sample_rule_def convert_rules EditorFeature_def featureName_def toLowerCase_def inj_on_def lower_char_def)

text \<open>
  C10. From the page the server sends, when no two buttons have the same feature, the check of the filters throws for no
  feature, and the user drops nothing on the list of dividers (dividers may be dragged from it and within it) and gives
  no settings whose rules cannot be read: whatever else the user does with the buttons, groups and settings, no handler
  throws, every button is still there once, the configuration and the textarea describe the toolbar, and the features
  announced as added and not removed are those of the buttons in the toolbar.
\<close>

theorem toolbar_announces_its_features:
  assumes "fresh_page N s" and "getCKEditorFeatures command rs = Inr (features, b2f)" and "inj_on (featureName b2f) (set N)"
    and "\<forall>f. \<exists>ok. is_allowed f = Inr ok" and "list_all orderly ops"
  shows "\<exists>s1 s2. ckeditor_start is_allowed command rs s = Inr s1 \<and> run_ops ops s1 = Inr s2 \<and>
    mset (button_names (movable_buttons s2)) = mset N \<and> kt_config s2 = config_of (kt_rows s2) \<and> kt_textarea s2 = kt_config s2 \<and>
    tracked_features (kt_log s2) = featureName b2f ` set (active_names s2)"
proof -
  obtain s1 where s1: "ckeditor_start is_allowed command rs s = Inr s1" "toolbar_inv N b2f s1" using start_inv [OF assms(1-4)] by blast
  obtain s2 where "run_ops ops s1 = Inr s2" "toolbar_inv N b2f s2" using run_ops_inv [OF assms(3,5) s1(2)] by blast
  with s1 show ?thesis by (auto simp: toolbar_inv_def page_ok_def)
qed

theorem toolbar_announces_its_features_witness:
  "\<exists>s1 s2. ckeditor_start (\<lambda>_. Inr True) (\<lambda>_. None) [sample_rule ''i''] sample_toolbar = Inr s1 \<and> run_ops sample_ops s1 = Inr s2 \<and>
    mset (button_names (movable_buttons s2)) = mset [''b'', ''i''] \<and> kt_config s2 = config_of (kt_rows s2) \<and> kt_textarea s2 = kt_config s2 \<and>
    tracked_features (kt_log s2) = featureName [] ` set (active_names s2)"
  using sample_start by (rule toolbar_announces_its_features) (blast, simp add: sample_ops_def)

text \<open>
  Outside of such runs: a button dropped on the list of dividers is in neither list of buttons any more, and when two
  clones of it have been dragged back, \<open>CKEditorToolbarChanged\<close> is fired without a button name and its handler throws.
\<close>

lemma divider_list_takes_button:
  "map_sum id (\<lambda>s. button_names (movable_buttons s)) (run_ops (take 1 losing_ops) sample_toolbar) = Inr [''i'']"
  "map_sum id (\<lambda>s. button_names (movable_buttons s)) (run_ops (take 2 losing_ops) sample_toolbar) = Inr [''b'', ''i'']"
  "map_sum id (\<lambda>s. button_names (movable_buttons s)) (run_ops losing_ops sample_toolbar) = Inl TypeError"
  by code_simp+

text \<open>
  Turning the editor off withdraws every feature that was announced.
\<close>

theorem editor_off_withdraws_features:
  assumes "toolbar_inv N b2f s"
  shows "\<exists>s'. ckeditorAdmin_detach ''unload'' s = Inr s' \<and> tracked_features (kt_log s') = {} \<and> kt_config s' = kt_config s"
proof -
  have p: "page_ok N b2f s" using assms by (simp add: toolbar_inv_def)
  then have "features_named (kt_features s)" "kt_buttonsToFeatures s = b2f" by (simp_all add: page_ok_def)
  moreover have "''-'' \<notin> set (active_names s)" by (simp add: active_names_def button_names_def)
  ultimately show ?thesis
    using remove_all_tracked [of s "active_names s"] page_ok_names(3) [OF p] assms
    by (auto simp: ckeditorAdmin_detach_def toolbar_inv_def)
qed

theorem editor_off_withdraws_features_witness:
  "\<exists>s'. ckeditorAdmin_detach ''unload'' (sample_toolbar\<lparr>kt_log := [Feature_added (EditorFeature ''b'')]\<rparr>) = Inr s' \<and> tracked_features (kt_log s') = {} \<and>
     kt_config s' = kt_config (sample_toolbar\<lparr>kt_log := [Feature_added (EditorFeature ''b'')]\<rparr>)"
  by (rule editor_off_withdraws_features [where N = "[''b'', ''i'']" and b2f = "[]"])
    (use sample_start(1) in \<open>simp add: toolbar_inv_def page_ok_def fresh_page_def active_names_def movable_buttons_def, simp add: sample_toolbar_def
      tracked_features_def tracked_step_def EditorFeature_def featureName_def toLowerCase_def lower_char_def sample_button_def features_named_def button_names_def row_buttons_def\<close>)

text \<open>
  C9. The toolbar and the filter together, when no two buttons have the same feature and the check of the filters throws
  for no feature: after any run of operations in which nothing is dropped on the list of dividers and every change of
  the settings has readable rules that leave the editor with the same set of features as at the start, handling the
  events never throws in the filter, and the filter has as new features exactly those of the buttons in the toolbar,
  with their current rules.
\<close>

theorem filter_follows_toolbar:
  assumes "fresh_page N s" and "getCKEditorFeatures command rs = Inr (features, b2f)" and "inj_on (featureName b2f) (set N)"
    and "\<forall>f. \<exists>ok. is_allowed f = Inr ok" and "list_all orderly ops"
    and "list_all (settings_for (rule_feature ` set rs)) ops" and "newFeatures st = []"
  shows "\<exists>s1 s2 st'. ckeditor_start is_allowed command rs s = Inr s1 \<and> run_ops ops s1 = Inr s2 \<and>
    filter_listens T tr (kt_log s2) st = Inr st' \<and> userTags st' = userTags st \<and>
    js_get (newFeatures st') =
      (\<lambda>n. if n \<in> featureName b2f ` set (active_names s2) then Some (f_rules (feature_of s2 n)) else None)"
proof -
  obtain s1 where s1: "ckeditor_start is_allowed command rs s = Inr s1" "toolbar_inv N b2f s1" using start_inv [OF assms(1-4)] by blast
  obtain s2 where s2: "run_ops ops s1 = Inr s2" "toolbar_inv N b2f s2" using run_ops_inv [OF assms(3,5) s1(2)] by blast
  have "rules_known (rule_feature ` set rs) s2"
    using start_rules [OF assms(2) s1(1)] assms(1) run_ops_rules [OF s2(1) assms(6)] by (simp add: fresh_page_def)
  then have rules: "known (kt_log s2) n = Some r \<Longrightarrow> r = f_rules (feature_of s2 n)" for n r by (simp add: rules_known_def)
  have dom: "known (kt_log s2) n \<noteq> None \<longleftrightarrow> n \<in> featureName b2f ` set (active_names s2)" for n
    using s2(2) dom_known [of "kt_log s2"] by (auto simp: toolbar_inv_def)
  have start: "js_get (newFeatures st) = Map.empty" using assms(7) by (simp add: fun_eq_iff)
  obtain st' where st': "filter_listens T tr (kt_log s2) st = Inr st'" "userTags st' = userTags st"
    "js_get (newFeatures st') = known (kt_log s2)"
    using filter_listens_known [of T tr "kt_log s2" st] start by (auto simp: known_def)
  have "known (kt_log s2) n = (if n \<in> featureName b2f ` set (active_names s2) then Some (f_rules (feature_of s2 n)) else None)" for n
    using rules [of n] dom [of n] by (cases "known (kt_log s2) n") simp_all
  with s1(1) s2(1) st' show ?thesis by auto
qed

theorem filter_follows_toolbar_witness:
  "\<exists>s1 s2 st'. ckeditor_start (\<lambda>_. Inr True) (\<lambda>_. None) [sample_rule ''i''] sample_toolbar = Inr s1 \<and> run_ops sample_ops s1 = Inr s2 \<and>
    filter_listens (\<lambda>_. None) None (kt_log s2) (sample_state\<lparr>newFeatures := []\<rparr>) = Inr st' \<and> userTags st' = userTags (sample_state\<lparr>newFeatures := []\<rparr>) \<and>
    js_get (newFeatures st') =
      (\<lambda>n. if n \<in> featureName [] ` set (active_names s2) then Some (f_rules (feature_of s2 n)) else None)"
  using sample_start by (rule filter_follows_toolbar) (blast, simp_all add: sample_ops_def)

text \<open>
  When a change of the settings leaves the editor without rules for a feature, a later change that brings rules is
  not announced, even if the button of the feature is in the toolbar.
\<close>

theorem returning_feature_not_announced:
  assumes "getCKEditorFeatures command rs1 = Inr (features1, b1)" and "getCKEditorFeatures command rs2 = Inr (features2, b2)"
    and "n \<notin> rule_feature ` set rs1"
  shows "known (kt_log (settings_changed raw2 features2 (settings_changed raw1 features1 s))) n = known (kt_log (settings_changed raw1 features1 s)) n"
proof -
  let ?s = "settings_changed raw1 features1 s"
  let ?fs = "filter (\<lambda>(m, f). js_get (kt_features ?s) m \<noteq> None \<and> (js_get (kt_features ?s) m \<noteq> Some f \<or> raw2 m)) features2"
  have gone: "js_get (kt_features ?s) n = None" using getCKEditorFeatures_names [OF assms(1), of n] assms(3) by (simp add: settings_changed_def)
  have "f_name f \<noteq> n" if "(m, f) \<in> set ?fs" for m f
  proof -
    have "js_get features2 m = Some f" using that js_get_in [OF getCKEditorFeatures_wf [OF assms(2)]] by auto
    then have "f_name f = m" using getCKEditorFeatures_named [OF assms(2)] by (simp add: features_named_def)
    then show ?thesis using that gone by auto
  qed
  from unmodified [of ?fs, OF this] show ?thesis by (simp add: settings_changed_def [of raw2] known_append)
qed

theorem returning_feature_not_announced_witness:
  "known (kt_log (settings_changed (\<lambda>_. False) [(''i'', \<lparr>f_name = ''i'', f_rules = [convert_rule (sample_rule ''i'')]\<rparr>)]
     (settings_changed (\<lambda>_. False) [] sample_toolbar))) ''i'' = known (kt_log (settings_changed (\<lambda>_. False) [] sample_toolbar)) ''i''"
  by (rule returning_feature_not_announced [OF _ sample_start(2), of "[]" "[]" "[]"]) (simp_all add: getCKEditorFeatures_def feature_rules_map_def)

end
