(* ===== verification/Ckeditor5_Toolbar.thy ===== *)
theory Ckeditor5_Toolbar
  imports Ckeditor_Tracking
begin

text \<open>
  The toolbar of CKEditor 5 on the text format form (\<open>core/modules/ckeditor5/js/ckeditor5.admin.es6.js\<close>): an observable
  list of the identifiers of the selected buttons, a textarea with their names as JSON, and the lists that are drawn
  from it after every change. The textarea is modelled by the names it holds. Handlers return the state together with
  the error they throw, because what they did before stays.
\<close>

section \<open>State\<close>

record ck5_button =
  b5_id :: string
  b5_name :: string
  b5_label :: string

text \<open>The attributes the server gives for the name of a button may override its identifier and its name.\<close>

record ck5_attrs =
  at_id :: "string option"
  at_name :: "string option"
  at_label :: string

datatype ck5_place = Active_at nat | Available_at nat | Divider_at nat

datatype ck5_message = Help_text bool | Copied string | Moved string | Removed string

text \<open>What the attribute \<open>data-drupal-ui-state\<close> of the form keeps to set the focus after the form has been rebuilt.\<close>

datatype focus_selector = Empty_selector | Nth_active int | Last_active | Same_divider string nat | With_id string

record ck5 =
  c5_available :: "ck5_button list"
  c5_dividers :: "ck5_button list"
  c5_selected :: "string list"
  c5_textarea :: "string list"
  c5_active_list :: "ck5_button list"
  c5_available_list :: "ck5_button list"
  c5_help :: "bool option"
  c5_focus :: "ck5_place option"
  c5_focusSelector :: "focus_selector option"
  c5_announced :: "ck5_message list"

type_synonym ck5_result = "ck5 \<times> js_error option"

definition and_then :: "ck5_result \<Rightarrow> (ck5 \<Rightarrow> ck5_result) \<Rightarrow> ck5_result" where
  "and_then r f = (case r of (s, None) \<Rightarrow> f s | (s, Some e) \<Rightarrow> (s, Some e))"

definition with_default :: "'a \<Rightarrow> 'a option \<Rightarrow> 'a" where
  "with_default d v = (case v of None \<Rightarrow> d | Some x \<Rightarrow> x)"

definition available_button :: "string \<times> ck5_attrs \<Rightarrow> ck5_button" where
  "available_button x = (case x of (name, attrs) \<Rightarrow>
     \<lparr>b5_id = with_default name (at_id attrs), b5_name = with_default name (at_name attrs), b5_label = at_label attrs\<rparr>)"

definition dividers5 :: "(string \<Rightarrow> string) \<Rightarrow> ck5_button list" where
  "dividers5 tr =
     [\<lparr>b5_id = ''divider'', b5_name = ''|'', b5_label = tr ''Divider''\<rparr>, \<lparr>b5_id = ''wrapping'', b5_name = ''-'', b5_label = tr ''Wrapping''\<rparr>]"

definition all_buttons5 :: "ck5 \<Rightarrow> ck5_button list" where
  "all_buttons5 s = c5_dividers s @ c5_available s"

section \<open>Drawing\<close>

text \<open>A button that is not found is drawn with the text \<open>undefined\<close>.\<close>

definition getSelectedButtons :: "string list \<Rightarrow> ck5_button list \<Rightarrow> ck5_button list \<Rightarrow> ck5_button list" where
  "getSelectedButtons selected divs available =
     map (\<lambda>i. with_default \<lparr>b5_id = ''undefined'', b5_name = ''undefined'', b5_label = ''undefined''\<rparr>
       (find (\<lambda>b. b5_id b = i) (divs @ available))) selected"

text \<open>The condition of the help text that applies; a text that replaces another one is announced.\<close>

definition render5 :: "ck5 \<Rightarrow> ck5" where
  "render5 s =
     (let help = (''wrapping'' \<in> set (c5_selected s))
      in s\<lparr>c5_announced := c5_announced s @ (case c5_help s of None \<Rightarrow> [] | Some h \<Rightarrow> if h \<noteq> help then [Help_text help] else []),
           c5_help := Some help,
           c5_available_list := filter (\<lambda>b. b5_id b \<notin> set (c5_selected s)) (c5_available s),
           c5_active_list := getSelectedButtons (c5_selected s) (c5_dividers s) (c5_available s),
           c5_focus := None\<rparr>)"

section \<open>The focus after a rebuild\<close>

definition element_at :: "ck5_place \<Rightarrow> ck5 \<Rightarrow> ck5_button" where
  "element_at p s =
     (case p of Active_at i \<Rightarrow> c5_active_list s ! i | Available_at i \<Rightarrow> c5_available_list s ! i | Divider_at i \<Rightarrow> c5_dividers s ! i)"

definition first_change :: "string list \<Rightarrow> string list \<Rightarrow> nat option" where
  "first_change old new = find (\<lambda>i. i \<ge> length old \<or> new ! i \<noteq> old ! i) [0..<length new]"

definition divider_focus :: "string \<Rightarrow> string list \<Rightarrow> string list \<Rightarrow> ck5 \<Rightarrow> focus_selector" where
  "divider_focus i old new s =
     (if length old > length new
      then (case first_change old new of None \<Rightarrow> Empty_selector | Some k \<Rightarrow> Nth_active (min (int k - 1) 0))
      else if length old < length new then Last_active
      else (case c5_focus s of
              Some (Active_at k) \<Rightarrow> Same_divider i (length (filter (\<lambda>b. b5_id b = i) (take k (c5_active_list s))))
            | _ \<Rightarrow> Empty_selector))"

definition textarea_changed :: "string list \<Rightarrow> string list \<Rightarrow> ck5 \<Rightarrow> ck5" where
  "textarea_changed old new s =
     (case c5_focus s of
        None \<Rightarrow> s
      | Some p \<Rightarrow>
          (let i = b5_id (element_at p s)
           in if i = [] then s
              else s\<lparr>c5_focusSelector :=
                Some (if i \<in> {''divider'', ''wrapping''} then divider_focus i old new s else With_id i)\<rparr>))"

definition position_where :: "('a \<Rightarrow> bool) \<Rightarrow> 'a list \<Rightarrow> nat option" where
  "position_where P xs = find (\<lambda>k. P (xs ! k)) [0..<length xs]"

text \<open>The element that gets the focus when the textarea does.\<close>

definition selector_target :: "focus_selector \<Rightarrow> ck5 \<Rightarrow> ck5_place option" where
  "selector_target sel s =
     (case sel of
        Empty_selector \<Rightarrow> None
      | Nth_active n \<Rightarrow> if 1 \<le> n \<and> n \<le> int (length (c5_active_list s)) then Some (Active_at (nat (n - 1))) else None
      | Last_active \<Rightarrow> if c5_active_list s = [] then None else Some (Active_at (length (c5_active_list s) - 1))
      | Same_divider i n \<Rightarrow>
          (case drop n (filter (\<lambda>k. b5_id (c5_active_list s ! k) = i) [0..<length (c5_active_list s)]) of
             [] \<Rightarrow> None | k # _ \<Rightarrow> Some (Active_at k))
      | With_id i \<Rightarrow>
          (case position_where (\<lambda>b. b5_id b = i) (c5_available_list s) of
             Some k \<Rightarrow> Some (Available_at k)
           | None \<Rightarrow>
               (case position_where (\<lambda>b. b5_id b = i) (c5_dividers s) of
                  Some k \<Rightarrow> Some (Divider_at k)
                | None \<Rightarrow> map_option Active_at (position_where (\<lambda>b. b5_id b = i) (c5_active_list s)))))"

definition textarea_focused :: "ck5 \<Rightarrow> ck5" where
  "textarea_focused s =
     (case c5_focusSelector s of
        None \<Rightarrow> s
      | Some sel \<Rightarrow> (case selector_target sel s of None \<Rightarrow> s | Some p \<Rightarrow> s\<lparr>c5_focus := Some p\<rparr>))"

section \<open>Changing the selection\<close>

fun mapSelection :: "ck5_button list \<Rightarrow> string list \<Rightarrow> string list js" where
  "mapSelection bs [] = Inr []"
| "mapSelection bs (i # is) =
     (case find (\<lambda>b. b5_id b = i) bs of
        None \<Rightarrow> Inl TypeError
      | Some b \<Rightarrow> (case mapSelection bs is of Inl e \<Rightarrow> Inl e | Inr ns \<Rightarrow> Inr (b5_name b # ns)))"

definition updateSelectedButtons :: "string list \<Rightarrow> ck5 \<Rightarrow> ck5" where
  "updateSelectedButtons names s = textarea_changed (c5_textarea s) names (s\<lparr>c5_textarea := names\<rparr>)"

text \<open>The setter of the observable: every caller sets a new array, so the listener always runs.\<close>

definition set_selected :: "string list \<Rightarrow> ck5 \<Rightarrow> ck5_result" where
  "set_selected ids s =
     (let s1 = s\<lparr>c5_selected := ids\<rparr>
      in case mapSelection (all_buttons5 s1) ids of
           Inl e \<Rightarrow> (s1, Some e)
         | Inr names \<Rightarrow> (render5 (updateSelectedButtons names s1), None))"

definition announce5 :: "ck5_message \<Rightarrow> ck5 \<Rightarrow> ck5" where
  "announce5 msg s = s\<lparr>c5_announced := c5_announced s @ [msg]\<rparr>"

definition addToSelectedButtons :: "ck5_button \<Rightarrow> ck5 \<Rightarrow> ck5_result" where
  "addToSelectedButtons b s = and_then (set_selected (c5_selected s @ [b5_id b]) s) (\<lambda>s1. (announce5 (Moved (b5_label b)) s1, None))"

definition copyToActiveButtons :: "ck5_button \<Rightarrow> ck5 \<Rightarrow> ck5_result" where
  "copyToActiveButtons b s = and_then (set_selected (c5_selected s @ [b5_id b]) s) (\<lambda>s1. (announce5 (Copied (b5_label b)) s1, None))"

definition removeFromSelectedButtons :: "ck5_button \<Rightarrow> nat \<Rightarrow> ck5 \<Rightarrow> ck5_result" where
  "removeFromSelectedButtons b i s =
     and_then (set_selected (remove_nth i (c5_selected s)) s) (\<lambda>s1. (announce5 (Removed (b5_label b)) s1, None))"

definition moveWithinSelectedButtons :: "nat \<Rightarrow> int \<Rightarrow> ck5 \<Rightarrow> ck5_result" where
  "moveWithinSelectedButtons i dir s =
     (if (if dir < 0 then 0 < i else int i < int (length (c5_selected s)) - 1)
      then set_selected (insert_nth (nat (int i + dir)) (c5_selected s ! i) (remove_nth i (c5_selected s))) s
      else (s, None))"

section \<open>Keys\<close>

datatype ck5_key = ArrowLeft | ArrowRight | ArrowUp | ArrowDown | Other_key

definition focus_active :: "int \<Rightarrow> ck5 \<Rightarrow> ck5_result" where
  "focus_active k s =
     (if 0 \<le> k \<and> k < int (length (c5_active_list s)) then (s\<lparr>c5_focus := Some (Active_at (nat k))\<rparr>, None) else (s, Some TypeError))"

definition focus_last :: "ck5 \<Rightarrow> ck5_result" where
  "focus_last s = focus_active (int (length (c5_active_list s)) - 1) s"

definition focus_available :: "string \<Rightarrow> ck5 \<Rightarrow> ck5_result" where
  "focus_available i s =
     (case position_where (\<lambda>b. b5_id b = i) (c5_available_list s) of
        Some k \<Rightarrow> (s\<lparr>c5_focus := Some (Available_at k)\<rparr>, None)
      | None \<Rightarrow> (s, Some TypeError))"

definition place_index :: "ck5_place \<Rightarrow> nat" where
  "place_index p = (case p of Active_at i \<Rightarrow> i | Available_at i \<Rightarrow> i | Divider_at i \<Rightarrow> i)"

definition keyup :: "bool \<Rightarrow> ck5_key \<Rightarrow> ck5_place \<Rightarrow> ck5 \<Rightarrow> ck5_result" where
  "keyup ltr key p s =
     (let b = element_at p s; i = place_index p
      in if key = Other_key then (s, None)
         else if (case p of Divider_at k \<Rightarrow> True | _ \<Rightarrow> False)
         then (if key = ArrowDown then and_then (copyToActiveButtons b s) focus_last else (s, None))
         else if b5_id b \<in> set (c5_selected s)
         then (case key of
                 ArrowLeft \<Rightarrow>
                   (let off = (if ltr then -1 else 1) in and_then (moveWithinSelectedButtons i off s) (focus_active (int i + off)))
               | ArrowRight \<Rightarrow>
                   (let off = (if ltr then 1 else -1) in and_then (moveWithinSelectedButtons i off s) (focus_active (int i + off)))
               | ArrowUp \<Rightarrow>
                   and_then (removeFromSelectedButtons b i s)
                     (\<lambda>s1. if b5_id b \<in> set (map b5_id (c5_dividers s1)) then (s1, None) else focus_available (b5_id b) s1)
               | _ \<Rightarrow> (s, None))
         else if b5_id b \<in> set (map b5_id (c5_available_list s))
         then (if key = ArrowDown then and_then (addToSelectedButtons b s) focus_last else (s, None))
         else (s, None))"

text \<open>
  A divider dropped on the list of available buttons is removed from it in a later task. By then the order of the
  active list has been stored and the lists have been drawn again.
\<close>

definition available_onAdd :: "string \<Rightarrow> nat \<Rightarrow> ck5 \<Rightarrow> ck5_result" where
  "available_onAdd i newIndex s =
     (if i \<in> set (map b5_id (c5_dividers s))
      then (if newIndex < length (c5_available_list s)
            then (s\<lparr>c5_available_list := remove_nth newIndex (c5_available_list s)\<rparr>, None) else (s, Some TypeError))
      else (s, None))"

section \<open>Starting\<close>

fun selected_ids :: "ck5_button list \<Rightarrow> string list \<Rightarrow> string list js" where
  "selected_ids bs [] = Inr []"
| "selected_ids bs (n # ns) =
     (case find (\<lambda>b. b5_name b = n) bs of
        None \<Rightarrow> Inl TypeError
      | Some b \<Rightarrow> (case selected_ids bs ns of Inl e \<Rightarrow> Inl e | Inr is \<Rightarrow> Inr (b5_id b # is)))"

definition ckeditor5_attach :: "(string \<Rightarrow> string) \<Rightarrow> (string \<times> ck5_attrs) list \<Rightarrow> string list \<Rightarrow> ck5 js" where
  "ckeditor5_attach tr entries names =
     (let available = map available_button entries
      in case selected_ids (dividers5 tr @ available) names of
           Inl e \<Rightarrow> Inl e
         | Inr ids \<Rightarrow>
             Inr (render5 \<lparr>c5_available = available, c5_dividers = dividers5 tr, c5_selected = ids, c5_textarea = names,
               c5_active_list = [], c5_available_list = [], c5_help = None, c5_focus = None, c5_focusSelector = None, c5_announced = []\<rparr>))"

end
