(* ===== verification/Ckeditor5_Properties.thy ===== *)
theory Ckeditor5_Properties
  imports Ckeditor5_Toolbar
begin

text \<open>
  The invariants of the toolbar of CKEditor 5: the textarea, the lists on the page and the selection agree, and every
  available button is in exactly one of the two lists (\<open>c5_ok\<close>); after a divider has been dropped on the available
  buttons, in at most one of them (\<open>c5_core\<close>). What handlers keep is proved once for both, in the locale
  \<open>toolbar5_invariant\<close>. Then the behavior of the arrow keys.
\<close>

section \<open>The invariant\<close>

definition plain :: "string \<Rightarrow> bool" where
  "plain i \<longleftrightarrow> i \<noteq> ''divider'' \<and> i \<noteq> ''wrapping''"

definition name_of :: "ck5_button list \<Rightarrow> string \<Rightarrow> string" where
  "name_of bs i = (case find (\<lambda>b. b5_id b = i) bs of None \<Rightarrow> [] | Some b \<Rightarrow> b5_name b)"

definition c5_buttons_ok :: "ck5 \<Rightarrow> bool" where
  "c5_buttons_ok s \<longleftrightarrow> map b5_id (c5_dividers s) = [''divider'', ''wrapping''] \<and> distinct (map b5_id (all_buttons5 s))"

definition selection_ok :: "ck5 \<Rightarrow> string list \<Rightarrow> bool" where
  "selection_ok s ids \<longleftrightarrow> set ids \<subseteq> set (map b5_id (all_buttons5 s)) \<and> distinct (filter plain ids)"

definition drawn :: "ck5 \<Rightarrow> bool" where
  "drawn s \<longleftrightarrow>
     map b5_id (c5_active_list s) = c5_selected s \<and>
     c5_available_list s = filter (\<lambda>b. b5_id b \<notin> set (c5_selected s)) (c5_available s)"

definition c5_ok :: "ck5 \<Rightarrow> bool" where
  "c5_ok s \<longleftrightarrow> c5_buttons_ok s \<and> selection_ok s (c5_selected s) \<and> c5_textarea s = map (name_of (all_buttons5 s)) (c5_selected s) \<and> drawn s"

text \<open>The same without the buttons that are missing in the list of available buttons.\<close>

definition c5_core :: "ck5 \<Rightarrow> bool" where
  "c5_core s \<longleftrightarrow> c5_buttons_ok s \<and> selection_ok s (c5_selected s) \<and>
     c5_textarea s = map (name_of (all_buttons5 s)) (c5_selected s) \<and> map b5_id (c5_active_list s) = c5_selected s \<and>
     mset (c5_available_list s) \<subseteq># mset (filter (\<lambda>b. b5_id b \<notin> set (c5_selected s)) (c5_available s))"

lemma c5_ok_core: "c5_ok s \<Longrightarrow> c5_core s"
  by (simp add: c5_ok_def c5_core_def drawn_def)

lemma find_id: "i \<in> set (map b5_id bs) \<Longrightarrow> \<exists>b. find (\<lambda>b. b5_id b = i) bs = Some b \<and> b5_id b = i"
  by (induction bs) auto

lemma mapSelection_names: "set ids \<subseteq> set (map b5_id bs) \<Longrightarrow> mapSelection bs ids = Inr (map (name_of bs) ids)"
proof (induction ids)
  case (Cons i ids)
  then obtain b where "find (\<lambda>b. b5_id b = i) bs = Some b" using find_id [of i bs] by auto
  with Cons show ?case by (simp add: name_of_def)
qed simp

lemma drawn_ids: "set ids \<subseteq> set (map b5_id (ds @ bs)) \<Longrightarrow> map b5_id (getSelectedButtons ids ds bs) = ids"
proof (induction ids)
  case (Cons i ids)
  then obtain b where "find (\<lambda>b. b5_id b = i) (ds @ bs) = Some b" "b5_id b = i" using find_id [of i "ds @ bs"] by auto
  with Cons show ?case by (simp add: getSelectedButtons_def with_default_def)
qed (simp add: getSelectedButtons_def)

definition place5_exists :: "ck5_place \<Rightarrow> ck5 \<Rightarrow> bool" where
  "place5_exists p s =
     (case p of Active_at i \<Rightarrow> i < length (c5_active_list s) | Available_at i \<Rightarrow> i < length (c5_available_list s)
      | Divider_at i \<Rightarrow> i < length (c5_dividers s))"

text \<open>What a change of the selection, an announcement or a focus leaves alone.\<close>

definition same_buttons :: "ck5 \<Rightarrow> ck5 \<Rightarrow> bool" where
  "same_buttons s s' \<longleftrightarrow> c5_available s' = c5_available s \<and> c5_dividers s' = c5_dividers s"

lemma same_buttons_ok: "same_buttons s s' \<Longrightarrow> c5_buttons_ok s' = c5_buttons_ok s \<and> selection_ok s' = selection_ok s \<and> all_buttons5 s' = all_buttons5 s"
  by (auto simp: same_buttons_def c5_buttons_ok_def selection_ok_def all_buttons5_def fun_eq_iff)

lemma textarea_changed_keeps [simp]:
  "c5_available (textarea_changed old new s) = c5_available s" "c5_dividers (textarea_changed old new s) = c5_dividers s"
  "c5_selected (textarea_changed old new s) = c5_selected s" "c5_textarea (textarea_changed old new s) = c5_textarea s"
  "c5_focus (textarea_changed old new s) = c5_focus s" "c5_active_list (textarea_changed old new s) = c5_active_list s"
  by (simp_all add: textarea_changed_def Let_def split: option.split)

lemma render5_keeps [simp]:
  "c5_available (render5 s) = c5_available s" "c5_dividers (render5 s) = c5_dividers s" "c5_selected (render5 s) = c5_selected s"
  "c5_textarea (render5 s) = c5_textarea s" "c5_focusSelector (render5 s) = c5_focusSelector s"
  by (simp_all add: render5_def Let_def)

lemma render5_drawn: "set (c5_selected s) \<subseteq> set (map b5_id (all_buttons5 s)) \<Longrightarrow> drawn (render5 s)"
  by (simp add: drawn_def render5_def Let_def drawn_ids all_buttons5_def)

lemma set_selected_ok:
  assumes "c5_buttons_ok s" and "selection_ok s ids"
  shows "\<exists>s'. set_selected ids s = (s', None) \<and> c5_ok s' \<and> c5_selected s' = ids \<and> same_buttons s s' \<and>
    c5_focusSelector s' = c5_focusSelector (textarea_changed (c5_textarea s) (map (name_of (all_buttons5 s)) ids)
      (s\<lparr>c5_selected := ids, c5_textarea := map (name_of (all_buttons5 s)) ids\<rparr>))"
proof -
  let ?names = "map (name_of (all_buttons5 s)) ids"
  define s1 where "s1 = textarea_changed (c5_textarea s) ?names (s\<lparr>c5_selected := ids, c5_textarea := ?names\<rparr>)"
  have s1: "c5_selected s1 = ids" "c5_textarea s1 = ?names" "same_buttons s s1" by (simp_all add: s1_def same_buttons_def)
  have all1: "all_buttons5 s1 = all_buttons5 s" using same_buttons_ok [OF s1(3)] by simp
  have sub: "set ids \<subseteq> set (map b5_id (all_buttons5 s))" using assms(2) by (simp add: selection_ok_def)
  have eq: "set_selected ids s = (render5 s1, None)"
    using mapSelection_names [OF sub] by (simp add: set_selected_def Let_def all_buttons5_def updateSelectedButtons_def s1_def)
  have same: "same_buttons s (render5 s1)" using s1(3) by (simp add: same_buttons_def)
  have "drawn (render5 s1)" using sub by (intro render5_drawn) (simp add: s1 all1)
  then have "c5_ok (render5 s1)"
    using assms same_buttons_ok [OF same] s1 by (simp add: c5_ok_def)
  with eq same s1 show ?thesis by (simp add: s1_def)
qed

text \<open>Announcements and the focus are not part of the invariant.\<close>

lemma c5_ok_upd [simp]:
  "c5_ok (s\<lparr>c5_focus := p\<rparr>) = c5_ok s" "c5_ok (s\<lparr>c5_announced := a\<rparr>) = c5_ok s" "c5_ok (announce5 msg s) = c5_ok s"
  by (simp_all add: c5_ok_def c5_buttons_ok_def selection_ok_def drawn_def all_buttons5_def announce5_def)

lemma c5_core_upd [simp]: "c5_core (s\<lparr>c5_focus := p\<rparr>) = c5_core s" "c5_core (s\<lparr>c5_announced := a\<rparr>) = c5_core s"
  by (simp_all add: c5_core_def c5_buttons_ok_def selection_ok_def all_buttons5_def)

lemma place5_upd [simp]: "place5_exists p (s\<lparr>c5_focus := q\<rparr>) = place5_exists p s"
  by (cases p) (simp_all add: place5_exists_def)

section \<open>Selections that keep it\<close>

lemma distinct_remove_nth:
  assumes "distinct (filter P xs)"
  shows "distinct (filter P (remove_nth i xs))"
proof (cases "i < length xs")
  case True
  have "filter P xs = filter P (take i xs) @ filter P [xs ! i] @ filter P (drop (Suc i) xs)"
    by (subst id_take_nth_drop [OF True]) simp
  with assms show ?thesis by (auto simp: remove_nth_def split: if_splits)
qed (use assms in \<open>simp add: remove_nth_def\<close>)

lemma selection_removed: "selection_ok s ids \<Longrightarrow> selection_ok s (remove_nth i ids)"
proof -
  assume ok: "selection_ok s ids"
  have "distinct (filter plain (remove_nth i ids))"
    using ok distinct_remove_nth [of plain ids i] by (simp add: selection_ok_def)
  moreover have "set (remove_nth i ids) \<subseteq> set ids" by (auto simp: remove_nth_def dest: in_set_takeD in_set_dropD)
  ultimately show ?thesis using ok by (auto simp: selection_ok_def)
qed

lemma selection_moved:
  assumes "selection_ok s ids" and "i < length ids"
  shows "selection_ok s (insert_nth j (ids ! i) (remove_nth i ids))"
proof -
  have eq: "mset (insert_nth j (ids ! i) (remove_nth i ids)) = mset ids" using mset_remove_nth [OF assms(2)] by simp
  then have "mset (filter plain (insert_nth j (ids ! i) (remove_nth i ids))) = mset (filter plain ids)" by (simp only: mset_filter)
  then have "distinct (filter plain (insert_nth j (ids ! i) (remove_nth i ids)))"
    using assms(1) mset_eq_imp_distinct_iff unfolding selection_ok_def by blast
  then show ?thesis using assms(1) mset_eq_setD [OF eq] by (simp add: selection_ok_def)
qed

lemma selection_added:
  assumes "selection_ok s ids" and "i \<in> set (map b5_id (all_buttons5 s))" and "plain i \<Longrightarrow> i \<notin> set ids"
  shows "selection_ok s (ids @ [i])"
  using assms by (auto simp: selection_ok_def)

lemma selection_mset: "mset ids' = mset ids \<Longrightarrow> selection_ok s ids \<Longrightarrow> selection_ok s ids'"
  unfolding selection_ok_def by (metis mset_eq_imp_distinct_iff mset_eq_setD mset_filter)

lemma selection_inserted:
  assumes "selection_ok s ids" and "i \<in> set (map b5_id (all_buttons5 s))" and "plain i \<Longrightarrow> i \<notin> set ids"
  shows "selection_ok s (insert_nth j i ids)"
  by (rule selection_mset [OF _ selection_added [OF assms]]) simp

lemma element_in:
  assumes "c5_core s" and "place5_exists p s"
  shows "b5_id (element_at p s) \<in> set (map b5_id (all_buttons5 s))"
    "p = Active_at i \<Longrightarrow> b5_id (element_at p s) = c5_selected s ! i \<and> i < length (c5_selected s)"
    "p = Available_at i \<Longrightarrow> b5_id (element_at p s) \<notin> set (c5_selected s)"
    "p = Divider_at i \<Longrightarrow> \<not> plain (b5_id (element_at p s))"
proof -
  have "set_mset (mset (c5_available_list s)) \<subseteq> set_mset (mset (filter (\<lambda>b. b5_id b \<notin> set (c5_selected s)) (c5_available s)))"
    using assms(1) by (intro set_mset_mono) (simp add: c5_core_def)
  then have drawn: "map b5_id (c5_active_list s) = c5_selected s"
    "set (c5_available_list s) \<subseteq> set (filter (\<lambda>b. b5_id b \<notin> set (c5_selected s)) (c5_available s))"
    using assms(1) by (simp_all add: c5_core_def)
  have sub: "set (c5_selected s) \<subseteq> set (map b5_id (all_buttons5 s))" and divs: "map b5_id (c5_dividers s) = [''divider'', ''wrapping'']"
    using assms(1) by (simp_all add: c5_core_def selection_ok_def c5_buttons_ok_def)
  show active: "p = Active_at i \<Longrightarrow> b5_id (element_at p s) = c5_selected s ! i \<and> i < length (c5_selected s)" for i
    using assms(2) by (simp add: place5_exists_def element_at_def flip: drawn(1))
  have available: "p = Available_at i \<Longrightarrow> element_at p s \<in> set (c5_available_list s)" for i
    using assms(2) by (auto simp: place5_exists_def element_at_def)
  have divider: "p = Divider_at i \<Longrightarrow> element_at p s \<in> set (c5_dividers s)" for i
    using assms(2) by (auto simp: place5_exists_def element_at_def)
  show "b5_id (element_at p s) \<in> set (map b5_id (all_buttons5 s))"
  proof (cases p)
    case (Active_at i)
    then show ?thesis using active [OF Active_at] sub nth_mem by fastforce
  next
    case (Available_at i)
    then show ?thesis using available [OF Available_at] drawn(2) by (auto simp: all_buttons5_def)
  next
    case (Divider_at i)
    then show ?thesis using divider [OF Divider_at] by (auto simp: all_buttons5_def)
  qed
  show "p = Available_at i \<Longrightarrow> b5_id (element_at p s) \<notin> set (c5_selected s)" using available drawn(2) by auto
  assume p: "p = Divider_at i"
  have "b5_id (element_at p s) \<in> set (map b5_id (c5_dividers s))" using divider [OF p] by simp
  then show "\<not> plain (b5_id (element_at p s))" unfolding divs by (auto simp: plain_def)
qed

section \<open>Events\<close>

lemma and_then_holds:
  assumes "P (fst r)" and "\<And>s. r = (s, None) \<Longrightarrow> P s \<Longrightarrow> P (fst (f s))"
  shows "P (fst (and_then r f))"
proof -
  obtain s e where "r = (s, e)" by (cases r)
  with assms show ?thesis by (cases e) (simp_all add: and_then_def)
qed

text \<open>
  An invariant that lies between \<open>c5_ok\<close>, which every change of the selection restores, and \<open>c5_core\<close>, which handlers
  need, and is not about announcements and the focus, is kept by every key.
\<close>

locale toolbar5_invariant =
  fixes P :: "ck5 \<Rightarrow> bool"
  assumes from_ok: "c5_ok s \<Longrightarrow> P s"
    and to_core: "P s \<Longrightarrow> c5_core s"
    and focused: "P s \<Longrightarrow> P (s\<lparr>c5_focus := p\<rparr>)"
    and announced: "P s \<Longrightarrow> P (s\<lparr>c5_announced := a\<rparr>)"
begin

lemmas then_holds = and_then_holds [of P]

lemma selected_again:
  assumes "P s" and "selection_ok s ids"
  shows "\<exists>s'. set_selected ids s = (s', None) \<and> c5_ok s'"
  using set_selected_ok [of s ids] to_core [OF assms(1)] assms(2) by (auto simp: c5_core_def)

lemma set_selected_keeps: "P s \<Longrightarrow> selection_ok s ids \<Longrightarrow> P (fst (set_selected ids s))"
  using selected_again from_ok by force

lemma focus_keeps: "P s \<Longrightarrow> P (fst (focus_active k s))" "P s \<Longrightarrow> P (fst (focus_available i s))" "P s \<Longrightarrow> P (fst (focus_last s))"
  by (simp_all add: focus_active_def focus_available_def focus_last_def focused split: option.split)

lemma announce_keeps: "P s \<Longrightarrow> P (announce5 msg s)"
  by (simp add: announce5_def announced)

lemma moved_keeps:
  assumes "P s" and "i < length (c5_selected s)"
  shows "P (fst (and_then (moveWithinSelectedButtons i off s) (focus_active k)))"
proof (rule then_holds)
  have "selection_ok s (c5_selected s)" using to_core [OF assms(1)] by (simp add: c5_core_def)
  from set_selected_keeps [OF assms(1) selection_moved [OF this assms(2)]] assms(1)
  show "P (fst (moveWithinSelectedButtons i off s))" by (simp add: moveWithinSelectedButtons_def)
qed (rule focus_keeps)

lemma added_keeps:
  assumes "P s" and "selection_ok s (c5_selected s @ [b5_id b])"
  shows "P (fst (and_then (addToSelectedButtons b s) focus_last))" "P (fst (and_then (copyToActiveButtons b s) focus_last))"
  unfolding addToSelectedButtons_def copyToActiveButtons_def
  by (rule then_holds, rule then_holds [OF set_selected_keeps [OF assms]], simp add: announce_keeps, erule focus_keeps)+

lemma removed_keeps:
  assumes "P s" and "selection_ok s (remove_nth i (c5_selected s))"
  shows "P (fst (and_then (removeFromSelectedButtons b i s) (\<lambda>s1. if Q s1 then (s1, None) else focus_available j s1)))"
  unfolding removeFromSelectedButtons_def
  by (rule then_holds, rule then_holds [OF set_selected_keeps [OF assms]]) (simp_all add: announce_keeps focus_keeps)

lemma keyup_keeps:
  assumes ok: "P s" and p: "place5_exists p s"
  shows "P (fst (keyup ltr key p s))"
proof -
  note el = element_in [OF to_core [OF ok] p]
  have sel: "selection_ok s (c5_selected s)" using to_core [OF ok] by (simp add: c5_core_def)
  note add = added_keeps [OF ok selection_added [OF sel el(1)]]
  show ?thesis
  proof (cases p)
    case (Divider_at i)
    then have "P (fst (and_then (copyToActiveButtons (element_at p s) s) focus_last))" using add(2) el(4) by blast
    then show ?thesis using Divider_at ok by (simp add: keyup_def Let_def)
  next
    case (Available_at i)
    then have "P (fst (and_then (addToSelectedButtons (element_at p s) s) focus_last))" using add(1) el(3) by blast
    then show ?thesis using Available_at el(3) ok by (simp add: keyup_def Let_def)
  next
    case (Active_at i)
    have i: "b5_id (element_at p s) = c5_selected s ! i" "i < length (c5_selected s)" using el(2) [OF Active_at] by simp_all
    show ?thesis
      using removed_keeps [OF ok selection_removed [OF sel], of "element_at p s" i] moved_keeps [OF ok i(2)] i ok
      by (simp add: keyup_def Let_def Active_at place_index_def split: ck5_key.split)
  qed
qed

end

text \<open>
  The user presses a key on a button, which then has the focus, or drags a button: within the active list or to it from
  the available buttons or the dividers, of which a clone moves; or from the active list to the available buttons. The
  library tells the list of available buttons first, whose handler only plans to remove a divider; then the new order of
  the active list is stored, the lists are drawn again, and the planned task runs. A dropped element is of no more
  account once the lists have been drawn again. Or the textarea gets the focus after the form has been rebuilt.
\<close>

datatype ck5_event = Key_up bool ck5_key ck5_place | Drag_to_active ck5_place nat | Drag_to_available nat nat | Textarea_focus

definition taken5 :: "ck5_place \<Rightarrow> ck5 \<Rightarrow> string list" where
  "taken5 p s =
     (case p of Active_at i \<Rightarrow> remove_nth i (map b5_id (c5_active_list s)) | _ \<Rightarrow> map b5_id (c5_active_list s))"

fun event5_possible :: "ck5_event \<Rightarrow> ck5 \<Rightarrow> bool" where
  "event5_possible (Key_up ltr key p) s = place5_exists p s"
| "event5_possible (Drag_to_active p j) s = (place5_exists p s \<and> j \<le> length (taken5 p s))"
| "event5_possible (Drag_to_available i k) s = (place5_exists (Active_at i) s \<and> k \<le> length (c5_available_list s))"
| "event5_possible Textarea_focus s = True"

fun event5 :: "ck5_event \<Rightarrow> ck5 \<Rightarrow> ck5_result" where
  "event5 (Key_up ltr key p) s = keyup ltr key p (s\<lparr>c5_focus := Some p\<rparr>)"
| "event5 (Drag_to_active p j) s = set_selected (insert_nth j (b5_id (element_at p s)) (taken5 p s)) s"
| "event5 (Drag_to_available i k) s =
     and_then (set_selected (taken5 (Active_at i) s) s) (available_onAdd (b5_id (element_at (Active_at i) s)) k)"
| "event5 Textarea_focus s = (textarea_focused s, None)"

definition step5 :: "ck5_event \<Rightarrow> ck5 \<Rightarrow> ck5" where
  "step5 e s = (if event5_possible e s then fst (event5 e s) else s)"

fun run5 :: "ck5_event list \<Rightarrow> ck5 \<Rightarrow> ck5" where
  "run5 [] s = s"
| "run5 (e # es) s = run5 es (step5 e s)"

text \<open>A divider is dropped on the list of available buttons, by an event or in a run.\<close>

fun drops_divider :: "ck5_event \<Rightarrow> ck5 \<Rightarrow> bool" where
  "drops_divider (Drag_to_available i k) s = (\<not> plain (b5_id (element_at (Active_at i) s)))"
| "drops_divider e s = False"

fun divider_dropped :: "ck5_event list \<Rightarrow> ck5 \<Rightarrow> bool" where
  "divider_dropped [] s = False"
| "divider_dropped (e # es) s = (event5_possible e s \<and> drops_divider e s \<or> divider_dropped es (step5 e s))"

lemma drag_selection:
  assumes "c5_core s" and "place5_exists p s"
  shows "selection_ok s (taken5 p s)" "selection_ok s (insert_nth j (b5_id (element_at p s)) (taken5 p s))"
proof -
  have ids: "map b5_id (c5_active_list s) = c5_selected s" and sel: "selection_ok s (c5_selected s)"
    using assms(1) by (simp_all add: c5_core_def)
  note el = element_in [OF assms]
  show "selection_ok s (taken5 p s)"
    using sel selection_removed [OF sel] by (simp add: taken5_def ids split: ck5_place.split)
  show "selection_ok s (insert_nth j (b5_id (element_at p s)) (taken5 p s))"
  proof (cases p)
    case (Active_at i)
    from el(2) [OF this] selection_moved [OF sel, of i j] show ?thesis by (simp add: taken5_def ids Active_at)
  next
    case (Available_at i)
    from selection_inserted [OF sel el(1)] el(3) [OF this] show ?thesis by (simp add: taken5_def ids Available_at)
  next
    case (Divider_at i)
    from selection_inserted [OF sel el(1)] el(4) [OF this] show ?thesis by (simp add: taken5_def ids Divider_at)
  qed
qed

context toolbar5_invariant
begin

lemma event_keeps:
  assumes "P s" and "event5_possible e s" and "\<not> drops_divider e s"
  shows "P (fst (event5 e s))"
proof (cases e)
  case (Key_up ltr key p)
  with assms keyup_keeps [OF focused [OF assms(1), of "Some p"], of p] show ?thesis by simp
next
  case (Drag_to_active p j)
  with assms set_selected_keeps drag_selection(2) [OF to_core [OF assms(1)]] show ?thesis by simp
next
  case (Drag_to_available i k)
  obtain s' where s': "set_selected (taken5 (Active_at i) s) s = (s', None)" "c5_ok s'"
    using selected_again [OF assms(1) drag_selection(1) [OF to_core [OF assms(1)]]] assms(2) Drag_to_available by auto
  then have "map b5_id (c5_dividers s') = [''divider'', ''wrapping'']" by (simp add: c5_ok_def c5_buttons_ok_def)
  then have "b5_id (element_at (Active_at i) s) \<notin> set (map b5_id (c5_dividers s'))"
    using assms(3) Drag_to_available by (simp add: plain_def)
  with s' from_ok show ?thesis by (simp add: Drag_to_available and_then_def available_onAdd_def)
next
  case Textarea_focus
  with assms(1) focused show ?thesis by (simp add: textarea_focused_def split: option.split)
qed

lemma run_keeps: "P s \<Longrightarrow> \<not> divider_dropped es s \<Longrightarrow> P (run5 es s)"
  by (induction es arbitrary: s) (auto simp: step5_def event_keeps)

end

interpretation ok5: toolbar5_invariant c5_ok
  by unfold_locales (simp_all add: c5_ok_core)

interpretation core5: toolbar5_invariant c5_core
  by unfold_locales (simp_all add: c5_ok_core)

text \<open>A divider dropped on the available buttons takes the button at its place out of the list.\<close>

lemma mset_remove_sub: "mset (remove_nth k xs) \<subseteq># mset xs"
proof (cases "k < length xs")
  case True
  have "mset (remove_nth k xs) \<subseteq># add_mset (xs ! k) (mset (remove_nth k xs))" by simp
  then show ?thesis by (simp only: mset_remove_nth [OF True])
qed (simp add: remove_nth_def)

lemma onAdd_core: "c5_core s \<Longrightarrow> c5_core (fst (available_onAdd i k s))"
  using mset_remove_sub [of k "c5_available_list s"]
  by (auto simp: available_onAdd_def c5_core_def c5_buttons_ok_def selection_ok_def all_buttons5_def intro: subset_mset.trans)

lemma event5_core:
  assumes "c5_core s" and "event5_possible e s"
  shows "c5_core (fst (event5 e s))"
proof (cases "drops_divider e s")
  case True
  then obtain i k where e: "e = Drag_to_available i k" by (cases e) auto
  show ?thesis
    using core5.set_selected_keeps [OF assms(1) drag_selection(1) [OF assms(1), of "Active_at i"]] assms(2) onAdd_core
    unfolding e event5.simps by (intro core5.then_holds) simp_all
qed (rule core5.event_keeps [OF assms])

lemma run5_core: "c5_core s \<Longrightarrow> c5_core (run5 es s)"
  by (induction es arbitrary: s) (simp_all add: event5_core step5_def)

text \<open>What the two invariants say about the two lists.\<close>

lemma separate_ids:
  assumes "c5_buttons_ok s"
  shows "distinct (map b5_id (c5_available s))" "\<forall>b \<in> set (c5_available s). plain (b5_id b)"
proof -
  have "distinct (map b5_id (c5_dividers s) @ map b5_id (c5_available s))"
    using assms unfolding c5_buttons_ok_def all_buttons5_def map_append by blast
  then have sep: "distinct ([''divider'', ''wrapping''] @ map b5_id (c5_available s))"
    using assms unfolding c5_buttons_ok_def by metis
  then show "distinct (map b5_id (c5_available s))" by simp
  show "\<forall>b \<in> set (c5_available s). plain (b5_id b)" using sep by (auto simp: plain_def image_iff)
qed

lemma two_lists:
  assumes "c5_buttons_ok s" and "selection_ok s (c5_selected s)"
  shows "mset (filter plain (c5_selected s)) + mset (map b5_id (filter (\<lambda>b. b5_id b \<notin> set (c5_selected s)) (c5_available s))) =
    mset (map b5_id (c5_available s))"
proof -
  note sep = separate_ids [OF assms(1)]
  let ?rest = "map b5_id (filter (\<lambda>b. b5_id b \<notin> set (c5_selected s)) (c5_available s))"
  have "distinct (filter plain (c5_selected s) @ ?rest)"
    using assms(2) sep(1) by (auto simp: selection_ok_def distinct_map_filter)
  moreover have "i \<in> set (filter plain (c5_selected s) @ ?rest) \<longleftrightarrow> i \<in> set (map b5_id (c5_available s))" for i
  proof -
    have "i \<in> set (map b5_id (c5_available s))" if "i \<in> set (c5_selected s)" "plain i"
    proof -
      have "i \<notin> set (map b5_id (c5_dividers s))"
        using assms(1) that(2) unfolding c5_buttons_ok_def by (auto simp: plain_def simp del: set_map)
      moreover have "i \<in> set (map b5_id (all_buttons5 s))" using assms(2) that(1) by (auto simp: selection_ok_def)
      ultimately show ?thesis by (auto simp: all_buttons5_def)
    qed
    then show ?thesis using sep(2) by auto
  qed
  ultimately have "mset (filter plain (c5_selected s) @ ?rest) = mset (map b5_id (c5_available s))"
    using sep(1) set_eq_iff_mset_eq_distinct by blast
  then show ?thesis by simp
qed

section \<open>Starting\<close>

lemma selected_ids_names:
  assumes "distinct (map b5_id bs)"
  shows "set ns \<subseteq> set (map b5_name bs) \<Longrightarrow>
    \<exists>ids. selected_ids bs ns = Inr ids \<and> set ids \<subseteq> set (map b5_id bs) \<and> map (name_of bs) ids = ns"
proof (induction ns)
  case (Cons n ns)
  have "n \<in> set (map b5_name bs)" using Cons.prems by simp
  then have "find (\<lambda>b. b5_name b = n) bs \<noteq> None" by (auto simp: find_None_iff)
  then obtain b where b: "find (\<lambda>b. b5_name b = n) bs = Some b" "b \<in> set bs" "b5_name b = n"
    using find_Some_member by fastforce
  have "find (\<lambda>x. b5_id x = b5_id b) bs = Some b" using b(2) assms by (induction bs) (auto simp: rev_image_eqI)
  then have "name_of bs (b5_id b) = n" using b(3) by (simp add: name_of_def)
  with Cons b show ?case by auto
qed simp

lemma plain_names_distinct:
  assumes "map (name_of bs) ids = ns" and "distinct (filter (\<lambda>n. n \<noteq> ''|'' \<and> n \<noteq> ''-'') ns)"
    and "\<And>i. i \<in> set ids \<Longrightarrow> plain i \<Longrightarrow> name_of bs i \<noteq> ''|'' \<and> name_of bs i \<noteq> ''-''"
  shows "distinct (filter plain ids)"
  using assms
proof (induction ids arbitrary: ns)
  case (Cons i ids)
  show ?case
  proof (cases "plain i")
    case True
    have "i \<notin> set ids"
    proof
      assume i: "i \<in> set ids"
      have nn: "name_of bs i \<noteq> ''|'' \<and> name_of bs i \<noteq> ''-''" using Cons.prems(3) [of i] True by simp
      with i have "name_of bs i \<in> set (filter (\<lambda>n. n \<noteq> ''|'' \<and> n \<noteq> ''-'') (map (name_of bs) ids))" by auto
      moreover have "distinct (filter (\<lambda>n. n \<noteq> ''|'' \<and> n \<noteq> ''-'') (name_of bs i # map (name_of bs) ids))"
        using Cons.prems(1,2) by (metis list.simps(9))
      ultimately show False using nn by simp
    qed
    with Cons True show ?thesis by auto
  next
    case False
    have "distinct (filter (\<lambda>n. n \<noteq> ''|'' \<and> n \<noteq> ''-'') (map (name_of bs) ids))"
      using Cons.prems(1,2) by (auto split: if_splits)
    from Cons.IH [OF refl this] Cons.prems(3) False show ?thesis by simp
  qed
qed simp

definition buttons_given :: "(string \<times> ck5_attrs) list \<Rightarrow> bool" where
  "buttons_given entries \<longleftrightarrow>
     distinct (''divider'' # ''wrapping'' # map (b5_id \<circ> available_button) entries) \<and>
     list_all (\<lambda>b. b5_name b \<noteq> ''|'' \<and> b5_name b \<noteq> ''-'') (map available_button entries)"

lemma attach5_ok:
  assumes "buttons_given entries" and "set names \<subseteq> set (map b5_name (dividers5 tr @ map available_button entries))"
    and "distinct (filter (\<lambda>n. n \<noteq> ''|'' \<and> n \<noteq> ''-'') names)"
  shows "\<exists>s. ckeditor5_attach tr entries names = Inr s \<and> c5_ok s \<and> c5_textarea s = names \<and> c5_available s = map available_button entries"
proof -
  let ?av = "map available_button entries" and ?bs = "dividers5 tr @ map available_button entries"
  have dist: "distinct (map b5_id ?bs)" using assms(1) by (simp add: buttons_given_def dividers5_def)
  obtain ids where ids: "selected_ids ?bs names = Inr ids" "set ids \<subseteq> set (map b5_id ?bs)" "map (name_of ?bs) ids = names"
    using selected_ids_names [OF dist assms(2)] by blast
  have "name_of ?bs i \<noteq> ''|'' \<and> name_of ?bs i \<noteq> ''-''" if i: "i \<in> set ids" "plain i" for i
  proof -
    have "i \<in> set (map b5_id ?av)" using i ids(2) by (auto simp: dividers5_def plain_def)
    from find_id [OF this] obtain b where b: "find (\<lambda>b. b5_id b = i) ?av = Some b" by blast
    moreover have "''divider'' \<noteq> i" "''wrapping'' \<noteq> i" using i(2) by (auto simp: plain_def)
    ultimately have "find (\<lambda>b. b5_id b = i) ?bs = Some b" by (simp add: dividers5_def)
    moreover have "b \<in> set ?av" using find_Some_member [OF b] by simp
    ultimately show ?thesis using assms(1) by (auto simp: name_of_def buttons_given_def list_all_iff)
  qed
  then have plain: "distinct (filter plain ids)" by (rule plain_names_distinct [OF ids(3) assms(3)])
  define s0 where "s0 = \<lparr>c5_available = ?av, c5_dividers = dividers5 tr, c5_selected = ids, c5_textarea = names,
    c5_active_list = [], c5_available_list = [], c5_help = None, c5_focus = None, c5_focusSelector = None, c5_announced = []\<rparr>"
  have eq: "ckeditor5_attach tr entries names = Inr (render5 s0)" by (simp add: ckeditor5_attach_def Let_def ids(1) s0_def)
  have all: "all_buttons5 s0 = ?bs" by (simp add: all_buttons5_def s0_def)
  have same: "same_buttons s0 (render5 s0)" by (simp add: same_buttons_def)
  have "c5_buttons_ok s0" "selection_ok s0 ids" using dist ids(2) plain by (simp_all add: c5_buttons_ok_def selection_ok_def all) (simp_all add: s0_def dividers5_def)
  moreover have "drawn (render5 s0)" using ids(2) by (intro render5_drawn) (simp add: all, simp add: s0_def)
  ultimately have "c5_ok (render5 s0)"
    using same_buttons_ok [OF same] ids(3) all by (simp add: c5_ok_def) (simp add: s0_def)
  with eq show ?thesis by (simp add: s0_def)
qed

section \<open>The effect of the arrow keys\<close>

lemma and_then_None [simp]: "and_then (s, None) f = f s"
  by (simp add: and_then_def)

lemma and_then_Some [simp]: "and_then (s, Some e) f = (s, Some e)"
  by (simp add: and_then_def)

lemma announce5_simps [simp]:
  "c5_selected (announce5 msg s) = c5_selected s" "c5_active_list (announce5 msg s) = c5_active_list s"
  "c5_available_list (announce5 msg s) = c5_available_list s" "c5_dividers (announce5 msg s) = c5_dividers s"
  "c5_available (announce5 msg s) = c5_available s" "c5_focusSelector (announce5 msg s) = c5_focusSelector s"
  by (simp_all add: announce5_def)

lemma position_where_found:
  assumes "x \<in> set xs" and "P x"
  shows "\<exists>k. position_where P xs = Some k \<and> k < length xs \<and> P (xs ! k)"
proof -
  obtain j where "j < length xs" "P (xs ! j)" using assms by (metis in_set_conv_nth)
  then have "find (\<lambda>k. P (xs ! k)) [0..<length xs] \<noteq> None" by (auto simp: find_None_iff)
  then obtain k where "find (\<lambda>k. P (xs ! k)) [0..<length xs] = Some k" by blast
  with find_Some_member [OF this] show ?thesis by (auto simp: position_where_def)
qed

lemma c5_ok_simps:
  assumes "c5_ok s"
  shows "c5_buttons_ok s" "selection_ok s (c5_selected s)" "map b5_id (c5_active_list s) = c5_selected s"
    "length (c5_active_list s) = length (c5_selected s)" "length (c5_textarea s) = length (c5_selected s)"
    "c5_available_list s = filter (\<lambda>b. b5_id b \<notin> set (c5_selected s)) (c5_available s)"
    "map b5_id (c5_dividers s) = [''divider'', ''wrapping'']"
proof -
  show m: "map b5_id (c5_active_list s) = c5_selected s" using assms by (simp add: c5_ok_def drawn_def)
  then show "length (c5_active_list s) = length (c5_selected s)" by (metis length_map)
qed (use assms in \<open>simp_all add: c5_ok_def drawn_def c5_buttons_ok_def\<close>)

lemma focus_last_ok: "c5_ok s \<Longrightarrow> c5_selected s \<noteq> [] \<Longrightarrow> snd (focus_last s) = None"
  using c5_ok_simps(4) [of s] by (cases "c5_selected s") (simp_all add: focus_last_def focus_active_def)

lemma removed_not_selected:
  assumes "distinct (filter plain ids)" and "i < length ids" and "plain (ids ! i)"
  shows "ids ! i \<notin> set (remove_nth i ids)"
proof -
  have "filter plain ids = filter plain (take i ids) @ ids ! i # filter plain (drop (Suc i) ids)"
    using assms(3) by (subst id_take_nth_drop [OF assms(2)]) simp
  with assms(1,3) show ?thesis by (auto simp: remove_nth_def)
qed

lemma plain_available:
  assumes "c5_ok s" and "i \<in> set (map b5_id (all_buttons5 s))" and "plain i"
  shows "i \<in> set (map b5_id (c5_available s))"
proof -
  have "i \<notin> set (map b5_id (c5_dividers s))" using assms(3) unfolding c5_ok_simps(7) [OF assms(1)] by (auto simp: plain_def)
  with assms(2) show ?thesis by (auto simp: all_buttons5_def)
qed

lemma drawn_available:
  assumes "c5_ok s" and "i \<in> set (map b5_id (c5_available s))" and "i \<notin> set (c5_selected s)"
  shows "\<exists>k. position_where (\<lambda>b. b5_id b = i) (c5_available_list s) = Some k \<and> k < length (c5_available_list s) \<and> b5_id (c5_available_list s ! k) = i"
proof -
  obtain b where "b \<in> set (c5_available s)" "b5_id b = i" using assms(2) by auto
  then have "b \<in> set (c5_available_list s)" using assms(3) by (simp add: c5_ok_simps(6) [OF assms(1)])
  from position_where_found [OF this, of "\<lambda>b. b5_id b = i"] \<open>b5_id b = i\<close> show ?thesis by blast
qed

definition offset :: "bool \<Rightarrow> ck5_key \<Rightarrow> int" where
  "offset ltr key = (if (key = ArrowLeft) = ltr then -1 else 1)"

lemma keyup_move:
  assumes "c5_ok s" and "i < length (c5_selected s)" and "key = ArrowLeft \<or> key = ArrowRight"
  shows "keyup ltr key (Active_at i) s = and_then (moveWithinSelectedButtons i (offset ltr key) s) (focus_active (int i + offset ltr key))"
proof -
  have "place5_exists (Active_at i) s" using assms(2) c5_ok_simps(4) [OF assms(1)] by (simp add: place5_exists_def)
  from element_in(2) [OF c5_ok_core [OF assms(1)] this refl] have "b5_id (element_at (Active_at i) s) \<in> set (c5_selected s)" using nth_mem by simp
  then show ?thesis using assms(3) by (auto simp: keyup_def Let_def place_index_def offset_def)
qed

lemma move_outside:
  assumes "c5_ok s" and "i < length (c5_selected s)" and "off = 1 \<or> off = -1"
    and "int i + off < 0 \<or> int (length (c5_selected s)) \<le> int i + off"
  shows "and_then (moveWithinSelectedButtons i off s) (focus_active (int i + off)) = (s, Some TypeError)"
  using assms(2-4) c5_ok_simps(4) [OF assms(1)] by (auto simp: moveWithinSelectedButtons_def focus_active_def)

lemma move_inside:
  assumes "c5_ok s" and "i < length (c5_selected s)" and "off = 1 \<or> off = -1"
    and "0 \<le> int i + off" and "int i + off < int (length (c5_selected s))"
  shows "\<exists>s'. and_then (moveWithinSelectedButtons i off s) (focus_active (int i + off)) = (s', None) \<and> c5_ok s' \<and>
    c5_selected s' = insert_nth (nat (int i + off)) (c5_selected s ! i) (remove_nth i (c5_selected s))"
proof -
  let ?ids = "insert_nth (nat (int i + off)) (c5_selected s ! i) (remove_nth i (c5_selected s))"
  obtain s1 where s1: "set_selected ?ids s = (s1, None)" "c5_ok s1" "c5_selected s1 = ?ids"
    using set_selected_ok [OF c5_ok_simps(1) [OF assms(1)] selection_moved [OF c5_ok_simps(2) [OF assms(1)] assms(2)]] by blast
  have "moveWithinSelectedButtons i off s = (s1, None)"
    using assms(3-5) s1(1) by (auto simp: moveWithinSelectedButtons_def)
  moreover have "length (c5_active_list s1) = length (c5_selected s)"
  proof -
    have "length ?ids = length (c5_selected s)" using mset_remove_nth [OF assms(2)] by (metis mset_insert_nth size_mset)
    then show ?thesis using c5_ok_simps(4) [OF s1(2)] s1(3) by simp
  qed
  ultimately show ?thesis using assms(4,5) s1 by (simp add: focus_active_def)
qed

lemma keyup_other_succeeds:
  assumes ok: "c5_ok s" and p: "place5_exists p s" and other: "\<not> (\<exists>i. p = Active_at i \<and> (key = ArrowLeft \<or> key = ArrowRight))"
  shows "snd (keyup ltr key p s) = None"
proof -
  note el = element_in [OF c5_ok_core [OF ok] p] and sel = c5_ok_simps(2) [OF ok]
  have added: "snd (and_then (addToSelectedButtons b s) focus_last) = None" "snd (and_then (copyToActiveButtons b s) focus_last) = None"
    if b: "selection_ok s (c5_selected s @ [b5_id b])" for b
    using set_selected_ok [OF c5_ok_simps(1) [OF ok] b] focus_last_ok
    by (auto simp: addToSelectedButtons_def copyToActiveButtons_def)
  show ?thesis
  proof (cases p)
    case (Divider_at i)
    then show ?thesis using added(2) [OF selection_added [OF sel el(1)]] el(4) by (auto simp: keyup_def Let_def)
  next
    case (Available_at i)
    then show ?thesis using added(1) [OF selection_added [OF sel el(1)]] el(3) by (auto simp: keyup_def Let_def)
  next
    case (Active_at i)
    have i: "b5_id (element_at p s) = c5_selected s ! i" "i < length (c5_selected s)" using el(2) [OF Active_at] by simp_all
    obtain s1 where s1: "set_selected (remove_nth i (c5_selected s)) s = (s1, None)" "c5_ok s1"
      "c5_selected s1 = remove_nth i (c5_selected s)" "same_buttons s s1"
      using set_selected_ok [OF c5_ok_simps(1) [OF ok] selection_removed [OF sel]] by blast
    have "snd (focus_available (c5_selected s ! i) (announce5 msg s1)) = None" if "c5_selected s ! i \<notin> set (map b5_id (c5_dividers s1))" for msg
    proof -
      have pl: "plain (c5_selected s ! i)" using that unfolding c5_ok_simps(7) [OF s1(2)] by (simp add: plain_def)
      have "c5_selected s ! i \<notin> set (c5_selected s1)"
        using removed_not_selected [OF _ i(2) pl] sel s1(3) by (simp add: selection_ok_def)
      moreover have "c5_selected s ! i \<in> set (map b5_id (c5_available s1))"
        using plain_available [OF s1(2) _ pl] el(1) i(1) same_buttons_ok [OF s1(4)] by simp
      ultimately show ?thesis using drawn_available [OF s1(2)] by (fastforce simp: focus_available_def)
    qed
    then show ?thesis
      using Active_at other s1(1) i by (cases key) (auto simp: keyup_def Let_def place_index_def removeFromSelectedButtons_def)
  qed
qed

section \<open>Properties\<close>

definition sample_entries :: "(string \<times> ck5_attrs) list" where
  "sample_entries = map (\<lambda>n. (n, \<lparr>at_id = None, at_name = None, at_label = n\<rparr>)) [''bold'', ''link'']"

definition sample5 :: ck5 where
  "sample5 = (case ckeditor5_attach (\<lambda>x. x) sample_entries [''bold'', ''|'', ''link''] of Inr s \<Rightarrow> s)"

lemma sample_given:
  "buttons_given sample_entries" "set [''bold'', ''|'', ''link''] \<subseteq> set (map b5_name (dividers5 (\<lambda>x. x) @ map available_button sample_entries))"
  "distinct (filter (\<lambda>n. n \<noteq> ''|'' \<and> n \<noteq> ''-'') [''bold'', ''|'', ''link''])"
  by (simp_all add: buttons_given_def sample_entries_def available_button_def with_default_def dividers5_def)

lemma sample5_ok: "c5_ok sample5"
  using attach5_ok [OF sample_given] by (auto simp: sample5_def)

lemma sample5_selected: "c5_selected sample5 = [''bold'', ''divider'', ''link'']"
  by (simp add: sample5_def ckeditor5_attach_def Let_def sample_entries_def available_button_def with_default_def dividers5_def)

lemma sample5_places: "place5_exists (Active_at 0) sample5" "place5_exists (Active_at 1) sample5" "c5_active_list sample5 ! 1 = \<lparr>b5_id = ''divider'', b5_name = ''|'', b5_label = ''Divider''\<rparr>"
  "c5_active_list sample5 ! 0 = \<lparr>b5_id = ''bold'', b5_name = ''bold'', b5_label = ''bold''\<rparr>"
  by (simp_all add: place5_exists_def sample5_def ckeditor5_attach_def Let_def sample_entries_def available_button_def with_default_def dividers5_def
      render5_def getSelectedButtons_def)

text \<open>
  C11. Started with the names of known buttons, none but dividers twice, the toolbar has these names in the textarea, and
  whatever keys are pressed and buttons are dragged, even when a handler throws: the textarea has the names of the
  selected buttons in the order of the active list, and no button is in the active list and in the list of available
  ones, or twice. As long as no divider has been dropped on the list of available buttons, every button is in one of them.
\<close>

theorem toolbar5_stays_consistent:
  assumes "buttons_given entries" and "set names \<subseteq> set (map b5_name (dividers5 tr @ map available_button entries))"
    and "distinct (filter (\<lambda>n. n \<noteq> ''|'' \<and> n \<noteq> ''-'') names)"
  shows "\<exists>s0 s. ckeditor5_attach tr entries names = Inr s0 \<and> c5_textarea s0 = names \<and> run5 events s0 = s \<and>
    c5_textarea s = map (name_of (all_buttons5 s)) (map b5_id (c5_active_list s)) \<and> distinct (map b5_id (c5_available s)) \<and>
    (if divider_dropped events s0
     then mset (filter plain (map b5_id (c5_active_list s))) + mset (map b5_id (c5_available_list s)) \<subseteq># mset (map b5_id (c5_available s))
     else mset (filter plain (map b5_id (c5_active_list s))) + mset (map b5_id (c5_available_list s)) = mset (map b5_id (c5_available s)))"
proof -
  obtain s0 where s0: "ckeditor5_attach tr entries names = Inr s0" "c5_ok s0" "c5_textarea s0 = names"
    using attach5_ok [OF assms] by blast
  define s where "s = run5 events s0"
  have core: "c5_core s" using run5_core [OF c5_ok_core [OF s0(2)]] by (simp add: s_def)
  then have c: "c5_buttons_ok s" "selection_ok s (c5_selected s)" "map b5_id (c5_active_list s) = c5_selected s"
    "mset (c5_available_list s) \<subseteq># mset (filter (\<lambda>b. b5_id b \<notin> set (c5_selected s)) (c5_available s))"
    "c5_textarea s = map (name_of (all_buttons5 s)) (map b5_id (c5_active_list s))"
    by (simp_all add: c5_core_def)
  have "c5_available_list s = filter (\<lambda>b. b5_id b \<notin> set (c5_selected s)) (c5_available s)" if "\<not> divider_dropped events s0"
    using ok5.run_keeps [OF s0(2) that] by (simp add: s_def c5_ok_def drawn_def)
  moreover have "mset (map b5_id (c5_available_list s)) \<subseteq># mset (map b5_id (filter (\<lambda>b. b5_id b \<notin> set (c5_selected s)) (c5_available s)))"
    using image_mset_subseteq_mono [OF c(4), of b5_id] by simp
  ultimately have "if divider_dropped events s0
     then mset (filter plain (map b5_id (c5_active_list s))) + mset (map b5_id (c5_available_list s)) \<subseteq># mset (map b5_id (c5_available s))
     else mset (filter plain (map b5_id (c5_active_list s))) + mset (map b5_id (c5_available_list s)) = mset (map b5_id (c5_available s))"
    using two_lists [OF c(1,2)] unfolding c(3) by (metis subset_mset.add_left_mono)
  with s0(1,3) c(5) separate_ids(1) [OF c(1)] s_def show ?thesis by blast
qed

theorem toolbar5_stays_consistent_witness:
  "\<exists>s0 s. ckeditor5_attach (\<lambda>x. x) sample_entries [''bold'', ''|'', ''link''] = Inr s0 \<and> c5_textarea s0 = [''bold'', ''|'', ''link''] \<and>
    run5 [Key_up True ArrowRight (Active_at 0), Drag_to_available 2 0, Drag_to_available 0 1] s0 = s \<and>
    c5_textarea s = map (name_of (all_buttons5 s)) (map b5_id (c5_active_list s)) \<and> distinct (map b5_id (c5_available s)) \<and>
    (if divider_dropped [Key_up True ArrowRight (Active_at 0), Drag_to_available 2 0, Drag_to_available 0 1] s0
     then mset (filter plain (map b5_id (c5_active_list s))) + mset (map b5_id (c5_available_list s)) \<subseteq># mset (map b5_id (c5_available s))
     else mset (filter plain (map b5_id (c5_active_list s))) + mset (map b5_id (c5_available_list s)) = mset (map b5_id (c5_available s)))"
  using sample_given by (rule toolbar5_stays_consistent)



text \<open>
  Moving an active button to the right and back to the left restores the order of the toolbar.
\<close>

theorem move_right_then_left:
  assumes "c5_ok s" and "Suc i < length (c5_selected s)"
  shows "\<exists>s1 s2. keyup True ArrowRight (Active_at i) s = (s1, None) \<and> keyup True ArrowLeft (Active_at (Suc i)) s1 = (s2, None) \<and>
    c5_selected s1 ! Suc i = c5_selected s ! i \<and> c5_selected s2 = c5_selected s"
proof -
  let ?ids = "c5_selected s"
  obtain s1 where s1: "keyup True ArrowRight (Active_at i) s = (s1, None)" "c5_ok s1"
    "c5_selected s1 = insert_nth (Suc i) (?ids ! i) (remove_nth i ?ids)"
    using move_inside [OF assms(1), of i 1] keyup_move [OF assms(1), of i ArrowRight True] assms(2) by (auto simp: offset_def nat_add_distrib)
  have ids: "?ids = take i ?ids @ ?ids ! i # ?ids ! Suc i # drop (Suc (Suc i)) ?ids"
    using assms(2) by (metis Cons_nth_drop_Suc Suc_lessD id_take_nth_drop)
  have len: "length (take i ?ids) = i" using assms(2) by simp
  have ids1: "c5_selected s1 = take i ?ids @ ?ids ! Suc i # ?ids ! i # drop (Suc (Suc i)) ?ids"
    using assms(2) by (simp add: s1(3) insert_nth_def remove_nth_def min_def Cons_nth_drop_Suc [symmetric, of "Suc i"])
  have second: "(xs @ a # b # ys) ! Suc (length xs) = b" for xs ys and a b :: string by (simp add: nth_append)
  have at: "c5_selected s1 ! Suc i = ?ids ! i" unfolding ids1 by (rule second [of "take i ?ids", unfolded len])
  have at2: "Suc i < length (c5_selected s1)" using assms(2) by (simp add: ids1)
  obtain s2 where s2: "keyup True ArrowLeft (Active_at (Suc i)) s1 = (s2, None)"
    "c5_selected s2 = insert_nth i (c5_selected s1 ! Suc i) (remove_nth (Suc i) (c5_selected s1))"
    using move_inside [OF s1(2) at2, of "-1"] keyup_move [OF s1(2) at2, of ArrowLeft True] at2 by (auto simp: offset_def)
  have "c5_selected s2 = take i ?ids @ ?ids ! i # ?ids ! Suc i # drop (Suc (Suc i)) ?ids"
    unfolding s2(2) at using len by (simp add: insert_nth_def remove_nth_def ids1)
  with ids s1(1) s2(1) at show ?thesis by metis
qed

theorem move_right_then_left_witness:
  "\<exists>s1 s2. keyup True ArrowRight (Active_at 1) sample5 = (s1, None) \<and> keyup True ArrowLeft (Active_at (Suc 1)) s1 = (s2, None) \<and>
    c5_selected s1 ! Suc 1 = c5_selected sample5 ! 1 \<and> c5_selected s2 = c5_selected sample5"
  by (rule move_right_then_left [OF sample5_ok]) (simp add: sample5_selected)

text \<open>
  After a divider has been removed with the keyboard no element gets the focus back when the form has been rebuilt:
  the selector counts from zero or below, and elements are counted from one.
\<close>

theorem removed_divider_loses_focus:
  assumes "c5_ok s" and "i < length (c5_selected s)" and "\<not> plain (c5_selected s ! i)" and "c5_focus s = Some (Active_at i)"
  shows "\<exists>s' sel. keyup ltr ArrowUp (Active_at i) s = (s', None) \<and> c5_focus s' = None \<and> c5_focusSelector s' = Some sel \<and>
    selector_target sel s' = None \<and> textarea_focused s' = s'"
proof -
  have p: "place5_exists (Active_at i) s" using assms(2) c5_ok_simps(4) [OF assms(1)] by (simp add: place5_exists_def)
  have el: "b5_id (element_at (Active_at i) s) = c5_selected s ! i" using element_in(2) [OF c5_ok_core [OF assms(1)] p refl] by simp
  let ?ids = "remove_nth i (c5_selected s)"
  let ?names = "map (name_of (all_buttons5 s)) ?ids"
  let ?s = "s\<lparr>c5_selected := ?ids, c5_textarea := ?names\<rparr>"
  obtain s1 where s1: "set_selected ?ids s = (s1, None)" "c5_ok s1" "c5_selected s1 = ?ids" "same_buttons s s1"
    "c5_focusSelector s1 = c5_focusSelector (textarea_changed (c5_textarea s) ?names ?s)"
    using set_selected_ok [OF c5_ok_simps(1) [OF assms(1)] selection_removed [OF c5_ok_simps(2) [OF assms(1)]]] by blast
  have focus1: "c5_focus s1 = None" using s1(1) by (auto simp: set_selected_def Let_def render5_def split: sum.splits)
  have len: "length ?names < length (c5_textarea s)"
    using assms(2) c5_ok_simps(5) [OF assms(1)] by (simp add: remove_nth_def)
  have div: "c5_selected s ! i = ''divider'' \<or> c5_selected s ! i = ''wrapping''" using assms(3) by (auto simp: plain_def)
  have el': "element_at (Active_at i) ?s = element_at (Active_at i) s" by (simp add: element_at_def)
  have "c5_focusSelector s1 = Some (divider_focus (c5_selected s ! i) (c5_textarea s) ?names ?s)"
    using div by (auto simp: s1(5) textarea_changed_def assms(4) Let_def el' el)
  then obtain sel where sel: "c5_focusSelector s1 = Some sel" "sel = Empty_selector \<or> (\<exists>k. sel = Nth_active (min k 0))"
    using len by (auto simp: divider_focus_def split: option.splits)
  then have none: "selector_target sel x = None" for x by (auto simp: selector_target_def)
  define s' where "s' = announce5 (Removed (b5_label (element_at (Active_at i) s))) s1"
  have "c5_selected s ! i \<in> set (map b5_id (c5_dividers s'))"
    using div c5_ok_simps(7) [OF s1(2)] by (auto simp: s'_def)
  then have "keyup ltr ArrowUp (Active_at i) s = (s', None)"
    using el assms(2) s1(1) by (simp add: keyup_def Let_def place_index_def removeFromSelectedButtons_def s'_def)
  moreover have "c5_focus s' = None" "c5_focusSelector s' = Some sel" by (simp_all add: s'_def announce5_def focus1 sel(1))
  ultimately show ?thesis using none by (simp add: textarea_focused_def)
qed

theorem removed_divider_loses_focus_witness:
  "\<exists>s' sel. keyup True ArrowUp (Active_at 1) (sample5\<lparr>c5_focus := Some (Active_at 1)\<rparr>) = (s', None) \<and> c5_focus s' = None \<and>
    c5_focusSelector s' = Some sel \<and> selector_target sel s' = None \<and> textarea_focused s' = s'"
  by (rule removed_divider_loses_focus) (simp_all add: sample5_ok sample5_selected plain_def)

lemma dropped_divider_removes_button:
  assumes "c5_ok s" and "i \<in> set (map b5_id (c5_dividers s))" and "k < length (c5_available_list s)"
  shows "\<exists>s'. available_onAdd i k s = (s', None) \<and> c5_selected s' = c5_selected s \<and>
    mset (c5_available_list s) = add_mset (c5_available_list s ! k) (mset (c5_available_list s'))"
  using assms(2,3) mset_remove_nth [OF assms(3)] by (simp add: available_onAdd_def)

end
