(* ===== verification/Machine_Name.thy ===== *)
theory Machine_Name
  imports Filter_Html
begin

text \<open>
  Machine names of form fields (\<open>core/misc/machine-name.es6.js\<close>): while the human-readable name is typed, the machine
  name follows it, at once when the name only needs the replacements of the browser, otherwise by a request that starts
  300 milliseconds after the last change. The timer and the request are variables of one call of \<open>attach\<close>, shared by all
  fields found in it.

  The regular expression of the settings is a function on strings; the server's transliteration is an argument of the
  steps. The property \<open>readystate\<close> of a request does not exist (it is spelled \<open>readyState\<close>), so a request is always
  aborted; aborting one that is complete has no effect.
\<close>

section \<open>State\<close>

record mn_options =
  mo_clean :: "string \<Rightarrow> string"
  mo_replace :: string
  mo_maxlength :: "nat option"
  mo_field_prefix :: string
  mo_field_suffix :: string

record mn_field =
  mf_options :: mn_options
  mf_source :: string
  mf_target :: string
  mf_preview :: string
  mf_suffix_shown :: bool
  mf_wrapper_hidden :: bool
  mf_bound :: bool

record mn_request =
  mr_id :: nat
  mr_field :: nat
  mr_text :: string

record mn_page =
  mp_fields :: "mn_field list"
  mp_timeout :: "(nat \<times> string) option"
  mp_xhr :: "nat option"
  mp_requests :: "mn_request list"
  mp_next :: nat

definition upd_field :: "nat \<Rightarrow> (mn_field \<Rightarrow> mn_field) \<Rightarrow> mn_page \<Rightarrow> mn_page" where
  "upd_field i f p = p\<lparr>mp_fields := (mp_fields p)[i := f (mp_fields p ! i)]\<rparr>"

definition substr0 :: "nat option \<Rightarrow> string \<Rightarrow> string" where
  "substr0 n s = (case n of None \<Rightarrow> s | Some k \<Rightarrow> take k s)"

section \<open>Handlers\<close>

definition preview_html :: "mn_options \<Rightarrow> string \<Rightarrow> string" where
  "preview_html opts machine = mo_field_prefix opts @ check_plain_str machine @ mo_field_suffix opts"

definition showMachineName :: "string \<Rightarrow> mn_field \<Rightarrow> mn_field" where
  "showMachineName machine f =
     (if machine \<noteq> []
      then (if machine \<noteq> mo_replace (mf_options f)
            then f\<lparr>mf_target := machine, mf_preview := preview_html (mf_options f) machine\<rparr> else f)\<lparr>mf_suffix_shown := True\<rparr>
      else f\<lparr>mf_suffix_shown := False, mf_target := machine, mf_preview := []\<rparr>)"

definition transliterate :: "nat \<Rightarrow> string \<Rightarrow> mn_page \<Rightarrow> mn_page" where
  "transliterate i source p =
     p\<lparr>mp_requests := mp_requests p @ [\<lparr>mr_id = mp_next p, mr_field = i, mr_text = source\<rparr>], mp_next := Suc (mp_next p)\<rparr>"

definition abort_request :: "mn_page \<Rightarrow> mn_page" where
  "abort_request p =
     (case mp_xhr p of None \<Rightarrow> p
      | Some x \<Rightarrow> p\<lparr>mp_requests := filter (\<lambda>r. mr_id r \<noteq> x) (mp_requests p), mp_xhr := None\<rparr>)"

definition expected_name :: "mn_options \<Rightarrow> string \<Rightarrow> string" where
  "expected_name opts baseValue = substr0 (mo_maxlength opts) (mo_clean opts (toLowerCase baseValue))"

definition machineNameHandler :: "nat \<Rightarrow> mn_page \<Rightarrow> mn_page" where
  "machineNameHandler i p =
     (let f = mp_fields p ! i;
          baseValue = mf_source f;
          expected = expected_name (mf_options f) baseValue;
          p1 = (abort_request p)\<lparr>mp_timeout := None\<rparr>
      in if toLowerCase baseValue \<noteq> expected then p1\<lparr>mp_timeout := Some (i, baseValue)\<rparr>
         else upd_field i (showMachineName expected) p1)"

definition timeout_fires :: "mn_page \<Rightarrow> mn_page" where
  "timeout_fires p =
     (case mp_timeout p of None \<Rightarrow> p
      | Some (i, baseValue) \<Rightarrow> (transliterate i baseValue (p\<lparr>mp_timeout := None\<rparr>))\<lparr>mp_xhr := Some (mp_next p)\<rparr>)"

definition response_arrives :: "(mn_options \<Rightarrow> string \<Rightarrow> string) \<Rightarrow> nat \<Rightarrow> mn_page \<Rightarrow> mn_page" where
  "response_arrives server x p =
     (case find (\<lambda>r. mr_id r = x) (mp_requests p) of
        None \<Rightarrow> p
      | Some r \<Rightarrow>
          upd_field (mr_field r)
            (\<lambda>f. showMachineName (substr0 (mo_maxlength (mf_options f)) (server (mf_options f) (mr_text r))) f)
            (p\<lparr>mp_requests := filter (\<lambda>r. mr_id r \<noteq> x) (mp_requests p)\<rparr>))"

definition clickEditHandler :: "nat \<Rightarrow> mn_page \<Rightarrow> mn_page" where
  "clickEditHandler i = upd_field i (\<lambda>f. f\<lparr>mf_wrapper_hidden := False, mf_suffix_shown := False, mf_bound := False\<rparr>)"

section \<open>Attaching\<close>

text \<open>A field of the settings as it is found on the page.\<close>

record mn_settings =
  ms_options :: mn_options
  ms_complete :: bool
  ms_error :: bool
  ms_disabled :: bool
  ms_source :: string
  ms_target :: string

definition attach_field :: "nat \<Rightarrow> mn_page \<Rightarrow> mn_page" where
  "attach_field i p =
     (let f = mp_fields p ! i;
          p1 = (if mf_target f = [] \<and> mf_source f \<noteq> [] then transliterate i (mf_source f) p else p)
      in if mf_target f = [] then machineNameHandler i (upd_field i (\<lambda>f. f\<lparr>mf_bound := True\<rparr>) p1) else p1)"

definition new_field :: "mn_settings \<Rightarrow> mn_field" where
  "new_field s =
     \<lparr>mf_options = ms_options s, mf_source = ms_source s, mf_target = ms_target s, mf_preview = preview_html (ms_options s) (ms_target s),
      mf_suffix_shown = True, mf_wrapper_hidden = True, mf_bound = False\<rparr>"

definition machineName_attach :: "mn_settings list \<Rightarrow> mn_page" where
  "machineName_attach ss =
     fold (\<lambda>s p. if \<not> ms_complete s \<or> ms_error s then p
                 else (let p1 = p\<lparr>mp_fields := mp_fields p @ [new_field s]\<rparr>
                       in if ms_disabled s then p1 else attach_field (length (mp_fields p)) p1))
       ss \<lparr>mp_fields = [], mp_timeout = None, mp_xhr = None, mp_requests = [], mp_next = 0\<rparr>"

section \<open>Runs\<close>

datatype mn_event = Source_changed nat string | Timeout | Response nat | Edit_clicked nat | Target_changed nat string

fun mn_step :: "(mn_options \<Rightarrow> string \<Rightarrow> string) \<Rightarrow> mn_event \<Rightarrow> mn_page \<Rightarrow> mn_page" where
  "mn_step server (Source_changed i v) p =
     (if i < length (mp_fields p)
      then (let p1 = upd_field i (\<lambda>f. f\<lparr>mf_source := v\<rparr>) p in if mf_bound (mp_fields p ! i) then machineNameHandler i p1 else p1) else p)"
| "mn_step server Timeout p = timeout_fires p"
| "mn_step server (Response x) p = response_arrives server x p"
| "mn_step server (Edit_clicked i) p = clickEditHandler i p"
| "mn_step server (Target_changed i v) p =
     (if i < length (mp_fields p) \<and> \<not> mf_wrapper_hidden (mp_fields p ! i) then upd_field i (\<lambda>f. f\<lparr>mf_target := v\<rparr>) p else p)"

definition mn_run :: "(mn_options \<Rightarrow> string \<Rightarrow> string) \<Rightarrow> mn_event list \<Rightarrow> mn_page \<Rightarrow> mn_page" where
  "mn_run server es p = fold (mn_step server) es p"

section \<open>One field\<close>

text \<open>The machine name a field should have for its source.\<close>

definition final_name :: "(mn_options \<Rightarrow> string \<Rightarrow> string) \<Rightarrow> mn_options \<Rightarrow> string \<Rightarrow> string" where
  "final_name server opts v =
     (if toLowerCase v \<noteq> expected_name opts v then substr0 (mo_maxlength opts) (server opts v) else expected_name opts v)"

definition named :: "(mn_options \<Rightarrow> string \<Rightarrow> string) \<Rightarrow> mn_field \<Rightarrow> bool" where
  "named server f \<longleftrightarrow>
     (let m = final_name server (mf_options f) (mf_source f) in m = mo_replace (mf_options f) \<and> m \<noteq> [] \<or> mf_target f = m)"

text \<open>
  On a page with one field whose requests are all started by the timer: a waiting timer or a request under way is for the
  current source; otherwise the field has its name.
\<close>

definition follows :: "(mn_options \<Rightarrow> string \<Rightarrow> string) \<Rightarrow> mn_page \<Rightarrow> bool" where
  "follows server p \<longleftrightarrow>
     (\<exists>f. mp_fields p = [f] \<and> mf_bound f \<and>
       (case mp_timeout p of
          Some (i, v) \<Rightarrow> i = 0 \<and> v = mf_source f \<and> mp_requests p = [] \<and> toLowerCase v \<noteq> expected_name (mf_options f) v
        | None \<Rightarrow>
            (case mp_requests p of
               [] \<Rightarrow> named server f
             | r # rs \<Rightarrow> rs = [] \<and> mr_field r = 0 \<and> mr_text r = mf_source f \<and> mp_xhr p = Some (mr_id r) \<and>
                 toLowerCase (mf_source f) \<noteq> expected_name (mf_options f) (mf_source f))))"

lemma showMachineName_simps [simp]:
  "mf_options (showMachineName m f) = mf_options f" "mf_source (showMachineName m f) = mf_source f"
  "mf_bound (showMachineName m f) = mf_bound f"
  "mf_target (showMachineName m f) = (if m = mo_replace (mf_options f) \<and> m \<noteq> [] then mf_target f else m)"
  by (simp_all add: showMachineName_def)

lemma changed_source_follows:
  assumes "follows server p"
  shows "follows server (mn_step server (Source_changed i v) p)"
proof -
  obtain f where f: "mp_fields p = [f]" "mf_bound f" using assms by (auto simp: follows_def)
  have none: "mp_requests (abort_request p) = []" "mp_fields (abort_request p) = [f]"
    using assms f(1) by (auto simp: follows_def abort_request_def split: option.splits list.splits prod.splits)
  let ?f = "f\<lparr>mf_source := v\<rparr>"
  let ?p = "upd_field 0 (\<lambda>f. f\<lparr>mf_source := v\<rparr>) p"
  have p: "mp_fields ?p = [?f]" "mp_requests (abort_request ?p) = []" "mp_fields (abort_request ?p) = [?f]"
    using none f(1) by (auto simp: upd_field_def abort_request_def split: option.splits)
  show ?thesis
  proof (cases "i = 0")
    case True
    then have "mn_step server (Source_changed i v) p = machineNameHandler 0 ?p" using f by (simp add: Let_def)
    then show ?thesis
      using f(2) p by (auto simp: follows_def machineNameHandler_def Let_def upd_field_def named_def final_name_def)
  qed (use assms f(1) in simp)
qed

lemma timeout_follows:
  assumes "follows server p"
  shows "follows server (timeout_fires p)"
proof (cases "mp_timeout p")
  case (Some iv)
  with assms show ?thesis by (auto simp: follows_def timeout_fires_def transliterate_def split: prod.splits)
qed (use assms in \<open>simp add: timeout_fires_def\<close>)

lemma response_follows:
  assumes "follows server p"
  shows "follows server (response_arrives server x p)"
proof (cases "find (\<lambda>r. mr_id r = x) (mp_requests p)")
  case (Some r)
  have some: "mp_requests p \<noteq> []" using Some by auto
  then have none: "mp_timeout p = None" using assms by (cases "mp_timeout p") (auto simp: follows_def)
  with some assms obtain r' where "mp_requests p = [r']" by (cases "mp_requests p") (auto simp: follows_def)
  with Some have "mp_requests p = [r] \<and> mr_id r = x" by (auto split: if_splits)
  with assms none obtain f where f: "mp_fields p = [f]" "mf_bound f" "mr_field r = 0" "mr_text r = mf_source f"
    "toLowerCase (mf_source f) \<noteq> expected_name (mf_options f) (mf_source f)"
    by (auto simp: follows_def)
  define g where "g = showMachineName (substr0 (mo_maxlength (mf_options f)) (server (mf_options f) (mr_text r))) f"
  have "mp_fields (response_arrives server x p) = [g]" "mp_requests (response_arrives server x p) = []" "mp_timeout (response_arrives server x p) = None"
    using \<open>mp_requests p = [r] \<and> mr_id r = x\<close> none f by (simp_all add: response_arrives_def upd_field_def g_def)
  moreover have "mf_bound g \<and> named server g" using f by (auto simp: g_def named_def final_name_def Let_def)
  ultimately show ?thesis by (simp add: follows_def)
qed (use assms in \<open>simp add: response_arrives_def\<close>)

lemma upd_field_all:
  assumes "list_all P (mp_fields p)" and "\<And>f. P f \<Longrightarrow> P (g f)"
  shows "list_all P (mp_fields (upd_field i g p))"
proof (cases "i < length (mp_fields p)")
  case True
  with assms have "P (g (mp_fields p ! i))" by (simp add: list_all_length)
  with assms(1) show ?thesis
    using set_update_subset_insert [of "mp_fields p" i] by (fastforce simp: upd_field_def list_all_iff)
qed (use assms(1) in \<open>simp add: upd_field_def list_update_beyond\<close>)

lemma abort_request_fields [simp]: "mp_fields (abort_request p) = mp_fields p"
  by (simp add: abort_request_def split: option.split)

lemma step_hidden:
  assumes "list_all mf_wrapper_hidden (mp_fields p)" and "\<forall>i. e \<noteq> Edit_clicked i"
  shows "list_all mf_wrapper_hidden (mp_fields (mn_step server e p))"
proof -
  have "mf_wrapper_hidden (showMachineName m f) = mf_wrapper_hidden f" for m f by (simp add: showMachineName_def)
  with assms show ?thesis
    by (cases e) (auto simp: Let_def machineNameHandler_def timeout_fires_def transliterate_def response_arrives_def
        split: option.split prod.split intro!: upd_field_all)
qed

lemma run_follows:
  assumes "list_all (\<lambda>e. case e of Edit_clicked i \<Rightarrow> False | _ \<Rightarrow> True) es" and "follows server p" and "list_all mf_wrapper_hidden (mp_fields p)"
  shows "follows server (mn_run server es p)"
  using assms
proof (induction es arbitrary: p)
  case (Cons e es)
  have e: "\<forall>i. e \<noteq> Edit_clicked i" using Cons.prems(1) by auto
  have "follows server (mn_step server e p)"
  proof (cases e)
    case (Target_changed i v)
    then show ?thesis using Cons.prems(2,3) by (auto simp: list_all_length)
  qed (use Cons.prems(2) e changed_source_follows timeout_follows response_follows in \<open>simp_all del: mn_step.simps(1)\<close>)
  moreover have "list_all mf_wrapper_hidden (mp_fields (mn_step server e p))" by (rule step_hidden [OF Cons.prems(3) e])
  ultimately have "follows server (mn_step server e p) \<and> list_all mf_wrapper_hidden (mp_fields (mn_step server e p))" ..
  with Cons.IH [of "mn_step server e p"] Cons.prems(1) show ?case by (simp add: mn_run_def)
qed (simp add: mn_run_def)

lemma attach_follows:
  assumes "ms_complete s" "\<not> ms_error s" "\<not> ms_disabled s" "ms_source s = []" "ms_target s = []"
  shows "follows server (machineName_attach [s]) \<and> list_all mf_wrapper_hidden (mp_fields (machineName_attach [s]))"
  using assms
  by (auto simp: machineName_attach_def Let_def attach_field_def new_field_def follows_def machineNameHandler_def upd_field_def
      abort_request_def named_def final_name_def showMachineName_def)

section \<open>Several fields\<close>

definition no_pending :: "nat \<Rightarrow> mn_page \<Rightarrow> bool" where
  "no_pending i p \<longleftrightarrow> (\<forall>r \<in> set (mp_requests p). mr_field r \<noteq> i) \<and> (\<forall>v. mp_timeout p \<noteq> Some (i, v))"

fun elsewhere :: "nat \<Rightarrow> mn_event \<Rightarrow> bool" where
  "elsewhere i (Source_changed j v) = (j \<noteq> i)"
| "elsewhere i (Target_changed j v) = (j \<noteq> i)"
| "elsewhere i _ = True"

lemma upd_field_other [simp]: "j \<noteq> i \<Longrightarrow> mp_fields (upd_field j g p) ! i = mp_fields p ! i"
  by (simp add: upd_field_def)

lemma upd_field_keeps [simp]:
  "mp_requests (upd_field j g p) = mp_requests p" "mp_timeout (upd_field j g p) = mp_timeout p" "mp_xhr (upd_field j g p) = mp_xhr p"
  by (simp_all add: upd_field_def)

lemma abort_request_sub: "set (mp_requests (abort_request p)) \<subseteq> set (mp_requests p)"
  by (auto simp: abort_request_def split: option.split)

lemma handler_elsewhere:
  assumes "j \<noteq> i" and "\<forall>r \<in> set (mp_requests p). mr_field r \<noteq> i"
  shows "no_pending i (machineNameHandler j p) \<and> mp_fields (machineNameHandler j p) ! i = mp_fields p ! i"
  using assms abort_request_sub [of p] by (auto simp: machineNameHandler_def Let_def no_pending_def)

lemma step_elsewhere:
  assumes "elsewhere i e" and "no_pending i p"
  shows "no_pending i (mn_step server e p) \<and> mf_target (mp_fields (mn_step server e p) ! i) = mf_target (mp_fields p ! i)"
proof (cases e)
  case (Source_changed j v)
  then show ?thesis
    using assms handler_elsewhere [of j i "upd_field j (\<lambda>f. f\<lparr>mf_source := v\<rparr>) p"]
    by (auto simp: Let_def) (auto simp: no_pending_def)
next
  case Timeout
  with assms(2) show ?thesis by (auto simp: timeout_fires_def transliterate_def no_pending_def split: option.splits prod.splits)
next
  case (Response x)
  show ?thesis
  proof (cases "find (\<lambda>r. mr_id r = x) (mp_requests p)")
    case (Some r)
    then have "mr_field r \<noteq> i" using find_Some_member [OF Some] assms(2) by (auto simp: no_pending_def)
    with assms(2) Response Some show ?thesis by (auto simp: response_arrives_def no_pending_def)
  qed (use assms(2) Response in \<open>simp add: response_arrives_def\<close>)
next
  case (Edit_clicked j)
  have "mf_target (mp_fields (clickEditHandler j p) ! i) = mf_target (mp_fields p ! i)"
    by (cases "j < length (mp_fields p)") (auto simp: clickEditHandler_def upd_field_def nth_list_update list_update_beyond)
  with assms(2) Edit_clicked show ?thesis by (simp add: no_pending_def clickEditHandler_def)
next
  case (Target_changed j v)
  with assms show ?thesis by (auto simp: no_pending_def)
qed

lemma run_elsewhere:
  "list_all (elsewhere i) es \<Longrightarrow> no_pending i p \<Longrightarrow> mf_target (mp_fields (mn_run server es p) ! i) = mf_target (mp_fields p ! i)"
proof (induction es arbitrary: p)
  case (Cons e es)
  with step_elsewhere [of i e p server] Cons.IH [of "mn_step server e p"] show ?case by (simp add: mn_run_def)
qed (simp add: mn_run_def)

section \<open>Properties\<close>

definition sample_settings :: mn_settings where
  "sample_settings =
     \<lparr>ms_options = \<lparr>mo_clean = replace_char CHR '' '' ''_'', mo_replace = ''_'', mo_maxlength = Some 64, mo_field_prefix = [], mo_field_suffix = []\<rparr>,
      ms_complete = True, ms_error = False, ms_disabled = False, ms_source = [], ms_target = []\<rparr>"

text \<open>
  On a page with one empty field, when no timer and no request is waiting, the machine name is the one of the current
  name: the cleaned name if cleaning changes no more than upper case, else the answer of the server, cut to the maximal
  length; only a name that would be the replacement character alone is not shown.
\<close>

theorem machine_name_follows_source:
  assumes "ms_complete s" "\<not> ms_error s" "\<not> ms_disabled s" "ms_source s = []" "ms_target s = []"
    and "list_all (\<lambda>e. case e of Edit_clicked i \<Rightarrow> False | _ \<Rightarrow> True) es"
    and "p = mn_run server es (machineName_attach [s])" and "mp_timeout p = None" and "mp_requests p = []"
  shows "\<exists>f. mp_fields p = [f] \<and> named server f"
  using run_follows [OF assms(6)] attach_follows [OF assms(1-5)] assms(7-9) by (fastforce simp: follows_def)

theorem machine_name_follows_source_witness:
  "\<exists>f. mp_fields (mn_run (\<lambda>_ _. ''x'') [Source_changed 0 ''a b'', Timeout, Response 0] (machineName_attach [sample_settings])) = [f] \<and>
     named (\<lambda>_ _. ''x'') f"
  by (rule machine_name_follows_source [where s = sample_settings and es = "[Source_changed 0 ''a b'', Timeout, Response 0]"])
    (simp_all add: sample_settings_def mn_run_def machineName_attach_def attach_field_def new_field_def Let_def machineNameHandler_def upd_field_def
      abort_request_def expected_name_def substr0_def replace_char_def toLowerCase_def lower_char_def showMachineName_def timeout_fires_def
      transliterate_def response_arrives_def)

text \<open>
  C33. On a page with one field that starts with an empty name and an empty machine name and is not edited by hand:
  after any changes of the name, timers and responses, the timer and one response suffice until the machine name is the
  one of the current name and nothing is pending.
\<close>

theorem machine_name_settles:
  assumes "ms_complete s" "\<not> ms_error s" "\<not> ms_disabled s" "ms_source s = []" "ms_target s = []"
    and "list_all (\<lambda>e. case e of Edit_clicked i \<Rightarrow> False | _ \<Rightarrow> True) es"
    and "p = mn_run server es (machineName_attach [s])"
  shows "\<exists>x f. mp_fields (mn_run server [Timeout, Response x] p) = [f] \<and> named server f \<and>
    mp_timeout (mn_run server [Timeout, Response x] p) = None \<and> mp_requests (mn_run server [Timeout, Response x] p) = []"
proof -
  have p: "follows server p" using run_follows [OF assms(6)] attach_follows [OF assms(1-5)] assms(7) by blast
  define q where "q = timeout_fires p"
  have q: "follows server q" "mp_timeout q = None"
    using timeout_follows [OF p] by (auto simp: q_def timeout_fires_def transliterate_def split: option.split prod.split)
  obtain x where x: "mp_requests (response_arrives server x q) = [] \<and> mp_timeout (response_arrives server x q) = None"
  proof (cases "mp_requests q")
    case Nil
    with q that [of 0] show ?thesis by (simp add: response_arrives_def)
  next
    case (Cons r rs)
    with q that [of "mr_id r"] show ?thesis by (auto simp: response_arrives_def follows_def upd_field_def)
  qed
  with response_follows [OF q(1), of x] show ?thesis by (fastforce simp: mn_run_def q_def follows_def)
qed

theorem machine_name_settles_witness:
  "\<exists>x f. mp_fields (mn_run (\<lambda>_ _. ''x'') [Timeout, Response x] (mn_run (\<lambda>_ _. ''x'') [Source_changed 0 ''a b''] (machineName_attach [sample_settings]))) = [f] \<and>
    named (\<lambda>_ _. ''x'') f \<and>
    mp_timeout (mn_run (\<lambda>_ _. ''x'') [Timeout, Response x] (mn_run (\<lambda>_ _. ''x'') [Source_changed 0 ''a b''] (machineName_attach [sample_settings]))) = None \<and>
    mp_requests (mn_run (\<lambda>_ _. ''x'') [Timeout, Response x] (mn_run (\<lambda>_ _. ''x'') [Source_changed 0 ''a b''] (machineName_attach [sample_settings]))) = []"
  by (rule machine_name_settles [where s = sample_settings and es = "[Source_changed 0 ''a b'']"])
    (simp_all add: sample_settings_def)

text \<open>
  The timer is shared: a change of another field before it fires discards the machine name of the first one for good.
  Whatever happens later, unless that field is changed again, its machine name stays as it was.
\<close>

theorem other_field_discards_name:
  assumes "mp_timeout p = Some (i, v)" and "\<forall>r \<in> set (mp_requests p). mr_field r \<noteq> i"
    and "j \<noteq> i" and "j < length (mp_fields p)" and "mf_bound (mp_fields p ! j)" and "list_all (elsewhere i) es"
  shows "mf_target (mp_fields (mn_run server (Source_changed j w # es) p) ! i) = mf_target (mp_fields p ! i)"
proof -
  let ?p = "upd_field j (\<lambda>f. f\<lparr>mf_source := w\<rparr>) p"
  have step: "mn_step server (Source_changed j w) p = machineNameHandler j ?p" using assms(4,5) by (simp add: Let_def)
  have h: "no_pending i (machineNameHandler j ?p) \<and> mp_fields (machineNameHandler j ?p) ! i = mp_fields p ! i"
    using handler_elsewhere [of j i ?p] assms(2,3) by simp
  then show ?thesis using run_elsewhere [OF assms(6), of "machineNameHandler j ?p" server] step by (simp add: mn_run_def)
qed

theorem other_field_discards_name_witness:
  "mf_target (mp_fields (mn_run (\<lambda>_ _. ''x'') [Source_changed 1 ''b'', Timeout, Response 0]
      (mn_run (\<lambda>_ _. ''x'') [Source_changed 0 ''a b''] (machineName_attach [sample_settings, sample_settings]))) ! 0) =
    mf_target (mp_fields (mn_run (\<lambda>_ _. ''x'') [Source_changed 0 ''a b''] (machineName_attach [sample_settings, sample_settings])) ! 0)"
  by (rule other_field_discards_name [where v = "''a b''"])
    (simp_all add: sample_settings_def mn_run_def machineName_attach_def attach_field_def new_field_def Let_def machineNameHandler_def upd_field_def
      abort_request_def expected_name_def substr0_def replace_char_def toLowerCase_def lower_char_def showMachineName_def)

end
