(* ===== verification/Autocomplete.thy ===== *)
theory Autocomplete
  imports Js_Object
begin

text \<open>
  Autocompletion of text fields with several terms (\<open>core/misc/autocomplete.es6.js\<close>): splitting a value at commas
  outside quotes, the decision whether to search, the cache of suggestions, and replacing the last term by the chosen
  one. A suggestion of the server is a string, or an object, which never equals a string. The cache holds the arrays of
  the server themselves, so removing suggestions from an array changes the cache.
\<close>

section \<open>Splitting\<close>

definition ac_space :: "char \<Rightarrow> bool" where
  "ac_space c \<longleftrightarrow> (of_char c :: nat) \<in> {9, 10, 11, 12, 13, 32, 160}"

definition ac_trim :: "string \<Rightarrow> string" where
  "ac_trim s = rev (dropWhile ac_space (rev (dropWhile ac_space s)))"

text \<open>The loop, with the terms found so far, the flag and the current term.\<close>

fun split_loop :: "string list \<Rightarrow> bool \<Rightarrow> string \<Rightarrow> string \<Rightarrow> string list \<times> string" where
  "split_loop found quoted current [] = (found, current)"
| "split_loop found quoted current (c # cs) =
     (if c = CHR 0x22 then split_loop found (\<not> quoted) (current @ [c]) cs
      else if c = CHR '','' \<and> \<not> quoted then split_loop (found @ [ac_trim current]) quoted [] cs
      else split_loop found quoted (current @ [c]) cs)"

definition autocompleteSplitValues :: "string \<Rightarrow> string list" where
  "autocompleteSplitValues v =
     (case split_loop [] False [] v of (found, current) \<Rightarrow> if v \<noteq> [] then found @ [ac_trim current] else found)"

text \<open>\<open>pop\<close> of an empty array is \<open>undefined\<close>.\<close>

definition extractLastTerm :: "string \<Rightarrow> string option" where
  "extractLastTerm terms = (case autocompleteSplitValues terms of [] \<Rightarrow> None | ts \<Rightarrow> Some (last ts))"

section \<open>Searching\<close>

record ac_options =
  ao_minLength :: nat
  ao_firstCharacterBlacklist :: string
  ao_isComposing :: bool

text \<open>\<open>term.length\<close> throws when there is no last term.\<close>

definition searchHandler :: "ac_options \<Rightarrow> string \<Rightarrow> bool js" where
  "searchHandler opts v =
     (if ao_isComposing opts then Inr False
      else case extractLastTerm v of
        None \<Rightarrow> Inl TypeError
      | Some trm \<Rightarrow>
          Inr (if trm \<noteq> [] \<and> hd trm \<in> set (ao_firstCharacterBlacklist opts) then False else ao_minLength opts \<le> length trm))"

datatype suggestion = Text string | Labelled string string

definition remove_first :: "'a \<Rightarrow> 'a list \<Rightarrow> 'a list" where
  "remove_first x xs = takeWhile (\<lambda>y. y \<noteq> x) xs @ drop 1 (dropWhile (\<lambda>y. y \<noteq> x) xs)"

text \<open>What is shown, which is also what is left in the array.\<close>

definition showSuggestions :: "string \<Rightarrow> suggestion list \<Rightarrow> suggestion list" where
  "showSuggestions v suggestions = fold (\<lambda>t. remove_first (Text t)) (autocompleteSplitValues v) suggestions"

type_synonym ac_cache = "suggestion list jsobj jsobj"

record autocomplete =
  ac_cache :: ac_cache
  ac_requests :: "(string \<times> string \<times> string) list"
  ac_shown :: "suggestion list option"

definition cache_put :: "string \<Rightarrow> string \<Rightarrow> suggestion list \<Rightarrow> ac_cache \<Rightarrow> ac_cache" where
  "cache_put el trm data c = js_put el (js_put trm data (case js_get c el of None \<Rightarrow> [] | Some ts \<Rightarrow> ts)) c"

definition cache_get :: "string \<Rightarrow> string \<Rightarrow> ac_cache \<Rightarrow> suggestion list option" where
  "cache_get el trm c = (case js_get c el of None \<Rightarrow> None | Some ts \<Rightarrow> js_get ts trm)"

text \<open>Requests carry the element, the term and the value of the field; an empty value has the term \<open>undefined\<close>.\<close>

definition last_term :: "string \<Rightarrow> string" where
  "last_term v = (case extractLastTerm v of None \<Rightarrow> ''undefined'' | Some trm \<Rightarrow> trm)"

definition sourceData :: "string \<Rightarrow> string \<Rightarrow> autocomplete \<Rightarrow> autocomplete" where
  "sourceData el v a =
     (let c = (if js_has (ac_cache a) el then ac_cache a else js_put el [] (ac_cache a));
          trm = last_term v
      in case cache_get el trm c of
           Some data \<Rightarrow>
             (let shown = showSuggestions v data in a\<lparr>ac_cache := cache_put el trm shown c, ac_shown := Some shown\<rparr>)
         | None \<Rightarrow> a\<lparr>ac_cache := c, ac_requests := ac_requests a @ [(el, trm, v)]\<rparr>)"

definition sourceCallbackHandler :: "string \<times> string \<times> string \<Rightarrow> suggestion list \<Rightarrow> autocomplete \<Rightarrow> autocomplete" where
  "sourceCallbackHandler req data a =
     (case req of (el, trm, v) \<Rightarrow>
        (let shown = showSuggestions v data
         in a\<lparr>ac_cache := cache_put el trm shown (ac_cache a), ac_requests := remove_first req (ac_requests a), ac_shown := Some shown\<rparr>))"

section \<open>Selecting\<close>

definition selectHandler :: "string \<Rightarrow> string \<Rightarrow> string" where
  "selectHandler v item = js_join '', '' (butlast (autocompleteSplitValues v) @ [item])"

section \<open>Terms that survive\<close>

text \<open>Commas are inside quotes and the quotes are closed.\<close>

fun closed_term :: "bool \<Rightarrow> string \<Rightarrow> bool" where
  "closed_term quoted [] = (\<not> quoted)"
| "closed_term quoted (c # cs) =
     (if c = CHR 0x22 then closed_term (\<not> quoted) cs else (c = CHR '','' \<longrightarrow> quoted) \<and> closed_term quoted cs)"

definition good_term :: "string \<Rightarrow> bool" where
  "good_term s \<longleftrightarrow> closed_term False s \<and> ac_trim s = s"

lemma split_loop_term:
  "closed_term quoted s \<Longrightarrow> split_loop found quoted current (s @ rest) = split_loop found False (current @ s) rest"
  by (induction s arbitrary: quoted current) (auto split: if_splits)

lemma split_loop_found: "split_loop (xs @ found) quoted current v = (case split_loop found quoted current v of (ys, l) \<Rightarrow> (xs @ ys, l))"
proof (induction found quoted current v rule: split_loop.induct)
  case (2 found quoted current c cs)
  then show ?case by (auto split: prod.splits)
qed simp

lemma trim_space: "ac_space c \<Longrightarrow> ac_trim (c # s) = ac_trim s"
  by (simp add: ac_trim_def)

lemma space_is_space: "ac_space CHR '' ''"
  by (simp add: ac_space_def)

text \<open>Reading terms joined with a comma and a space, after a space of the first one.\<close>

lemma split_joined:
  assumes "list_all good_term ts" and "ts \<noteq> []" and "pre = [] \<or> pre = '' ''"
  shows "\<exists>l. split_loop found False pre (js_join '', '' ts) = (found @ butlast ts, l) \<and> ac_trim l = last ts"
  using assms
proof (induction ts arbitrary: found pre)
  case (Cons s ts)
  have s: "closed_term False s" "ac_trim (pre @ s) = s"
    using Cons.prems trim_space [OF space_is_space, of s] by (auto simp: good_term_def)
  show ?case
  proof (cases ts)
    case Nil
    then show ?thesis using split_loop_term [OF s(1), of found pre "[]"] s(2) by simp
  next
    case (Cons s' ts')
    have "split_loop found False pre (js_join '', '' (s # ts)) = split_loop found False (pre @ s) ('', '' @ js_join '', '' ts)"
      using Cons by (simp add: js_join_Cons split_loop_term [OF s(1)])
    also have "\<dots> = split_loop (found @ [s]) False '' '' (js_join '', '' ts)" using s(2) by simp
    finally show ?thesis
      using Cons.IH [of "'' ''" "found @ [s]"] Cons.prems Cons by simp
  qed
qed simp

lemma split_join:
  assumes "list_all good_term ts" and "js_join '', '' ts \<noteq> []"
  shows "autocompleteSplitValues (js_join '', '' ts) = ts"
proof -
  have "ts \<noteq> []" using assms(2) by auto
  with split_joined [OF assms(1) this, of "[]" "[]"] assms(2) show ?thesis by (auto simp: autocompleteSplitValues_def)
qed

section \<open>The terms of a value are good\<close>

fun scan :: "bool \<Rightarrow> string \<Rightarrow> bool option" where
  "scan quoted [] = Some quoted"
| "scan quoted (c # cs) =
     (if c = CHR 0x22 then scan (\<not> quoted) cs else if c = CHR '','' \<and> \<not> quoted then None else scan quoted cs)"

lemma closed_scan: "closed_term quoted s \<longleftrightarrow> scan quoted s = Some False"
  by (induction s arbitrary: quoted) auto

lemma scan_append: "scan quoted (s @ s') = (case scan quoted s of None \<Rightarrow> None | Some q \<Rightarrow> scan q s')"
  by (induction s arbitrary: quoted) auto

lemma scan_spaces: "list_all ac_space s \<Longrightarrow> scan quoted s = Some quoted"
  by (induction s) (auto simp: ac_space_def)

lemma spaces_around: "\<exists>a b. s = a @ ac_trim s @ b \<and> list_all ac_space a \<and> list_all ac_space b"
proof -
  let ?u = "dropWhile ac_space s"
  have "s = takeWhile ac_space s @ ?u" by simp
  moreover have "?u = ac_trim s @ rev (takeWhile ac_space (rev ?u))"
    unfolding ac_trim_def by (metis rev_append rev_rev_ident takeWhile_dropWhile_id)
  moreover have "list_all ac_space (takeWhile ac_space s)" "list_all ac_space (rev (takeWhile ac_space (rev ?u)))"
    by (auto simp: list_all_iff dest: set_takeWhileD)
  ultimately show ?thesis by metis
qed

lemma closed_trim: "closed_term False s \<Longrightarrow> closed_term False (ac_trim s)"
proof -
  obtain a b where ab: "s = a @ ac_trim s @ b" "list_all ac_space a" "list_all ac_space b" using spaces_around by blast
  assume "closed_term False s"
  then have "scan False (a @ ac_trim s @ b) = Some False" using ab(1) by (simp add: closed_scan)
  then have "scan False (ac_trim s @ b) = Some False" by (simp add: scan_append scan_spaces [OF ab(2)])
  then show ?thesis by (auto simp: scan_append scan_spaces [OF ab(3)] closed_scan split: option.splits)
qed

lemma trim_idem [simp]: "ac_trim (ac_trim s) = ac_trim s"
proof -
  let ?u = "dropWhile ac_space s"
  let ?w = "rev (dropWhile ac_space (rev ?u))"
  have "dropWhile ac_space ?w = ?w"
  proof (cases ?w)
    case (Cons c cs)
    have "?u = ?w @ rev (takeWhile ac_space (rev ?u))" by (metis rev_append rev_rev_ident takeWhile_dropWhile_id)
    then have "?u = c # (cs @ rev (takeWhile ac_space (rev ?u)))" by (metis Cons append_Cons)
    then have "hd ?u = c" "?u \<noteq> []" by (metis list.sel(1), metis list.discI)
    then have "\<not> ac_space c" using hd_dropWhile by metis
    with Cons show ?thesis by simp
  next
    case Nil
    then show ?thesis by (simp only: dropWhile.simps)
  qed
  then show ?thesis by (simp add: ac_trim_def)
qed

lemma split_loop_good:
  "list_all good_term found \<Longrightarrow> scan False current = Some quoted \<Longrightarrow> list_all good_term (fst (split_loop found quoted current v))"
proof (induction found quoted current v rule: split_loop.induct)
  case (2 found quoted current c cs)
  have "scan False current = Some quoted \<Longrightarrow> \<not> quoted \<Longrightarrow> good_term (ac_trim current)"
    using closed_trim [of current] by (simp add: good_term_def closed_scan)
  with 2 show ?case by (auto simp: scan_append)
qed simp

lemma split_values_good: "list_all good_term (butlast (autocompleteSplitValues v))"
  using split_loop_good [of "[]" "[]" False v]
  by (auto simp: autocompleteSplitValues_def list_all_iff split: prod.split dest: in_set_butlastD)

section \<open>Removing suggestions\<close>

lemma remove_first_simps [simp]:
  "remove_first x [] = []" "remove_first x (y # ys) = (if y = x then ys else y # remove_first x ys)"
  by (simp_all add: remove_first_def)

lemma remove_first_filter: "distinct xs \<Longrightarrow> remove_first x xs = filter (\<lambda>y. y \<noteq> x) xs"
proof (induction xs)
  case (Cons y ys)
  have "filter (\<lambda>y. y \<noteq> x) ys = ys" if "x \<notin> set ys" using that by (intro filter_True) auto
  with Cons show ?case by auto
qed simp

lemma shown_filter:
  "distinct data \<Longrightarrow> fold (\<lambda>t. remove_first (Text t)) ts data = filter (\<lambda>x. x \<notin> Text ` set ts) data"
proof (induction ts arbitrary: data)
  case (Cons t ts)
  then show ?case by (auto simp: remove_first_filter intro!: filter_cong)
qed simp

lemma cache_get_put: "cache_get el trm (cache_put el trm data c) = Some data"
  by (simp add: cache_get_def cache_put_def)

section \<open>Properties\<close>

text \<open>
  C35. Choosing a suggestion replaces the last term and no other: read again, the new value has the other terms of the old
  value, whatever that was, and the suggestion, as long as quotes protect the commas of the latter.
\<close>

theorem selecting_replaces_last_term:
  assumes "good_term item" and "item \<noteq> []"
  shows "autocompleteSplitValues (selectHandler v item) = butlast (autocompleteSplitValues v) @ [item]"
proof -
  have "list_all good_term (butlast (autocompleteSplitValues v) @ [item])" using split_values_good [of v] assms(1) by simp
  moreover have "js_join '', '' (butlast (autocompleteSplitValues v) @ [item]) \<noteq> []"
    using assms(2) by (cases "butlast (autocompleteSplitValues v)") (auto simp: js_join_Cons)
  ultimately show ?thesis unfolding selectHandler_def by (rule split_join)
qed

theorem selecting_replaces_last_term_witness:
  "autocompleteSplitValues (selectHandler ''red, gr'' ''green'') = butlast (autocompleteSplitValues ''red, gr'') @ [''green'']"
  by (rule selecting_replaces_last_term) (simp_all add: good_term_def ac_trim_def ac_space_def)

text \<open>
  The suggestions shown are those of the server without the terms already in the field, but the same array is in the
  cache: a term removed once is never suggested again for the same last term, even when it is no longer in the field.
\<close>

theorem removed_suggestion_stays_away:
  assumes "cache_get el trm (ac_cache a) = Some data" and "distinct data" and "last_term v = trm" and "last_term v' = trm"
    and "t \<in> set (autocompleteSplitValues v)"
  shows "\<exists>shown. ac_shown (sourceData el v a) = Some (filter (\<lambda>x. x \<notin> Text ` set (autocompleteSplitValues v)) data) \<and>
    ac_shown (sourceData el v' (sourceData el v a)) = Some shown \<and> Text t \<notin> set shown"
proof -
  have has: "js_has (ac_cache a) el" using assms(1) by (auto simp: cache_get_def js_has_get split: option.splits)
  let ?shown = "showSuggestions v data"
  have shown: "?shown = filter (\<lambda>x. x \<notin> Text ` set (autocompleteSplitValues v)) data"
    by (simp add: showSuggestions_def shown_filter [OF assms(2)])
  have one: "sourceData el v a = a\<lparr>ac_cache := cache_put el trm ?shown (ac_cache a), ac_shown := Some ?shown\<rparr>"
    using has assms(1,3) by (simp add: sourceData_def Let_def)
  have "js_has (cache_put el trm ?shown (ac_cache a)) el" by (simp add: cache_put_def)
  then have "ac_shown (sourceData el v' (a\<lparr>ac_cache := cache_put el trm ?shown (ac_cache a), ac_shown := Some ?shown\<rparr>)) =
      Some (showSuggestions v' ?shown)"
    using assms(4) by (simp add: sourceData_def Let_def cache_get_put)
  then have two: "ac_shown (sourceData el v' (sourceData el v a)) = Some (showSuggestions v' ?shown)" by (simp only: one)
  have "distinct ?shown" using assms(2) shown by simp
  then have "set (showSuggestions v' ?shown) \<subseteq> set ?shown" by (auto simp: showSuggestions_def shown_filter)
  then have "Text t \<notin> set (showSuggestions v' ?shown)" using assms(5) by (auto simp: shown)
  moreover have "ac_shown (sourceData el v a) = Some ?shown" unfolding one by simp
  ultimately show ?thesis using two shown by auto
qed

theorem removed_suggestion_stays_away_witness:
  "\<exists>shown. ac_shown (sourceData ''e'' ''red, r'' \<lparr>ac_cache = [(''e'', [(''r'', [Text ''red'', Text ''rose''])])], ac_requests = [], ac_shown = None\<rparr>) =
      Some (filter (\<lambda>x. x \<notin> Text ` set (autocompleteSplitValues ''red, r'')) [Text ''red'', Text ''rose'']) \<and>
    ac_shown (sourceData ''e'' ''r'' (sourceData ''e'' ''red, r''
      \<lparr>ac_cache = [(''e'', [(''r'', [Text ''red'', Text ''rose''])])], ac_requests = [], ac_shown = None\<rparr>)) = Some shown \<and>
    Text ''red'' \<notin> set shown"
  by (rule removed_suggestion_stays_away [where trm = "''r''"])
    (simp_all add: cache_get_def last_term_def extractLastTerm_def autocompleteSplitValues_def ac_trim_def ac_space_def)

end
