(* ===== verification/Password_Strength.thy ===== *)
theory Password_Strength
  imports Autocomplete Filter_Html
begin

text \<open>
  The password fields of the user form (\<open>core/modules/user/user.es6.js\<close>): the strength of a password with the tips to
  improve it, and what the widget shows after every input. The strength is counted in half points, as penalties of 12.5
  points occur. The texts of the settings are the constructors of \<open>password_tip\<close> and \<open>strength_class\<close>.
\<close>

section \<open>Strength\<close>

datatype password_tip = Too_short | Add_lower_case | Add_upper_case | Add_numbers | Add_punctuation | Same_as_username

datatype strength_class = Weak | Fair | Good | Strong

record password_result =
  pr_strength2 :: int
  pr_indicator :: "strength_class option"
  pr_tips :: "password_tip list"

definition char_between :: "char \<Rightarrow> char \<Rightarrow> char \<Rightarrow> bool" where
  "char_between a z c \<longleftrightarrow> (of_char a :: nat) \<le> of_char c \<and> (of_char c :: nat) \<le> of_char z"

definition is_lower :: "char \<Rightarrow> bool" where "is_lower = char_between CHR ''a'' CHR ''z''"
definition is_upper :: "char \<Rightarrow> bool" where "is_upper = char_between CHR ''A'' CHR ''Z''"
definition is_number :: "char \<Rightarrow> bool" where "is_number = char_between CHR ''0'' CHR ''9''"

definition length_penalty2 :: "string \<Rightarrow> int" where
  "length_penalty2 p = (if length p < 12 then 2 * ((12 - int (length p)) * 5 + 30) else 0)"

definition missing_tips :: "string \<Rightarrow> password_tip list" where
  "missing_tips p =
     (if list_ex is_lower p then [] else [Add_lower_case]) @ (if list_ex is_upper p then [] else [Add_upper_case]) @
     (if list_ex is_number p then [] else [Add_numbers]) @
     (if list_ex (\<lambda>c. \<not> (is_lower c \<or> is_upper c \<or> is_number c)) p then [] else [Add_punctuation])"

definition weakness_penalty2 :: "nat \<Rightarrow> int" where
  "weakness_penalty2 n = (if n = 1 then 25 else if n = 2 then 50 else if n = 3 \<or> n = 4 then 80 else 0)"

definition indicator_of :: "int \<Rightarrow> strength_class option" where
  "indicator_of s2 =
     (if s2 < 120 then Some Weak else if s2 < 140 then Some Fair else if s2 < 160 then Some Good
      else if s2 \<le> 200 then Some Strong else None)"

definition evaluatePasswordStrength :: "string \<Rightarrow> string \<Rightarrow> password_result" where
  "evaluatePasswordStrength password0 username =
     (let password = ac_trim password0;
          short = (if length password < 12 then [Too_short] else []);
          missing = missing_tips password;
          strength = 200 - length_penalty2 password - weakness_penalty2 (length missing);
          same = (password \<noteq> [] \<and> toLowerCase password = toLowerCase username);
          strength1 = (if same then 10 else strength)
      in \<lparr>pr_strength2 = strength1, pr_indicator = indicator_of strength1,
          pr_tips = short @ missing @ (if same then [Same_as_username] else [])\<rparr>)"

section \<open>The widget\<close>

text \<open>The class of the status text: passwords match, do not match, or neither yet.\<close>

record password_widget =
  pw_tips :: "password_tip list"
  pw_tips_visible :: bool
  pw_width2 :: int
  pw_indicator :: "strength_class option"
  pw_match_class :: "bool option"
  pw_match_message :: "bool option"
  pw_confirm_visible :: bool

text \<open>
  The second test of the condition compares a negation, which is a boolean, with a string: it is never true, so only the
  class decides.
\<close>

definition passwordCheckMatch :: "string \<Rightarrow> string \<Rightarrow> password_widget \<Rightarrow> password_widget" where
  "passwordCheckMatch main confirm w =
     (let matching = (main = confirm)
      in if pw_match_class w \<noteq> Some matching then w\<lparr>pw_match_class := Some matching, pw_match_message := Some matching\<rparr> else w)"

definition passwordCheck :: "bool \<Rightarrow> string \<Rightarrow> string \<Rightarrow> string \<Rightarrow> password_widget \<Rightarrow> password_widget" where
  "passwordCheck showStrengthIndicator username main confirm w =
     (let result = evaluatePasswordStrength main username;
          w1 = (if showStrengthIndicator
                then (if pw_tips w \<noteq> pr_tips result
                      then w\<lparr>pw_tips := pr_tips result, pw_tips_visible := pr_strength2 result \<noteq> 200\<rparr> else w)
                     \<lparr>pw_width2 := pr_strength2 result, pw_indicator := pr_indicator result\<rparr>
                else w)
      in if confirm \<noteq> [] then (passwordCheckMatch main confirm w1)\<lparr>pw_confirm_visible := True\<rparr>
         else w1\<lparr>pw_confirm_visible := False\<rparr>)"

definition new_widget :: password_widget where
  "new_widget = \<lparr>pw_tips = [], pw_tips_visible = False, pw_width2 = 0, pw_indicator = None, pw_match_class = None,
     pw_match_message = None, pw_confirm_visible = False\<rparr>"

section \<open>Lemmas\<close>

lemma missing_tips_length: "length (missing_tips p) \<le> 4"
  by (simp add: missing_tips_def)

lemma weakness_penalty_bounds: "0 \<le> weakness_penalty2 n \<and> weakness_penalty2 n \<le> 80"
  by (simp add: weakness_penalty2_def)

lemma weakness_penalty_zero: "n \<le> 4 \<Longrightarrow> weakness_penalty2 n = 0 \<longleftrightarrow> n = 0"
  by (simp add: weakness_penalty2_def)

lemma length_penalty_bounds: "0 \<le> length_penalty2 p \<and> length_penalty2 p \<le> 180"
  by (simp add: length_penalty2_def)

lemma length_penalty_zero: "length_penalty2 p = 0 \<longleftrightarrow> 12 \<le> length p"
  by (simp add: length_penalty2_def)

lemma full_strength_no_tips: "pr_strength2 (evaluatePasswordStrength p u) = 200 \<longleftrightarrow> pr_tips (evaluatePasswordStrength p u) = []"
proof -
  have "200 - length_penalty2 q - weakness_penalty2 (length (missing_tips q)) = 200 \<longleftrightarrow> 12 \<le> length q \<and> missing_tips q = []" for q
    using weakness_penalty_bounds [of "length (missing_tips q)"] length_penalty_bounds [of q]
      weakness_penalty_zero [OF missing_tips_length [of q]] length_penalty_zero [of q] by auto
  then show ?thesis by (simp add: evaluatePasswordStrength_def Let_def)
qed

section \<open>Properties\<close>

text \<open>
  C36. The strength is at most 100 and has full points exactly when there is nothing to improve; but it can be as low as
  minus 30 points, for a password that is empty.
\<close>

theorem strength_bounds:
  "- 60 \<le> pr_strength2 (evaluatePasswordStrength p u) \<and> pr_strength2 (evaluatePasswordStrength p u) \<le> 200 \<and>
   (pr_strength2 (evaluatePasswordStrength p u) = 200 \<longleftrightarrow> pr_tips (evaluatePasswordStrength p u) = []) \<and>
   pr_strength2 (evaluatePasswordStrength [] u) = - 60"
proof -
  have "pr_strength2 (evaluatePasswordStrength [] u) = - 60"
    by (simp add: evaluatePasswordStrength_def Let_def ac_trim_def missing_tips_def weakness_penalty2_def length_penalty2_def)
  moreover have "- 60 \<le> pr_strength2 (evaluatePasswordStrength p u) \<and> pr_strength2 (evaluatePasswordStrength p u) \<le> 200"
    using weakness_penalty_bounds [of "length (missing_tips (ac_trim p))"] length_penalty_bounds [of "ac_trim p"]
    by (auto simp: evaluatePasswordStrength_def Let_def)
  ultimately show ?thesis using full_strength_no_tips by blast
qed

text \<open>
  After any inputs the widget shows tips exactly when the password can be improved, and for a confirmation that is
  filled in, the message says whether the two values are equal.
\<close>

theorem widget_agrees_with_input:
  assumes "inputs \<noteq> []" and "w = fold (\<lambda>(main, confirm). passwordCheck True u main confirm) inputs new_widget"
    and "last inputs = (main, confirm)"
  shows "pw_tips w = pr_tips (evaluatePasswordStrength main u) \<and> (pw_tips_visible w \<longleftrightarrow> pw_tips w \<noteq> []) \<and>
    pw_width2 w = pr_strength2 (evaluatePasswordStrength main u) \<and>
    (pw_confirm_visible w \<longleftrightarrow> confirm \<noteq> []) \<and> (confirm \<noteq> [] \<longrightarrow> pw_match_message w = Some (main = confirm))"
proof -
  define run where "run xs = fold (\<lambda>(main, confirm). passwordCheck True u main confirm) xs new_widget" for xs
  have "(pw_tips_visible (run xs) \<longleftrightarrow> pw_tips (run xs) \<noteq> []) \<and> pw_match_message (run xs) = pw_match_class (run xs)" for xs
  proof (induction xs rule: rev_induct)
    case (snoc x xs)
    obtain m c where x: "x = (m, c)" by (cases x)
    have "run (xs @ [x]) = passwordCheck True u m c (run xs)" by (simp add: run_def x)
    with snoc full_strength_no_tips [of m u] show ?case
      by (auto simp: passwordCheck_def passwordCheckMatch_def Let_def)
  qed (simp add: run_def new_widget_def)
  note inv = this
  obtain xs where xs: "inputs = xs @ [(main, confirm)]" using assms(1,3) by (metis append_butlast_last_id)
  then have w: "w = passwordCheck True u main confirm (run xs)" using assms(2) by (simp add: run_def)
  from inv [of xs] full_strength_no_tips [of main u] show ?thesis
    by (auto simp: w passwordCheck_def passwordCheckMatch_def Let_def)
qed

theorem widget_agrees_with_input_witness:
  "pw_tips (fold (\<lambda>(main, confirm). passwordCheck True [] main confirm) [(''a'', []), (''ab'', ''a'')] new_widget) =
     pr_tips (evaluatePasswordStrength ''ab'' []) \<and>
   (pw_tips_visible (fold (\<lambda>(main, confirm). passwordCheck True [] main confirm) [(''a'', []), (''ab'', ''a'')] new_widget) \<longleftrightarrow>
     pw_tips (fold (\<lambda>(main, confirm). passwordCheck True [] main confirm) [(''a'', []), (''ab'', ''a'')] new_widget) \<noteq> []) \<and>
   pw_match_message (fold (\<lambda>(main, confirm). passwordCheck True [] main confirm) [(''a'', []), (''ab'', ''a'')] new_widget) =
     Some (''ab'' = ''a'')"
  using widget_agrees_with_input [of "[(''a'', []), (''ab'', ''a'')]" _ "[]" "''ab''" "''a''", OF _ refl] by simp

end
