(* ===== verification/Table_Select.thy ===== *)
theory Table_Select
  imports Main
begin

text \<open>
  Tables with a checkbox that selects all rows (\<open>core/misc/tableselect.es6.js\<close>). The rows are listed in the order of
  the table; rows of the same section are siblings. Whether a checkbox is enabled does not change. The heading has one
  checkbox in the table and one in its sticky copy, if that exists.
\<close>

section \<open>State\<close>

record ts_box =
  tx_checked :: bool
  tx_enabled :: bool

record ts_row =
  tw_section :: nat
  tw_selected :: bool
  tw_boxes :: "ts_box list"

datatype ts_change = Box_changed nat nat | Head_changed nat

record ts_table =
  ts_rows :: "ts_row list"
  ts_heads :: "bool list"
  ts_title :: bool
  ts_lastChecked :: "(nat \<times> nat) option"
  ts_changes :: "ts_change list"

definition all_checked :: "ts_row list \<Rightarrow> bool" where
  "all_checked rows \<longleftrightarrow> list_all (\<lambda>row. list_all (\<lambda>b. tx_enabled b \<longrightarrow> tx_checked b) (tw_boxes row)) rows"

section \<open>Handlers\<close>

definition updateSelectAll :: "bool \<Rightarrow> ts_table \<Rightarrow> ts_table" where
  "updateSelectAll state s =
     s\<lparr>ts_title := state, ts_heads := map (\<lambda>h. state) (ts_heads s),
       ts_changes := ts_changes s @ map Head_changed (filter (\<lambda>k. ts_heads s ! k \<noteq> state) [0..<length (ts_heads s)])\<rparr>"

text \<open>The boxes of a row that selecting all changes, and the row afterwards.\<close>

definition changed_boxes :: "bool \<Rightarrow> nat \<Rightarrow> ts_row \<Rightarrow> ts_change list" where
  "changed_boxes state i row =
     map (Box_changed i) (filter (\<lambda>k. tx_enabled (tw_boxes row ! k) \<and> tx_checked (tw_boxes row ! k) \<noteq> state) [0..<length (tw_boxes row)])"

definition set_row :: "bool \<Rightarrow> ts_row \<Rightarrow> ts_row" where
  "set_row state row =
     row\<lparr>tw_boxes := map (\<lambda>b. if tx_enabled b then b\<lparr>tx_checked := state\<rparr> else b) (tw_boxes row),
         tw_selected := (if list_ex tx_enabled (tw_boxes row) then state else tw_selected row)\<rparr>"

text \<open>The browser has toggled the clicked checkbox of the heading before the handler runs.\<close>

definition head_clicked :: "nat \<Rightarrow> ts_table \<Rightarrow> ts_table" where
  "head_clicked k s =
     (let state = (\<not> ts_heads s ! k);
          s1 = s\<lparr>ts_heads := (ts_heads s)[k := state]\<rparr>
      in updateSelectAll state
           (s1\<lparr>ts_rows := map (set_row state) (ts_rows s1),
               ts_changes := ts_changes s1 @ concat (map (\<lambda>i. changed_boxes state i (ts_rows s1 ! i)) [0..<length (ts_rows s1)])\<rparr>))"

definition range_row :: "bool \<Rightarrow> ts_row \<Rightarrow> ts_row" where
  "range_row state row = row\<lparr>tw_selected := state, tw_boxes := map (\<lambda>b. b\<lparr>tx_checked := state\<rparr>) (tw_boxes row)\<rparr>"

text \<open>The rows the loop visits: siblings of \<open>from\<close> in one direction, up to \<open>to\<close> if it is met.\<close>

fun until_row :: "nat \<Rightarrow> nat list \<Rightarrow> nat list" where
  "until_row to_row [] = []"
| "until_row to_row (i # is) = (if i = to_row then [i] else i # until_row to_row is)"

definition range_rows :: "nat \<Rightarrow> nat \<Rightarrow> ts_row list \<Rightarrow> nat list" where
  "range_rows from_row to_row rows =
     (let siblings = filter (\<lambda>i. tw_section (rows ! i) = tw_section (rows ! from_row))
            (if to_row < from_row then rev [0..<from_row] else [Suc from_row..<length rows])
      in until_row to_row siblings)"

definition tableSelectRange :: "nat \<Rightarrow> nat \<Rightarrow> bool \<Rightarrow> ts_row list \<Rightarrow> ts_row list" where
  "tableSelectRange from_row to_row state rows =
     map (\<lambda>i. if i \<in> set (range_rows from_row to_row rows) then range_row state (rows ! i) else rows ! i) [0..<length rows]"

definition toggle_box :: "nat \<Rightarrow> ts_row \<Rightarrow> ts_row" where
  "toggle_box c row =
     (let state = (\<not> tx_checked (tw_boxes row ! c))
      in row\<lparr>tw_boxes := (tw_boxes row)[c := (tw_boxes row ! c)\<lparr>tx_checked := state\<rparr>], tw_selected := state\<rparr>)"

definition box_clicked :: "bool \<Rightarrow> nat \<Rightarrow> nat \<Rightarrow> ts_table \<Rightarrow> ts_table" where
  "box_clicked shift r c s =
     (let rows1 = (ts_rows s)[r := toggle_box c (ts_rows s ! r)];
          state = tx_checked (tw_boxes (rows1 ! r) ! c);
          rows2 = (case ts_lastChecked s of
                     None \<Rightarrow> rows1
                   | Some (r', c') \<Rightarrow> if shift \<and> (r', c') \<noteq> (r, c) then tableSelectRange r r' state rows1 else rows1)
      in (updateSelectAll (all_checked rows2) (s\<lparr>ts_rows := rows2\<rparr>))\<lparr>ts_lastChecked := Some (r, c)\<rparr>)"

text \<open>A table without checkboxes is left alone.\<close>

definition tableSelect :: "nat \<Rightarrow> ts_row list \<Rightarrow> ts_table option" where
  "tableSelect heads rows =
     (if list_all (\<lambda>row. tw_boxes row = []) rows then None
      else Some (updateSelectAll (all_checked rows)
        \<lparr>ts_rows = rows, ts_heads = replicate heads False, ts_title = False, ts_lastChecked = None, ts_changes = []\<rparr>))"

section \<open>Runs\<close>

datatype ts_event = Head_click nat | Box_click bool nat nat

definition box_enabled :: "nat \<Rightarrow> nat \<Rightarrow> ts_row list \<Rightarrow> bool" where
  "box_enabled r c rows \<longleftrightarrow> r < length rows \<and> c < length (tw_boxes (rows ! r)) \<and> tx_enabled (tw_boxes (rows ! r) ! c)"

fun ts_step :: "ts_event \<Rightarrow> ts_table \<Rightarrow> ts_table" where
  "ts_step (Head_click k) s = (if k < length (ts_heads s) then head_clicked k s else s)"
| "ts_step (Box_click shift r c) s = (if box_enabled r c (ts_rows s) then box_clicked shift r c s else s)"

definition ts_run :: "ts_event list \<Rightarrow> ts_table \<Rightarrow> ts_table" where
  "ts_run es s = fold ts_step es s"

section \<open>The heading agrees with the rows\<close>

definition some_enabled :: "ts_row list \<Rightarrow> bool" where
  "some_enabled rows \<longleftrightarrow> list_ex (\<lambda>row. list_ex tx_enabled (tw_boxes row)) rows"

definition heads_ok :: "ts_table \<Rightarrow> bool" where
  "heads_ok s \<longleftrightarrow> some_enabled (ts_rows s) \<and> list_all (\<lambda>h. h = all_checked (ts_rows s)) (ts_heads s)"

lemma updateSelectAll_simps [simp]:
  "ts_rows (updateSelectAll state s) = ts_rows s" "ts_heads (updateSelectAll state s) = map (\<lambda>h. state) (ts_heads s)"
  by (simp_all add: updateSelectAll_def)

lemma set_rows_checked: "some_enabled rows \<Longrightarrow> all_checked (map (set_row state) rows) = state"
proof (cases state)
  case False
  moreover assume "some_enabled rows"
  then obtain row b where "row \<in> set rows" "b \<in> set (tw_boxes row)" "tx_enabled b" by (auto simp: some_enabled_def list_ex_iff)
  moreover from this have "b\<lparr>tx_checked := False\<rparr> \<in> (\<lambda>b. if tx_enabled b then b\<lparr>tx_checked := False\<rparr> else b) ` set (tw_boxes row)"
    by (intro image_eqI [of _ _ b]) simp_all
  then have "b\<lparr>tx_checked := False\<rparr> \<in> set (tw_boxes (set_row False row))" by (simp add: set_row_def)
  ultimately have "\<not> list_all (\<lambda>b. tx_enabled b \<longrightarrow> tx_checked b) (tw_boxes (set_row False row))"
    by (auto simp: list_all_iff intro!: bexI [of _ "b\<lparr>tx_checked := False\<rparr>"])
  with \<open>row \<in> set rows\<close> False show ?thesis by (auto simp: all_checked_def list_all_iff)
qed (auto simp: all_checked_def set_row_def list_all_iff)

lemma set_rows_enabled: "some_enabled (map (set_row state) rows) = some_enabled rows"
proof -
  have "list_ex tx_enabled (map (\<lambda>b. if tx_enabled b then b\<lparr>tx_checked := state\<rparr> else b) bs) = list_ex tx_enabled bs" for bs
    by (induction bs) auto
  then show ?thesis by (induction rows) (auto simp: some_enabled_def set_row_def)
qed

text \<open>Which boxes are enabled.\<close>

definition enabled_of :: "ts_row list \<Rightarrow> bool list list" where
  "enabled_of rows = map (\<lambda>row. map tx_enabled (tw_boxes row)) rows"

lemma some_enabled_of: "enabled_of rows = enabled_of rows' \<Longrightarrow> some_enabled rows = some_enabled rows'"
proof -
  have "some_enabled rows \<longleftrightarrow> True \<in> set (concat (enabled_of rows))" for rows
    by (force simp: some_enabled_def enabled_of_def list_ex_iff)
  then show "enabled_of rows = enabled_of rows' \<Longrightarrow> ?thesis" by simp
qed

lemma range_row_enabled [simp]: "map tx_enabled (tw_boxes (range_row state row)) = map tx_enabled (tw_boxes row)"
  by (simp add: range_row_def comp_def)

lemma length_range [simp]: "length (tableSelectRange a b state rows) = length rows"
  by (simp add: tableSelectRange_def)

lemma nth_range: "i < length rows \<Longrightarrow>
    tableSelectRange a b state rows ! i = (if i \<in> set (range_rows a b rows) then range_row state (rows ! i) else rows ! i)"
  by (simp add: tableSelectRange_def)

lemma range_enabled: "enabled_of (tableSelectRange a b state rows) = enabled_of rows"
  by (rule nth_equalityI) (simp_all add: enabled_of_def nth_range)

lemma toggle_enabled: "r < length rows \<Longrightarrow> enabled_of (rows[r := toggle_box c (rows ! r)]) = enabled_of rows"
proof -
  assume r: "r < length rows"
  have "map tx_enabled (tw_boxes (toggle_box c row)) = map tx_enabled (tw_boxes row)" for row
    by (cases "c < length (tw_boxes row)") (auto simp: toggle_box_def Let_def list_eq_iff_nth_eq nth_list_update list_update_beyond)
  then show ?thesis using r by (auto simp: enabled_of_def list_eq_iff_nth_eq nth_list_update)
qed

lemma box_clicked_rows:
  assumes "box_enabled r c (ts_rows s)"
  shows "enabled_of (ts_rows (box_clicked shift r c s)) = enabled_of (ts_rows s) \<and>
    list_all (\<lambda>h. h = all_checked (ts_rows (box_clicked shift r c s))) (ts_heads (box_clicked shift r c s))"
  using assms toggle_enabled [of r "ts_rows s" c]
  by (auto simp: box_clicked_def Let_def range_enabled box_enabled_def list_all_iff split: option.split prod.split)

lemma step_heads: "heads_ok s \<Longrightarrow> heads_ok (ts_step e s)"
proof (cases e)
  case (Head_click k)
  moreover assume "heads_ok s"
  ultimately show ?thesis
    by (auto simp: heads_ok_def head_clicked_def Let_def set_rows_checked set_rows_enabled list_all_iff)
next
  case (Box_click shift r c)
  moreover assume "heads_ok s"
  ultimately show ?thesis
    using box_clicked_rows [of r c s shift] some_enabled_of [of "ts_rows (box_clicked shift r c s)" "ts_rows s"] by (simp add: heads_ok_def)
qed

section \<open>Ranges\<close>

lemma until_row_sorted: "sorted is \<Longrightarrow> distinct is \<Longrightarrow> to_row \<in> set is \<Longrightarrow> set (until_row to_row is) = {i \<in> set is. i \<le> to_row}"
  by (induction "is") force+

lemma until_row_rev: "sorted (rev is) \<Longrightarrow> distinct is \<Longrightarrow> to_row \<in> set is \<Longrightarrow> set (until_row to_row is) = {i \<in> set is. to_row \<le> i}"
  by (induction "is") (force simp: sorted_append)+

lemma until_row_absent: "to_row \<notin> set is \<Longrightarrow> until_row to_row is = is"
  by (induction "is") auto

lemma toggle_box_section [simp]: "tw_section (toggle_box c row) = tw_section row"
  by (simp add: toggle_box_def Let_def)

lemma range_rows_set:
  assumes "a < length rows" and "b < length rows" and "a \<noteq> b" and "tw_section (rows ! a) = tw_section (rows ! b)"
  shows "set (range_rows a b rows) =
    {i. i < length rows \<and> tw_section (rows ! i) = tw_section (rows ! a) \<and> i \<noteq> a \<and> min a b \<le> i \<and> i \<le> max a b}"
proof (cases "b < a")
  case True
  let ?is = "filter (\<lambda>i. tw_section (rows ! i) = tw_section (rows ! a)) (rev [0..<a])"
  have "sorted (rev ?is)" by (simp add: rev_filter sorted_wrt_filter)
  moreover have "distinct ?is" "b \<in> set ?is" using True assms(4) by simp_all
  ultimately have "set (until_row b ?is) = {i \<in> set ?is. b \<le> i}" by (rule until_row_rev)
  moreover have "range_rows a b rows = until_row b ?is" unfolding range_rows_def Let_def using True by (simp only: if_True)
  ultimately have "set (range_rows a b rows) = {i \<in> set ?is. b \<le> i}" by (simp only:)
  also have "\<dots> = {i. i < length rows \<and> tw_section (rows ! i) = tw_section (rows ! a) \<and> i \<noteq> a \<and> min a b \<le> i \<and> i \<le> max a b}"
    using True assms(1) by (intro Collect_cong) (simp add: min_def max_def, linarith)
  finally show ?thesis .
next
  case False
  let ?is = "filter (\<lambda>i. tw_section (rows ! i) = tw_section (rows ! a)) [Suc a..<length rows]"
  have "sorted ?is" by (simp add: sorted_wrt_filter)
  moreover have "distinct ?is" "b \<in> set ?is" using False assms(2-4) by simp_all
  ultimately have "set (until_row b ?is) = {i \<in> set ?is. i \<le> b}" by (rule until_row_sorted)
  moreover have "range_rows a b rows = until_row b ?is" unfolding range_rows_def Let_def using False by (simp only: if_False)
  ultimately have "set (range_rows a b rows) = {i \<in> set ?is. i \<le> b}" by (simp only:)
  also have "\<dots> = {i. i < length rows \<and> tw_section (rows ! i) = tw_section (rows ! a) \<and> i \<noteq> a \<and> min a b \<le> i \<and> i \<le> max a b}"
    using False assms(2,3) by (intro Collect_cong) (simp add: min_def max_def, linarith)
  finally show ?thesis .
qed

lemma same_row_range:
  assumes "a < length rows"
  shows "set (range_rows a a rows) = {i. i < length rows \<and> a < i \<and> tw_section (rows ! i) = tw_section (rows ! a)}"
proof -
  have "a \<notin> set (filter (\<lambda>i. tw_section (rows ! i) = tw_section (rows ! a)) [Suc a..<length rows])" by simp
  from until_row_absent [OF this] show ?thesis by (auto simp: range_rows_def Let_def)
qed

section \<open>Properties\<close>

definition sample_rows :: "ts_row list" where
  "sample_rows = map (\<lambda>k. \<lparr>tw_section = 0, tw_selected = False, tw_boxes = [\<lparr>tx_checked = False, tx_enabled = True\<rparr>, \<lparr>tx_checked = False, tx_enabled = True\<rparr>]\<rparr>) [0..<3]"

text \<open>
  C34. In a table with an enabled checkbox, from the start and after any clicks, with or without the shift key, the
  checkboxes of the heading are checked exactly when all enabled checkboxes of the rows are.
\<close>

theorem heading_agrees_with_rows:
  assumes "some_enabled rows" and "tableSelect heads rows = Some s0" and "s = ts_run es s0"
  shows "some_enabled (ts_rows s) \<and> list_all (\<lambda>h. h = all_checked (ts_rows s)) (ts_heads s)"
proof -
  have "heads_ok s0" using assms(1,2) by (auto simp: tableSelect_def heads_ok_def list_all_iff split: if_splits)
  then have "heads_ok (fold ts_step es s0)"
    by (induction es arbitrary: s0) (simp_all add: step_heads)
  then show ?thesis using assms(3) by (simp add: heads_ok_def ts_run_def)
qed

theorem heading_agrees_with_rows_witness:
  "\<exists>s0. tableSelect 2 sample_rows = Some s0 \<and> some_enabled (ts_rows (ts_run [Box_click False 0 0, Box_click True 2 0] s0)) \<and>
    list_all (\<lambda>h. h = all_checked (ts_rows (ts_run [Box_click False 0 0, Box_click True 2 0] s0))) (ts_heads (ts_run [Box_click False 0 0, Box_click True 2 0] s0))"
proof -
  obtain s0 where s0: "tableSelect 2 sample_rows = Some s0" by (simp add: tableSelect_def sample_rows_def upt_rec)
  have "some_enabled sample_rows" by (simp add: some_enabled_def sample_rows_def upt_rec)
  from heading_agrees_with_rows [OF this s0 refl] s0 show ?thesis by blast
qed

text \<open>
  A click with the shift key on an enabled checkbox gives all rows of the section between it and the row clicked
  before, which included, the new state, and leaves all other rows but its own alone.
\<close>

theorem shift_click_sets_range:
  assumes "box_enabled r c (ts_rows s)" and "ts_lastChecked s = Some (r', c')" and "r' < length (ts_rows s)" and "r' \<noteq> r"
    and "tw_section (ts_rows s ! r') = tw_section (ts_rows s ! r)" and "i < length (ts_rows s)" and "i \<noteq> r"
  shows "ts_rows (box_clicked True r c s) ! i =
    (if tw_section (ts_rows s ! i) = tw_section (ts_rows s ! r) \<and> min r r' \<le> i \<and> i \<le> max r r'
     then range_row (\<not> tx_checked (tw_boxes (ts_rows s ! r) ! c)) (ts_rows s ! i) else ts_rows s ! i)"
proof -
  let ?rows = "(ts_rows s)[r := toggle_box c (ts_rows s ! r)]"
  have r: "r < length (ts_rows s)" "c < length (tw_boxes (ts_rows s ! r))" using assms(1) by (simp_all add: box_enabled_def)
  have sec: "tw_section (?rows ! k) = tw_section (ts_rows s ! k)" for k
    using r(1) by (cases "k = r") (simp_all add: toggle_box_def Let_def)
  have state: "tx_checked (tw_boxes (?rows ! r) ! c) = (\<not> tx_checked (tw_boxes (ts_rows s ! r) ! c))"
    using r by (simp add: toggle_box_def Let_def)
  have "set (range_rows r r' ?rows) =
      {i. i < length ?rows \<and> tw_section (?rows ! i) = tw_section (?rows ! r) \<and> i \<noteq> r \<and> min r r' \<le> i \<and> i \<le> max r r'}"
    using r(1) assms(3-5) by (intro range_rows_set) (simp_all add: sec)
  then show ?thesis
    using assms(2,4,6,7) by (simp add: box_clicked_def Let_def nth_range sec state)
qed

theorem shift_click_sets_range_witness:
  "ts_rows (box_clicked True 2 0 (\<lparr>ts_rows = sample_rows, ts_heads = [False], ts_title = False, ts_lastChecked = Some (0, 0), ts_changes = []\<rparr>)) ! 1 =
    (if tw_section (sample_rows ! 1) = tw_section (sample_rows ! 2) \<and> min 2 0 \<le> (1::nat) \<and> (1::nat) \<le> max 2 0
     then range_row (\<not> tx_checked (tw_boxes (sample_rows ! 2) ! 0)) (sample_rows ! 1) else sample_rows ! 1)"
proof -
  let ?s = "\<lparr>ts_rows = sample_rows, ts_heads = [False], ts_title = False, ts_lastChecked = Some (0, 0), ts_changes = []\<rparr> :: ts_table"
  have "box_enabled 2 0 (ts_rows ?s)" by (simp add: box_enabled_def sample_rows_def upt_rec)
  moreover have "0 < length (ts_rows ?s)" "1 < length (ts_rows ?s)" by (simp_all add: sample_rows_def)
  moreover have "tw_section (ts_rows ?s ! 0) = tw_section (ts_rows ?s ! 2)" by (simp add: sample_rows_def upt_rec)
  ultimately show ?thesis using shift_click_sets_range [of 2 0 ?s 0 0 1] by simp
qed

text \<open>
  A click with the shift key on another checkbox of the same row selects or deselects all rows of the section below it.
\<close>

theorem shift_click_in_row_sets_rest:
  assumes "box_enabled r c (ts_rows s)" and "ts_lastChecked s = Some (r, c')" and "c' \<noteq> c"
    and "r < i" and "i < length (ts_rows s)" and "tw_section (ts_rows s ! i) = tw_section (ts_rows s ! r)"
  shows "ts_rows (box_clicked True r c s) ! i = range_row (\<not> tx_checked (tw_boxes (ts_rows s ! r) ! c)) (ts_rows s ! i)"
proof -
  let ?rows = "(ts_rows s)[r := toggle_box c (ts_rows s ! r)]"
  have r: "r < length (ts_rows s)" "c < length (tw_boxes (ts_rows s ! r))" using assms(1) by (simp_all add: box_enabled_def)
  have "i \<in> set (range_rows r r ?rows)"
    using same_row_range [of r ?rows] assms(4-6) r(1) by (simp add: toggle_box_def Let_def)
  then show ?thesis using assms(2-5) r by (simp add: box_clicked_def Let_def nth_range toggle_box_def)
qed

theorem shift_click_in_row_sets_rest_witness:
  "ts_rows (box_clicked True 0 1 (\<lparr>ts_rows = sample_rows, ts_heads = [False], ts_title = False, ts_lastChecked = Some (0, 0), ts_changes = []\<rparr>)) ! 2 =
    range_row (\<not> tx_checked (tw_boxes (sample_rows ! 0) ! 1)) (sample_rows ! 2)"
proof -
  let ?s = "\<lparr>ts_rows = sample_rows, ts_heads = [False], ts_title = False, ts_lastChecked = Some (0, 0), ts_changes = []\<rparr> :: ts_table"
  have "box_enabled 0 1 (ts_rows ?s)" by (simp add: box_enabled_def sample_rows_def upt_rec)
  moreover have "2 < length (ts_rows ?s)" by (simp add: sample_rows_def)
  moreover have "tw_section (ts_rows ?s ! 2) = tw_section (ts_rows ?s ! 0)" by (simp add: sample_rows_def upt_rec)
  ultimately show ?thesis using shift_click_in_row_sets_rest [of 0 1 ?s 0 2] by simp
qed

end
