(* ===== verification/Displace.thy ===== *)
theory Displace
  imports Js_Prelude
begin

text \<open>
  Elements that take space at the edges of the viewport (\<open>core/misc/displace.es6.js\<close>). An element marks an edge with an
  attribute \<open>data-offset-*\<close>, whose value is a displacement or, if it is not a number, stands for the place of the element
  on the page. Positions and sizes are whole pixels.
\<close>

section \<open>State\<close>

datatype edge = Edge_top | Edge_right | Edge_bottom | Edge_left

text \<open>An element: its inline style, its attributes, its offset from the document and its outer size.\<close>

record displacing =
  dp_hidden :: bool
  dp_attr :: "edge \<Rightarrow> string option"
  dp_top :: int
  dp_left :: int
  dp_width :: int
  dp_height :: int

record viewport =
  vp_scrollX :: int
  vp_scrollY :: int
  vp_clientWidth :: int
  vp_clientHeight :: int

record displace_offsets =
  do_top :: int
  do_right :: int
  do_bottom :: int
  do_left :: int

record displace_state =
  ds_offsets :: displace_offsets
  ds_broadcasts :: "displace_offsets list"
  ds_processed :: bool
  ds_listening :: bool

section \<open>Operations\<close>

text \<open>\<open>parseInt(value, 10)\<close>: leading white space, a sign and digits; \<open>NaN\<close> without digits.\<close>

definition parse_space :: "char \<Rightarrow> bool" where
  "parse_space c \<longleftrightarrow> (of_char c :: nat) \<in> {9, 10, 11, 12, 13, 32, 160}"

definition parse_digits :: "string \<Rightarrow> int option" where
  "parse_digits s = (case takeWhile is_digit s of [] \<Rightarrow> None | ds \<Rightarrow> Some (int (str_nat ds)))"

definition js_parseInt :: "string \<Rightarrow> int option" where
  "js_parseInt s =
     (case dropWhile parse_space s of
        [] \<Rightarrow> None
      | c # cs \<Rightarrow> if c = CHR ''-'' then map_option uminus (parse_digits cs)
                 else if c = CHR ''+'' then parse_digits cs else parse_digits (c # cs))"

fun getRawOffset :: "viewport \<Rightarrow> displacing \<Rightarrow> edge \<Rightarrow> int" where
  "getRawOffset vp el Edge_top = dp_top el - vp_scrollY vp + dp_height el"
| "getRawOffset vp el Edge_left = dp_left el - vp_scrollX vp + dp_width el"
| "getRawOffset vp el Edge_bottom = vp_clientHeight vp - (dp_top el - vp_scrollY vp)"
| "getRawOffset vp el Edge_right = vp_clientWidth vp - (dp_left el - vp_scrollX vp)"

definition displacement_of :: "viewport \<Rightarrow> displacing \<Rightarrow> edge \<Rightarrow> int" where
  "displacement_of vp el e =
     (case dp_attr el e of None \<Rightarrow> 0
      | Some v \<Rightarrow> (case js_parseInt v of Some n \<Rightarrow> n | None \<Rightarrow> getRawOffset vp el e))"

fun offset_loop :: "viewport \<Rightarrow> edge \<Rightarrow> int \<Rightarrow> displacing list \<Rightarrow> int" where
  "offset_loop vp e edgeOffset [] = edgeOffset"
| "offset_loop vp e edgeOffset (el # els) =
     (if dp_hidden el then offset_loop vp e edgeOffset els
      else offset_loop vp e (max edgeOffset (displacement_of vp el e)) els)"

definition calculateOffset :: "viewport \<Rightarrow> displacing list \<Rightarrow> edge \<Rightarrow> int" where
  "calculateOffset vp els e = offset_loop vp e 0 (filter (\<lambda>el. dp_attr el e \<noteq> None) els)"

definition calculateOffsets :: "viewport \<Rightarrow> displacing list \<Rightarrow> displace_offsets" where
  "calculateOffsets vp els =
     \<lparr>do_top = calculateOffset vp els Edge_top, do_right = calculateOffset vp els Edge_right,
      do_bottom = calculateOffset vp els Edge_bottom, do_left = calculateOffset vp els Edge_left\<rparr>"

text \<open>The argument is \<open>None\<close> for \<open>undefined\<close>; the event of a resized window is a true value.\<close>

definition displace :: "viewport \<Rightarrow> displacing list \<Rightarrow> bool option \<Rightarrow> displace_state \<Rightarrow> displace_state" where
  "displace vp els broadcast s =
     (let offsets = calculateOffsets vp els; s1 = s\<lparr>ds_offsets := offsets\<rparr>
      in if broadcast \<noteq> Some False then s1\<lparr>ds_broadcasts := ds_broadcasts s1 @ [offsets]\<rparr> else s1)"

definition displace_attach :: "displace_state \<Rightarrow> displace_state" where
  "displace_attach s = (if ds_processed s then s else s\<lparr>ds_processed := True, ds_listening := True\<rparr>)"

definition displace_init :: displace_state where
  "displace_init =
     \<lparr>ds_offsets = \<lparr>do_top = 0, do_right = 0, do_bottom = 0, do_left = 0\<rparr>, ds_broadcasts = [], ds_processed = False, ds_listening = False\<rparr>"

section \<open>The loop is a maximum\<close>

definition displaces_at :: "viewport \<Rightarrow> displacing list \<Rightarrow> edge \<Rightarrow> int set" where
  "displaces_at vp els e = {displacement_of vp el e |el. el \<in> set els \<and> \<not> dp_hidden el \<and> dp_attr el e \<noteq> None}"

lemma Max_insert_max:
  fixes m d :: int
  assumes "finite D"
  shows "Max (insert (max m d) D) = Max (insert m (insert d D))"
  using assms by (cases "D = {}") (simp_all add: max.assoc)

lemma offset_loop_Max:
  "offset_loop vp e m els = Max (insert m {displacement_of vp el e |el. el \<in> set els \<and> \<not> dp_hidden el})"
proof (induction els arbitrary: m)
  case (Cons a els)
  let ?D = "{displacement_of vp el e |el. el \<in> set els \<and> \<not> dp_hidden el}"
  have fin: "finite ?D" by simp
  show ?case
  proof (cases "dp_hidden a")
    case True
    then have "{displacement_of vp el e |el. el \<in> set (a # els) \<and> \<not> dp_hidden el} = ?D" by auto
    with True Cons show ?thesis by simp
  next
    case False
    then have "{displacement_of vp el e |el. el \<in> set (a # els) \<and> \<not> dp_hidden el} = insert (displacement_of vp a e) ?D" by auto
    moreover have "Max (insert (max m d) ?D) = Max (insert m (insert d ?D))" for d
      using fin by (rule Max_insert_max)
    ultimately show ?thesis using False Cons by simp
  qed
qed simp

lemma calculateOffset_Max: "calculateOffset vp els e = Max (insert 0 (displaces_at vp els e))"
proof -
  have "{displacement_of vp el e |el. el \<in> set (filter (\<lambda>el. dp_attr el e \<noteq> None) els) \<and> \<not> dp_hidden el} = displaces_at vp els e"
    by (auto simp: displaces_at_def)
  then show ?thesis unfolding calculateOffset_def by (simp only: offset_loop_Max)
qed

lemma displaces_at_finite [simp]: "finite (displaces_at vp els e)"
proof -
  have "displaces_at vp els e \<subseteq> (\<lambda>el. displacement_of vp el e) ` set els" by (auto simp: displaces_at_def)
  then show ?thesis by (rule finite_subset) simp
qed

lemma calculateOffset_bounds:
  "0 \<le> calculateOffset vp els e" "d \<in> displaces_at vp els e \<Longrightarrow> d \<le> calculateOffset vp els e"
  by (simp_all add: calculateOffset_Max)

lemma calculateOffset_none: "displaces_at vp els e = {} \<Longrightarrow> calculateOffset vp els e = 0"
  by (simp add: calculateOffset_Max)

section \<open>Properties\<close>

text \<open>
  The offset of an edge is zero or the largest displacement of the visible elements at it, so that no such element reaches
  further; it does not depend on the order of the elements.
\<close>

theorem displace_covers_elements:
  assumes "s' = displace vp els b s"
  shows "do_left (ds_offsets s') = Max (insert 0 (displaces_at vp els Edge_left)) \<and>
    do_top (ds_offsets s') = Max (insert 0 (displaces_at vp els Edge_top)) \<and>
    do_right (ds_offsets s') = Max (insert 0 (displaces_at vp els Edge_right)) \<and>
    do_bottom (ds_offsets s') = Max (insert 0 (displaces_at vp els Edge_bottom)) \<and>
    (b \<noteq> Some False \<longleftrightarrow> ds_broadcasts s' \<noteq> ds_broadcasts s)"
  using assms by (simp add: displace_def Let_def calculateOffsets_def calculateOffset_Max)

end
