(* ===== verification/Toolbar.thy ===== *)
theory Toolbar
  imports Displace
begin

text \<open>
  The administration toolbar (\<open>core/modules/toolbar/js\<close>): its model with the handlers of media queries
  (\<open>toolbar.es6.js\<close>, \<open>models/ToolbarModel.es6.js\<close>) and the views that follow it (\<open>ToolbarVisualView\<close>, \<open>BodyVisualView\<close>,
  \<open>ToolbarAuralView\<close>). The model is a Backbone model: an outermost \<open>set\<close> remembers the attributes before it, nested ones
  add to its changes, and every changed attribute triggers its listeners at once, in the order of their registration.
  Tabs and trays are referred to by their places. The storage is that of one theme.
\<close>

section \<open>State\<close>

datatype orient = Horizontal | Vertical

record tb_tab =
  tt_id :: string
  tt_tray :: "string option"
  tt_subtrees :: bool
  tt_active :: bool
  tt_pressed :: bool

text \<open>
  \<open>ty_props\<close> stands for the properties of the element of a tray itself, which nothing here changes: Backbone compares the
  old and the new value of an attribute with \<open>_.isEqual\<close>, for which two elements with the same properties are equal.
  (The element of an active tab differs from all others in its property \<open>aria-pressed\<close>.)
\<close>

record tb_tray =
  ty_name :: string
  ty_props :: string
  ty_label :: "string option"
  ty_menu :: bool
  ty_active :: bool
  ty_horizontal :: bool
  ty_vertical :: bool
  ty_offsets :: "edge list"

datatype tb_message = Orientation_changed orient | Tray_opened "string option" | Tray_closed "string option"

datatype tb_broadcast = Orientation_broadcast orient | Tab_broadcast "nat option" | Tray_broadcast "nat option"

record tb_storage =
  st_locked :: bool
  st_activeTab :: "string option"
  st_hash :: "string option"
  st_subtrees :: "string option"

record toolbar =
  m_activeTab :: "nat option"
  m_activeTray :: "nat option"
  m_isOriented :: bool
  m_isFixed :: bool
  m_areSubtreesLoaded :: bool
  m_orientation :: orient
  m_locked :: bool
  m_toggleVisible :: bool
  m_prevTab :: "nat option"
  m_prevTray :: "nat option"
  m_changedOrientation :: "orient option"
  m_changedTab :: "nat option"
  m_changing :: bool
  v_visual :: bool
  v_others :: bool
  v_done :: bool
  v_broadcast :: bool
  d_tabs :: "tb_tab list"
  d_trays :: "tb_tray list"
  d_body :: "orient option"
  d_oriented :: bool
  d_toggle_shown :: bool
  d_toggle_value :: "orient option"
  d_fixed :: bool
  d_tray_open :: bool
  p_storage :: tb_storage
  p_resolved :: "string option"
  p_menu :: "string option"
  p_requests :: nat
  p_displaces :: nat
  p_messages :: "tb_message list"
  p_broadcasts :: "tb_broadcast list"

record tb_env =
  te_rtl :: bool
  te_hash :: string

text \<open>The attributes of the model before the outermost \<open>set\<close>, and the changes since.\<close>

definition outermost :: "(toolbar \<Rightarrow> toolbar) \<Rightarrow> toolbar \<Rightarrow> toolbar" where
  "outermost f s =
     (if m_changing s then f s
      else (f (s\<lparr>m_prevTab := m_activeTab s, m_prevTray := m_activeTray s, m_changedOrientation := None, m_changedTab := None,
                 m_changing := True\<rparr>))\<lparr>m_changing := False\<rparr>)"

definition anti :: "orient \<Rightarrow> orient" where
  "anti oo = (if oo = Vertical then Horizontal else Vertical)"

section \<open>Trays\<close>

text \<open>What \<open>BodyVisualView\<close>, \<open>ToolbarAuralView\<close> and the behavior do when the active tray changes.\<close>

definition aural_tray :: "nat option \<Rightarrow> toolbar \<Rightarrow> toolbar" where
  "aural_tray tray s =
     (case (if tray = None then m_prevTray s else tray) of
        None \<Rightarrow> s
      | Some i \<Rightarrow>
          (let label = ty_label (d_trays s ! i)
           in s\<lparr>p_messages := p_messages s @ [if tray = None then Tray_closed label else Tray_opened label]\<rparr>))"

definition tray_changed :: "nat option \<Rightarrow> toolbar \<Rightarrow> toolbar" where
  "tray_changed tray s =
     (let s1 = (if v_others s then (aural_tray tray s)\<lparr>d_tray_open := (m_activeTray s \<noteq> None)\<rparr> else s)
      in if v_broadcast s1 then s1\<lparr>p_broadcasts := p_broadcasts s1 @ [Tray_broadcast tray]\<rparr> else s1)"

definition equal_trays :: "nat option \<Rightarrow> nat option \<Rightarrow> toolbar \<Rightarrow> bool" where
  "equal_trays old new s =
     (case old of
        None \<Rightarrow> new = None
      | Some i \<Rightarrow> (case new of None \<Rightarrow> False | Some j \<Rightarrow> i = j \<or> ty_props (d_trays s ! i) = ty_props (d_trays s ! j)))"

definition set_activeTray :: "nat option \<Rightarrow> toolbar \<Rightarrow> toolbar" where
  "set_activeTray tray =
     outermost (\<lambda>s.
       let s1 = s\<lparr>m_activeTray := tray\<rparr>
       in if equal_trays (m_activeTray s) tray s then s1 else tray_changed tray s1)"

section \<open>Subtrees\<close>

text \<open>The deferred object is resolved once; its callback is registered by \<open>attach\<close>.\<close>

definition subtrees_done :: "string \<Rightarrow> toolbar \<Rightarrow> toolbar" where
  "subtrees_done subtrees s =
     outermost (\<lambda>s. s\<lparr>m_areSubtreesLoaded := True\<rparr>)
       (s\<lparr>p_menu := Some subtrees, p_storage := (p_storage s)\<lparr>st_subtrees := Some subtrees\<rparr>\<rparr>)"

definition resolve_subtrees :: "string \<Rightarrow> toolbar \<Rightarrow> toolbar" where
  "resolve_subtrees subtrees s =
     (if p_resolved s \<noteq> None then s
      else let s1 = s\<lparr>p_resolved := Some subtrees\<rparr> in if v_done s1 then subtrees_done subtrees s1 else s1)"

definition loadSubtrees :: "tb_env \<Rightarrow> toolbar \<Rightarrow> toolbar" where
  "loadSubtrees env s =
     (if \<not> m_areSubtreesLoaded s \<and> (case m_activeTab s of None \<Rightarrow> False | Some i \<Rightarrow> tt_subtrees (d_tabs s ! i)) \<and> m_orientation s = Vertical
      then (case st_subtrees (p_storage s) of
              Some cached \<Rightarrow>
                if st_hash (p_storage s) = Some (te_hash env) then resolve_subtrees cached s
                else s\<lparr>p_requests := Suc (p_requests s), p_storage := (p_storage s)\<lparr>st_hash := Some (te_hash env), st_subtrees := None\<rparr>\<rparr>
            | None \<Rightarrow> s\<lparr>p_requests := Suc (p_requests s), p_storage := (p_storage s)\<lparr>st_hash := Some (te_hash env), st_subtrees := None\<rparr>\<rparr>)
      else s)"

section \<open>Drawing\<close>

definition on_place :: "(nat \<Rightarrow> bool) \<Rightarrow> ('a \<Rightarrow> 'a) \<Rightarrow> 'a list \<Rightarrow> 'a list" where
  "on_place P f xs = map (\<lambda>i. if P i then f (xs ! i) else xs ! i) [0..<length xs]"

definition is_tray_of :: "toolbar \<Rightarrow> string option \<Rightarrow> nat \<Rightarrow> bool" where
  "is_tray_of s name i \<longleftrightarrow> i < length (d_trays s) \<and> name = Some (ty_name (d_trays s ! i))"

definition updateTabs :: "toolbar \<Rightarrow> toolbar" where
  "updateTabs s =
     (let s1 = s\<lparr>d_tabs := on_place (\<lambda>i. m_prevTab s = Some i) (\<lambda>t. t\<lparr>tt_active := False, tt_pressed := False\<rparr>) (d_tabs s),
                 d_trays := on_place (\<lambda>i. m_prevTray s = Some i) (\<lambda>y. y\<lparr>ty_active := False\<rparr>) (d_trays s)\<rparr>
      in case m_activeTab s of
           None \<Rightarrow>
             (let s2 = set_activeTray None s1 in s2\<lparr>p_storage := (p_storage s2)\<lparr>st_activeTab := None\<rparr>\<rparr>)
         | Some k \<Rightarrow>
             (let s2 = s1\<lparr>d_tabs := on_place (\<lambda>i. i = k) (\<lambda>t. t\<lparr>tt_active := True, tt_pressed := True\<rparr>) (d_tabs s1)\<rparr>;
                  tab = d_tabs s2 ! k;
                  s3 = (if tt_id tab \<noteq> [] then s2\<lparr>p_storage := (p_storage s2)\<lparr>st_activeTab := Some (tt_id tab)\<rparr>\<rparr> else s2);
                  trays = filter (is_tray_of s3 (tt_tray tab)) [0..<length (d_trays s3)]
              in case trays of
                   [] \<Rightarrow> set_activeTray None s3
                 | i # is \<Rightarrow>
                     set_activeTray (Some i) (s3\<lparr>d_trays := on_place (is_tray_of s3 (tt_tray tab)) (\<lambda>y. y\<lparr>ty_active := True\<rparr>) (d_trays s3)\<rparr>)))"

definition side_edge :: "tb_env \<Rightarrow> edge" where
  "side_edge env = (if te_rtl env then Edge_right else Edge_left)"

definition draw_tray :: "tb_env \<Rightarrow> orient \<Rightarrow> tb_tray \<Rightarrow> tb_tray" where
  "draw_tray env oo y =
     (let y1 = (if oo = Vertical then y\<lparr>ty_horizontal := False, ty_vertical := True\<rparr> else y\<lparr>ty_vertical := False, ty_horizontal := True\<rparr>)
      in y1\<lparr>ty_offsets :=
           (if ty_vertical y1 \<and> ty_active y1 then [side_edge env] else []) @ (if ty_horizontal y1 \<and> ty_active y1 then [Edge_top] else [])\<rparr>)"

definition updateTrayOrientation :: "tb_env \<Rightarrow> toolbar \<Rightarrow> toolbar" where
  "updateTrayOrientation env s =
     s\<lparr>d_body := Some (m_orientation s), d_trays := map (draw_tray env (m_orientation s)) (d_trays s),
       d_toggle_shown := m_toggleVisible s, d_toggle_value := Some (anti (m_orientation s))\<rparr>"

definition updateBarAttributes :: "toolbar \<Rightarrow> toolbar" where
  "updateBarAttributes s = s\<lparr>d_oriented := m_isOriented s\<rparr>"

definition tb_render :: "tb_env \<Rightarrow> toolbar \<Rightarrow> toolbar" where
  "tb_render env s =
     (let s1 = updateBarAttributes (updateTrayOrientation env (updateTabs s))
      in if m_changedOrientation s1 = Some Vertical \<or> m_changedTab s1 \<noteq> None then loadSubtrees env s1 else s1)"

text \<open>The height is an attribute nobody listens to; the viewport is measured later.\<close>

definition updateToolbarHeight :: "toolbar \<Rightarrow> toolbar" where
  "updateToolbarHeight s = (let s1 = outermost (\<lambda>s. s) s in s1\<lparr>p_displaces := Suc (p_displaces s1)\<rparr>)"

text \<open>When the offsets of the viewport change.\<close>

definition adjustPlacement :: "toolbar \<Rightarrow> toolbar" where
  "adjustPlacement s =
     (if \<not> m_isOriented s then s\<lparr>d_trays := map (\<lambda>y. y\<lparr>ty_horizontal := False, ty_vertical := True\<rparr>) (d_trays s)\<rparr> else s)"

section \<open>Attributes with listeners\<close>

definition visual_change :: "tb_env \<Rightarrow> bool \<Rightarrow> toolbar \<Rightarrow> toolbar" where
  "visual_change env measured s =
     (if v_visual s then (let s1 = tb_render env s in if measured then updateToolbarHeight s1 else s1) else s)"

definition set_activeTab :: "tb_env \<Rightarrow> nat option \<Rightarrow> toolbar \<Rightarrow> toolbar" where
  "set_activeTab env tab =
     outermost (\<lambda>s.
       (let s1 = s\<lparr>m_activeTab := tab, m_changedTab := if m_prevTab s = tab then None else tab\<rparr>
        in if m_activeTab s = tab then s1
           else (let s2 = visual_change env True s1
                 in if v_broadcast s2 then s2\<lparr>p_broadcasts := p_broadcasts s2 @ [Tab_broadcast tab]\<rparr> else s2)))"

text \<open>
  The listeners of the orientation. Only attributes that differ from those before the outermost \<open>set\<close> are changes; the
  setters of the orientation are never called within another \<open>set\<close>.
\<close>

definition orientation_changed :: "tb_env \<Rightarrow> orient \<Rightarrow> toolbar \<Rightarrow> toolbar" where
  "orientation_changed env oo s =
     (let s1 = visual_change env True s;
          s2 = (if v_others s1 then s1\<lparr>p_messages := p_messages s1 @ [Orientation_changed oo]\<rparr> else s1)
      in if v_broadcast s2 then s2\<lparr>p_broadcasts := p_broadcasts s2 @ [Orientation_broadcast oo]\<rparr> else s2)"

definition validate :: "bool \<Rightarrow> orient \<Rightarrow> toolbar \<Rightarrow> bool" where
  "validate override oo s \<longleftrightarrow> \<not> (oo = Horizontal \<and> m_locked s \<and> \<not> override)"

definition set_orientation :: "tb_env \<Rightarrow> bool \<Rightarrow> bool option \<Rightarrow> orient \<Rightarrow> toolbar \<Rightarrow> toolbar" where
  "set_orientation env override locked oo s =
     (if \<not> validate override oo s then s
      else outermost (\<lambda>s.
        (let s1 = (case locked of None \<Rightarrow> s | Some l \<Rightarrow> s\<lparr>m_locked := l\<rparr>)
         in if m_orientation s = oo then s1
            else orientation_changed env oo (s1\<lparr>m_orientation := oo, m_changedOrientation := Some oo\<rparr>))) s)"

definition set_narrow :: "tb_env \<Rightarrow> bool \<Rightarrow> toolbar \<Rightarrow> toolbar" where
  "set_narrow env oriented =
     outermost (\<lambda>s.
       (let s1 = s\<lparr>m_isOriented := oriented, m_toggleVisible := False\<rparr>;
            s2 = (if m_isOriented s \<noteq> oriented then visual_change env True s1 else s1)
        in if m_toggleVisible s then visual_change env False s2 else s2))"

definition set_toggleVisible :: "tb_env \<Rightarrow> bool \<Rightarrow> toolbar \<Rightarrow> toolbar" where
  "set_toggleVisible env shown =
     outermost (\<lambda>s. if m_toggleVisible s \<noteq> shown then visual_change env False (s\<lparr>m_toggleVisible := shown\<rparr>) else s)"

definition isToolbarFixed :: "toolbar \<Rightarrow> toolbar" where
  "isToolbarFixed s = s\<lparr>d_fixed := m_isFixed s\<rparr>"

definition set_isFixed :: "bool \<Rightarrow> toolbar \<Rightarrow> toolbar" where
  "set_isFixed fixed =
     outermost (\<lambda>s. let s1 = s\<lparr>m_isFixed := fixed\<rparr> in if m_isFixed s \<noteq> fixed \<and> v_others s1 then isToolbarFixed s1 else s1)"

section \<open>Handlers\<close>

datatype tb_label = Narrow | Standard | Wide

text \<open>An orientation is always set, so the narrow query only sets one when it does not match.\<close>

fun mediaQueryChangeHandler :: "tb_env \<Rightarrow> tb_label \<Rightarrow> bool \<Rightarrow> toolbar \<Rightarrow> toolbar" where
  "mediaQueryChangeHandler env Narrow matching s =
     (let s1 = set_narrow env matching s in if \<not> matching then set_orientation env False None Vertical s1 else s1)"
| "mediaQueryChangeHandler env Standard matching s = set_isFixed matching s"
| "mediaQueryChangeHandler env Wide matching s =
     (let s1 = set_orientation env False None (if matching \<and> \<not> m_locked s then Horizontal else Vertical) s
      in set_toggleVisible env matching s1)"

definition onTabClick :: "tb_env \<Rightarrow> nat \<Rightarrow> toolbar \<Rightarrow> toolbar" where
  "onTabClick env i s =
     (if tt_tray (d_tabs s ! i) \<noteq> None then set_activeTab env (if m_activeTab s \<noteq> Some i then Some i else None) s else s)"

definition onOrientationToggleClick :: "tb_env \<Rightarrow> toolbar \<Rightarrow> toolbar" where
  "onOrientationToggleClick env s =
     (let antiOrientation = anti (m_orientation s); locked = (antiOrientation = Vertical)
      in set_orientation env True (Some locked) antiOrientation (s\<lparr>p_storage := (p_storage s)\<lparr>st_locked := locked\<rparr>\<rparr>))"

definition linkClickHandler :: "tb_env \<Rightarrow> toolbar \<Rightarrow> toolbar" where
  "linkClickHandler env s = (if \<not> m_isFixed s then set_activeTab env None s else s)"

section \<open>Attaching\<close>

text \<open>The media queries as they match now.\<close>

record media =
  mq_narrow :: bool
  mq_standard :: bool
  mq_wide :: bool

definition new_model :: "tb_tab list \<Rightarrow> tb_tray list \<Rightarrow> tb_storage \<Rightarrow> toolbar" where
  "new_model tabs trays st =
     (let tab = (case st_activeTab st of None \<Rightarrow> None
                 | Some i \<Rightarrow> find (\<lambda>k. tt_id (tabs ! k) = i) [0..<length tabs])
      in \<lparr>m_activeTab = tab, m_activeTray = None, m_isOriented = False, m_isFixed = False, m_areSubtreesLoaded = False,
          m_orientation = Horizontal, m_locked = st_locked st, m_toggleVisible = True, m_prevTab = None, m_prevTray = None,
          m_changedOrientation = None, m_changedTab = tab, m_changing = False,
          v_visual = False, v_others = False, v_done = False, v_broadcast = False,
          d_tabs = tabs, d_trays = trays, d_body = None, d_oriented = False, d_toggle_shown = True, d_toggle_value = None,
          d_fixed = False, d_tray_open = False, p_storage = st, p_resolved = None, p_menu = None, p_requests = 0, p_displaces = 0,
          p_messages = [], p_broadcasts = []\<rparr>)"

definition first_handlers :: "tb_env \<Rightarrow> media \<Rightarrow> toolbar \<Rightarrow> toolbar" where
  "first_handlers env mq s =
     mediaQueryChangeHandler env Wide (mq_wide mq)
       (mediaQueryChangeHandler env Standard (mq_standard mq) (mediaQueryChangeHandler env Narrow (mq_narrow mq) s))"

text \<open>Constructing the visual view draws it; the toggles are added before.\<close>

definition start_views :: "tb_env \<Rightarrow> toolbar \<Rightarrow> toolbar" where
  "start_views env s =
     (let s1 = visual_change env True (s\<lparr>v_visual := True\<rparr>);
          s2 = isToolbarFixed (s1\<lparr>v_others := True\<rparr>)
      in tray_changed (m_activeTray s2) s2)"

definition register_done :: "toolbar \<Rightarrow> toolbar" where
  "register_done s =
     (let s1 = s\<lparr>v_done := True\<rparr> in case p_resolved s1 of None \<Rightarrow> s1 | Some v \<Rightarrow> subtrees_done v s1)"

text \<open>
  \<open>first\<close> is the first link of a tab that is not the one to the home page, which has to exist. Without a tray that has a menu there is no
  toggle, and drawing throws.
\<close>

definition toolbar_attach :: "tb_env \<Rightarrow> media \<Rightarrow> nat \<Rightarrow> tb_tab list \<Rightarrow> tb_tray list \<Rightarrow> tb_storage \<Rightarrow> toolbar js" where
  "toolbar_attach env mq first tabs trays st =
     (if \<not> list_ex ty_menu trays then Inl TypeError
      else (let s1 = start_views env (first_handlers env mq (new_model tabs trays st));
                s2 = loadSubtrees env (register_done s1);
                s3 = s2\<lparr>v_broadcast := True\<rparr>
            in Inr (if m_orientation s3 = Horizontal \<and> m_activeTab s3 = None then set_activeTab env (Some first) s3 else s3)))"

section \<open>Events\<close>

text \<open>
  The queries match widths of the window, each above the one before. The listeners of the queries that change are called
  in the order of the queries. The toggle can be clicked when it is shown.
\<close>

definition nested_media :: "media \<Rightarrow> bool" where
  "nested_media mq \<longleftrightarrow> (mq_wide mq \<longrightarrow> mq_standard mq) \<and> (mq_standard mq \<longrightarrow> mq_narrow mq)"

datatype tb_event = Resize media | Tab_click nat | Toggle_click | Link_click | Subtrees_arrive string | Offsets_change

definition resize :: "tb_env \<Rightarrow> media \<Rightarrow> media \<Rightarrow> toolbar \<Rightarrow> toolbar" where
  "resize env old new s =
     (let s1 = (if mq_narrow old \<noteq> mq_narrow new then mediaQueryChangeHandler env Narrow (mq_narrow new) s else s);
          s2 = (if mq_standard old \<noteq> mq_standard new then mediaQueryChangeHandler env Standard (mq_standard new) s1 else s1)
      in if mq_wide old \<noteq> mq_wide new then mediaQueryChangeHandler env Wide (mq_wide new) s2 else s2)"

fun toolbar_step :: "tb_env \<Rightarrow> tb_event \<Rightarrow> media \<times> toolbar \<Rightarrow> media \<times> toolbar" where
  "toolbar_step env (Resize new) (mq, s) = (new, resize env mq new s)"
| "toolbar_step env (Tab_click i) (mq, s) = (mq, if i < length (d_tabs s) then onTabClick env i s else s)"
| "toolbar_step env Toggle_click (mq, s) = (mq, if d_toggle_shown s then onOrientationToggleClick env s else s)"
| "toolbar_step env Link_click (mq, s) = (mq, linkClickHandler env s)"
| "toolbar_step env (Subtrees_arrive v) (mq, s) = (mq, resolve_subtrees v s)"
| "toolbar_step env Offsets_change (mq, s) = (mq, adjustPlacement s)"

definition toolbar_events :: "tb_env \<Rightarrow> tb_event list \<Rightarrow> media \<times> toolbar \<Rightarrow> media \<times> toolbar" where
  "toolbar_events env es p = fold (toolbar_step env) es p"

end
