(* ===== verification/Toolbar_Properties.thy ===== *)
theory Toolbar_Properties
  imports Toolbar
begin

text \<open>
  The administration toolbar over whole runs: the orientation is a function of the viewport and the lock, and the page
  shows the model: one tab and its tray are active, the trays have the class and the marks of their orientation.
\<close>

section \<open>Frames\<close>

lemma on_place_length [simp]: "length (on_place P f xs) = length xs"
  by (simp add: on_place_def)

lemma on_place_nth [simp]: "i < length xs \<Longrightarrow> on_place P f xs ! i = (if P i then f (xs ! i) else xs ! i)"
  by (simp add: on_place_def)

lemma map_on_place [simp]: "(\<And>x. g (f x) = g x) \<Longrightarrow> map g (on_place P f xs) = map g xs"
  by (auto intro!: nth_equalityI)

text \<open>The attributes that drawing does not change, and the parts of the page, each as one value.\<close>

definition model_part :: "toolbar \<Rightarrow> (nat option \<times> bool \<times> bool \<times> orient \<times> bool \<times> bool) \<times> bool list" where
  "model_part s =
     ((m_activeTab s, m_isOriented s, m_isFixed s, m_orientation s, m_locked s, m_toggleVisible s),
      [m_changing s, v_visual s, v_others s, v_done s, v_broadcast s, d_fixed s, st_locked (p_storage s)])"

definition look_part :: "toolbar \<Rightarrow> (tb_tab list \<times> tb_tray list) \<times> (orient option \<times> bool \<times> bool \<times> orient option)" where
  "look_part s = ((d_tabs s, d_trays s), (d_body s, d_oriented s, d_toggle_shown s, d_toggle_value s))"

definition tray_part :: "toolbar \<Rightarrow> nat option \<times> bool" where
  "tray_part s = (m_activeTray s, d_tray_open s)"

lemma model_part_eq:
  "model_part s = model_part s' \<longleftrightarrow>
     m_activeTab s = m_activeTab s' \<and> m_isOriented s = m_isOriented s' \<and> m_isFixed s = m_isFixed s' \<and> m_orientation s = m_orientation s' \<and>
     m_locked s = m_locked s' \<and> m_toggleVisible s = m_toggleVisible s' \<and> m_changing s = m_changing s' \<and> v_visual s = v_visual s' \<and>
     v_others s = v_others s' \<and> v_done s = v_done s' \<and> v_broadcast s = v_broadcast s' \<and> d_fixed s = d_fixed s' \<and>
     st_locked (p_storage s) = st_locked (p_storage s')"
  by (auto simp: model_part_def)

lemma look_part_eq:
  "look_part s = look_part s' \<longleftrightarrow> d_tabs s = d_tabs s' \<and> d_trays s = d_trays s' \<and> d_body s = d_body s' \<and> d_oriented s = d_oriented s' \<and>
     d_toggle_shown s = d_toggle_shown s' \<and> d_toggle_value s = d_toggle_value s'"
  by (auto simp: look_part_def)

lemmas part_eqs = model_part_eq look_part_eq

lemma set_activeTray_parts:
  "model_part (set_activeTray t s) = model_part s" "look_part (set_activeTray t s) = look_part s"
  by (auto simp: set_activeTray_def outermost_def tray_changed_def aural_tray_def Let_def model_part_def look_part_def split: option.split)

lemma equal_trays_None: "equal_trays old new s \<Longrightarrow> old = None \<longleftrightarrow> new = None"
  by (auto simp: equal_trays_def split: option.splits)

lemma set_activeTray_tray:
  "m_activeTray (set_activeTray t s) = t"
  "v_others s \<Longrightarrow> d_tray_open s = (m_activeTray s \<noteq> None) \<Longrightarrow> d_tray_open (set_activeTray t s) = (t \<noteq> None)"
proof -
  have c: "m_activeTray (tray_changed t u) = m_activeTray u"
    "d_tray_open (tray_changed t u) = (if v_others u then m_activeTray u \<noteq> None else d_tray_open u)" for u
    by (auto simp: tray_changed_def aural_tray_def Let_def split: option.split)
  show "m_activeTray (set_activeTray t s) = t" by (simp add: set_activeTray_def outermost_def Let_def c)
  assume a: "v_others s" "d_tray_open s = (m_activeTray s \<noteq> None)"
  have e: "(m_activeTray s \<noteq> None) = (t \<noteq> None)" if "equal_trays (m_activeTray s) t u" for u
    using equal_trays_None [OF that] by simp
  show "d_tray_open (set_activeTray t s) = (t \<noteq> None)"
    unfolding set_activeTray_def outermost_def Let_def using a e by (simp add: c)
qed

lemma resolve_parts:
  "model_part (resolve_subtrees v s) = model_part s" "look_part (resolve_subtrees v s) = look_part s"
  "tray_part (resolve_subtrees v s) = tray_part s"
  by (auto simp: resolve_subtrees_def subtrees_done_def outermost_def Let_def model_part_def look_part_def tray_part_def)

lemma loadSubtrees_parts:
  "model_part (loadSubtrees env s) = model_part s" "look_part (loadSubtrees env s) = look_part s"
  "tray_part (loadSubtrees env s) = tray_part s"
proof -
  note split = option.split
  show "model_part (loadSubtrees env s) = model_part s" "look_part (loadSubtrees env s) = look_part s" "tray_part (loadSubtrees env s) = tray_part s"
    by (cases "st_subtrees (p_storage s)";
        simp add: loadSubtrees_def resolve_parts; simp add: model_part_def look_part_def tray_part_def)+
qed

lemma updateToolbarHeight_parts:
  "model_part (updateToolbarHeight s) = model_part s" "look_part (updateToolbarHeight s) = look_part s"
  "tray_part (updateToolbarHeight s) = tray_part s"
  by (auto simp: updateToolbarHeight_def outermost_def Let_def model_part_def look_part_def tray_part_def)
section \<open>What is active\<close>

definition tray_of :: "toolbar \<Rightarrow> nat option \<Rightarrow> nat option" where
  "tray_of s tab =
     (case tab of None \<Rightarrow> None | Some k \<Rightarrow> find (is_tray_of s (tt_tray (d_tabs s ! k))) [0..<length (d_trays s)])"

definition statics :: "toolbar \<Rightarrow> string option list \<times> string list" where
  "statics s = (map tt_tray (d_tabs s), map ty_name (d_trays s))"

definition page_wf :: "toolbar \<Rightarrow> bool" where
  "page_wf s \<longleftrightarrow> distinct (map ty_name (d_trays s)) \<and> (\<forall>k. m_activeTab s = Some k \<longrightarrow> k < length (d_tabs s))"

text \<open>At most, or exactly, a tab and a tray are active on the page.\<close>

definition active_within :: "nat option \<Rightarrow> nat option \<Rightarrow> toolbar \<Rightarrow> bool" where
  "active_within tab tray s \<longleftrightarrow>
     (\<forall>i < length (d_tabs s). tt_active (d_tabs s ! i) \<or> tt_pressed (d_tabs s ! i) \<longrightarrow> tab = Some i) \<and>
     (\<forall>i < length (d_trays s). ty_active (d_trays s ! i) \<longrightarrow> tray = Some i)"

definition active_exactly :: "nat option \<Rightarrow> nat option \<Rightarrow> toolbar \<Rightarrow> bool" where
  "active_exactly tab tray s \<longleftrightarrow>
     (\<forall>i < length (d_tabs s). (tt_active (d_tabs s ! i) \<longleftrightarrow> tab = Some i) \<and> (tt_pressed (d_tabs s ! i) \<longleftrightarrow> tab = Some i)) \<and>
     (\<forall>i < length (d_trays s). ty_active (d_trays s ! i) \<longleftrightarrow> tray = Some i)"

lemma exactly_within: "active_exactly tab tray s \<Longrightarrow> active_within tab tray s"
  by (auto simp: active_exactly_def active_within_def)

lemma statics_look: "look_part s = look_part s' \<Longrightarrow> statics s = statics s'"
  by (simp add: look_part_eq statics_def)

lemma find_upt_unique:
  assumes "\<And>i j. P i \<Longrightarrow> P j \<Longrightarrow> i = j"
  shows "find P [0..<n] = Some i \<longleftrightarrow> i < n \<and> P i"
proof -
  have "find P xs = Some i \<longleftrightarrow> i \<in> set xs \<and> P i" for xs
    by (induction xs) (use assms in auto)
  then show ?thesis by simp
qed

lemma statics_lengths:
  assumes "statics s = statics s'"
  shows "length (d_tabs s) = length (d_tabs s')" "length (d_trays s) = length (d_trays s')"
proof -
  have "length (fst (statics s)) = length (fst (statics s'))" "length (snd (statics s)) = length (snd (statics s'))"
    using assms by simp_all
  then show "length (d_tabs s) = length (d_tabs s')" "length (d_trays s) = length (d_trays s')" by (simp_all add: statics_def)
qed

lemma statics_nth:
  assumes "statics s = statics s'"
  shows "k < length (d_tabs s) \<Longrightarrow> tt_tray (d_tabs s ! k) = tt_tray (d_tabs s' ! k)"
    "i < length (d_trays s) \<Longrightarrow> ty_name (d_trays s ! i) = ty_name (d_trays s' ! i)"
proof -
  have "fst (statics s) ! k = fst (statics s') ! k" "snd (statics s) ! i = snd (statics s') ! i" using assms by simp_all
  then show "k < length (d_tabs s) \<Longrightarrow> tt_tray (d_tabs s ! k) = tt_tray (d_tabs s' ! k)"
    "i < length (d_trays s) \<Longrightarrow> ty_name (d_trays s ! i) = ty_name (d_trays s' ! i)"
    using statics_lengths [OF assms] by (simp_all add: statics_def)
qed

lemma tray_of_statics:
  assumes "statics s = statics s'" and "\<forall>k. tab = Some k \<longrightarrow> k < length (d_tabs s)"
  shows "tray_of s tab = tray_of s' tab"
proof (cases tab)
  case (Some k)
  then have k: "tt_tray (d_tabs s ! k) = tt_tray (d_tabs s' ! k)" using assms statics_nth(1) by blast
  have "is_tray_of s (tt_tray (d_tabs s ! k)) = is_tray_of s' (tt_tray (d_tabs s' ! k))"
    using statics_lengths(2) [OF assms(1)] statics_nth(2) [OF assms(1)] k by (auto simp: is_tray_of_def fun_eq_iff)
  then show ?thesis using Some statics_lengths(2) [OF assms(1)] by (simp add: tray_of_def)
qed (simp add: tray_of_def)

lemma is_tray_of_unique:
  assumes "distinct (map ty_name (d_trays s))" "is_tray_of s n i" "is_tray_of s n j"
  shows "i = j"
  using assms by (auto simp: is_tray_of_def distinct_conv_nth)

lemma filter_find: "(case filter P xs of [] \<Rightarrow> None | x # _ \<Rightarrow> Some x) = find P xs"
  by (induction xs) auto

lemma find_None_all: "find P xs = None \<longleftrightarrow> (\<forall>x \<in> set xs. \<not> P x)"
  by (induction xs) auto

lemma updateTabs_parts:
  "model_part (updateTabs s) = model_part s" "statics (updateTabs s) = statics s" "d_body (updateTabs s) = d_body s"
proof -
  let ?s = "updateTabs s"
  show "model_part ?s = model_part s"
    using set_activeTray_parts(1) by (simp add: updateTabs_def Let_def model_part_eq split: option.split list.split)
  show "statics ?s = statics s" "d_body ?s = d_body s"
    using set_activeTray_parts(2) by (simp_all add: updateTabs_def Let_def statics_def look_part_eq split: option.split list.split)
qed

lemma updateTabs_active:
  assumes "page_wf s" and "active_within (m_prevTab s) (m_prevTray s) s"
  defines "u \<equiv> updateTabs s"
  shows "active_exactly (m_activeTab s) (tray_of s (m_activeTab s)) u \<and> m_activeTray u = tray_of s (m_activeTab s) \<and>
    (v_others s \<and> d_tray_open s = (m_activeTray s \<noteq> None) \<longrightarrow> d_tray_open u = (m_activeTray u \<noteq> None))"
proof -
  define s1 where "s1 = s\<lparr>d_tabs := on_place (\<lambda>i. m_prevTab s = Some i) (\<lambda>t. t\<lparr>tt_active := False, tt_pressed := False\<rparr>) (d_tabs s),
                 d_trays := on_place (\<lambda>i. m_prevTray s = Some i) (\<lambda>y. y\<lparr>ty_active := False\<rparr>) (d_trays s)\<rparr>"
  have off: "\<not> tt_active (d_tabs s1 ! i) \<and> \<not> tt_pressed (d_tabs s1 ! i)" if "i < length (d_tabs s)" for i
    using assms(2) that by (auto simp: s1_def active_within_def)
  have off': "\<not> ty_active (d_trays s1 ! i)" if "i < length (d_trays s)" for i
    using assms(2) that by (auto simp: s1_def active_within_def)
  have others: "m_activeTray s1 = m_activeTray s" "v_others s1 = v_others s" "d_tray_open s1 = d_tray_open s" "length (d_tabs s1) = length (d_tabs s)"
    "length (d_trays s1) = length (d_trays s)" "m_activeTab s1 = m_activeTab s" by (simp_all add: s1_def)
  show ?thesis
  proof (cases "m_activeTab s")
    case None
    then have u: "u = (let s2 = set_activeTray None s1 in s2\<lparr>p_storage := (p_storage s2)\<lparr>st_activeTab := None\<rparr>\<rparr>)"
      by (simp add: u_def updateTabs_def s1_def)
    have "d_tabs u = d_tabs s1" "d_trays u = d_trays s1" using set_activeTray_parts(2) [of None s1] by (simp_all add: u Let_def look_part_eq)
    then show ?thesis
      using None off off' others set_activeTray_tray [where s = s1 and t = None] by (auto simp: active_exactly_def tray_of_def u Let_def)
  next
    case (Some k)
    have k: "k < length (d_tabs s)" using assms(1) Some by (simp add: page_wf_def)
    define s2 where "s2 = s1\<lparr>d_tabs := on_place (\<lambda>i. i = k) (\<lambda>t. t\<lparr>tt_active := True, tt_pressed := True\<rparr>) (d_tabs s1)\<rparr>"
    define s3 where "s3 = (if tt_id (d_tabs s2 ! k) \<noteq> [] then s2\<lparr>p_storage := (p_storage s2)\<lparr>st_activeTab := Some (tt_id (d_tabs s2 ! k))\<rparr>\<rparr> else s2)"
    define nm where "nm = tt_tray (d_tabs s2 ! k)"
    have nm: "nm = tt_tray (d_tabs s ! k)" using k by (simp add: nm_def s2_def s1_def)
    have names: "is_tray_of s3 nm = is_tray_of s nm" by (auto simp: is_tray_of_def s3_def s2_def s1_def fun_eq_iff)
    define y where "y = find (is_tray_of s nm) [0..<length (d_trays s)]"
    have tray: "tray_of s (Some k) = y" by (simp add: tray_of_def nm y_def)
    have s3: "length (d_trays s3) = length (d_trays s)" "d_trays s3 = d_trays s1" "d_tabs s3 = d_tabs s2" "m_activeTray s3 = m_activeTray s"
      "v_others s3 = v_others s" "d_tray_open s3 = d_tray_open s"
      by (simp_all add: s3_def s2_def s1_def)
    have u: "u = (case filter (is_tray_of s nm) [0..<length (d_trays s)] of
                [] \<Rightarrow> set_activeTray None s3
              | i # is \<Rightarrow> set_activeTray (Some i) (s3\<lparr>d_trays := on_place (is_tray_of s nm) (\<lambda>y. y\<lparr>ty_active := True\<rparr>) (d_trays s3)\<rparr>))"
      unfolding u_def updateTabs_def Let_def s1_def [symmetric] Some option.case s2_def [symmetric] s3_def [symmetric] nm_def [symmetric]
        names s3(1) by (rule refl)
    have tabs: "d_tabs u = d_tabs s2"
      using set_activeTray_parts(2) s3(3) by (simp add: u look_part_eq split: list.split)
    have t: "(tt_active (d_tabs s2 ! i) \<longleftrightarrow> i = k) \<and> (tt_pressed (d_tabs s2 ! i) \<longleftrightarrow> i = k)" if "i < length (d_tabs s)" for i
      using off [OF that] that others by (simp add: s2_def)
    have len: "length (d_tabs s2) = length (d_tabs s)" by (simp add: s2_def others)
    have "m_activeTray u = y \<and> length (d_trays u) = length (d_trays s) \<and> (\<forall>i < length (d_trays s). ty_active (d_trays u ! i) \<longleftrightarrow> y = Some i) \<and>
        (v_others s \<and> d_tray_open s = (m_activeTray s \<noteq> None) \<longrightarrow> d_tray_open u = (m_activeTray u \<noteq> None))"
    proof (cases "filter (is_tray_of s nm) [0..<length (d_trays s)]")
      case Nil
      then have "y = None" by (simp add: y_def find_None_all filter_empty_conv)
      with Nil off' s3 set_activeTray_parts(2) [of None s3] set_activeTray_tray [where t = None and s = s3] show ?thesis
        by (simp add: u look_part_eq)
    next
      case (Cons j js)
      then have y: "y = Some j" using filter_find [of "is_tray_of s nm" "[0..<length (d_trays s)]"] by (simp add: y_def)
      have uniq: "is_tray_of s nm a \<Longrightarrow> is_tray_of s nm b \<Longrightarrow> a = b" for a b
        using is_tray_of_unique assms(1) by (auto simp: page_wf_def)
      then have j: "is_tray_of s nm i \<longleftrightarrow> i = j" for i using y find_upt_unique [of "is_tray_of s nm"] by (metis y_def)
      let ?s = "s3\<lparr>d_trays := on_place (is_tray_of s nm) (\<lambda>y. y\<lparr>ty_active := True\<rparr>) (d_trays s3)\<rparr>"
      have "u = set_activeTray (Some j) ?s" by (simp add: u Cons)
      moreover have "d_trays (set_activeTray (Some j) ?s) = d_trays ?s" using set_activeTray_parts(2) [of "Some j" ?s] by (simp add: look_part_eq)
      ultimately show ?thesis using off' s3 others j y set_activeTray_tray [where t = "Some j" and s = ?s] by auto
    qed
    then show ?thesis using t tabs len unfolding active_exactly_def Some tray by auto
  qed
qed

section \<open>Drawing shows the model\<close>

definition drawn_tray :: "tb_env \<Rightarrow> orient \<Rightarrow> tb_tray \<Rightarrow> bool" where
  "drawn_tray env oo y \<longleftrightarrow>
     ty_horizontal y = (oo = Horizontal) \<and> ty_vertical y = (oo = Vertical) \<and>
     ty_offsets y = (if ty_active y then [if oo = Vertical then side_edge env else Edge_top] else [])"

definition tb_drawn :: "tb_env \<Rightarrow> toolbar \<Rightarrow> bool" where
  "tb_drawn env s \<longleftrightarrow>
     page_wf s \<and> active_exactly (m_activeTab s) (m_activeTray s) s \<and> m_activeTray s = tray_of s (m_activeTab s) \<and>
     d_body s = Some (m_orientation s) \<and> list_all (drawn_tray env (m_orientation s)) (d_trays s) \<and>
     d_toggle_shown s = m_toggleVisible s \<and> d_toggle_value s = Some (anti (m_orientation s)) \<and> d_oriented s = m_isOriented s"

definition tray_open_ok :: "toolbar \<Rightarrow> bool" where
  "tray_open_ok s \<longleftrightarrow> (v_others s \<longrightarrow> d_tray_open s = (m_activeTray s \<noteq> None))"

lemma drawn_cong:
  assumes "look_part s = look_part s'" "m_activeTray s = m_activeTray s'" "m_activeTab s = m_activeTab s'" "m_orientation s = m_orientation s'"
    "m_toggleVisible s = m_toggleVisible s'" "m_isOriented s = m_isOriented s'"
  shows "tb_drawn env s = tb_drawn env s'"
proof -
  have "is_tray_of s n = is_tray_of s' n" for n
    using assms(1) by (simp add: look_part_eq is_tray_of_def fun_eq_iff)
  then have "tray_of s t = tray_of s' t" for t
    using assms(1) by (simp add: tray_of_def look_part_eq split: option.split)
  then show ?thesis using assms by (simp add: tb_drawn_def page_wf_def active_exactly_def look_part_eq)
qed

lemma drawn_parts:
  "model_part s = model_part s' \<Longrightarrow> look_part s = look_part s' \<Longrightarrow> m_activeTray s = m_activeTray s' \<Longrightarrow> tb_drawn env s = tb_drawn env s'"
  by (rule drawn_cong) (simp_all add: model_part_eq)

lemma draw_tray_simps [simp]:
  "ty_name (draw_tray env oo y) = ty_name y" "ty_active (draw_tray env oo y) = ty_active y" "drawn_tray env oo (draw_tray env oo y)"
  by (cases oo; simp add: draw_tray_def drawn_tray_def Let_def)+

lemma render_drawn:
  assumes "page_wf s" and "active_within (m_prevTab s) (m_prevTray s) s"
  shows "tb_drawn env (tb_render env s) \<and> model_part (tb_render env s) = model_part s \<and> statics (tb_render env s) = statics s \<and>
    (tray_open_ok s \<longrightarrow> tray_open_ok (tb_render env s))"
proof -
  define u where "u = updateTabs s"
  define d where "d = updateBarAttributes (updateTrayOrientation env u)"
  have u: "model_part u = model_part s" "statics u = statics s" using updateTabs_parts [of s] by (simp_all add: u_def)
  have a: "active_exactly (m_activeTab s) (tray_of s (m_activeTab s)) u" "m_activeTray u = tray_of s (m_activeTab s)"
    "v_others s \<and> d_tray_open s = (m_activeTray s \<noteq> None) \<longrightarrow> d_tray_open u = (m_activeTray u \<noteq> None)"
    using updateTabs_active [OF assms] by (simp_all add: u_def)
  have d: "model_part d = model_part u" "statics d = statics u" "m_activeTray d = m_activeTray u" "d_tray_open d = d_tray_open u"
    by (simp_all add: d_def updateBarAttributes_def updateTrayOrientation_def model_part_def statics_def comp_def)
  have "tray_of d (m_activeTab s) = tray_of s (m_activeTab s)"
    using u d assms(1) statics_lengths(1) [of d s] by (intro tray_of_statics) (auto simp: page_wf_def)
  moreover have "page_wf d"
    using assms(1) u d statics_lengths(1) [of d s] by (simp add: page_wf_def model_part_eq statics_def)
  ultimately have "tb_drawn env d"
    using a(1,2) d u(1) by (auto simp: tb_drawn_def active_exactly_def d_def updateBarAttributes_def updateTrayOrientation_def list_all_iff model_part_eq)
  note tb_drawn = this
  have others: "v_others d = v_others s" using d(1) u(1) by (simp add: model_part_eq)
  have op: "tray_open_ok s \<longrightarrow> tray_open_ok d" unfolding tray_open_ok_def others d(3,4) using a(3) by blast
  define l where "l = loadSubtrees env d"
  have l: "model_part l = model_part d" "look_part l = look_part d" "m_activeTray l = m_activeTray d" "d_tray_open l = d_tray_open d"
    using loadSubtrees_parts [of env d] by (simp_all add: tray_part_def l_def)
  have "tb_drawn env l" using tb_drawn drawn_parts [OF l(1,2,3)] by simp
  moreover have "statics l = statics d" using l(2) by (rule statics_look)
  moreover have "tray_open_ok l = tray_open_ok d" using l(1,3,4) by (simp add: tray_open_ok_def model_part_eq)
  moreover have "tb_render env s = d \<or> tb_render env s = l" by (simp add: tb_render_def Let_def d_def u_def l_def)
  ultimately show ?thesis using u(1,2) d(1,2) l(1) op tb_drawn by metis
qed

lemma render_prev:
  assumes "m_changing s"
  shows "m_prevTab (tb_render env s) = m_prevTab s \<and> m_prevTray (tb_render env s) = m_prevTray s"
proof -
  have sa: "m_prevTab (set_activeTray t s) = m_prevTab s \<and> m_prevTray (set_activeTray t s) = m_prevTray s" if "m_changing s" for t s
    using that by (auto simp: set_activeTray_def outermost_def tray_changed_def aural_tray_def Let_def split: option.split)
  have ls: "m_prevTab (loadSubtrees env s) = m_prevTab s \<and> m_prevTray (loadSubtrees env s) = m_prevTray s" if "m_changing s" for s
    using that by (auto simp: loadSubtrees_def resolve_subtrees_def subtrees_done_def outermost_def Let_def split: option.split)
  have ut: "m_prevTab (updateTabs s) = m_prevTab s \<and> m_prevTray (updateTabs s) = m_prevTray s"
    using assms sa by (auto simp: updateTabs_def Let_def split: option.split list.split)
  have "m_changing (updateTabs s)" using updateTabs_parts(1) [of s] assms by (simp add: model_part_eq)
  then show ?thesis
    using ut ls [of "updateBarAttributes (updateTrayOrientation env (updateTabs s))"]
    by (auto simp: tb_render_def Let_def updateBarAttributes_def updateTrayOrientation_def)
qed

lemma render_model: "model_part (tb_render env s) = model_part s"
proof -
  have "model_part (updateBarAttributes (updateTrayOrientation env (updateTabs s))) = model_part s"
    using updateTabs_parts(1) [of s] by (simp add: updateBarAttributes_def updateTrayOrientation_def model_part_eq)
  then show ?thesis using loadSubtrees_parts(1) by (auto simp: tb_render_def Let_def)
qed

lemma visual_change_drawn:
  fixes env b
  assumes "page_wf s" and "active_within (m_prevTab s) (m_prevTray s) s" and "v_visual s"
  defines "s' \<equiv> visual_change env b s"
  shows "tb_drawn env s' \<and> model_part s' = model_part s \<and> statics s' = statics s \<and> (tray_open_ok s \<longrightarrow> tray_open_ok s')"
proof -
  note r = render_drawn [OF assms(1,2), of env]
  note h = updateToolbarHeight_parts [of "tb_render env s"]
  have hd: "tb_drawn env (updateToolbarHeight (tb_render env s)) = tb_drawn env (tb_render env s)"
    using h by (intro drawn_parts) (simp_all add: tray_part_def)
  have "statics (updateToolbarHeight (tb_render env s)) = statics (tb_render env s)" using h(2) by (rule statics_look)
  moreover have "tray_open_ok (updateToolbarHeight (tb_render env s)) = tray_open_ok (tb_render env s)"
    using h(1,3) by (simp add: tray_open_ok_def tray_part_def model_part_eq)
  ultimately show ?thesis using r h(1) hd assms(3) by (auto simp: s'_def visual_change_def Let_def)
qed

lemma visual_change_prev:
  "m_changing s \<Longrightarrow> m_prevTab (visual_change env b s) = m_prevTab s \<and> m_prevTray (visual_change env b s) = m_prevTray s"
  using render_prev [of s env] render_model [of env s]
  by (auto simp: visual_change_def updateToolbarHeight_def outermost_def Let_def model_part_eq)

section \<open>Setters keep the page tb_drawn\<close>

definition snapshot :: "toolbar \<Rightarrow> toolbar" where
  "snapshot s = s\<lparr>m_prevTab := m_activeTab s, m_prevTray := m_activeTray s, m_changedOrientation := None, m_changedTab := None, m_changing := True\<rparr>"

text \<open>Between events: the views exist, nothing is being set and the page shows the model.\<close>

definition settled :: "tb_env \<Rightarrow> toolbar \<Rightarrow> bool" where
  "settled env s \<longleftrightarrow> tb_drawn env s \<and> tray_open_ok s \<and> \<not> m_changing s \<and> v_visual s"

lemma outermost_snapshot: "\<not> m_changing s \<Longrightarrow> outermost f s = (f (snapshot s))\<lparr>m_changing := False\<rparr>"
  by (simp add: outermost_def snapshot_def)

lemma drawn_unchanged [simp]:
  "tb_drawn env (s\<lparr>m_changing := b\<rparr>) = tb_drawn env s" "tb_drawn env (s\<lparr>p_broadcasts := bs\<rparr>) = tb_drawn env s"
  "tb_drawn env (s\<lparr>p_messages := ms\<rparr>) = tb_drawn env s" "tb_drawn env (snapshot s) = tb_drawn env s"
  by (rule drawn_cong; simp add: look_part_def snapshot_def)+

lemma tray_open_unchanged [simp]:
  "tray_open_ok (s\<lparr>m_changing := b\<rparr>) = tray_open_ok s" "tray_open_ok (s\<lparr>p_broadcasts := bs\<rparr>) = tray_open_ok s"
  "tray_open_ok (s\<lparr>p_messages := ms\<rparr>) = tray_open_ok s" "tray_open_ok (snapshot s) = tray_open_ok s"
  by (simp_all add: tray_open_ok_def snapshot_def)

lemma snapshot_simps [simp]:
  "m_changing (snapshot s)"
  "v_visual (snapshot s) = v_visual s" "v_others (snapshot s) = v_others s" "v_broadcast (snapshot s) = v_broadcast s"
  "v_done (snapshot s) = v_done s" "m_prevTab (snapshot s) = m_activeTab s"
  "m_prevTray (snapshot s) = m_activeTray s" "m_activeTab (snapshot s) = m_activeTab s" "m_activeTray (snapshot s) = m_activeTray s"
  "m_orientation (snapshot s) = m_orientation s" "m_locked (snapshot s) = m_locked s" "m_isOriented (snapshot s) = m_isOriented s"
  "m_toggleVisible (snapshot s) = m_toggleVisible s" "m_isFixed (snapshot s) = m_isFixed s" "d_fixed (snapshot s) = d_fixed s"
  "d_tabs (snapshot s) = d_tabs s" "d_trays (snapshot s) = d_trays s" "p_storage (snapshot s) = p_storage s"
  "m_areSubtreesLoaded (snapshot s) = m_areSubtreesLoaded s" "p_resolved (snapshot s) = p_resolved s"
  by (simp_all add: snapshot_def)

lemma drawn_within: "tb_drawn env s \<Longrightarrow> active_within (m_activeTab s) (m_activeTray s) s \<and> page_wf s"
  unfolding tb_drawn_def using exactly_within by blast

text \<open>
  After attributes \<open>s1\<close> have been set in a settled state \<open>s\<close>, drawing shows them; so does drawing once more.
\<close>

lemma redraw:
  assumes "settled env s" and "look_part s1 = look_part s" "tray_part s1 = tray_part s" "v_visual s1" "v_others s1 = v_others s"
    and "m_prevTab s1 = m_activeTab s" "m_prevTray s1 = m_activeTray s"
    and "\<forall>k. m_activeTab s1 = Some k \<longrightarrow> k < length (d_tabs s)"
  shows "tb_drawn env (visual_change env b s1) \<and> tray_open_ok (visual_change env b s1) \<and> model_part (visual_change env b s1) = model_part s1 \<and>
    statics (visual_change env b s1) = statics s"
proof -
  have eq: "d_tabs s1 = d_tabs s" "d_trays s1 = d_trays s" using assms(2) by (simp_all add: look_part_eq)
  have d: "tb_drawn env s" using assms(1) by (simp add: settled_def)
  have "page_wf s1" using drawn_within [OF d] assms(8) unfolding page_wf_def eq by blast
  moreover have "active_within (m_prevTab s1) (m_prevTray s1) s1" using drawn_within [OF d] unfolding active_within_def eq assms(6,7) by blast
  moreover have "tray_open_ok s1" using assms(1,3,5) by (simp add: settled_def tray_open_ok_def tray_part_def)
  ultimately show ?thesis using visual_change_drawn [OF _ _ assms(4), of env b] statics_look [OF assms(2)] by simp
qed

lemma set_activeTab_settled:
  assumes "settled env s" and "\<forall>k. tab = Some k \<longrightarrow> k < length (d_tabs s)"
  shows "settled env (set_activeTab env tab s) \<and> model_part (set_activeTab env tab s) = model_part (s\<lparr>m_activeTab := tab\<rparr>) \<and>
    statics (set_activeTab env tab s) = statics s"
proof (cases "m_activeTab s = tab")
  case True
  have "\<not> m_changing s" using assms(1) by (simp add: settled_def)
  moreover have "(snapshot s)\<lparr>m_activeTab := tab, m_changedTab := None\<rparr> = snapshot s" using True by (simp add: snapshot_def)
  ultimately have "set_activeTab env tab s = (snapshot s)\<lparr>m_changing := False\<rparr>"
    using True by (simp add: set_activeTab_def outermost_snapshot Let_def)
  then show ?thesis
    using assms(1) True by (simp add: settled_def) (simp add: model_part_def statics_def snapshot_def)
next
  case False
  define s1 where "s1 = (snapshot s)\<lparr>m_activeTab := tab, m_changedTab := tab\<rparr>"
  define v where "v = visual_change env True s1"
  have vis: "v_visual s" using assms(1) by (simp add: settled_def)
  have v: "tb_drawn env v" "tray_open_ok v" "model_part v = model_part s1" "statics v = statics s"
    unfolding v_def using redraw [OF assms(1), of s1 True] assms(2) vis
    by (simp_all add: s1_def look_part_def tray_part_def snapshot_def)
  obtain bs where r: "set_activeTab env tab s = v\<lparr>p_broadcasts := bs, m_changing := False\<rparr>"
  proof -
    have "set_activeTab env tab s = (if v_broadcast v then v\<lparr>p_broadcasts := p_broadcasts v @ [Tab_broadcast tab]\<rparr> else v)\<lparr>m_changing := False\<rparr>"
      using False assms(1) by (simp add: settled_def set_activeTab_def outermost_snapshot Let_def s1_def v_def)
    then show ?thesis using that [of "p_broadcasts (if v_broadcast v then v\<lparr>p_broadcasts := p_broadcasts v @ [Tab_broadcast tab]\<rparr> else v)"]
      by (cases "v_broadcast v") simp_all
  qed
  have "settled env (set_activeTab env tab s)"
    using v assms(1) by (simp add: r settled_def model_part_eq s1_def)
  moreover have "model_part (set_activeTab env tab s) = model_part (s\<lparr>m_activeTab := tab\<rparr>)"
    using v(3) assms(1) by (simp add: r model_part_eq s1_def settled_def)
  ultimately show ?thesis using v(4) by (simp add: r statics_def)
qed

lemma set_orientation_settled:
  fixes locked :: "bool option"
  assumes "settled env s" and "validate override oo s"
  defines "l \<equiv> (case locked of None \<Rightarrow> m_locked s | Some l \<Rightarrow> l)"
  shows "settled env (set_orientation env override locked oo s) \<and>
    model_part (set_orientation env override locked oo s) = model_part (s\<lparr>m_locked := l, m_orientation := oo\<rparr>) \<and>
    statics (set_orientation env override locked oo s) = statics s"
proof -
  have nc: "\<not> m_changing s" and vis: "v_visual s" using assms(1) by (simp_all add: settled_def)
  have eq: "(case locked of None \<Rightarrow> snapshot s | Some l \<Rightarrow> (snapshot s)\<lparr>m_locked := l\<rparr>) = (snapshot s)\<lparr>m_locked := l\<rparr>"
    by (simp add: l_def split: option.split)
  show ?thesis
  proof (cases "m_orientation s = oo")
    case True
    then have r: "set_orientation env override locked oo s = (snapshot s)\<lparr>m_locked := l, m_changing := False\<rparr>"
      using assms(2) nc by (simp add: set_orientation_def outermost_snapshot Let_def eq)
    have "tb_drawn env ((snapshot s)\<lparr>m_locked := l, m_changing := False\<rparr>) = tb_drawn env s"
      by (rule drawn_cong) (simp_all add: look_part_def snapshot_def)
    then show ?thesis using assms(1) True by (simp add: r settled_def tray_open_ok_def) (simp add: model_part_def statics_def snapshot_def)
  next
    case False
    define s1 where "s1 = (snapshot s)\<lparr>m_locked := l, m_orientation := oo, m_changedOrientation := Some oo\<rparr>"
    define v where "v = visual_change env True s1"
    have v: "tb_drawn env v" "tray_open_ok v" "model_part v = model_part s1" "statics v = statics s"
      unfolding v_def using redraw [OF assms(1), of s1 True] vis drawn_within [of env s] assms(1)
      by (simp_all add: s1_def look_part_def tray_part_def snapshot_def settled_def page_wf_def)
    obtain ms bs where r: "set_orientation env override locked oo s = v\<lparr>p_messages := ms, p_broadcasts := bs, m_changing := False\<rparr>"
    proof -
      have "set_orientation env override locked oo s = (orientation_changed env oo s1)\<lparr>m_changing := False\<rparr>"
        using False assms(2) nc by (simp add: set_orientation_def outermost_snapshot Let_def eq s1_def)
      moreover have "\<exists>ms bs. orientation_changed env oo s1 = v\<lparr>p_messages := ms, p_broadcasts := bs\<rparr>"
        by (rule exI [of _ "p_messages (orientation_changed env oo s1)"], rule exI [of _ "p_broadcasts (orientation_changed env oo s1)"])
          (simp add: orientation_changed_def Let_def v_def)
      ultimately show ?thesis using that by auto
    qed
    have "settled env (set_orientation env override locked oo s)"
      using v vis by (simp add: r settled_def model_part_eq s1_def)
    moreover have "model_part (set_orientation env override locked oo s) = model_part (s\<lparr>m_locked := l, m_orientation := oo\<rparr>)"
      using v(3) nc by (simp add: r model_part_eq s1_def)
    ultimately show ?thesis using v(4) by (simp add: r statics_def)
  qed
qed

lemma set_toggleVisible_settled:
  assumes "settled env s"
  shows "settled env (set_toggleVisible env shown s) \<and> model_part (set_toggleVisible env shown s) = model_part (s\<lparr>m_toggleVisible := shown\<rparr>) \<and>
    statics (set_toggleVisible env shown s) = statics s"
proof -
  have nc: "\<not> m_changing s" and vis: "v_visual s" using assms(1) by (simp_all add: settled_def)
  define s1 where "s1 = (snapshot s)\<lparr>m_toggleVisible := shown\<rparr>"
  have v: "tb_drawn env (visual_change env False s1)" "tray_open_ok (visual_change env False s1)"
    "model_part (visual_change env False s1) = model_part s1" "statics (visual_change env False s1) = statics s"
    using redraw [OF assms(1), of s1 False] vis drawn_within [of env s] assms(1)
    by (simp_all add: s1_def look_part_def tray_part_def snapshot_def settled_def page_wf_def)
  have r: "set_toggleVisible env shown s = (if m_toggleVisible s \<noteq> shown then visual_change env False s1 else snapshot s)\<lparr>m_changing := False\<rparr>"
    using nc by (simp add: set_toggleVisible_def outermost_snapshot s1_def)
  show ?thesis
  proof (cases "m_toggleVisible s = shown")
    case True
    then show ?thesis using assms by (simp add: r settled_def) (simp add: model_part_def statics_def snapshot_def)
  next
    case False
    then show ?thesis using v nc vis by (simp add: r settled_def model_part_eq s1_def) (simp add: statics_def)
  qed
qed

lemma set_narrow_settled:
  assumes "settled env s"
  shows "settled env (set_narrow env oriented s) \<and>
    model_part (set_narrow env oriented s) = model_part (s\<lparr>m_isOriented := oriented, m_toggleVisible := False\<rparr>) \<and>
    statics (set_narrow env oriented s) = statics s"
proof -
  have nc: "\<not> m_changing s" and vis: "v_visual s" and d: "tb_drawn env s" using assms(1) by (simp_all add: settled_def)
  define s1 where "s1 = (snapshot s)\<lparr>m_isOriented := oriented, m_toggleVisible := False\<rparr>"
  have s1: "look_part s1 = look_part s" "tray_part s1 = tray_part s" "v_visual s1" "v_others s1 = v_others s"
    "m_prevTab s1 = m_activeTab s" "m_prevTray s1 = m_activeTray s" "\<forall>k. m_activeTab s1 = Some k \<longrightarrow> k < length (d_tabs s)" "m_changing s1"
    using vis drawn_within [OF d] by (simp_all add: s1_def look_part_def tray_part_def snapshot_def page_wf_def)
  define good where "good v \<longleftrightarrow> tb_drawn env v \<and> tray_open_ok v \<and> model_part v = model_part s1 \<and> statics v = statics s" for v
  have one: "good (visual_change env b s1)" for b using redraw [OF assms s1(1-7), of b] by (simp add: good_def)
  have two: "good (visual_change env False (visual_change env True s1))"
  proof -
    define v where "v = visual_change env True s1"
    have g: "tb_drawn env v" "tray_open_ok v" "model_part v = model_part s1" "statics v = statics s" using one [of True] by (simp_all add: good_def v_def)
    have p: "m_prevTab v = m_activeTab s" "m_prevTray v = m_activeTray s" using visual_change_prev [OF s1(8), of env True] s1(5,6) by (simp_all add: v_def)
    have tab: "m_activeTab v = m_activeTab s" using g(3) by (simp add: model_part_eq s1_def)
    have "m_activeTray v = tray_of v (m_activeTab v)" "m_activeTray s = tray_of s (m_activeTab s)" using g(1) d by (simp_all add: tb_drawn_def)
    moreover have "tray_of v (m_activeTab s) = tray_of s (m_activeTab s)"
      using tray_of_statics [OF g(4), of "m_activeTab s"] drawn_within [OF d] statics_lengths(1) [OF g(4)] by (simp add: page_wf_def)
    ultimately have tray: "m_activeTray v = m_activeTray s" using tab by simp
    have "active_within (m_prevTab v) (m_prevTray v) v" "page_wf v" using drawn_within [OF g(1)] by (simp_all add: p tab tray)
    moreover have "v_visual v" using g(3) s1(3) by (simp add: model_part_eq)
    ultimately show ?thesis using visual_change_drawn [of v env False] g unfolding good_def v_def [symmetric] by simp
  qed
  have r: "set_narrow env oriented s =
      (let s2 = (if m_isOriented s \<noteq> oriented then visual_change env True s1 else s1)
       in if m_toggleVisible s then visual_change env False s2 else s2)\<lparr>m_changing := False\<rparr>"
    using nc by (simp add: set_narrow_def outermost_snapshot s1_def Let_def)
  show ?thesis
  proof (cases "m_isOriented s = oriented \<and> \<not> m_toggleVisible s")
    case True
    then have "s1 = snapshot s" by (simp add: s1_def snapshot_def)
    with True have "set_narrow env oriented s = (snapshot s)\<lparr>m_changing := False\<rparr>" by (simp add: r)
    then show ?thesis using assms True by (simp add: settled_def) (simp add: model_part_def statics_def snapshot_def)
  next
    case False
    then obtain v where v: "good v" "set_narrow env oriented s = v\<lparr>m_changing := False\<rparr>"
      using one two by (cases "m_isOriented s = oriented"; cases "m_toggleVisible s") (auto simp: r Let_def)
    then show ?thesis using nc vis by (simp add: good_def settled_def model_part_eq s1_def) (simp add: statics_def)
  qed
qed

lemma set_isFixed_settled:
  assumes "settled env s" and "v_others s" and "d_fixed s = m_isFixed s"
  shows "settled env (set_isFixed fixed s) \<and> model_part (set_isFixed fixed s) = model_part (s\<lparr>m_isFixed := fixed, d_fixed := fixed\<rparr>) \<and>
    statics (set_isFixed fixed s) = statics s"
proof -
  have r: "set_isFixed fixed s = (snapshot s)\<lparr>m_isFixed := fixed, d_fixed := fixed, m_changing := False\<rparr>"
    using assms by (auto simp: set_isFixed_def outermost_snapshot Let_def isToolbarFixed_def settled_def snapshot_def)
  have "tb_drawn env ((snapshot s)\<lparr>m_isFixed := fixed, d_fixed := fixed, m_changing := False\<rparr>) = tb_drawn env s"
    by (rule drawn_cong) (simp_all add: look_part_def snapshot_def)
  then show ?thesis using assms by (simp add: r settled_def tray_open_ok_def) (simp add: model_part_def statics_def snapshot_def)
qed

lemma resolve_settled:
  assumes "settled env s"
  shows "settled env (resolve_subtrees v s) \<and> model_part (resolve_subtrees v s) = model_part s \<and> statics (resolve_subtrees v s) = statics s"
proof -
  note r = resolve_parts [of v s]
  have "tb_drawn env (resolve_subtrees v s) = tb_drawn env s" using r by (intro drawn_parts) (simp_all add: tray_part_def)
  then show ?thesis using r assms statics_look [OF r(2)] by (simp add: settled_def tray_open_ok_def tray_part_def model_part_eq)
qed

section \<open>Events\<close>

definition handled :: "tb_label \<Rightarrow> bool \<Rightarrow> toolbar \<Rightarrow> toolbar" where
  "handled l m s =
     (case l of
        Narrow \<Rightarrow> s\<lparr>m_isOriented := m, m_toggleVisible := False, m_orientation := if m then m_orientation s else Vertical\<rparr>
      | Standard \<Rightarrow> s\<lparr>m_isFixed := m, d_fixed := m\<rparr>
      | Wide \<Rightarrow> s\<lparr>m_orientation := if m \<and> \<not> m_locked s then Horizontal else Vertical, m_toggleVisible := m\<rparr>)"

definition ready :: "tb_env \<Rightarrow> toolbar \<Rightarrow> bool" where
  "ready env s \<longleftrightarrow> settled env s \<and> v_others s \<and> d_fixed s = m_isFixed s"

lemma validate_vertical [simp]: "validate override Vertical s"
  by (simp add: validate_def)

lemma media_handled:
  assumes "ready env s"
  shows "ready env (mediaQueryChangeHandler env l m s) \<and> model_part (mediaQueryChangeHandler env l m s) = model_part (handled l m s) \<and>
    statics (mediaQueryChangeHandler env l m s) = statics s"
proof (cases l)
  case Narrow
  have s: "settled env s" using assms by (simp add: ready_def)
  note n = set_narrow_settled [OF s, of m]
  show ?thesis
  proof (cases m)
    case True
    then show ?thesis using n assms Narrow by (simp add: Let_def ready_def handled_def model_part_eq)
  next
    case False
    with n set_orientation_settled [of env "set_narrow env m s" False Vertical None] assms Narrow show ?thesis
      by (simp add: Let_def ready_def handled_def model_part_eq)
  qed
next
  case Standard
  with assms set_isFixed_settled [of env s m] show ?thesis by (simp add: ready_def handled_def model_part_eq)
next
  case Wide
  let ?o = "if m \<and> \<not> m_locked s then Horizontal else Vertical"
  have s: "settled env s" using assms by (simp add: ready_def)
  have "validate False ?o s" by (simp add: validate_def)
  note so = set_orientation_settled [OF s this, of None]
  with set_toggleVisible_settled [of env "set_orientation env False None ?o s" m] assms Wide show ?thesis
    by (simp add: Let_def ready_def handled_def model_part_eq)
qed

text \<open>The state of the model is a function of the media queries and the lock.\<close>

definition follows_media :: "media \<Rightarrow> toolbar \<Rightarrow> bool" where
  "follows_media mq s \<longleftrightarrow>
     m_orientation s = (if mq_wide mq \<and> \<not> m_locked s then Horizontal else Vertical) \<and> m_toggleVisible s = mq_wide mq \<and>
     m_isOriented s = mq_narrow mq \<and> m_isFixed s = mq_standard mq \<and> st_locked (p_storage s) = m_locked s"

definition tb_inv :: "tb_env \<Rightarrow> media \<times> toolbar \<Rightarrow> bool" where
  "tb_inv env p \<longleftrightarrow> ready env (snd p) \<and> nested_media (fst p) \<and> follows_media (fst p) (snd p)"

definition handle_if :: "tb_env \<Rightarrow> tb_label \<Rightarrow> bool \<Rightarrow> bool \<Rightarrow> toolbar \<Rightarrow> toolbar" where
  "handle_if env l old new s = (if old \<noteq> new then mediaQueryChangeHandler env l new s else s)"

lemma handle_if_handled:
  assumes "ready env s"
  shows "ready env (handle_if env l old new s) \<and> statics (handle_if env l old new s) = statics s \<and>
    model_part (handle_if env l old new s) = model_part (if old \<noteq> new then handled l new s else s)"
  using media_handled [OF assms, of l new] assms by (simp add: handle_if_def)

lemma resize_inv:
  assumes "tb_inv env (old, s)" and "nested_media new"
  shows "tb_inv env (new, resize env old new s) \<and> statics (resize env old new s) = statics s"
proof -
  define s1 where "s1 = handle_if env Narrow (mq_narrow old) (mq_narrow new) s"
  define s2 where "s2 = handle_if env Standard (mq_standard old) (mq_standard new) s1"
  define s3 where "s3 = handle_if env Wide (mq_wide old) (mq_wide new) s2"
  have r: "resize env old new s = s3" by (simp add: resize_def Let_def s1_def s2_def s3_def handle_if_def)
  have rd: "ready env s" using assms(1) by (simp add: tb_inv_def)
  have 1: "ready env s1" "statics s1 = statics s" "model_part s1 = model_part (if mq_narrow old \<noteq> mq_narrow new then handled Narrow (mq_narrow new) s else s)"
    using handle_if_handled [OF rd] by (simp_all add: s1_def)
  have 2: "ready env s2" "statics s2 = statics s1" "model_part s2 = model_part (if mq_standard old \<noteq> mq_standard new then handled Standard (mq_standard new) s1 else s1)"
    using handle_if_handled [OF 1(1)] by (simp_all add: s2_def)
  have 3: "ready env s3" "statics s3 = statics s2" "model_part s3 = model_part (if mq_wide old \<noteq> mq_wide new then handled Wide (mq_wide new) s2 else s2)"
    using handle_if_handled [OF 2(1)] by (simp_all add: s3_def)
  have f: "follows_media old s" "nested_media old" using assms(1) by (simp_all add: tb_inv_def)
  have f1: "m_locked s1 = m_locked s" "st_locked (p_storage s1) = st_locked (p_storage s)" "m_isFixed s1 = m_isFixed s"
    "m_isOriented s1 = (if mq_narrow old \<noteq> mq_narrow new then mq_narrow new else m_isOriented s)"
    "m_toggleVisible s1 = (mq_narrow old = mq_narrow new \<and> m_toggleVisible s)"
    "m_orientation s1 = (if mq_narrow old \<noteq> mq_narrow new \<and> \<not> mq_narrow new then Vertical else m_orientation s)"
    using 1(3) by (cases "mq_narrow old = mq_narrow new"; simp add: model_part_eq handled_def)+
  have f2: "m_locked s2 = m_locked s1" "st_locked (p_storage s2) = st_locked (p_storage s1)" "m_isOriented s2 = m_isOriented s1"
    "m_toggleVisible s2 = m_toggleVisible s1" "m_orientation s2 = m_orientation s1"
    "m_isFixed s2 = (if mq_standard old \<noteq> mq_standard new then mq_standard new else m_isFixed s1)"
    using 2(3) by (cases "mq_standard old = mq_standard new"; simp add: model_part_eq handled_def)+
  have f3: "m_locked s3 = m_locked s2" "st_locked (p_storage s3) = st_locked (p_storage s2)" "m_isOriented s3 = m_isOriented s2"
    "m_isFixed s3 = m_isFixed s2" "m_toggleVisible s3 = (if mq_wide old \<noteq> mq_wide new then mq_wide new else m_toggleVisible s2)"
    "m_orientation s3 = (if mq_wide old \<noteq> mq_wide new then if mq_wide new \<and> \<not> m_locked s2 then Horizontal else Vertical else m_orientation s2)"
    using 3(3) by (cases "mq_wide old = mq_wide new"; simp add: model_part_eq handled_def)+
  have "follows_media new s3"
    unfolding follows_media_def f3 f2 f1 using f assms(2) unfolding follows_media_def nested_media_def by (simp; blast)
  then show ?thesis using 1(2) 2(2) 3(1,2) assms(2) by (simp add: r tb_inv_def)
qed

lemma adjustPlacement_id:
  assumes "tb_inv env (mq, s)"
  shows "adjustPlacement s = s"
proof (cases "m_isOriented s")
  case False
  then have "m_orientation s = Vertical" using assms by (auto simp: tb_inv_def follows_media_def nested_media_def)
  then have "list_all (drawn_tray env Vertical) (d_trays s)" using assms by (simp add: tb_inv_def ready_def settled_def tb_drawn_def)
  then have "map (\<lambda>y. y\<lparr>ty_horizontal := False, ty_vertical := True\<rparr>) (d_trays s) = d_trays s"
    by (auto simp: list_all_iff drawn_tray_def intro!: map_idI)
  then show ?thesis by (simp add: adjustPlacement_def)
qed (simp add: adjustPlacement_def)

lemma set_activeTab_inv:
  assumes "tb_inv env (mq, s)" and "\<forall>k. tab = Some k \<longrightarrow> k < length (d_tabs s)"
  shows "tb_inv env (mq, set_activeTab env tab s) \<and> statics (set_activeTab env tab s) = statics s \<and> m_activeTab (set_activeTab env tab s) = tab"
proof -
  have s: "settled env s" using assms(1) by (simp add: tb_inv_def ready_def)
  show ?thesis using set_activeTab_settled [OF s assms(2)] assms(1)
    by (simp add: tb_inv_def ready_def follows_media_def model_part_eq)
qed

lemma toggle_inv:
  assumes "tb_inv env (mq, s)" and "d_toggle_shown s"
  shows "tb_inv env (mq, onOrientationToggleClick env s) \<and> statics (onOrientationToggleClick env s) = statics s"
proof -
  let ?o = "anti (m_orientation s)"
  let ?s = "s\<lparr>p_storage := (p_storage s)\<lparr>st_locked := (?o = Vertical)\<rparr>\<rparr>"
  have d: "tb_drawn env ?s = tb_drawn env s" by (rule drawn_cong) (simp_all add: look_part_def)
  have s: "settled env ?s" using assms(1) d by (simp add: tb_inv_def ready_def settled_def tray_open_ok_def)
  have w: "mq_wide mq" using assms unfolding tb_inv_def ready_def settled_def tb_drawn_def follows_media_def by (metis fst_conv snd_conv)
  have "validate True ?o ?s" by (simp add: validate_def)
  note so = set_orientation_settled [OF s this, of "Some (?o = Vertical)"]
  show ?thesis using so assms(1) w
    by (auto simp: onOrientationToggleClick_def Let_def tb_inv_def ready_def follows_media_def model_part_eq anti_def statics_def split: if_splits)
qed

lemma step_inv:
  assumes "tb_inv env p" and "\<forall>new. e = Resize new \<longrightarrow> nested_media new"
  shows "tb_inv env (toolbar_step env e p) \<and> statics (snd (toolbar_step env e p)) = statics (snd p)"
proof (cases p)
  case (Pair mq s)
  have inv: "tb_inv env (mq, s)" using assms(1) Pair by simp
  show ?thesis
  proof (cases e)
    case (Resize new)
    then show ?thesis using resize_inv [OF inv] assms(2) Pair by simp
  next
    case (Tab_click i)
    then show ?thesis using set_activeTab_inv [OF inv] inv Pair by (auto simp: onTabClick_def)
  next
    case Toggle_click
    then show ?thesis using toggle_inv [OF inv] inv Pair by simp
  next
    case Link_click
    then show ?thesis using set_activeTab_inv [OF inv, of None] inv Pair by (simp add: linkClickHandler_def)
  next
    case (Subtrees_arrive v)
    have "settled env s" using inv by (simp add: tb_inv_def ready_def)
    from resolve_settled [OF this, of v] show ?thesis
      using inv Pair Subtrees_arrive by (simp add: tb_inv_def ready_def follows_media_def model_part_eq)
  next
    case Offsets_change
    then show ?thesis using adjustPlacement_id [OF inv] inv Pair by simp
  qed
qed

section \<open>Attaching\<close>

definition fresh_toolbar :: "tb_tab list \<Rightarrow> tb_tray list \<Rightarrow> bool" where
  "fresh_toolbar tabs trays \<longleftrightarrow>
     list_all (\<lambda>t. \<not> tt_active t \<and> \<not> tt_pressed t) tabs \<and> list_all (\<lambda>y. \<not> ty_active y) trays \<and>
     distinct (map ty_name trays) \<and> list_ex ty_menu trays"

text \<open>Before the views exist, the handlers only set attributes.\<close>

lemma visual_change_none: "\<not> v_visual s \<Longrightarrow> visual_change env b s = s"
  by (simp add: visual_change_def)

definition bare :: "tb_tab list \<Rightarrow> tb_tray list \<Rightarrow> toolbar \<Rightarrow> bool" where
  "bare tabs trays s \<longleftrightarrow>
     d_tabs s = tabs \<and> d_trays s = trays \<and> \<not> m_changing s \<and> \<not> v_visual s \<and> \<not> v_others s \<and> \<not> v_broadcast s \<and> m_activeTray s = None"

lemma bare_narrow:
  assumes "bare tabs trays s"
  shows "bare tabs trays (set_narrow env m s) \<and> m_activeTab (set_narrow env m s) = m_activeTab s \<and> m_isOriented (set_narrow env m s) = m \<and>
    m_isFixed (set_narrow env m s) = m_isFixed s \<and> m_locked (set_narrow env m s) = m_locked s \<and> p_storage (set_narrow env m s) = p_storage s"
  using assms by (simp add: bare_def set_narrow_def outermost_def Let_def visual_change_none)

lemma bare_orientation:
  assumes "bare tabs trays s" and "validate False oo s"
  shows "bare tabs trays (set_orientation env False None oo s) \<and> m_activeTab (set_orientation env False None oo s) = m_activeTab s \<and>
    m_isOriented (set_orientation env False None oo s) = m_isOriented s \<and> m_orientation (set_orientation env False None oo s) = oo \<and>
    m_isFixed (set_orientation env False None oo s) = m_isFixed s \<and> m_locked (set_orientation env False None oo s) = m_locked s \<and>
    p_storage (set_orientation env False None oo s) = p_storage s"
  using assms by (simp add: bare_def set_orientation_def orientation_changed_def outermost_def Let_def visual_change_none)

lemma bare_visible:
  assumes "bare tabs trays s"
  shows "bare tabs trays (set_toggleVisible env m s) \<and> m_activeTab (set_toggleVisible env m s) = m_activeTab s \<and>
    m_isOriented (set_toggleVisible env m s) = m_isOriented s \<and> m_orientation (set_toggleVisible env m s) = m_orientation s \<and>
    m_isFixed (set_toggleVisible env m s) = m_isFixed s \<and> m_locked (set_toggleVisible env m s) = m_locked s \<and>
    m_toggleVisible (set_toggleVisible env m s) = m \<and> p_storage (set_toggleVisible env m s) = p_storage s"
  using assms by (simp add: bare_def set_toggleVisible_def outermost_def Let_def visual_change_none)

lemma bare_fixed:
  assumes "bare tabs trays s"
  shows "bare tabs trays (set_isFixed m s) \<and> m_activeTab (set_isFixed m s) = m_activeTab s \<and> m_isOriented (set_isFixed m s) = m_isOriented s \<and>
    m_isFixed (set_isFixed m s) = m \<and> m_locked (set_isFixed m s) = m_locked s \<and> p_storage (set_isFixed m s) = p_storage s"
  using assms by (simp add: bare_def set_isFixed_def outermost_def Let_def)

lemma first_handlers_bare:
  fixes env tabs trays st
  assumes "nested_media mq"
  defines "s \<equiv> first_handlers env mq (new_model tabs trays st)"
  shows "bare tabs trays s \<and> follows_media mq s \<and> m_activeTab s = m_activeTab (new_model tabs trays st)"
proof -
  define s0 where "s0 = new_model tabs trays st"
  define s1 where "s1 = set_narrow env (mq_narrow mq) s0"
  define s2 where "s2 = (if \<not> mq_narrow mq then set_orientation env False None Vertical s1 else s1)"
  define s3 where "s3 = set_isFixed (mq_standard mq) s2"
  define s4 where "s4 = set_orientation env False None (if mq_wide mq \<and> \<not> m_locked s3 then Horizontal else Vertical) s3"
  have s: "s = set_toggleVisible env (mq_wide mq) s4"
    by (simp add: s_def first_handlers_def Let_def s0_def s1_def s2_def s3_def s4_def)
  have 0: "bare tabs trays s0" "p_storage s0 = st" "m_locked s0 = st_locked st" by (simp_all add: s0_def new_model_def Let_def bare_def)
  have 1: "bare tabs trays s1 \<and> m_activeTab s1 = m_activeTab s0 \<and> m_isOriented s1 = mq_narrow mq \<and> m_locked s1 = m_locked s0 \<and> p_storage s1 = st"
    using bare_narrow [OF 0(1)] 0 by (simp add: s1_def)
  then have 2: "bare tabs trays s2 \<and> m_activeTab s2 = m_activeTab s0 \<and> m_isOriented s2 = mq_narrow mq \<and> m_locked s2 = m_locked s0 \<and> p_storage s2 = st"
    using bare_orientation [of tabs trays s1 Vertical env] by (simp add: s2_def)
  then have 3: "bare tabs trays s3 \<and> m_activeTab s3 = m_activeTab s0 \<and> m_isOriented s3 = mq_narrow mq \<and> m_locked s3 = m_locked s0 \<and> p_storage s3 = st \<and>
      m_isFixed s3 = mq_standard mq"
    using bare_fixed [of tabs trays s2] by (simp add: s3_def)
  have "validate False (if mq_wide mq \<and> \<not> m_locked s3 then Horizontal else Vertical) s3" by (simp add: validate_def)
  with 3 have 4: "bare tabs trays s4 \<and> m_activeTab s4 = m_activeTab s0 \<and> m_isOriented s4 = mq_narrow mq \<and> m_locked s4 = m_locked s0 \<and> p_storage s4 = st \<and>
      m_isFixed s4 = mq_standard mq \<and> m_orientation s4 = (if mq_wide mq \<and> \<not> m_locked s0 then Horizontal else Vertical)"
    using bare_orientation [of tabs trays s3 _ env] by (simp add: s4_def)
  then show ?thesis
    using bare_visible [of tabs trays s4 env "mq_wide mq"] 0 by (simp add: s follows_media_def s0_def)
qed

lemma start_views_ready:
  assumes "bare tabs trays s" and "fresh_toolbar tabs trays" and "follows_media mq s" and "\<forall>k. m_activeTab s = Some k \<longrightarrow> k < length tabs"
  shows "ready env (start_views env s) \<and> follows_media mq (start_views env s) \<and> statics (start_views env s) = (map tt_tray tabs, map ty_name trays)"
proof -
  define s0 where "s0 = s\<lparr>v_visual := True\<rparr>"
  define v where "v = visual_change env True s0"
  define w where "w = isToolbarFixed (v\<lparr>v_others := True\<rparr>)"
  have "page_wf s0" "active_within (m_prevTab s0) (m_prevTray s0) s0" "v_visual s0"
    using assms by (simp_all add: s0_def bare_def fresh_toolbar_def page_wf_def active_within_def list_all_length)
  from visual_change_drawn [OF this, of env True]
  have v: "tb_drawn env v" "model_part v = model_part s0" "statics v = statics s0" by (simp_all add: v_def)
  have sv: "start_views env s = tray_changed (m_activeTray w) w" by (simp add: start_views_def Let_def w_def v_def s0_def)
  have w: "tb_drawn env w" "v_others w" "m_activeTray w = m_activeTray v" "d_fixed w = m_isFixed w" "statics w = statics v" "\<not> m_changing w" "v_visual w"
    "follows_media mq w" "\<not> v_broadcast w"
  proof -
    have "tb_drawn env w = tb_drawn env v" by (rule drawn_cong) (simp_all add: w_def isToolbarFixed_def look_part_def)
    then show "tb_drawn env w" using v(1) by simp
    show "v_others w" "m_activeTray w = m_activeTray v" "d_fixed w = m_isFixed w" "statics w = statics v" by (simp_all add: w_def isToolbarFixed_def statics_def)
    show "\<not> m_changing w" "v_visual w" "follows_media mq w" "\<not> v_broadcast w"
      using v(2) assms(1,3) by (simp_all add: w_def isToolbarFixed_def model_part_eq s0_def bare_def follows_media_def)
  qed
  obtain ms where t: "tray_changed (m_activeTray w) w = w\<lparr>p_messages := ms, d_tray_open := (m_activeTray w \<noteq> None)\<rparr>"
  proof -
    have "tray_changed (m_activeTray w) w = (aural_tray (m_activeTray w) w)\<lparr>d_tray_open := (m_activeTray w \<noteq> None)\<rparr>"
      using w(2,9) by (auto simp: tray_changed_def Let_def aural_tray_def split: option.split)
    moreover have "\<exists>ms. aural_tray (m_activeTray w) w = w\<lparr>p_messages := ms\<rparr>"
      by (rule exI [of _ "p_messages (aural_tray (m_activeTray w) w)"]) (simp add: aural_tray_def Let_def split: option.split)
    ultimately show ?thesis using that by auto
  qed
  have d: "tb_drawn env (w\<lparr>p_messages := ms, d_tray_open := (m_activeTray w \<noteq> None)\<rparr>) = tb_drawn env w" by (rule drawn_cong) (simp_all add: look_part_def)
  have "statics s0 = (map tt_tray tabs, map ty_name trays)" using assms(1) by (simp add: s0_def bare_def statics_def)
  then show ?thesis
    unfolding sv t using w(1,2,4-8) v(3) d by (simp add: ready_def settled_def tray_open_ok_def follows_media_def statics_def)
qed

lemma parts_ready:
  assumes "ready env s" "follows_media mq s" "model_part s' = model_part s" "look_part s' = look_part s" "tray_part s' = tray_part s"
  shows "ready env s' \<and> follows_media mq s' \<and> statics s' = statics s"
proof -
  have "tb_drawn env s' = tb_drawn env s" using assms(3-5) by (intro drawn_parts) (simp_all add: tray_part_def)
  then show ?thesis using assms statics_look [OF assms(4)]
    by (simp add: ready_def settled_def tray_open_ok_def tray_part_def follows_media_def model_part_eq)
qed

lemma find_lt: "find P [0..<n] = Some k \<Longrightarrow> k < n"
  using find_Some_member [of P "[0..<n]" k] by simp

lemma attach_inv:
  assumes "toolbar_attach env mq first tabs trays st = Inr s" and "fresh_toolbar tabs trays" and "nested_media mq" and "first < length tabs"
  shows "tb_inv env (mq, s) \<and> statics s = (map tt_tray tabs, map ty_name trays)"
proof -
  define s0 where "s0 = first_handlers env mq (new_model tabs trays st)"
  define s1 where "s1 = start_views env s0"
  define s2 where "s2 = loadSubtrees env (register_done s1)"
  define s3 where "s3 = s2\<lparr>v_broadcast := True\<rparr>"
  have s: "s = (if m_orientation s3 = Horizontal \<and> m_activeTab s3 = None then set_activeTab env (Some first) s3 else s3)"
  proof -
    have "toolbar_attach env mq first tabs trays st = Inr (if m_orientation s3 = Horizontal \<and> m_activeTab s3 = None then set_activeTab env (Some first) s3 else s3)"
      using assms(2) by (simp add: toolbar_attach_def fresh_toolbar_def Let_def s0_def s1_def s2_def s3_def)
    with assms(1) show ?thesis by (simp only: sum.inject)
  qed
  have 0: "bare tabs trays s0" "follows_media mq s0" "m_activeTab s0 = m_activeTab (new_model tabs trays st)"
    using first_handlers_bare [OF assms(3)] by (simp_all add: s0_def)
  have "\<forall>k. m_activeTab s0 = Some k \<longrightarrow> k < length tabs"
    using 0(3) find_lt by (auto simp: new_model_def Let_def split: option.splits)
  then have 1: "ready env s1" "follows_media mq s1" "statics s1 = (map tt_tray tabs, map ty_name trays)"
    using start_views_ready [OF 0(1) assms(2) 0(2)] by (simp_all add: s1_def)
  let ?d = "s1\<lparr>v_done := True\<rparr>"
  have d: "ready env ?d" "follows_media mq ?d" "statics ?d = statics s1"
  proof -
    have "tb_drawn env ?d = tb_drawn env s1" by (rule drawn_cong) (simp_all add: look_part_def)
    then show "ready env ?d" "follows_media mq ?d" "statics ?d = statics s1"
      using 1 by (simp_all add: ready_def settled_def tray_open_ok_def follows_media_def statics_def)
  qed
  have "model_part (register_done s1) = model_part ?d" "look_part (register_done s1) = look_part ?d" "tray_part (register_done s1) = tray_part ?d"
    by (auto simp: register_done_def Let_def subtrees_done_def outermost_def model_part_def look_part_def tray_part_def split: option.split)
  then have r: "ready env (register_done s1) \<and> follows_media mq (register_done s1) \<and> statics (register_done s1) = statics s1"
    using parts_ready [OF d(1,2)] d(3) by simp
  then have 2: "ready env s2 \<and> follows_media mq s2 \<and> statics s2 = statics s1"
    using parts_ready [of env "register_done s1" mq s2] loadSubtrees_parts [of env "register_done s1"] by (simp add: s2_def)
  have "tb_drawn env s3 = tb_drawn env s2" by (rule drawn_cong) (simp_all add: s3_def look_part_def)
  then have 3: "tb_inv env (mq, s3)" "statics s3 = statics s1"
    using 2 assms(3) by (simp_all add: s3_def tb_inv_def ready_def settled_def tray_open_ok_def follows_media_def statics_def)
  have "length (d_tabs s3) = length tabs"
  proof -
    have "length (fst (statics s3)) = length (map tt_tray tabs)" using 3(2) 1(3) by simp
    then show ?thesis by (simp add: statics_def)
  qed
  then show ?thesis using set_activeTab_inv [OF 3(1), of "Some first"] 3 1(3) assms(4) by (simp add: s)
qed

section \<open>Runs\<close>

definition window_event :: "tb_event \<Rightarrow> bool" where
  "window_event e = (case e of Resize mq \<Rightarrow> nested_media mq | _ \<Rightarrow> True)"

lemma events_inv:
  assumes "tb_inv env p" and "list_all window_event es"
  shows "tb_inv env (toolbar_events env es p) \<and> statics (snd (toolbar_events env es p)) = statics (snd p)"
  using assms
proof (induction es arbitrary: p)
  case (Cons e es)
  have "\<forall>new. e = Resize new \<longrightarrow> nested_media new" using Cons.prems(2) by (auto simp: window_event_def)
  from step_inv [OF Cons.prems(1) this] Cons.IH [of "toolbar_step env e p"] Cons.prems(2) show ?case
    by (simp add: toolbar_events_def)
qed (simp add: toolbar_events_def)

text \<open>A toolbar that has been attached and then seen events.\<close>

definition toolbar_page :: "tb_env \<Rightarrow> media \<Rightarrow> nat \<Rightarrow> tb_tab list \<Rightarrow> tb_tray list \<Rightarrow> tb_storage \<Rightarrow> tb_event list \<Rightarrow> (media \<times> toolbar) js" where
  "toolbar_page env mq first tabs trays st es =
     (case toolbar_attach env mq first tabs trays st of Inl e \<Rightarrow> Inl e | Inr s \<Rightarrow> Inr (toolbar_events env es (mq, s)))"

lemma page_inv:
  assumes "toolbar_page env mq first tabs trays st es = Inr (mq', s)" and "fresh_toolbar tabs trays" and "nested_media mq"
    and "first < length tabs" and "list_all window_event es"
  shows "tb_inv env (mq', s) \<and> statics s = (map tt_tray tabs, map ty_name trays)"
proof -
  obtain s0 where s0: "toolbar_attach env mq first tabs trays st = Inr s0" "toolbar_events env es (mq, s0) = (mq', s)"
    using assms(1) by (auto simp: toolbar_page_def split: sum.splits)
  have "tb_inv env (mq, s0) \<and> statics s0 = (map tt_tray tabs, map ty_name trays)" by (rule attach_inv [OF s0(1) assms(2-4)])
  with events_inv [of env "(mq, s0)" es] assms(5) s0(2) show ?thesis by simp
qed

section \<open>Displacement\<close>

text \<open>The trays as elements that displace the viewport, with their place on the page.\<close>

definition tray_element :: "(string \<Rightarrow> int \<times> int \<times> int \<times> int) \<Rightarrow> tb_tray \<Rightarrow> displacing" where
  "tray_element place y =
     (case place (ty_name y) of (t, l, w, h) \<Rightarrow>
        \<lparr>dp_hidden = False, dp_attr = (\<lambda>e. if e \<in> set (ty_offsets y) then Some [] else None),
         dp_top = t, dp_left = l, dp_width = w, dp_height = h\<rparr>)"

lemma parse_empty [simp]: "js_parseInt [] = None"
  by (simp add: js_parseInt_def)

lemma tray_displaces:
  "displaces_at vp (map (tray_element place) trays) e = (\<lambda>y. getRawOffset vp (tray_element place y) e) ` {y \<in> set trays. e \<in> set (ty_offsets y)}"
proof -
  have attr: "dp_attr (tray_element place y) e = (if e \<in> set (ty_offsets y) then Some [] else None)" "\<not> dp_hidden (tray_element place y)" for y
    by (simp_all add: tray_element_def split: prod.split)
  have reach: "displacement_of vp (tray_element place y) e = getRawOffset vp (tray_element place y) e" if "e \<in> set (ty_offsets y)" for y
    using that attr(1) [of y] by (simp add: displacement_of_def)
  have "displaces_at vp (map (tray_element place) trays) e =
      (\<lambda>el. displacement_of vp el e) ` {el \<in> set (map (tray_element place) trays). \<not> dp_hidden el \<and> dp_attr el e \<noteq> None}"
    by (auto simp: displaces_at_def)
  also have "{el \<in> set (map (tray_element place) trays). \<not> dp_hidden el \<and> dp_attr el e \<noteq> None} =
      tray_element place ` {y \<in> set trays. e \<in> set (ty_offsets y)}"
    using attr by (auto split: if_splits)
  finally show ?thesis using reach by (simp add: image_image)
qed

lemma drawn_offsets:
  assumes "tb_drawn env s"
  shows "{y \<in> set (d_trays s). e \<in> set (ty_offsets y)} =
    (case m_activeTray s of
       Some i \<Rightarrow> if e = (if m_orientation s = Vertical then side_edge env else Edge_top) then {d_trays s ! i} else {}
     | None \<Rightarrow> {})"
proof -
  let ?edge = "if m_orientation s = Vertical then side_edge env else Edge_top"
  have off: "e \<in> set (ty_offsets y) \<longleftrightarrow> ty_active y \<and> e = ?edge" if "y \<in> set (d_trays s)" for y
    using assms that by (auto simp: tb_drawn_def drawn_tray_def list_all_iff)
  have act: "ty_active (d_trays s ! i) \<longleftrightarrow> m_activeTray s = Some i" if "i < length (d_trays s)" for i
    using assms that unfolding tb_drawn_def active_exactly_def by blast
  have lt: "i < length (d_trays s)" if "m_activeTray s = Some i" for i
    using assms that find_lt by (auto simp: tb_drawn_def tray_of_def split: option.splits)
  have "{y \<in> set (d_trays s). ty_active y} = (case m_activeTray s of Some i \<Rightarrow> {d_trays s ! i} | None \<Rightarrow> {})"
    using act lt by (auto simp: in_set_conv_nth split: option.split)
  moreover have "{y \<in> set (d_trays s). e \<in> set (ty_offsets y)} = (if e = ?edge then {y \<in> set (d_trays s). ty_active y} else {})"
    using off by auto
  ultimately show ?thesis by (simp split: option.split)
qed

section \<open>Properties\<close>

text \<open>
  C13. After the toolbar has been attached and after any events, the orientation is horizontal exactly when the window is wide
  and the tray is not locked, the toggle is shown exactly in wide windows, and the lock is the one in the storage, so that
  it survives narrow windows and reloads.
\<close>

theorem toolbar_orientation_follows_media:
  assumes "toolbar_page env mq first tabs trays st es = Inr (mq', s)" and "fresh_toolbar tabs trays" and "nested_media mq"
    and "first < length tabs" and "list_all window_event es"
  shows "(m_orientation s = Horizontal \<longleftrightarrow> mq_wide mq' \<and> \<not> st_locked (p_storage s)) \<and> d_body s = Some (m_orientation s) \<and>
    d_toggle_shown s = mq_wide mq' \<and> d_fixed s = mq_standard mq' \<and> d_oriented s = mq_narrow mq'"
proof -
  have "tb_inv env (mq', s)" using page_inv [OF assms] by simp
  then have "follows_media mq' s" "tb_drawn env s" "d_fixed s = m_isFixed s" by (simp_all add: tb_inv_def ready_def settled_def)
  then show ?thesis unfolding follows_media_def tb_drawn_def by simp
qed

text \<open>
  C15. After any events exactly the active tab and its tray are marked as active, and every tray has the class of the
  orientation; the body says whether a tray is open.
\<close>

theorem toolbar_shows_active_tray:
  assumes "toolbar_page env mq first tabs trays st es = Inr (mq', s)" and "fresh_toolbar tabs trays" and "nested_media mq"
    and "first < length tabs" and "list_all window_event es"
  shows "(\<forall>i < length (d_tabs s). tt_active (d_tabs s ! i) \<longleftrightarrow> m_activeTab s = Some i) \<and>
    (\<forall>i < length (d_trays s). ty_active (d_trays s ! i) \<longleftrightarrow>
       (\<exists>k. m_activeTab s = Some k \<and> tt_tray (d_tabs s ! k) = Some (ty_name (d_trays s ! i)))) \<and>
    list_all (\<lambda>y. ty_horizontal y = (m_orientation s = Horizontal) \<and> ty_vertical y = (m_orientation s = Vertical)) (d_trays s) \<and>
    (d_tray_open s \<longleftrightarrow> list_ex ty_active (d_trays s))"
proof -
  have inv: "tb_inv env (mq', s)" using page_inv [OF assms] by simp
  then have d: "tb_drawn env s" and op: "d_tray_open s = (m_activeTray s \<noteq> None)"
    by (simp_all add: tb_inv_def ready_def settled_def tray_open_ok_def)
  have ex: "active_exactly (m_activeTab s) (m_activeTray s) s" and tr: "m_activeTray s = tray_of s (m_activeTab s)" and wf: "page_wf s"
    using d unfolding tb_drawn_def by blast+
  have tray: "ty_active (d_trays s ! i) \<longleftrightarrow> (\<exists>k. m_activeTab s = Some k \<and> tt_tray (d_tabs s ! k) = Some (ty_name (d_trays s ! i)))"
    if i: "i < length (d_trays s)" for i
  proof -
    have "ty_active (d_trays s ! i) \<longleftrightarrow> tray_of s (m_activeTab s) = Some i" using ex i unfolding tr active_exactly_def by blast
    moreover have "find (is_tray_of s n) [0..<length (d_trays s)] = Some i \<longleftrightarrow> is_tray_of s n i" for n
      using find_upt_unique [of "is_tray_of s n" "length (d_trays s)" i] is_tray_of_unique wf i by (auto simp: page_wf_def)
    ultimately show ?thesis using i by (cases "m_activeTab s") (simp_all add: tray_of_def is_tray_of_def)
  qed
  have lt: "i < length (d_trays s)" if "m_activeTray s = Some i" for i
    using that find_lt unfolding tr by (auto simp: tray_of_def split: option.splits)
  have "list_ex ty_active (d_trays s) \<longleftrightarrow> (\<exists>i < length (d_trays s). m_activeTray s = Some i)"
    using ex unfolding list_ex_length active_exactly_def by blast
  then have "d_tray_open s \<longleftrightarrow> list_ex ty_active (d_trays s)" unfolding op using lt by blast
  moreover have "list_all (\<lambda>y. ty_horizontal y = (m_orientation s = Horizontal) \<and> ty_vertical y = (m_orientation s = Vertical)) (d_trays s)"
    using d by (auto simp: tb_drawn_def drawn_tray_def list_all_iff)
  ultimately show ?thesis using tray ex unfolding active_exactly_def by blast
qed

text \<open>
  C14. The trays and the viewport: after any events a vertical tray displaces the side it is on and a horizontal one the top,
  by the reach of the active tray, and no other edge is displaced by trays. (The bar of the toolbar displaces the top on
  its own account, which is not part of this statement.)
\<close>

theorem tray_displaces_one_edge:
  assumes "toolbar_page env mq first tabs trays st es = Inr (mq', s)" and "fresh_toolbar tabs trays" and "nested_media mq"
    and "first < length tabs" and "list_all window_event es"
  shows "calculateOffset vp (map (tray_element place) (d_trays s)) e =
    (case m_activeTray s of
       Some i \<Rightarrow>
         if e = (if mq_wide mq' \<and> \<not> st_locked (p_storage s) then Edge_top else side_edge env)
         then max 0 (getRawOffset vp (tray_element place (d_trays s ! i)) e) else 0
     | None \<Rightarrow> 0)"
proof -
  have "tb_inv env (mq', s)" using page_inv [OF assms] by simp
  then have d: "tb_drawn env s" and "m_orientation s = (if mq_wide mq' \<and> \<not> st_locked (p_storage s) then Horizontal else Vertical)"
    by (simp_all add: tb_inv_def ready_def settled_def follows_media_def)
  then have edge: "(if m_orientation s = Vertical then side_edge env else Edge_top) =
      (if mq_wide mq' \<and> \<not> st_locked (p_storage s) then Edge_top else side_edge env)" by simp
  show ?thesis
    unfolding calculateOffset_Max tray_displaces drawn_offsets [OF d] edge
    by (simp split: option.split)
qed

section \<open>Several pages\<close>

text \<open>Pages of one site share the storage: what one page does in it, the next page finds.\<close>

definition on_storage :: "tb_storage \<Rightarrow> toolbar \<Rightarrow> toolbar" where
  "on_storage st s = s\<lparr>p_storage := st\<rparr>"

text \<open>A page that waits for its subtrees, and one that has yet to ask for them.\<close>

definition awaiting :: "toolbar \<Rightarrow> bool" where
  "awaiting s \<longleftrightarrow> v_done s \<and> p_resolved s = None"

definition wants_subtrees :: "toolbar \<Rightarrow> bool" where
  "wants_subtrees s \<longleftrightarrow> awaiting s \<and> \<not> m_areSubtreesLoaded s \<and> m_orientation s = Vertical \<and>
     (case m_activeTab s of None \<Rightarrow> False | Some i \<Rightarrow> tt_subtrees (d_tabs s ! i))"

lemma resolve_awaiting:
  assumes "awaiting s"
  shows "p_menu (resolve_subtrees v s) = Some v \<and> st_subtrees (p_storage (resolve_subtrees v s)) = Some v \<and>
    st_hash (p_storage (resolve_subtrees v s)) = st_hash (p_storage s) \<and> p_requests (resolve_subtrees v s) = p_requests s"
  using assms by (simp add: awaiting_def resolve_subtrees_def subtrees_done_def outermost_def Let_def)

lemma load_without_cache:
  assumes "wants_subtrees s" and "st_subtrees (p_storage s) = None \<or> st_hash (p_storage s) \<noteq> Some (te_hash env)"
  shows "awaiting (loadSubtrees env s) \<and> st_hash (p_storage (loadSubtrees env s)) = Some (te_hash env) \<and>
    st_subtrees (p_storage (loadSubtrees env s)) = None \<and> p_requests (loadSubtrees env s) = Suc (p_requests s)"
  using assms by (auto simp: wants_subtrees_def awaiting_def loadSubtrees_def split: option.splits)

lemma load_from_cache:
  assumes "wants_subtrees s" and "st_subtrees (p_storage s) = Some v" and "st_hash (p_storage s) = Some (te_hash env)"
  shows "loadSubtrees env s = resolve_subtrees v s"
  using assms by (auto simp: wants_subtrees_def loadSubtrees_def split: option.splits)

text \<open>
  A page that finds the subtrees of its menu in the storage shows them without a request, and a page that gets them by a
  request stores them for the next page. But the storage has the hash of the last request and the subtrees of the last
  response: when the response for an old menu arrives after a new one has been requested and stored, all later pages show
  the old menu for the new hash.
\<close>

theorem late_subtrees_replace_new_menu:
  assumes "awaiting old_page" and "wants_subtrees new_page" and "wants_subtrees later"
    and "st_hash (p_storage new_page) \<noteq> Some (te_hash env)"
    and "answered = resolve_subtrees v_new (loadSubtrees env new_page)"
    and "late = resolve_subtrees v_old (on_storage (p_storage answered) old_page)"
  shows "p_menu answered = Some v_new \<and>
    p_menu (loadSubtrees env (on_storage (p_storage answered) later)) = Some v_new \<and>
    p_menu (loadSubtrees env (on_storage (p_storage late) later)) = Some v_old \<and>
    p_requests (loadSubtrees env (on_storage (p_storage late) later)) = p_requests later"
proof -
  define sent where "sent = loadSubtrees env new_page"
  note answered_def = assms(5) [folded sent_def] and late_def = assms(6)
  have sent: "awaiting sent" "st_hash (p_storage sent) = Some (te_hash env)"
    using load_without_cache [OF assms(2)] assms(4) by (simp_all add: sent_def)
  have on: "awaiting (on_storage st s) = awaiting s" "wants_subtrees (on_storage st s) = wants_subtrees s" "p_storage (on_storage st s) = st"
    "p_requests (on_storage st s) = p_requests s" for st s
    by (simp_all add: on_storage_def awaiting_def wants_subtrees_def split: option.split)
  have a: "p_menu answered = Some v_new" "st_subtrees (p_storage answered) = Some v_new" "st_hash (p_storage answered) = Some (te_hash env)"
    using resolve_awaiting [OF sent(1), of v_new] sent(2) by (simp_all add: answered_def)
  have l: "st_subtrees (p_storage late) = Some v_old" "st_hash (p_storage late) = Some (te_hash env)"
    using resolve_awaiting [of "on_storage (p_storage answered) old_page" v_old] assms(1) a(3) by (simp_all add: late_def on)
  have shown: "p_menu (loadSubtrees env (on_storage st later)) = Some v \<and> p_requests (loadSubtrees env (on_storage st later)) = p_requests later"
    if "st_subtrees st = Some v" "st_hash st = Some (te_hash env)" for st v
  proof -
    have "wants_subtrees (on_storage st later)" "awaiting (on_storage st later)" using assms(3) by (simp_all add: on wants_subtrees_def [of later])
    then show ?thesis using load_from_cache [of "on_storage st later" v env] resolve_awaiting [of "on_storage st later" v] that by (simp add: on)
  qed
  show ?thesis using a(1) shown [OF a(2,3)] shown [OF l] by simp
qed

section \<open>Examples\<close>

definition sample_tabs :: "tb_tab list" where
  "sample_tabs =
     [\<lparr>tt_id = ''home'', tt_tray = None, tt_subtrees = False, tt_active = False, tt_pressed = False\<rparr>,
      \<lparr>tt_id = ''manage'', tt_tray = Some ''menu'', tt_subtrees = True, tt_active = False, tt_pressed = False\<rparr>,
      \<lparr>tt_id = ''user'', tt_tray = Some ''account'', tt_subtrees = False, tt_active = False, tt_pressed = False\<rparr>]"

definition sample_trays :: "tb_tray list" where
  "sample_trays =
     [\<lparr>ty_name = ''menu'', ty_props = [], ty_label = Some ''Menu'', ty_menu = True, ty_active = False, ty_horizontal = False, ty_vertical = False, ty_offsets = []\<rparr>,
      \<lparr>ty_name = ''account'', ty_props = [], ty_label = None, ty_menu = True, ty_active = False, ty_horizontal = False, ty_vertical = False, ty_offsets = []\<rparr>]"

definition wide_window :: media where "wide_window = \<lparr>mq_narrow = True, mq_standard = True, mq_wide = True\<rparr>"
definition small_window :: media where "small_window = \<lparr>mq_narrow = True, mq_standard = False, mq_wide = False\<rparr>"
definition empty_storage :: tb_storage where
  "empty_storage = \<lparr>st_locked = False, st_activeTab = None, st_hash = None, st_subtrees = None\<rparr>"
definition ltr_env :: tb_env where "ltr_env = \<lparr>te_rtl = False, te_hash = ''h''\<rparr>"

definition sample_events :: "tb_event list" where
  "sample_events = [Toggle_click, Resize small_window, Tab_click 2, Resize wide_window]"

definition sample_page :: "media \<times> toolbar" where
  "sample_page = projr (toolbar_page ltr_env wide_window 1 sample_tabs sample_trays empty_storage sample_events)"

lemma sample_facts:
  "toolbar_page ltr_env wide_window 1 sample_tabs sample_trays empty_storage sample_events = Inr (fst sample_page, snd sample_page)"
  "fresh_toolbar sample_tabs sample_trays" "nested_media wide_window" "1 < length sample_tabs" "list_all window_event sample_events"
proof -
  have that_menu: "list_ex ty_menu sample_trays" by (simp add: sample_trays_def)
  show "fresh_toolbar sample_tabs sample_trays" "nested_media wide_window" "1 < length sample_tabs" "list_all window_event sample_events"
    by (simp_all add: fresh_toolbar_def sample_tabs_def sample_trays_def nested_media_def wide_window_def small_window_def sample_events_def window_event_def)
  obtain s where "toolbar_attach ltr_env wide_window 1 sample_tabs sample_trays empty_storage = Inr s"
    using that_menu by (auto simp: toolbar_attach_def Let_def)
  then have "toolbar_page ltr_env wide_window 1 sample_tabs sample_trays empty_storage sample_events =
      Inr (toolbar_events ltr_env sample_events (wide_window, s))"
    by (simp add: toolbar_page_def)
  then show "toolbar_page ltr_env wide_window 1 sample_tabs sample_trays empty_storage sample_events = Inr (fst sample_page, snd sample_page)"
    by (simp add: sample_page_def)
qed

theorem toolbar_orientation_follows_media_witness:
  "(m_orientation (snd sample_page) = Horizontal \<longleftrightarrow> mq_wide (fst sample_page) \<and> \<not> st_locked (p_storage (snd sample_page))) \<and>
   d_body (snd sample_page) = Some (m_orientation (snd sample_page)) \<and> d_toggle_shown (snd sample_page) = mq_wide (fst sample_page) \<and>
   d_fixed (snd sample_page) = mq_standard (fst sample_page) \<and> d_oriented (snd sample_page) = mq_narrow (fst sample_page)"
  by (rule toolbar_orientation_follows_media [OF sample_facts])

theorem toolbar_shows_active_tray_witness:
  "d_tray_open (snd sample_page) \<longleftrightarrow> list_ex ty_active (d_trays (snd sample_page))"
  using toolbar_shows_active_tray [OF sample_facts] by blast

theorem tray_displaces_one_edge_witness:
  "calculateOffset \<lparr>vp_scrollX = 0, vp_scrollY = 40, vp_clientWidth = 800, vp_clientHeight = 600\<rparr>
     (map (tray_element (\<lambda>name. (39, 0, 240, 560))) (d_trays (snd sample_page))) Edge_bottom = 0"
  using tray_displaces_one_edge [OF sample_facts,
      of "\<lparr>vp_scrollX = 0, vp_scrollY = 40, vp_clientWidth = 800, vp_clientHeight = 600\<rparr>" "\<lambda>name. (39, 0, 240, 560)" Edge_bottom]
  by (simp add: side_edge_def ltr_env_def split: option.splits)

definition waiting_page :: "tb_storage \<Rightarrow> toolbar" where
  "waiting_page st = (new_model sample_tabs sample_trays st)\<lparr>m_activeTab := Some 1, m_orientation := Vertical, v_done := True\<rparr>"

theorem late_subtrees_replace_new_menu_witness:
  "p_menu (loadSubtrees ltr_env (on_storage (p_storage (resolve_subtrees ''old'' (on_storage
     (p_storage (resolve_subtrees ''new'' (loadSubtrees ltr_env (waiting_page empty_storage)))) (waiting_page empty_storage))))
     (waiting_page empty_storage))) = Some ''old''"
proof -
  have "wants_subtrees (waiting_page empty_storage)"
    by (simp add: wants_subtrees_def awaiting_def waiting_page_def new_model_def Let_def empty_storage_def sample_tabs_def)
  moreover from this have "awaiting (waiting_page empty_storage)" by (simp add: wants_subtrees_def)
  moreover have "st_hash (p_storage (waiting_page empty_storage)) \<noteq> Some (te_hash ltr_env)"
    by (simp add: waiting_page_def new_model_def Let_def empty_storage_def)
  ultimately show ?thesis using late_subtrees_replace_new_menu by blast
qed

end
