(* ===== verification/Spec2Isabelle.thy ===== *)
theory Spec2Isabelle
  imports Drupal_Api States Editor_Features Filter_Html Quickedit_Flow Tabledrag_Forest Tabledrag_Columns
    Contextual_Toolbar Ajax_Properties Ckeditor_Filter Ckeditor5_Properties
    Machine_Name Password_Strength Table_Select Toolbar_Properties
begin

text \<open>
  A verification library for the JavaScript of this Drupal site: the core API and the modules in
  \<open>src/core/misc\<close> and \<open>src/core/modules\<close> that carry logic of their own. The sources are the \<open>.es6.js\<close> files; the
  \<open>.js\<close> files beside them are compiled from these.

  \<^bold>\<open>The program and its parts.\<close> Behaviors are attached to parts of the page (\<open>drupal.es6.js\<close>). On forms, elements
  change with the values of others (\<open>states.es6.js\<close>). The text format form decides which editor buttons the
  filters of the format allow (\<open>editor.admin.es6.js\<close>), and the filter \<open>filter_html\<close> adds the tags that the chosen
  buttons need to its setting (\<open>filter.filter_html.admin.es6.js\<close>) and is asked for its rules by the former. In-place
  editing (\<open>quickedit/js\<close>) is a group of state machines, one for each entity and each field on the page. Tables of
  menus, terms or blocks are sorted by dragging their rows (\<open>tabledrag.es6.js\<close>). Elements of a page send requests whose
  responses are lists of commands (\<open>ajax.es6.js\<close>). Contextual links on parts of the page (\<open>contextual/js\<close>) have an edit
  mode that confines tabbing to them (\<open>tabbingmanager.es6.js\<close>) and says so to screen readers (\<open>announce.es6.js\<close>, which
  collects texts with \<open>debounce.es6.js\<close>). The toolbar of a text editor is arranged on the text format form
  (\<open>ckeditor/js\<close>, \<open>ckeditor5/js\<close>); the features of its buttons are announced to the filters. Fields of forms derive a
  machine name (\<open>machine-name.es6.js\<close>), complete terms (\<open>autocomplete.es6.js\<close>) and rate a password (\<open>user.es6.js\<close>); tables have a
  checkbox for all rows (\<open>tableselect.es6.js\<close>). The administration toolbar (\<open>toolbar/js\<close>) adapts to the window and takes
  space at its edges (\<open>displace.es6.js\<close>).

  \<^bold>\<open>The theories.\<close>
  \<^item> \<open>Js_Prelude\<close>, \<open>Js_Object\<close>: strings and objects of JavaScript. An object is an association list in the order in
    which \<open>for in\<close> visits its keys; exceptions are the left side of a sum.
  \<^item> \<open>Drupal_Api\<close>: \<open>drupal.es6.js\<close>. Attaching and detaching behaviors, \<open>checkPlain\<close>, \<open>formatString\<close>, \<open>stringReplace\<close>, \<open>t\<close>,
    \<open>formatPlural\<close>, URLs, \<open>theme\<close>. The lemmas show that every behavior runs and errors are thrown later, that
    placeholders are replaced once and without injection, and that escaping can be undone.
  \<^item> \<open>States\<close>: \<open>states.es6.js\<close>. State names, the constraint language, dependents and triggers. The three-valued
    verification refines a Boolean reading of the constraints; the cached dependents agree with re-evaluation.
  \<^item> \<open>Editor_Features\<close>: \<open>editor.admin.es6.js\<close>. The algorithm that marks and deletes the requirements of a feature
    is equivalent to a declarative statement over its required tags and properties.
  \<^item> \<open>Filter_Html\<close>: \<open>filter.filter_html.admin.es6.js\<close>. Printing and parsing of the setting, the automatic tags, the
    event handlers.
  \<^item> \<open>Quickedit_Model\<close>, \<open>Quickedit_App\<close>: \<open>BaseModel\<close>, \<open>EntityModel\<close>, \<open>FieldModel\<close>, \<open>AppModel\<close> and \<open>AppView\<close> of \<open>quickedit/js\<close>.
    The state of the application is the record \<open>app\<close>: entities, fields, the active and highlighted field, the
    dialog, the queue of deferred functions and the requests in flight.
  \<^item> \<open>Quickedit_Invariant\<close>: the step relation of the application, with editors, user, server and the queue as its
    environment, and its invariants, by way of the locale \<open>app_invariant\<close>.
  \<^item> \<open>Quickedit_Flow\<close>: what happens when an entity is opened, saved and closed.
  \<^item> \<open>Tabledrag\<close>: rows, row objects and event handlers of \<open>tabledrag.es6.js\<close>, with the form fields that follow the
    rows. \<open>Tabledrag_Tree\<close> shows when dragging and the arrow keys keep the table a forest within its depth limit,
    and where they do not; \<open>Tabledrag_Forest\<close> relates the table to a specification as an ordered forest and shows how
    weights are numbered; \<open>Tabledrag_Columns\<close> models hiding and showing the columns of weights.
  \<^item> \<open>Ajax\<close>, \<open>Ajax_Request\<close>: the objects of \<open>ajax.es6.js\<close>, their construction and events, the callbacks of a request in
    the order in which jQuery runs them, verification of responses and their commands. The page is the history of
    what the script did to it. \<open>Ajax_Invariant\<close> shows over whole runs that an object has at most one request under way
    and that the instances agree with their indices; \<open>Ajax_Properties\<close> shows which responses run commands, what an event
    sends and how each outcome of a request leaves its object and its element.
  \<^item> \<open>Tabbing_Manager\<close>: the stack of tabbing contexts of \<open>tabbingmanager.es6.js\<close>. What the page shows is what the
    topmost context imposes on the original attributes, so releasing all contexts restores the page.
  \<^item> \<open>Announce\<close>: \<open>debounce.es6.js\<close> and \<open>announce.es6.js\<close> with explicit times.
  \<^item> \<open>Contextual_Links\<close>: the state of contextual links, the handlers of their views, the cache of rendered links.
    \<open>Contextual_Toolbar\<close>: the edit mode, a client of the tabbing manager by way of the locale \<open>tabbing_contract\<close>.
  \<^item> \<open>Ckeditor_Toolbar\<close>: the rows, groups and buttons of the toolbar of CKEditor, their operations with keyboard and
    pointer, the configuration and the features. \<open>Ckeditor_Tracking\<close> has the invariant \<open>toolbar_inv\<close> and the effect of one
    moved button, \<open>Ckeditor_Operations\<close> shows that every operation but a drop on the list of dividers keeps it, \<open>Ckeditor_Run\<close>
    composes start, operations and removal, and \<open>Ckeditor_Filter\<close> the toolbar with the filter \<open>filter_html\<close>.
  \<^item> \<open>Ckeditor5_Toolbar\<close>, \<open>Ckeditor5_Properties\<close>: the toolbar of CKEditor 5 (\<open>ckeditor5.admin.es6.js\<close>), which is drawn from
    an observable selection; it stays consistent with the textarea whatever happens, and what every key keeps is proved
    once for two invariants in the locale \<open>toolbar5_invariant\<close>.
  \<^item> \<open>Machine_Name\<close>: \<open>machine-name.es6.js\<close>, with the timer and the requests as explicit steps; the name of
    one field that starts empty settles on its source, and fields attached together disturb each other. \<open>Autocomplete\<close>: \<open>autocomplete.es6.js\<close>, values of
    several terms and the cache of suggestions. \<open>Password_Strength\<close>: \<open>user.es6.js\<close>, the strength in half points and the
    widget. \<open>Table_Select\<close>: \<open>tableselect.es6.js\<close>, the checkbox of the heading and ranges of rows.
  \<^item> \<open>Displace\<close>: \<open>displace.es6.js\<close>, the offsets of the edges of the viewport as maxima over the elements at them.
    \<open>Toolbar\<close>: the model, the media queries and the views of the administration toolbar (\<open>toolbar/js\<close>);
    \<open>Toolbar_Properties\<close> shows over whole runs that the orientation follows the window and the lock, that the page shows
    the model, and which edge of the viewport the trays displace.
  \<^item> This theory: properties of components that interact.

  \<^bold>\<open>Parameters.\<close> What is not part of the sources is an argument of the definitions: \<open>decodeURIComponent\<close> and the URL
  parser of the browser, its HTML parser, the checkboxes of a form, the position and height of table rows, what selectors find in the document,
  the regular expression of a machine name and the transliteration of the server, and the libraries \<open>tabbable\<close> and CKEditor (its rules and commands). Backbone and Underscore are used by the
  in-place editor; the text of \<open>Quickedit_App\<close> says which behavior of theirs the model follows.

  \<^bold>\<open>Bounds.\<close> A change of an entity state may cause others at once. The functions that do so take the depth of nesting
  as an argument and return \<open>None\<close> beyond it; \<open>change_state_terminates\<close> shows that depth four is always enough. All
  other functions are total.

  \<^bold>\<open>Not modelled.\<close> Views that only draw (toolbars, decorations, dialogs, stripes and scrolling of tables), the handlers that only set attributes of DOM
  elements, the server, code of libraries and contributed modules, which the site only uses, and the
  PHP side.
\<close>

section \<open>The live setting parser of \<open>filter_html\<close> and the feature check\<close>

lemma parser_error_stops_update:
  assumes "(i, fs) \<in> set statuses" and "parsers i = Some (Inl e)"
    and "\<forall>j. j \<noteq> i \<longrightarrow> parsers j = None"
  shows "filterConfiguration_update checked parsers statuses = Inl e"
  using assms(1)
proof (induction statuses)
  case (Cons s statuses)
  obtain j fs' where s: "s = (j, fs')" by (cases s)
  show ?case
  proof (cases "j = i")
    case True
    then show ?thesis using s assms(2) by (simp add: Let_def)
  next
    case False
    with Cons s have "filterConfiguration_update checked parsers statuses = Inl e" by auto
    with False s assms(3) show ?thesis by (simp add: Let_def)
  qed
qed simp



end
